(* ===== verification/Prelude.thy ===== *)
theory Prelude
  imports Complex_Main "HOL-Library.AList" "HOL-Library.Word"
begin

text \<open>
  Shared vocabulary of the development: the effects a call leaves behind (Prometheus metric
  updates), Python dictionaries as ordered association lists, the decimal rendering of an
  \<open>int\<close>, truncation of a float to an \<open>int\<close>, and the generic lemmas on lists and maps that
  several components use.
\<close>

named_theorems component_defs \<open>definitions of a component, for unfolding a whole operation\<close>

subsection \<open>Metric effects\<close>

text \<open>
  \<open>prometheus_client\<close> is a library; what the code does to it is a sequence of calls. Every
  operation that touches a metric returns the calls it makes, in order:
  \<open>Inc name label n\<close> is \<open>metrics.name.labels(...=label).inc(n)\<close> (an empty label when the
  metric has none), \<open>SetG\<close> a gauge \<open>set\<close>, \<open>Obs\<close> a histogram \<open>observe\<close>.
\<close>

datatype metric =
    Inc string string int
  | SetG string string real
  | Obs string real

text \<open>The total a sequence of calls adds to one labelled counter.\<close>

fun inc_of :: "string \<Rightarrow> string \<Rightarrow> metric \<Rightarrow> int" where
  "inc_of name label (Inc n l k) = (if n = name \<and> l = label then k else 0)"
| "inc_of name label (SetG n l x) = 0"
| "inc_of name label (Obs n x) = 0"

definition counted :: "string \<Rightarrow> string \<Rightarrow> metric list \<Rightarrow> int" where
  "counted name label ms = sum_list (map (inc_of name label) ms)"

lemma counted_Nil [simp]: "counted name label [] = 0"
  by (simp add: counted_def)

lemma counted_Cons [simp]:
  "counted name label (m # ms) = inc_of name label m + counted name label ms"
  by (simp add: counted_def)

lemma counted_append [simp]:
  "counted name label (ms @ ns) = counted name label ms + counted name label ns"
  by (simp add: counted_def)

text \<open>The total over all labels of one counter.\<close>

fun inc_total :: "string \<Rightarrow> metric \<Rightarrow> int" where
  "inc_total name (Inc n l k) = (if n = name then k else 0)"
| "inc_total name (SetG n l x) = 0"
| "inc_total name (Obs n x) = 0"

definition total :: "string \<Rightarrow> metric list \<Rightarrow> int" where
  "total name ms = sum_list (map (inc_total name) ms)"

lemma total_Nil [simp]: "total name [] = 0"
  by (simp add: total_def)

lemma total_Cons [simp]: "total name (m # ms) = inc_total name m + total name ms"
  by (simp add: total_def)

lemma total_append [simp]: "total name (ms @ ns) = total name ms + total name ns"
  by (simp add: total_def)

subsection \<open>Python dictionaries\<close>

text \<open>
  A \<open>dict\<close> keeps its insertion order, and an assignment to a present key keeps the key's
  place: that is \<^const>\<open>AList.update\<close>; a lookup is \<^const>\<open>map_of\<close>.
\<close>

type_synonym ('k, 'v) dict = "('k \<times> 'v) list"

lemma map_of_dict_set [simp]: "map_of (AList.update k v d) = (map_of d)(k \<mapsto> v)"
  by (simp add: update_conv' fun_eq_iff)

lemma distinct_dict_set [simp]:
  "distinct (map fst d) \<Longrightarrow> distinct (map fst (AList.update k v d))"
  by (rule distinct_update)

lemma set_keys_dict_set [simp]: "fst ` set (AList.update k v d) = insert k (fst ` set d)"
  by (induction d) auto

lemma in_map_filter: "y \<in> set (List.map_filter f xs) \<longleftrightarrow> (\<exists>x \<in> set xs. f x = Some y)"
  by (induction xs) (auto simp: map_filter_simps split: option.splits)

subsection \<open>Python values\<close>

text \<open>
  The values that flow through the pipeline: what a JSON document parses to, a configured filter
  value, the cell of an Arrow column as \<open>to_pylist\<close> shows it. A float is its real value (NaN and
  the infinities are not modelled: \<open>orjson\<close> never produces them).
\<close>

type_synonym byte = "8 word"

datatype pyval =
    PNone
  | PBool bool
  | PInt int
  | PFloat real
  | PStr string
  | PBytes "byte list"
  | PList "pyval list"
  | PDict "(string \<times> pyval) list"

subsection \<open>Integers as decimal text\<close>

fun digits_of :: "nat \<Rightarrow> string" where
  "digits_of n = (if n < 10 then [char_of (48 + n)]
     else digits_of (n div 10) @ [char_of (48 + n mod 10)])"

declare digits_of.simps [simp del]

text \<open>Python's \<open>str\<close> of an \<open>int\<close>.\<close>

definition str_int :: "int \<Rightarrow> string" where
  "str_int i = (if i < 0 then ''-'' @ digits_of (nat (- i)) else digits_of (nat i))"

lemma digits_of_nonempty [simp]: "digits_of n \<noteq> []"
  by (subst digits_of.simps) simp

text \<open>\<open>str(v)\<close> of a scalar; \<open>rf\<close> is \<open>float.__repr__\<close>.\<close>

fun str_of :: "(real \<Rightarrow> string) \<Rightarrow> pyval \<Rightarrow> string" where
  "str_of rf PNone = ''None''"
| "str_of rf (PBool b) = (if b then ''True'' else ''False'')"
| "str_of rf (PInt i) = str_int i"
| "str_of rf (PFloat x) = rf x"
| "str_of rf (PStr s) = s"
| "str_of rf v = []"

text \<open>\<open>int(x)\<close> of a float truncates towards zero.\<close>

definition py_int :: "real \<Rightarrow> int" where
  "py_int x = (if 0 \<le> x then \<lfloor>x\<rfloor> else \<lceil>x\<rceil>)"

lemma py_int_of_int [simp]: "py_int (of_int n) = n"
  by (simp add: py_int_def)

lemma py_int_mono: "x \<le> y \<Longrightarrow> py_int x \<le> py_int y"
proof -
  assume "x \<le> y"
  show ?thesis
  proof (cases "0 \<le> x")
    case True
    with \<open>x \<le> y\<close> show ?thesis by (simp add: py_int_def floor_mono)
  next
    case False
    then have "\<lceil>x\<rceil> \<le> 0" by simp
    moreover have "0 \<le> \<lfloor>y\<rfloor>" if "0 \<le> y" using that by simp
    ultimately have "\<lceil>x\<rceil> \<le> \<lfloor>y\<rfloor>" if "0 \<le> y" using that by (meson order_trans)
    moreover have "\<lceil>x\<rceil> \<le> \<lceil>y\<rceil>" using \<open>x \<le> y\<close> by (rule ceiling_mono)
    ultimately show ?thesis using False by (auto simp: py_int_def)
  qed
qed

end
