(* ===== verification/Binary64.thy ===== *)
theory Binary64
  imports Prelude
begin

text \<open>
  Python floats. An arithmetic operation on floats is the exact real result rounded to the
  nearest IEEE 754 binary64 value, ties to even (\<open>fl\<close>). The exponent range is not modelled:
  the values of this program stay far from overflow and from subnormals. The components only
  rely on rounding being monotone and exact on small integers, which is the interface
  \<open>float_rounding\<close>; \<open>fl\<close> is its interpretation.
\<close>

subsection \<open>Round half to even\<close>

definition rhe :: "real \<Rightarrow> int" where
  "rhe y = (let f = \<lfloor>y\<rfloor>; d = y - of_int f in
     if d < 1/2 then f else if 1/2 < d then f + 1 else if even f then f else f + 1)"

lemma rhe_of_int [simp]: "rhe (of_int n) = n"
  by (simp add: rhe_def)

lemma rhe_bounds: "\<lfloor>y\<rfloor> \<le> rhe y \<and> rhe y \<le> \<lfloor>y\<rfloor> + 1"
  by (simp add: rhe_def Let_def)

lemma rhe_mono: "x \<le> y \<Longrightarrow> rhe x \<le> rhe y"
proof -
  assume le: "x \<le> y"
  show ?thesis
  proof (cases "\<lfloor>x\<rfloor> = \<lfloor>y\<rfloor>")
    case True
    with le show ?thesis by (auto simp: rhe_def Let_def)
  next
    case False
    then have "\<lfloor>x\<rfloor> + 1 \<le> \<lfloor>y\<rfloor>"
      using floor_mono [OF le] by linarith
    then show ?thesis using rhe_bounds [of x] rhe_bounds [of y] by linarith
  qed
qed

lemma rhe_minus: "rhe (- x) = - rhe x"
proof (cases "x = of_int \<lfloor>x\<rfloor>")
  case True
  then obtain n where "x = of_int n" by blast
  then have "rhe (- x) = rhe (of_int (- n))" by simp
  then show ?thesis using \<open>x = of_int n\<close> by (simp only: rhe_of_int)
next
  case False
  have lt: "of_int \<lfloor>x\<rfloor> < x" "x < of_int \<lfloor>x\<rfloor> + 1"
    using False of_int_floor_le [of x] by linarith+
  have fl: "\<lfloor>- x\<rfloor> = - \<lfloor>x\<rfloor> - 1"
    by (rule floor_unique) (use lt in linarith)+
  show ?thesis unfolding rhe_def Let_def fl by (auto simp: field_simps)
qed

subsection \<open>Binary64 rounding\<close>

definition binade :: "real \<Rightarrow> int" where
  "binade x = \<lfloor>log 2 \<bar>x\<bar>\<rfloor>"

definition ulp :: "real \<Rightarrow> real" where
  "ulp x = 2 powr (of_int (binade x) - 52)"

definition fl :: "real \<Rightarrow> real" where
  "fl x = (if x = 0 then 0 else ulp x * of_int (rhe (x / ulp x)))"

lemma fl_0 [simp]: "fl 0 = 0"
  by (simp add: fl_def)

lemma ulp_pos [simp]: "0 < ulp x"
  by (simp add: ulp_def)

lemma ulp_neq_0 [simp]: "ulp x \<noteq> 0"
  by (simp add: ulp_def)

lemma ulp_minus: "ulp (- x) = ulp x"
  by (simp add: ulp_def binade_def)

lemma fl_minus: "fl (- x) = - fl x"
  by (simp add: fl_def ulp_minus rhe_minus)

lemma binade_bounds:
  assumes "0 < x"
  shows "2 powr of_int (binade x) \<le> x" and "x < 2 powr (of_int (binade x) + 1)"
proof -
  have "of_int (binade x) \<le> log 2 x" "log 2 x < of_int (binade x) + 1"
    using assms by (simp_all add: binade_def)
  then show "2 powr of_int (binade x) \<le> x" "x < 2 powr (of_int (binade x) + 1)"
    using assms by (simp_all add: le_log_iff log_less_iff)
qed

lemma powr_ulp: "2 powr of_int (binade x) = ulp x * 2 ^ 52"
  by (simp add: ulp_def powr_diff flip: powr_realpow)

lemma fl_pos_bounds:
  assumes "0 < x"
  shows "2 powr of_int (binade x) \<le> fl x" and "fl x \<le> 2 powr (of_int (binade x) + 1)"
proof -
  have eq: "2 powr (of_int (binade x) + 1) = ulp x * 2 ^ 53"
    using powr_ulp [of x] by (simp add: powr_add)
  have lo: "of_int (2 ^ 52) \<le> x / ulp x" and hi: "x / ulp x \<le> of_int (2 ^ 53)"
    using binade_bounds [OF assms] powr_ulp [of x] eq
    by (simp_all add: pos_le_divide_eq pos_divide_le_eq mult.commute less_imp_le)
  have "2 ^ 52 \<le> rhe (x / ulp x)" using rhe_mono [OF lo] by (simp only: rhe_of_int)
  moreover have "rhe (x / ulp x) \<le> 2 ^ 53" using rhe_mono [OF hi] by (simp only: rhe_of_int)
  ultimately have "real_of_int (2 ^ 52) \<le> of_int (rhe (x / ulp x))"
    and "of_int (rhe (x / ulp x)) \<le> real_of_int (2 ^ 53)"
    by (simp_all only: of_int_le_iff)
  then show "2 powr of_int (binade x) \<le> fl x" "fl x \<le> 2 powr (of_int (binade x) + 1)"
    unfolding powr_ulp eq using assms by (simp_all add: fl_def)
qed

lemma fl_mono_pos:
  assumes "0 < x" "x \<le> y"
  shows "fl x \<le> fl y"
proof (cases "binade x = binade y")
  case True
  then have "ulp x = ulp y" by (simp add: ulp_def)
  moreover have "rhe (x / ulp y) \<le> rhe (y / ulp y)"
    by (rule rhe_mono) (use assms in \<open>simp add: divide_right_mono less_imp_le\<close>)
  ultimately show ?thesis using assms by (simp add: fl_def)
next
  case False
  have "binade x \<le> binade y"
    using assms by (simp add: binade_def floor_mono)
  with False have "binade x + 1 \<le> binade y" by linarith
  then have "2 powr (of_int (binade x) + 1) \<le> 2 powr (of_int (binade y) :: real)"
    by (metis of_int_1 of_int_add of_int_le_iff one_le_numeral powr_mono)
  then show ?thesis
    using fl_pos_bounds(2) [of x] fl_pos_bounds(1) [of y] assms by linarith
qed

lemma fl_nonneg: "0 \<le> x \<Longrightarrow> 0 \<le> fl x"
  using fl_pos_bounds(1) [of x] by (cases "x = 0") (auto intro: order_trans [OF powr_ge_zero])

lemma fl_mono: "x \<le> y \<Longrightarrow> fl x \<le> fl y"
proof -
  assume le: "x \<le> y"
  consider "0 < x" | "y < 0" | "x \<le> 0" "0 \<le> y" using le by linarith
  then show ?thesis
  proof cases
    case 1
    then show ?thesis by (rule fl_mono_pos [OF _ le])
  next
    case 2
    then show ?thesis using fl_mono_pos [of "- y" "- x"] le by (simp add: fl_minus)
  next
    case 3
    then show ?thesis using fl_nonneg [of "- x"] fl_nonneg [of y] by (simp add: fl_minus)
  qed
qed

text \<open>A number with at most 53 significant bits is not changed.\<close>

lemma fl_int_pos:
  assumes "0 < n" "n \<le> 2 ^ 53"
  shows "fl (of_int n) = of_int n"
proof -
  let ?x = "real_of_int n"
  have x: "0 < ?x" "?x \<le> 2 ^ 53" using assms by (simp_all flip: of_int_le_iff)
  have "?x < 2 powr 54" using x(2) by (simp flip: powr_realpow)
  moreover have "2 powr of_int (binade ?x) \<le> ?x" by (rule binade_bounds [OF x(1)])
  ultimately have "of_int (binade ?x) < (54 :: real)"
    using powr_less_cancel_iff [of 2] by (metis le_less_trans one_less_numeral_iff semiring_norm(76))
  then have b: "binade ?x \<le> 53" by linarith
  have "1 \<le> ?x" using assms by simp
  then have "0 \<le> binade ?x" by (simp add: binade_def)
  then obtain k where k: "binade ?x = int k" using nonneg_int_cases by blast
  have "\<exists>m. ?x / ulp ?x = of_int m"
  proof (cases "k \<le> 52")
    case True
    have "ulp ?x = 1 / 2 ^ (52 - k)"
    proof -
      have "real k - 52 = - real (52 - k)" using True by (simp add: of_nat_diff)
      then have "ulp ?x = 2 powr (- real (52 - k))" by (simp only: ulp_def k of_int_of_nat_eq)
      also have "\<dots> = inverse (2 powr real (52 - k))" by (rule powr_minus)
      also have "2 powr real (52 - k) = 2 ^ (52 - k)" by (rule powr_realpow) simp
      finally show ?thesis by (simp add: inverse_eq_divide)
    qed
    then have "?x / ulp ?x = of_int (n * 2 ^ (52 - k))" by simp
    then show ?thesis by blast
  next
    case False
    with b k have k53: "k = 53" by simp
    have "2 ^ 53 \<le> ?x" using binade_bounds(1) [OF x(1)] by (simp add: k k53 flip: powr_realpow)
    with x(2) have "?x = 2 ^ 53" by simp
    moreover have "ulp ?x = 2" by (simp add: ulp_def k k53)
    ultimately have "?x / ulp ?x = of_int (2 ^ 52)" by simp
    then show ?thesis by blast
  qed
  then obtain m where m: "?x / ulp ?x = of_int m" by blast
  then have "fl ?x = ulp ?x * of_int m" using x(1) by (simp add: fl_def)
  also have "\<dots> = ?x" unfolding m [symmetric] by simp
  finally show ?thesis .
qed

lemma fl_of_int: "\<bar>n\<bar> \<le> 2 ^ 53 \<Longrightarrow> fl (of_int n) = of_int n"
proof -
  assume le: "\<bar>n\<bar> \<le> 2 ^ 53"
  consider "n = 0" | "0 < n" | "n < 0" by linarith
  then show ?thesis
  proof cases
    case 3
    then have "fl (of_int (- n)) = of_int (- n)" using le by (intro fl_int_pos) auto
    then show ?thesis using fl_minus [of "of_int n"] by simp
  qed (use le fl_int_pos in auto)
qed

subsection \<open>What the components rely on\<close>

locale float_rounding =
  fixes rnd :: "real \<Rightarrow> real"
  assumes rnd_mono: "x \<le> y \<Longrightarrow> rnd x \<le> rnd y"
    and rnd_int: "\<bar>n\<bar> \<le> 2 ^ 53 \<Longrightarrow> rnd (of_int n) = of_int n"
begin

lemma rnd_0: "rnd 0 = 0"
  using rnd_int [of 0] by simp

lemma rnd_1: "rnd 1 = 1"
  using rnd_int [of 1] by simp

lemma rnd_nonneg: "0 \<le> x \<Longrightarrow> 0 \<le> rnd x"
  using rnd_mono [of 0 x] rnd_0 by simp

lemma rnd_nonpos: "x \<le> 0 \<Longrightarrow> rnd x \<le> 0"
  using rnd_mono [of x 0] rnd_0 by simp

lemma rnd_le_1: "x \<le> 1 \<Longrightarrow> rnd x \<le> 1"
  using rnd_mono [of x 1] rnd_1 by simp

lemma rnd_le_int: "x \<le> of_int n \<Longrightarrow> \<bar>n\<bar> \<le> 2 ^ 53 \<Longrightarrow> rnd x \<le> of_int n"
  using rnd_mono [of x "of_int n"] rnd_int [of n] by simp

end

interpretation b64: float_rounding fl
  by unfold_locales (auto intro: fl_mono fl_of_int)

end
