(* ===== verification/Backpressure.thy ===== *)
theory Backpressure
  imports Binary64
begin

text \<open>
  \<open>millpond/backpressure.py\<close>: the size of the next Kafka fetch from the fullness of the pending
  buffer. The module's state is the one integer \<open>_max_batch_size\<close>, set by \<open>init\<close>.
\<close>

definition MIN_BATCH_SIZE :: int where
  "MIN_BATCH_SIZE = 10"

definition bp_init :: "int \<Rightarrow> int" where
  "bp_init max_batch_size = max max_batch_size MIN_BATCH_SIZE"

text \<open>\<open>round(x, 3)\<close>: the nearest float to the decimal rounded half-even.\<close>

definition round3 :: "real \<Rightarrow> real" where
  "round3 x = fl (of_int (rhe (x * 1000)) / 1000)"

definition compute_batch_size :: "int \<Rightarrow> int \<Rightarrow> int \<Rightarrow> int \<times> metric list" where
  "compute_batch_size max_batch_size pending_bytes flush_size =
     (if flush_size \<le> 0 then (max_batch_size, [])
      else
        let fullness = fl (of_int pending_bytes / of_int flush_size);
            batch_size = max MIN_BATCH_SIZE
              (py_int (fl (fl (of_int max_batch_size) * fl (1 - fullness))))
        in (batch_size,
            [SetG ''buffer_fullness'' '''' (round3 fullness),
             SetG ''consume_batch_size_current'' '''' (of_int batch_size)]))"

lemma bp_init_ge: "MIN_BATCH_SIZE \<le> bp_init m"
  by (simp add: bp_init_def)

lemma scaled_le:
  assumes "0 \<le> M" "M \<le> 2 ^ 53" "0 \<le> p" "0 < f"
  shows "py_int (fl (fl (of_int M) * fl (1 - fl (of_int p / of_int f)))) \<le> M"
proof -
  have "0 \<le> fl (of_int p / of_int f)" using assms by (intro b64.rnd_nonneg) simp
  then have le1: "fl (1 - fl (of_int p / of_int f)) \<le> 1" by (intro b64.rnd_le_1) simp
  have M: "fl (of_int M) = of_int M" using assms by (intro b64.rnd_int) simp
  have "fl (of_int M) * fl (1 - fl (of_int p / of_int f)) \<le> of_int M"
    unfolding M using assms(1) le1 by (simp add: mult_left_le)
  then have "fl (fl (of_int M) * fl (1 - fl (of_int p / of_int f))) \<le> of_int M"
    using assms by (intro b64.rnd_le_int) auto
  from py_int_mono [OF this] show ?thesis by simp
qed

lemma scaled_antimono:
  assumes "0 \<le> M" "p \<le> q" "0 < f"
  shows "py_int (fl (fl (of_int M) * fl (1 - fl (of_int q / of_int f))))
       \<le> py_int (fl (fl (of_int M) * fl (1 - fl (of_int p / of_int f))))"
proof -
  have "fl (of_int p / of_int f) \<le> fl (of_int q / of_int f)"
    using assms by (intro b64.rnd_mono divide_right_mono) auto
  then have "fl (1 - fl (of_int q / of_int f)) \<le> fl (1 - fl (of_int p / of_int f))"
    by (simp add: b64.rnd_mono)
  moreover have "0 \<le> fl (of_int M)" using assms by (intro b64.rnd_nonneg) simp
  ultimately have "fl (of_int M) * fl (1 - fl (of_int q / of_int f))
      \<le> fl (of_int M) * fl (1 - fl (of_int p / of_int f))"
    by (rule mult_left_mono)
  then show ?thesis by (rule py_int_mono [OF b64.rnd_mono])
qed

text \<open>C31: the fetch size always lies between the minimum and the configured maximum.\<close>

theorem batch_size_bounds:
  assumes "M = bp_init m" and "m \<le> 2 ^ 53" and "0 \<le> p"
  shows "MIN_BATCH_SIZE \<le> fst (compute_batch_size M p f) \<and> fst (compute_batch_size M p f) \<le> M"
proof -
  have M: "MIN_BATCH_SIZE \<le> M" "0 \<le> M" "M \<le> 2 ^ 53"
    using assms by (auto simp: bp_init_def MIN_BATCH_SIZE_def)
  show ?thesis
    using M scaled_le [OF M(2,3) assms(3), of f] by (auto simp: compute_batch_size_def Let_def)
qed

theorem batch_size_bounds_witness:
  "MIN_BATCH_SIZE \<le> fst (compute_batch_size 1000 50 100)
     \<and> fst (compute_batch_size 1000 50 100) \<le> 1000"
  by (rule batch_size_bounds [where m = 1000]) (simp_all add: bp_init_def MIN_BATCH_SIZE_def)

text \<open>A fuller buffer never gets a larger fetch, whatever the float rounding does.\<close>

theorem batch_size_antimono:
  assumes "0 \<le> M" and "p \<le> q"
  shows "fst (compute_batch_size M q f) \<le> fst (compute_batch_size M p f)"
  using scaled_antimono [OF assms, of f] by (auto simp: compute_batch_size_def Let_def)

theorem batch_size_antimono_witness:
  "fst (compute_batch_size 1000 70 100) \<le> fst (compute_batch_size 1000 30 100)"
  by (rule batch_size_antimono) simp_all

end
