(* ===== verification/Health.thy ===== *)
theory Health
  imports Binary64
begin

text \<open>
  \<open>millpond/server.py\<close>: the health state the Kubernetes probes read, and the HTTP handler that
  serves it. Every \<open>time.monotonic()\<close> reading is an argument (\<open>now\<close>); a handler that reads the
  clock twice takes two readings. The socket plumbing (\<open>send_header\<close>, the server thread) is
  not modelled: a response is its status code and body.
\<close>

record health_state =
  max_poll_age_s :: real
  last_poll :: real
  last_flush :: real
  started :: bool
  has_flushed :: bool

definition health_init :: "real \<Rightarrow> health_state" where
  "health_init age = \<lparr>max_poll_age_s = age, last_poll = 0, last_flush = 0,
     started = False, has_flushed = False\<rparr>"

text \<open>The module-level \<open>health = _HealthState()\<close>.\<close>

definition health_default :: health_state where
  "health_default = health_init 480"

definition record_poll :: "real \<Rightarrow> health_state \<Rightarrow> health_state" where
  "record_poll now h = h\<lparr>last_poll := now\<rparr>"

definition record_flush :: "real \<Rightarrow> health_state \<Rightarrow> health_state" where
  "record_flush now h = h\<lparr>last_flush := now, has_flushed := True\<rparr>"

definition mark_started :: "real \<Rightarrow> health_state \<Rightarrow> health_state" where
  "mark_started now h = h\<lparr>last_poll := now, started := True\<rparr>"

definition is_alive :: "real \<Rightarrow> health_state \<Rightarrow> bool" where
  "is_alive now h \<longleftrightarrow> (if \<not> started h then False
     else fl (now - last_poll h) < max_poll_age_s h)"

definition is_ready :: "real \<Rightarrow> health_state \<Rightarrow> bool" where
  "is_ready now h \<longleftrightarrow> is_alive now h"

definition is_healthy :: "real \<Rightarrow> health_state \<Rightarrow> bool" where
  "is_healthy now h \<longleftrightarrow> is_ready now h"

text \<open>Python's \<open>f"{x:.1f}"\<close>.\<close>

definition fmt1 :: "real \<Rightarrow> string" where
  "fmt1 x = (let n = nat (rhe (\<bar>x\<bar> * 10)) in
     (if x < 0 then ''-'' else '''') @ digits_of (n div 10) @ ''.'' @ digits_of (n mod 10))"

definition status_body :: "real \<Rightarrow> health_state \<Rightarrow> string" where
  "status_body now h =
     (let poll_age = (if started h then fmt1 (fl (now - last_poll h)) @ ''s ago'' else ''never'');
          flush_age = (if has_flushed h then fmt1 (fl (now - last_flush h)) @ ''s ago'' else ''never'')
      in ''poll='' @ poll_age @ '' flush='' @ flush_age)"

text \<open>
  \<open>do_GET\<close>: \<open>latest\<close> is the payload of \<open>generate_latest()\<close>; \<open>t1\<close> is the clock read by
  \<open>status_body\<close>, \<open>t2\<close> the one read by \<open>is_alive\<close>.
\<close>

definition do_GET :: "health_state \<Rightarrow> real \<Rightarrow> real \<Rightarrow> string \<Rightarrow> string \<Rightarrow> nat \<times> string" where
  "do_GET h t1 t2 latest path =
     (if path = ''/metrics'' then (200, latest)
      else if path = ''/healthz'' then
        (let body = status_body t1 h in
         if is_alive t2 h then (200, ''ok '' @ body @ [CHR 0x0A])
         else (503, ''unhealthy '' @ body @ [CHR 0x0A]))
      else if path = ''/readyz'' then
        (let body = status_body t1 h in
         if is_ready t2 h then (200, ''ok '' @ body @ [CHR 0x0A])
         else (503, ''not ready '' @ body @ [CHR 0x0A]))
      else (404, ''''))"

lemmas health_defs = health_init_def record_poll_def record_flush_def mark_started_def
  is_alive_def is_ready_def is_healthy_def

text \<open>The calls the main thread makes on the state, each with its clock reading.\<close>

datatype health_event = Poll real | Flush real | Start real

fun health_step :: "health_state \<Rightarrow> health_event \<Rightarrow> health_state" where
  "health_step h (Poll t) = record_poll t h"
| "health_step h (Flush t) = record_flush t h"
| "health_step h (Start t) = mark_started t h"

fun event_time :: "health_event \<Rightarrow> real" where
  "event_time (Poll t) = t"
| "event_time (Flush t) = t"
| "event_time (Start t) = t"

fun is_poll :: "health_event \<Rightarrow> bool" where
  "is_poll (Poll t) = True"
| "is_poll e = False"

text \<open>The calls that refresh the liveness clock.\<close>

fun refreshes :: "health_event \<Rightarrow> bool" where
  "refreshes (Poll t) = True"
| "refreshes (Flush t) = False"
| "refreshes (Start t) = True"

fun is_start :: "health_event \<Rightarrow> bool" where
  "is_start (Start t) = True"
| "is_start e = False"

lemma run_max_age: "max_poll_age_s (fold (\<lambda>e h. health_step h e) es h) = max_poll_age_s h"
proof (induction es arbitrary: h)
  case (Cons e es)
  have "max_poll_age_s (health_step h e) = max_poll_age_s h"
    by (cases e) (simp_all add: health_defs)
  with Cons show ?case by simp
qed simp

lemma run_started: "started (fold (\<lambda>e h. health_step h e) es h) \<longleftrightarrow> started h \<or> (\<exists>e \<in> set es. is_start e)"
proof (induction es arbitrary: h)
  case (Cons e es)
  have "started (health_step h e) \<longleftrightarrow> started h \<or> is_start e"
    by (cases e) (simp_all add: health_defs)
  with Cons show ?case by auto
qed simp

lemma run_last_poll:
  "last_poll (fold (\<lambda>e h. health_step h e) es h) =
     (if filter refreshes es = [] then last_poll h else event_time (last (filter refreshes es)))"
proof (induction es arbitrary: h)
  case (Cons e es)
  have "last_poll (health_step h e) = (if refreshes e then event_time e else last_poll h)"
    by (cases e) (simp_all add: health_defs)
  with Cons show ?case by simp
qed simp

lemma refreshes_start: "is_start e \<Longrightarrow> refreshes e"
  by (cases e) simp_all

text \<open>C30: a liveness probe answers 200 exactly when the process was started at some point and its
  most recent poll (or start) is younger than 480 seconds: flushes never keep a stuck process alive,
  and no probe passes before the start. Readiness is the same verdict.\<close>

theorem probe_history:
  assumes "h = fold (\<lambda>e h. health_step h e) es health_default"
  shows "fst (do_GET h t1 t2 latest ''/healthz'') =
      (if (\<exists>e \<in> set es. is_start e)
          \<and> fl (t2 - event_time (last (filter refreshes es))) < 480 then 200 else 503)
    \<and> fst (do_GET h t1 t2 latest ''/readyz'') = fst (do_GET h t1 t2 latest ''/healthz'')"
proof -
  have "filter refreshes es \<noteq> []" if "\<exists>e \<in> set es. is_start e"
    using that by (auto simp: filter_empty_conv dest: refreshes_start)
  then have "is_alive t2 h \<longleftrightarrow> (\<exists>e \<in> set es. is_start e)
      \<and> fl (t2 - event_time (last (filter refreshes es))) < 480"
    unfolding assms is_alive_def run_started run_max_age run_last_poll
    by (simp add: health_default_def health_init_def)
  then show ?thesis by (simp add: do_GET_def Let_def is_ready_def)
qed

theorem probe_history_witness:
  "fst (do_GET (fold (\<lambda>e h. health_step h e) [Start 1, Poll 5, Flush 600] health_default)
      600 600 [] ''/healthz'') = 503"
proof -
  have "fl 595 = 595" using fl_of_int [of 595] by simp
  then show ?thesis
    using probe_history [of _ "[Start 1, Poll 5, Flush 600]" 600 600 "[]", OF refl] by simp
qed

end
