(* ===== verification/PyStr.thy ===== *)
theory PyStr
  imports Prelude
begin

text \<open>
  The \<open>str\<close> methods and the number parsing of Python the program uses. A \<open>str\<close> is a \<^typ>\<open>string\<close>:
  a \<^typ>\<open>char\<close> is a code point below 256 (Latin-1); code points above are not modelled.
\<close>

definition code :: "char \<Rightarrow> nat" where
  "code c = of_char c"

text \<open>\<open>str.isspace\<close> on one character, what \<open>str.strip()\<close> removes.\<close>

definition is_space :: "char \<Rightarrow> bool" where
  "is_space c = (let n = code c in 9 \<le> n \<and> n \<le> 13 \<or> 28 \<le> n \<and> n \<le> 32 \<or> n = 133 \<or> n = 160)"

definition strip :: "string \<Rightarrow> string" where
  "strip s = rev (dropWhile is_space (rev (dropWhile is_space s)))"

definition lower_char :: "char \<Rightarrow> char" where
  "lower_char c = (let n = code c in
     if 65 \<le> n \<and> n \<le> 90 \<or> 192 \<le> n \<and> n \<le> 222 \<and> n \<noteq> 215 then char_of (n + 32) else c)"

definition lower :: "string \<Rightarrow> string" where
  "lower s = map lower_char s"

text \<open>\<open>str.upper\<close> on ASCII letters; other characters of the code range never become ASCII letters.\<close>

definition upper_char :: "char \<Rightarrow> char" where
  "upper_char c = (let n = code c in if 97 \<le> n \<and> n \<le> 122 then char_of (n - 32) else c)"

definition upper :: "string \<Rightarrow> string" where
  "upper s = map upper_char s"

text \<open>\<open>s.split(c)\<close> for a one-character separator: always at least one piece.\<close>

fun split_on :: "char \<Rightarrow> string \<Rightarrow> string list" where
  "split_on c [] = [[]]"
| "split_on c (x # xs) =
     (if x = c then [] # split_on c xs
      else case split_on c xs of [] \<Rightarrow> [[x]] | p # ps \<Rightarrow> (x # p) # ps)"

text \<open>\<open>s.partition(c)\<close>, the two outer parts.\<close>

definition partition_on :: "char \<Rightarrow> string \<Rightarrow> string \<times> string" where
  "partition_on c s = (takeWhile (\<lambda>x. x \<noteq> c) s, drop 1 (dropWhile (\<lambda>x. x \<noteq> c) s))"

definition starts_with :: "string \<Rightarrow> string \<Rightarrow> bool" where
  "starts_with p s = (take (length p) s = p)"

definition ends_with :: "string \<Rightarrow> string \<Rightarrow> bool" where
  "ends_with p s = starts_with (rev p) (rev s)"

text \<open>\<open>sub in s\<close>.\<close>

fun contains :: "string \<Rightarrow> string \<Rightarrow> bool" where
  "contains sub [] = (sub = [])"
| "contains sub (x # xs) = (starts_with sub (x # xs) \<or> contains sub xs)"

fun join :: "string \<Rightarrow> string list \<Rightarrow> string" where
  "join sep [] = []"
| "join sep [x] = x"
| "join sep (x # y # ys) = x @ sep @ join sep (y # ys)"

definition is_digit :: "char \<Rightarrow> bool" where
  "is_digit c = (48 \<le> code c \<and> code c \<le> 57)"

definition is_alpha :: "char \<Rightarrow> bool" where
  "is_alpha c = (65 \<le> code c \<and> code c \<le> 90 \<or> 97 \<le> code c \<and> code c \<le> 122)"

definition digits_value :: "string \<Rightarrow> nat" where
  "digits_value ds = foldl (\<lambda>n c. 10 * n + (code c - 48)) 0 ds"

text \<open>\<open>int(s)\<close>: surrounding white space, a sign, digits with single underscores between them.
  \<open>None\<close> is the \<open>ValueError\<close>.\<close>

fun int_digits :: "string \<Rightarrow> string option" where
  "int_digits [] = None"
| "int_digits [c] = (if is_digit c then Some [c] else None)"
| "int_digits (c # d # cs) =
     (if \<not> is_digit c then None
      else if d = CHR ''_'' then map_option ((#) c) (int_digits cs)
      else map_option ((#) c) (int_digits (d # cs)))"

definition parse_int :: "string \<Rightarrow> int option" where
  "parse_int s =
     (case strip s of
        [] \<Rightarrow> None
      | c # cs \<Rightarrow>
          if c = CHR ''-'' then map_option (\<lambda>ds. - int (digits_value ds)) (int_digits cs)
          else if c = CHR ''+'' then map_option (\<lambda>ds. int (digits_value ds)) (int_digits cs)
          else map_option (\<lambda>ds. int (digits_value ds)) (int_digits (c # cs)))"

text \<open>
  The pattern \<open>^[a-zA-Z_][a-zA-Z0-9_]*$\<close> under \<open>re.match\<close>. In Python \<open>$\<close> also matches just before
  a final newline, so one trailing newline is accepted.
\<close>

definition ident_start :: "char \<Rightarrow> bool" where
  "ident_start c = (is_alpha c \<or> c = CHR ''_'')"

definition ident_char :: "char \<Rightarrow> bool" where
  "ident_char c = (ident_start c \<or> is_digit c)"

definition SAFE_IDENTIFIER :: "string \<Rightarrow> bool" where
  "SAFE_IDENTIFIER s =
     (let t = (if s \<noteq> [] \<and> last s = CHR 0x0A then butlast s else s) in
      t \<noteq> [] \<and> ident_start (hd t) \<and> (\<forall>c \<in> set (tl t). ident_char c))"

subsection \<open>Lemmas\<close>

lemma dropWhile_hd: "dropWhile P xs \<noteq> [] \<Longrightarrow> \<not> P (hd (dropWhile P xs))"
  by (rule hd_dropWhile)

lemma strip_ends:
  assumes "strip s \<noteq> []"
  shows "\<not> is_space (last (strip s))" and "\<not> is_space (hd (strip s))"
proof -
  let ?t = "dropWhile is_space s"
  let ?r = "dropWhile is_space (rev ?t)"
  have r: "?r \<noteq> []" using assms by (simp add: strip_def)
  then show "\<not> is_space (last (strip s))"
    using hd_dropWhile [OF r] by (simp add: strip_def last_rev)
  obtain pre where pre: "rev ?t = pre @ ?r"
    by (metis takeWhile_dropWhile_id)
  then have t: "?t = rev ?r @ rev pre" by (metis rev_append rev_rev_ident)
  with r have "hd ?t = hd (rev ?r)" by (metis hd_append rev_is_Nil_conv)
  moreover have "?t \<noteq> []" using r by (metis dropWhile.simps(1) rev.simps(1))
  ultimately show "\<not> is_space (hd (strip s))"
    using hd_dropWhile [of is_space s] by (simp add: strip_def)
qed

lemma strip_idem [simp]: "strip (strip s) = strip s"
proof (cases "strip s = []")
  case True
  show ?thesis unfolding True by (simp add: strip_def)
next
  case False
  note ends = strip_ends [OF False]
  have "dropWhile is_space (strip s) = strip s"
    using ends(2) False by (cases "strip s") auto
  moreover have "dropWhile is_space (rev (strip s)) = rev (strip s)"
    using ends(1) False by (cases "rev (strip s)") (auto simp: last_rev simp flip: hd_rev)
  ultimately show ?thesis by (simp add: strip_def [of "strip s"])
qed

lemma split_on_nonempty [simp]: "split_on c s \<noteq> []"
  by (induction s) (auto split: list.splits)

lemma join_split_on: "join [c] (split_on c s) = s"
proof (induction s)
  case (Cons x xs)
  obtain p ps where ps: "split_on c xs = p # ps"
    by (metis split_on_nonempty neq_Nil_conv)
  with Cons show ?case by (cases ps) auto
qed simp

lemma split_on_no_sep: "p \<in> set (split_on c s) \<Longrightarrow> c \<notin> set p"
  by (induction s arbitrary: p) (auto split: if_splits list.splits)

lemma split_on_first: "c \<notin> set x \<Longrightarrow> split_on c (x @ c # rest) = x # split_on c rest"
  by (induction x) auto

lemma split_on_none: "c \<notin> set x \<Longrightarrow> split_on c x = [x]"
  by (induction x) auto

lemma split_on_join: "xs \<noteq> [] \<Longrightarrow> \<forall>x \<in> set xs. c \<notin> set x \<Longrightarrow> split_on c (join [c] xs) = xs"
  by (induction "[c]" xs rule: join.induct) (auto simp: split_on_first split_on_none)

lemma foldl_digits:
  "foldl (\<lambda>n c. 10 * n + (code c - 48)) m (ds @ [d])
     = 10 * foldl (\<lambda>n c. 10 * n + (code c - 48)) m ds + (code d - 48)"
  by simp

lemma code_char_of: "n < 256 \<Longrightarrow> code (char_of n) = n"
  by (simp add: code_def)

lemma digits_value_digits_of: "digits_value (digits_of n) = n"
proof (induction n rule: digits_of.induct)
  case (1 n)
  show ?case
  proof (cases "n < 10")
    case True
    then show ?thesis by (subst digits_of.simps) (simp add: digits_value_def code_char_of)
  next
    case False
    with 1 have "digits_value (digits_of (n div 10)) = n div 10" by simp
    moreover have "code (char_of (48 + n mod 10)) = 48 + n mod 10"
      by (rule code_char_of) (use mod_less_divisor [of 10 n] in linarith)
    ultimately show ?thesis using False
      by (subst digits_of.simps) (simp add: digits_value_def)
  qed
qed

lemma digits_of_digits: "c \<in> set (digits_of n) \<Longrightarrow> is_digit c"
proof (induction n arbitrary: c rule: digits_of.induct)
  case (1 n)
  have m: "code (char_of (48 + n mod 10)) = 48 + n mod 10"
    by (rule code_char_of) (use mod_less_divisor [of 10 n] in linarith)
  have d: "n mod 10 < 10" by simp
  show ?case
  proof (cases "n < 10")
    case True
    then show ?thesis using "1.prems"
      by (subst (asm) digits_of.simps) (simp add: is_digit_def code_char_of)
  next
    case False
    with "1.prems" have "c \<in> set (digits_of (n div 10)) \<or> c = char_of (48 + n mod 10)"
      by (subst (asm) digits_of.simps) auto
    then show ?thesis using "1.IH" False m d by (auto simp: is_digit_def)
  qed
qed

lemma int_digits_all: "ds \<noteq> [] \<Longrightarrow> (\<forall>c \<in> set ds. is_digit c) \<Longrightarrow> int_digits ds = Some ds"
proof (induction ds rule: int_digits.induct)
  case (3 c d cs)
  then have "d \<noteq> CHR ''_''" by (auto simp: is_digit_def code_def)
  with 3 show ?case by simp
qed simp_all

end
