(* ===== verification/Uuid.thy ===== *)
theory Uuid
  imports PyStr
begin

text \<open>
  \<open>uuid_bytes\<close> and \<open>uuid_text\<close> of \<open>millpond/arrow_converter.py\<close>: the enumerated textual shapes of a
  UUID, decoded to 16 big-endian bytes, and the canonical rendering back. \<open>None\<close> is the
  \<open>ValueError\<close>.
\<close>

subsection \<open>\<open>bytes.fromhex\<close>\<close>

definition hex_digit :: "char \<Rightarrow> nat option" where
  "hex_digit c = (let n = code c in
     if 48 \<le> n \<and> n \<le> 57 then Some (n - 48)
     else if 97 \<le> n \<and> n \<le> 102 then Some (n - 87)
     else if 65 \<le> n \<and> n \<le> 70 then Some (n - 55)
     else None)"

text \<open>ASCII white space between two bytes is skipped; a pair of digits is one byte.\<close>

definition ascii_space :: "char \<Rightarrow> bool" where
  "ascii_space c = (let n = code c in 9 \<le> n \<and> n \<le> 13 \<or> n = 32)"

fun fromhex :: "string \<Rightarrow> byte list option" where
  "fromhex [] = Some []"
| "fromhex [c] = (if ascii_space c then Some [] else None)"
| "fromhex (c # d # cs) =
     (if ascii_space c then fromhex (d # cs)
      else case (hex_digit c, hex_digit d) of
          (Some h, Some l) \<Rightarrow> map_option ((#) (of_nat (16 * h + l))) (fromhex cs)
        | _ \<Rightarrow> None)"

definition hex_char :: "nat \<Rightarrow> char" where
  "hex_char n = char_of (if n < 10 then 48 + n else 87 + n)"

text \<open>\<open>bytes.hex()\<close>: two lower-case digits per byte.\<close>

definition tohex :: "byte list \<Rightarrow> string" where
  "tohex bs = concat (map (\<lambda>b. [hex_char (unat b div 16), hex_char (unat b mod 16)]) bs)"

subsection \<open>The two conversions\<close>

definition URN_PREFIX :: string where
  "URN_PREFIX = ''urn:uuid:''"

definition unwrap_uuid :: "string \<Rightarrow> string" where
  "unwrap_uuid value =
     (if starts_with URN_PREFIX value then drop (length URN_PREFIX) value
      else if 2 \<le> length value \<and> hd value = CHR ''{'' \<and> last value = CHR ''}''
        then butlast (tl value)
      else value)"

definition uuid_bytes :: "pyval \<Rightarrow> byte list option" where
  "uuid_bytes v =
     (case v of
        PStr value \<Rightarrow>
          (let text = unwrap_uuid value in
           if length text = 36 \<and> (text ! 8 \<noteq> CHR ''-'' \<or> text ! 13 \<noteq> CHR ''-''
                \<or> text ! 18 \<noteq> CHR ''-'' \<or> text ! 23 \<noteq> CHR ''-'') then None
           else
             let text = (if length text = 36 then filter (\<lambda>c. c \<noteq> CHR ''-'') text else text) in
             if length text \<noteq> 32 then None
             else case fromhex text of
                 None \<Rightarrow> None
               | Some raw \<Rightarrow> if length raw \<noteq> 16 then None else Some raw)
      | _ \<Rightarrow> None)"

definition uuid_text :: "byte list \<Rightarrow> string option" where
  "uuid_text raw =
     (if length raw \<noteq> 16 then None
      else let hexed = tohex raw in
        Some (take 8 hexed @ ''-'' @ take 4 (drop 8 hexed) @ ''-'' @ take 4 (drop 12 hexed)
              @ ''-'' @ take 4 (drop 16 hexed) @ ''-'' @ drop 20 hexed))"

subsection \<open>Hex lemmas\<close>

lemma code_hex_char: "n < 16 \<Longrightarrow> code (hex_char n) = (if n < 10 then 48 + n else 87 + n)"
  unfolding hex_char_def by (rule code_char_of) simp

lemma hex_digit_char: "n < 16 \<Longrightarrow> hex_digit (hex_char n) = Some n"
  by (simp add: hex_digit_def Let_def code_hex_char)

lemma not_space_hex_char: "n < 16 \<Longrightarrow> \<not> ascii_space (hex_char n)"
  by (simp add: ascii_space_def Let_def code_hex_char)

lemma hex_char_not_dash: "n < 16 \<Longrightarrow> hex_char n \<noteq> CHR ''-''" "n < 16 \<Longrightarrow> CHR ''-'' \<noteq> hex_char n"
proof -
  have "code (hex_char n) \<noteq> code (CHR ''-'')" if "n < 16"
    using code_hex_char [OF that] by (auto simp: code_def [of "CHR ''-''"])
  then show "n < 16 \<Longrightarrow> hex_char n \<noteq> CHR ''-''" "n < 16 \<Longrightarrow> CHR ''-'' \<noteq> hex_char n"
    by metis+
qed

lemma unat_byte: "unat (b :: byte) < 256"
  using unsigned_less [of b, where ?'a = nat] by simp

lemma tohex_Nil [simp]: "tohex [] = []"
  and tohex_Cons: "tohex (b # bs) = hex_char (unat b div 16) # hex_char (unat b mod 16) # tohex bs"
  by (simp_all add: tohex_def)

lemma length_tohex [simp]: "length (tohex bs) = 2 * length bs"
  by (induction bs) (simp_all add: tohex_Cons)

lemma byte_halves: "unat (b :: byte) div 16 < 16" "unat b mod 16 < 16"
  using unat_byte [of b] by simp_all

lemma fromhex_tohex [simp]: "fromhex (tohex bs) = Some bs"
proof (induction bs)
  case (Cons b bs)
  have "(of_nat (16 * (unat b div 16) + unat b mod 16) :: byte) = b"
    by (simp only: mult_div_mod_eq) simp
  with Cons show ?case
    by (simp add: tohex_Cons byte_halves hex_digit_char not_space_hex_char del: of_nat_add)
qed simp

lemma tohex_no_dash: "c \<in> set (tohex bs) \<Longrightarrow> c \<noteq> CHR ''-''"
  by (induction bs) (auto simp: tohex_Cons hex_char_not_dash byte_halves)

lemma hd_tohex_hexdigit: "c \<in> set (tohex bs) \<Longrightarrow> hex_digit c \<noteq> None"
  by (induction bs) (auto simp: tohex_Cons hex_digit_char byte_halves)

subsection \<open>Decoding is reading the digits\<close>

lemma fromhex_length: "fromhex t = Some raw \<Longrightarrow> 2 * length raw \<le> length t"
proof (induction t arbitrary: raw rule: fromhex.induct)
  case (3 c d cs)
  show ?case
  proof (cases "ascii_space c")
    case True
    with 3 show ?thesis by fastforce
  next
    case False
    with 3 show ?thesis by (fastforce split: option.splits)
  qed
qed (auto split: if_splits)

lemma hex_char_lower:
  assumes "hex_digit c = Some h"
  shows "hex_char h = lower_char c"
proof -
  have c: "char_of (code c) = c" by (simp add: code_def)
  from assms consider "48 \<le> code c" "code c \<le> 57" "h = code c - 48"
    | "97 \<le> code c" "code c \<le> 102" "h = code c - 87"
    | "65 \<le> code c" "code c \<le> 70" "h = code c - 55"
    by (auto simp: hex_digit_def Let_def split: if_splits)
  then show ?thesis
  proof cases
    case 1
    then have "h < 10" "48 + h = code c" by linarith+
    with 1 c show ?thesis by (simp add: hex_char_def lower_char_def Let_def)
  next
    case 2
    then have "\<not> h < 10" "87 + h = code c" "\<not> code c \<le> 90" by linarith+
    with 2 c show ?thesis by (simp add: hex_char_def lower_char_def Let_def)
  next
    case 3
    then have "\<not> h < 10" "87 + h = code c + 32" by linarith+
    then have "hex_char h = char_of (code c + 32)" unfolding hex_char_def by metis
    moreover have "lower_char c = char_of (code c + 32)" using 3 by (simp add: lower_char_def Let_def)
    ultimately show ?thesis by simp
  qed
qed

lemma hex_digit_less: "hex_digit c = Some h \<Longrightarrow> h < 16"
  by (auto simp: hex_digit_def Let_def split: if_splits)

lemma unat_pair: "h < 16 \<Longrightarrow> l < 16 \<Longrightarrow> unat (of_nat (16 * h + l) :: byte) = 16 * h + l"
  by (subst unat_of_nat) simp

text \<open>When no character is skipped, the bytes are the digits, lower-cased.\<close>

lemma fromhex_exact:
  "fromhex t = Some raw \<Longrightarrow> length t = 2 * length raw \<Longrightarrow> tohex raw = lower t"
proof (induction t arbitrary: raw rule: fromhex.induct)
  case (3 c d cs)
  show ?case
  proof (cases "ascii_space c")
    case True
    with 3 have "2 * length raw \<le> length (d # cs)" by (intro fromhex_length) simp
    with 3 show ?thesis by simp
  next
    case False
    with 3 obtain h l rs where hl: "hex_digit c = Some h" "hex_digit d = Some l"
      and rs: "fromhex cs = Some rs" "raw = of_nat (16 * h + l) # rs"
      by (auto split: option.splits)
    have "tohex rs = lower cs"
      using 3(2) [OF False, of "hex_digit c" "hex_digit d" h l rs] 3(4) hl rs
      by simp
    moreover have "h < 16" "l < 16" using hl hex_digit_less by auto
    ultimately show ?thesis using hl rs
      by (simp add: tohex_Cons unat_pair hex_char_lower lower_def del: of_nat_add of_nat_mult)
  qed
qed (auto simp: lower_def split: if_splits)

lemma fromhex_digits:
  "fromhex t = Some raw \<Longrightarrow> length t = 2 * length raw \<Longrightarrow> c \<in> set t \<Longrightarrow> hex_digit c \<noteq> None"
proof (induction t arbitrary: raw rule: fromhex.induct)
  case (3 a d cs)
  show ?case
  proof (cases "ascii_space a")
    case True
    with 3 have "2 * length raw \<le> length (d # cs)" by (intro fromhex_length) simp
    with 3 show ?thesis by simp
  next
    case False
    with 3 show ?thesis by (fastforce split: option.splits)
  qed
qed (auto split: if_splits)

text \<open>The digits of an accepted text: what is left after the wrapper and the hyphens.\<close>

definition uuid_digits :: "string \<Rightarrow> string" where
  "uuid_digits s = (let t = unwrap_uuid s in
     if length t = 36 then filter (\<lambda>c. c \<noteq> CHR ''-'') t else t)"

lemma uuid_bytes_PStr:
  "uuid_bytes (PStr s) = Some raw \<longleftrightarrow>
     (length (unwrap_uuid s) = 36 \<longrightarrow> unwrap_uuid s ! 8 = CHR ''-'' \<and> unwrap_uuid s ! 13 = CHR ''-''
        \<and> unwrap_uuid s ! 18 = CHR ''-'' \<and> unwrap_uuid s ! 23 = CHR ''-'')
     \<and> length (uuid_digits s) = 32 \<and> fromhex (uuid_digits s) = Some raw \<and> length raw = 16"
  by (auto simp: uuid_bytes_def uuid_digits_def Let_def split: option.splits if_splits)

lemma uuid_bytes_str: "uuid_bytes v = Some raw \<Longrightarrow> \<exists>s. v = PStr s"
  by (cases v) (auto simp: uuid_bytes_def)

text \<open>An accepted value is a string of 32 hexadecimal digits (hyphenated at the canonical places
  when it has 36 characters), and the 16 bytes are those digits: nothing is skipped, reordered or
  made up.\<close>

theorem uuid_bytes_reads_digits:
  assumes "uuid_bytes v = Some raw"
  shows "\<exists>s. v = PStr s \<and> length raw = 16 \<and> length (uuid_digits s) = 32
    \<and> tohex raw = lower (uuid_digits s)
    \<and> (\<forall>c \<in> set (uuid_digits s). hex_digit c \<noteq> None)"
proof -
  obtain s where s: "v = PStr s" using uuid_bytes_str [OF assms] by blast
  from assms have f: "fromhex (uuid_digits s) = Some raw"
    and len: "length (uuid_digits s) = 2 * length raw" "length raw = 16"
    unfolding s uuid_bytes_PStr by simp_all
  have eq: "tohex raw = lower (uuid_digits s)" by (rule fromhex_exact [OF f len(1)])
  moreover have "hex_digit c \<noteq> None" if "c \<in> set (uuid_digits s)" for c
    using fromhex_digits [OF f len(1) that] .
  ultimately show ?thesis using s len by auto
qed

subsection \<open>Round trip\<close>

text \<open>The canonical layout of 32 digits.\<close>

definition hyphenate :: "string \<Rightarrow> string" where
  "hyphenate x = take 8 x @ ''-'' @ take 4 (drop 8 x) @ ''-'' @ take 4 (drop 12 x)
     @ ''-'' @ take 4 (drop 16 x) @ ''-'' @ drop 20 x"

lemma uuid_text_hyphenate: "length raw = 16 \<Longrightarrow> uuid_text raw = Some (hyphenate (tohex raw))"
  by (simp add: uuid_text_def hyphenate_def Let_def)

lemma length_hyphenate: "length x = 32 \<Longrightarrow> length (hyphenate x) = 36"
  by (simp add: hyphenate_def)

lemma nth_hyphenate:
  assumes "length x = 32"
  shows "hyphenate x ! 8 = CHR ''-''" "hyphenate x ! 13 = CHR ''-''"
    "hyphenate x ! 18 = CHR ''-''" "hyphenate x ! 23 = CHR ''-''"
  using assms by (simp_all add: hyphenate_def nth_append)

lemma concat_hyphenate:
  "take 8 x @ take 4 (drop 8 x) @ take 4 (drop 12 x) @ take 4 (drop 16 x) @ drop 20 x = x"
proof -
  have step: "take n (drop m x) @ drop (m + n) x = drop m x" for m n
    by (metis append_take_drop_id drop_drop add.commute)
  show ?thesis
    using step [of 4 16] step [of 4 12] step [of 4 8] step [of 8 0] by simp
qed

lemma filter_hyphenate:
  assumes "\<forall>c \<in> set x. c \<noteq> CHR ''-''"
  shows "filter (\<lambda>c. c \<noteq> CHR ''-'') (hyphenate x) = x"
proof -
  have f: "filter (\<lambda>c. c \<noteq> CHR ''-'') y = y" if "set y \<subseteq> set x" for y
    using assms that by (intro filter_True) auto
  have sub: "set (take n (drop m x)) \<subseteq> set x" "set (drop m x) \<subseteq> set x" "set (take n x) \<subseteq> set x" for n m
    by (auto dest: in_set_takeD in_set_dropD)
  show ?thesis unfolding hyphenate_def using concat_hyphenate [of x] by (simp add: f sub)
qed

lemma unwrap_plain:
  assumes "s \<noteq> []" "hex_digit (hd s) \<noteq> None"
  shows "unwrap_uuid s = s"
proof -
  have "hd s \<noteq> CHR ''u''" "hd s \<noteq> CHR ''{''"
    using assms by (auto simp: hex_digit_def code_def)
  moreover have "\<not> starts_with URN_PREFIX s"
    using assms(1) calculation(1) by (cases s) (auto simp: starts_with_def URN_PREFIX_def)
  ultimately show ?thesis by (simp add: unwrap_uuid_def)
qed

lemma unwrap_urn: "unwrap_uuid (URN_PREFIX @ s) = s"
  by (simp add: unwrap_uuid_def starts_with_def)

lemma unwrap_brace: "unwrap_uuid (''{'' @ s @ ''}'') = s"
  by (simp add: unwrap_uuid_def starts_with_def URN_PREFIX_def)

text \<open>Digits of either case read back to the bytes.\<close>

lemma lower_hex_char:
  assumes "lower_char c = hex_char h" "h < 16"
  shows "hex_digit c = Some h" "\<not> ascii_space c"
proof -
  have k: "code (lower_char c) = (if h < 10 then 48 + h else 87 + h)"
    using assms code_hex_char by simp
  show "hex_digit c = Some h" "\<not> ascii_space c"
    using k assms(2)
    by (auto simp: lower_char_def hex_digit_def ascii_space_def Let_def code_char_of split: if_splits)
qed

lemma fromhex_lower: "lower d = tohex raw \<Longrightarrow> fromhex d = Some raw"
proof (induction raw arbitrary: d)
  case Nil
  then show ?case by (simp add: lower_def)
next
  case (Cons b raw)
  then obtain c e cs where d: "d = c # e # cs" "lower_char c = hex_char (unat b div 16)"
      "lower_char e = hex_char (unat b mod 16)" "lower cs = tohex raw"
    by (auto simp: tohex_Cons lower_def map_eq_Cons_conv)
  have "(of_nat (16 * (unat b div 16) + unat b mod 16) :: byte) = b"
    by (simp only: mult_div_mod_eq) simp
  then show ?case
    using Cons.IH[OF d(4)] lower_hex_char[OF d(2)] lower_hex_char[OF d(3)] d(1)
    by (simp add: byte_halves del: of_nat_add)
qed

text \<open>A text of 36 characters with its four hyphens in place and 32 others is its digits, hyphenated.\<close>

lemma hyphenated:
  assumes "length t = 36" "t ! 8 = CHR ''-''" "t ! 13 = CHR ''-''" "t ! 18 = CHR ''-''" "t ! 23 = CHR ''-''"
    and "length (filter (\<lambda>c. c \<noteq> CHR ''-'') t) = 32"
  shows "t = hyphenate (filter (\<lambda>c. c \<noteq> CHR ''-'') t)"
proof -
  let ?f = "filter (\<lambda>c. c \<noteq> CHR ''-'')"
  define a b c d e where "a = take 8 t" and "b = take 4 (drop 9 t)" and "c = take 4 (drop 14 t)"
    and "d = take 4 (drop 19 t)" and "e = drop 24 t"
  note parts = a_def b_def c_def d_def e_def
  have len: "length a = 8" "length b = 4" "length c = 4" "length d = 4" "length e = 12"
    using assms(1) by (simp_all add: parts)
  have cut: "drop m t = take n (drop m t) @ t ! (m + n) # drop (m + n + 1) t" if "m + n < 36" for m n
    using that assms(1) by (metis Cons_nth_drop_Suc Suc_eq_plus1 add.commute append_take_drop_id drop_drop)
  have t: "t = a @ ''-'' @ b @ ''-'' @ c @ ''-'' @ d @ ''-'' @ e"
    using cut[of 0 8] cut[of 9 4] cut[of 14 4] cut[of 19 4] assms(2-5) by (simp add: parts)
  have "length (?f a) \<le> 8" "length (?f b) \<le> 4" "length (?f c) \<le> 4" "length (?f d) \<le> 4" "length (?f e) \<le> 12"
    using length_filter_le len by metis+
  moreover have "length (?f a) + length (?f b) + length (?f c) + length (?f d) + length (?f e) = 32"
    using assms(6) by (subst (asm) t) simp
  ultimately have "length (?f a) = length a" "length (?f b) = length b" "length (?f c) = length c"
      "length (?f d) = length d" "length (?f e) = length e"
    using len by linarith+
  then have all: "?f a = a" "?f b = b" "?f c = c" "?f d = d" "?f e = e"
    by (metis filter_id_conv length_filter_conv_card less_irrefl length_filter_less)+
  have "?f t = a @ b @ c @ d @ e"
    by (subst t) (simp add: all)
  then show ?thesis
    using len by (subst t) (simp add: hyphenate_def)
qed

text \<open>The texts of one UUID: its digits in either case, bare or hyphenated, plain, behind the URN prefix
  or in braces.\<close>

definition uuid_spelling :: "byte list \<Rightarrow> string \<Rightarrow> bool" where
  "uuid_spelling raw s \<longleftrightarrow> (\<exists>d b. lower d = tohex raw \<and> (b = d \<or> b = hyphenate d)
     \<and> (s = b \<or> s = URN_PREFIX @ b \<or> s = ''{'' @ b @ ''}''))"

lemma lower_digits: "lower d = tohex raw \<Longrightarrow> c \<in> set d \<Longrightarrow> hex_digit c \<noteq> None"
  by (rule fromhex_digits[OF fromhex_lower]) (auto simp: lower_def dest: arg_cong[of _ _ length])

lemma uuid_bytes_of_spelling:
  assumes "length raw = 16" "uuid_spelling raw s"
  shows "uuid_bytes (PStr s) = Some raw"
proof -
  obtain d b where d: "lower d = tohex raw" "b = d \<or> b = hyphenate d"
      "s = b \<or> s = URN_PREFIX @ b \<or> s = ''{'' @ b @ ''}''"
    using assms(2) unfolding uuid_spelling_def by blast
  have len: "length d = 32"
    using arg_cong[OF d(1), of length] assms(1) by (simp add: lower_def)
  then have ne: "d \<noteq> []" by auto
  have nd: "filter (\<lambda>c. c \<noteq> CHR ''-'') (hyphenate d) = d"
  proof (rule filter_hyphenate, rule ballI)
    have "hex_digit (CHR ''-'') = None" by code_simp
    then show "c \<noteq> CHR ''-''" if "c \<in> set d" for c
      using lower_digits[OF d(1) that] by metis
  qed
  have "hd b = hd d" "b \<noteq> []"
    using d(2) ne by (auto simp: hyphenate_def)
  then have "unwrap_uuid b = b"
    using unwrap_plain[of b] lower_digits[OF d(1) hd_in_set[OF ne]] by simp
  then have "unwrap_uuid s = b"
    using d(3) unwrap_urn unwrap_brace by auto
  then show ?thesis
    using d(2) nd len assms(1) fromhex_lower[OF d(1)] nth_hyphenate[OF len] length_hyphenate[OF len]
    unfolding uuid_bytes_PStr uuid_digits_def Let_def by auto
qed

lemma unwrapped:
  "s = unwrap_uuid s \<or> s = URN_PREFIX @ unwrap_uuid s \<or> s = ''{'' @ unwrap_uuid s @ ''}''"
proof -
  have "s = ''{'' @ butlast (tl s) @ ''}''"
    if "2 \<le> length s" "hd s = CHR ''{''" "last s = CHR ''}''"
  proof -
    have r: "s = CHR ''{'' # tl s" "tl s \<noteq> []"
      using that(1,2) by (cases s; cases "tl s"; simp)+
    then have "last (tl s) = CHR ''}''"
      using that(3) by (metis last_ConsR)
    then show ?thesis
      using r append_butlast_last_id[of "tl s"] by simp
  qed
  moreover have "s = URN_PREFIX @ drop (length URN_PREFIX) s" if "starts_with URN_PREFIX s"
    using that by (metis append_take_drop_id starts_with_def)
  ultimately show ?thesis
    unfolding unwrap_uuid_def by auto
qed

lemma spelling_of_uuid_bytes:
  assumes "uuid_bytes (PStr s) = Some raw"
  shows "uuid_spelling raw s"
proof -
  note acc = assms[unfolded uuid_bytes_PStr]
  have low: "lower (uuid_digits s) = tohex raw"
    using fromhex_exact[of "uuid_digits s" raw] acc by simp
  have "unwrap_uuid s = uuid_digits s \<or> unwrap_uuid s = hyphenate (uuid_digits s)"
  proof (cases "length (unwrap_uuid s) = 36")
    case True
    then show ?thesis
      using hyphenated[of "unwrap_uuid s"] acc by (simp add: uuid_digits_def)
  qed (simp add: uuid_digits_def Let_def)
  then show ?thesis
    unfolding uuid_spelling_def using low unwrapped by metis
qed

text \<open>C28: the texts accepted for sixteen bytes are exactly their spellings: 32 digits of either case,
  bare or hyphenated canonically, plain, behind the URN prefix or in braces. The bytes render as the
  canonical lower-case spelling, which reads back to them.\<close>

theorem uuid_roundtrip:
  assumes "length raw = 16"
  shows "(\<forall>v. uuid_bytes v = Some raw \<longleftrightarrow> (\<exists>s. v = PStr s \<and> uuid_spelling raw s))
    \<and> (\<exists>t. uuid_text raw = Some t \<and> length t = 36 \<and> lower t = t \<and> uuid_bytes (PStr t) = Some raw)"
proof -
  let ?t = "hyphenate (tohex raw)"
  have low: "lower (tohex bs) = tohex bs" for bs
    using fromhex_exact[of "tohex bs" bs] by simp
  have "lower ?t = hyphenate (lower (tohex raw))"
    unfolding hyphenate_def by (simp add: lower_def take_map drop_map) (simp add: lower_char_def code_def)
  then have "lower ?t = ?t" "uuid_spelling raw ?t"
    using low unfolding uuid_spelling_def by auto
  then have "\<exists>t. uuid_text raw = Some t \<and> length t = 36 \<and> lower t = t \<and> uuid_bytes (PStr t) = Some raw"
    using uuid_text_hyphenate[OF assms] length_hyphenate[of "tohex raw"] assms uuid_bytes_of_spelling[OF assms] by auto
  moreover have "uuid_bytes v = Some raw \<longleftrightarrow> (\<exists>s. v = PStr s \<and> uuid_spelling raw s)" for v
    using uuid_bytes_of_spelling[OF assms] spelling_of_uuid_bytes uuid_bytes_str by metis
  ultimately show ?thesis by blast
qed

theorem uuid_roundtrip_witness:
  "\<exists>t. uuid_text (replicate 16 255) = Some t \<and> uuid_spelling (replicate 16 255) ''{FFFFffffFFFFffffFFFFffffFFFFffff}''
     \<and> uuid_bytes (PStr t) = Some (replicate 16 255)"
proof -
  define u raw where "u = ''{FFFFffffFFFFffffFFFFffffFFFFffff}''" and "raw = (replicate 16 255 :: byte list)"
  have "uuid_bytes (PStr u) = Some raw" "length raw = 16"
    unfolding u_def raw_def by code_simp+
  then have "\<exists>t. uuid_text raw = Some t \<and> uuid_spelling raw u \<and> uuid_bytes (PStr t) = Some raw"
    using uuid_roundtrip[of raw] by fastforce
  then show ?thesis
    unfolding u_def raw_def .
qed

theorem uuid_bytes_reads_digits_witness:
  "tohex [0, 17, 34, 51, 68, 85, 102, 119, 136, 153, 170, 187, 204, 221, 238, 255]
     = lower (uuid_digits ''{00112233-4455-6677-8899-AABBCCDDEEFF}'')"
proof -
  have "uuid_bytes (PStr ''{00112233-4455-6677-8899-AABBCCDDEEFF}'')
      = Some [0, 17, 34, 51, 68, 85, 102, 119, 136, 153, 170, 187, 204, 221, 238, 255]"
    by code_simp
  from uuid_bytes_reads_digits [OF this] show ?thesis by auto
qed

end
