(* ===== verification/Config.thy ===== *)
theory Config
  imports Uuid Binary64
begin

text \<open>
  \<open>millpond/config.py\<close>: the frozen \<open>Config\<close> dataclass, the parsers of its environment variables
  that other components rely on, and the liveness budget arithmetic. An environment is a map from
  names to values; a \<open>RuntimeError\<close> or \<open>ValueError\<close> at startup is \<open>Inl\<close> of a tag.
\<close>

subsection \<open>The configuration\<close>

text \<open>Filter values are a homogeneous tuple: all \<^const>\<open>PInt\<close> or all \<^const>\<open>PStr\<close>.\<close>

fun is_pint :: "pyval \<Rightarrow> bool" where
  "is_pint (PInt i) = True"
| "is_pint v = False"

fun is_pstr :: "pyval \<Rightarrow> bool" where
  "is_pstr (PStr s) = True"
| "is_pstr v = False"

definition homogeneous :: "pyval list \<Rightarrow> bool" where
  "homogeneous vs \<longleftrightarrow> (\<forall>v \<in> set vs. is_pint v) \<or> (\<forall>v \<in> set vs. is_pstr v)"

record config =
  destination :: string
  bootstrap_servers :: string
  topic :: string
  group_id :: string
  replica_count :: int
  ordinal :: int
  ducklake_schema :: "string option"
  ducklake_table :: "string option"
  ducklake_data_path :: "string option"
  ducklake_connection :: "string option"
  rds_host :: "string option"
  rds_port :: "string option"
  rds_database :: "string option"
  rds_username :: "string option"
  rds_password :: "string option"
  partition_by :: "string option"
  ducklake_max_retry_count :: "int option"
  ducklake_retry_wait_ms :: "int option"
  ducklake_retry_backoff :: "real option"
  duckdb_memory_limit :: "string option"
  hoglake_url :: "string option"
  hoglake_catalog :: "string option"
  hoglake_namespace :: "string option"
  hoglake_table :: "string option"
  hoglake_data_path :: "string option"
  hoglake_s3_endpoint :: "string option"
  hoglake_s3_access_key :: "string option"
  hoglake_s3_secret_key :: "string option"
  hoglake_s3_region :: "string option"
  hoglake_partition_by :: "(string \<times> string \<times> int option) list option"
  hoglake_max_retry_count :: "int option"
  hoglake_request_timeout_s :: "real option"
  hoglake_compression :: "string option"
  hoglake_compression_level :: "int option"
  hoglake_deferred_stats :: "bool option"
  flush_size :: int
  flush_interval_ms :: int
  fetch_min_bytes :: int
  fetch_max_wait_ms :: int
  consume_batch_size :: int
  stats_interval_ms :: int
  auto_offset_reset :: string
  broker_source :: string
  filter_keep_field :: "string option"
  filter_drop_field :: "string option"
  filter_values :: "pyval list option"
  filter_drop_values :: "pyval list option"
  include_values_url :: "string option"
  include_values_mode :: string
  include_values_poll_interval_s :: real
  include_values_removal_polls :: int
  include_values_request_timeout_s :: real
  include_values_startup_timeout_s :: real
  include_values_auth_header_name :: "string option"
  include_values_auth_token :: "string option"
  sort_by :: "string list option"
  typed_columns :: "(string \<times> string) list option"
  variant_columns :: "string list option"
  kafka_config_overrides :: "(string \<times> string) list"
  http_port :: int
  posthog_project_token :: "string option"
  posthog_logs_endpoint :: string
  service_namespace :: string
  service_instance_id :: "string option"
  service_version :: string

definition flush_interval_s :: "config \<Rightarrow> real" where
  "flush_interval_s cfg = fl (of_int (flush_interval_ms cfg) / 1000)"

definition table_label :: "config \<Rightarrow> string" where
  "table_label cfg =
     (let name = (if destination cfg = ''hoglake'' then hoglake_table cfg else ducklake_table cfg)
      in case name of None \<Rightarrow> ''unknown'' | Some t \<Rightarrow> if t = [] then ''unknown'' else t)"

subsection \<open>Parsers\<close>

text \<open>Why the process refuses to start.\<close>

datatype config_error =
    BadOrdinal string
  | MissingEnv string
  | BadFilterValues
  | UnpairedFilter string
  | UnsafeColumn string string
  | NotAUuid string pyval
  | BadIncludeValues string
  | BadNumber string string
  | BadTypedColumn string
  | VariantSuffix string
  | BadOffsetReset string
  | BadPort string
  | LivenessBudget real
  | BadPartition string string
  | UnsafeName string string
  | BadDestination string
  | OrdinalRange int int
  | OverrideNotHonored
  | VariantUnsupported
  | PartitionTrap
  | HalfS3Keys string
  | BadCompression string
  | BadDeferredStats string
  | BadDataPath string

type_synonym env = "string \<Rightarrow> string option"

text \<open>\<open>os.environ.get(name, "")\<close>.\<close>

definition env_get :: "env \<Rightarrow> string \<Rightarrow> string" where
  "env_get e name = (case e name of None \<Rightarrow> [] | Some v \<Rightarrow> v)"

text \<open>\<open>x or None\<close> for a string.\<close>

definition or_none :: "string \<Rightarrow> string option" where
  "or_none s = (if s = [] then None else Some s)"

text \<open>The pattern \<open>-(\d+)$\<close>; \<open>$\<close> also matches before a final newline.\<close>

definition parse_ordinal :: "string \<Rightarrow> config_error + int" where
  "parse_ordinal pod_name =
     (let s = (if pod_name \<noteq> [] \<and> last pod_name = CHR 0x0A then butlast pod_name else pod_name);
          ds = rev (takeWhile is_digit (rev s));
          rest = dropWhile is_digit (rev s)
      in if ds \<noteq> [] \<and> rest \<noteq> [] \<and> hd rest = CHR ''-'' then Inr (int (digits_value ds))
         else Inl (BadOrdinal pod_name))"

definition require_env :: "env \<Rightarrow> string \<Rightarrow> config_error + string" where
  "require_env e name =
     (case e name of None \<Rightarrow> Inl (MissingEnv name)
      | Some v \<Rightarrow> if v = [] then Inl (MissingEnv name) else Inr v)"

text \<open>\<open>tuple(int(t) for t in tokens)\<close>, falling back to the strings on the first failure.\<close>

definition parse_filter_values :: "string \<Rightarrow> config_error + pyval list" where
  "parse_filter_values raw =
     (let tokens = filter (\<lambda>t. t \<noteq> []) (map strip (split_on (CHR '','') raw)) in
      if tokens = [] then Inl BadFilterValues
      else if \<forall>t \<in> set tokens. parse_int t \<noteq> None
        then Inr (map (\<lambda>t. PInt (the (parse_int t))) tokens)
      else Inr (map PStr tokens))"

definition load_filter_fields ::
  "env \<Rightarrow> config_error + (string option \<times> string option \<times> pyval list option \<times> pyval list option)"
where
  "load_filter_fields e =
     (let keep = or_none (strip (env_get e ''MILLPOND_FILTER_KEEP_FIELD_NAME''));
          drp = or_none (strip (env_get e ''MILLPOND_FILTER_DROP_FIELD_NAME''));
          values_raw = strip (env_get e ''MILLPOND_FILTER_VALUES'');
          drop_values_raw = strip (env_get e ''MILLPOND_FILTER_DROP_VALUES'')
      in if (keep \<noteq> None) \<noteq> (values_raw \<noteq> []) then Inl (UnpairedFilter ''MILLPOND_FILTER_VALUES'')
         else if (drp \<noteq> None) \<noteq> (drop_values_raw \<noteq> [])
           then Inl (UnpairedFilter ''MILLPOND_FILTER_DROP_VALUES'')
         else case filter (\<lambda>f. \<not> SAFE_IDENTIFIER f) (List.map_filter id [keep, drp]) of
             f # _ \<Rightarrow> Inl (UnsafeColumn ''filter'' f)
           | [] \<Rightarrow>
             (case (case keep of None \<Rightarrow> Inr None
                    | Some _ \<Rightarrow> map_sum id Some (parse_filter_values values_raw)) of
                Inl err \<Rightarrow> Inl err
              | Inr vs \<Rightarrow>
                  (case (case drp of None \<Rightarrow> Inr None
                         | Some _ \<Rightarrow> map_sum id Some (parse_filter_values drop_values_raw)) of
                     Inl err \<Rightarrow> Inl err
                   | Inr dvs \<Rightarrow> Inr (keep, drp, vs, dvs))))"

text \<open>A static filter value of a column pinned to \<open>uuid\<close> has to be a UUID. A later pair of a \<open>dict\<close>
  built from pairs wins, hence the reversal.\<close>

definition require_uuid_filter_values ::
  "(string \<times> string) list option \<Rightarrow> string option \<Rightarrow> pyval list option \<Rightarrow> string
     \<Rightarrow> config_error + unit" where
  "require_uuid_filter_values typed field values values_var =
     (case (typed, field, values) of
        (Some tc, Some f, Some vs) \<Rightarrow>
          (if map_of (rev tc) f \<noteq> Some ''uuid'' then Inr ()
           else case filter (\<lambda>v. uuid_bytes v = None) vs of
               [] \<Rightarrow> Inr ()
             | v # _ \<Rightarrow> Inl (NotAUuid values_var v))
      | _ \<Rightarrow> Inr ())"

definition require_safe_column :: "string \<Rightarrow> string \<Rightarrow> config_error + unit" where
  "require_safe_column env_name name =
     (if SAFE_IDENTIFIER name then Inr () else Inl (UnsafeColumn env_name name))"

fun column_tokens :: "string \<Rightarrow> string list \<Rightarrow> string list \<Rightarrow> config_error + string list" where
  "column_tokens env_name cols [] = Inr cols"
| "column_tokens env_name cols (token # tokens) =
     (let name = strip token in
      if name = [] then column_tokens env_name cols tokens
      else case require_safe_column env_name name of
          Inl err \<Rightarrow> Inl err
        | Inr _ \<Rightarrow>
            if name \<in> set cols then column_tokens env_name cols tokens
            else column_tokens env_name (cols @ [name]) tokens)"

definition parse_column_list :: "env \<Rightarrow> string \<Rightarrow> config_error + string list option" where
  "parse_column_list e env_name =
     (let raw = strip (env_get e env_name) in
      if raw = [] then Inr None
      else case column_tokens env_name [] (split_on (CHR '','') raw) of
          Inl err \<Rightarrow> Inl err
        | Inr cols \<Rightarrow> Inr (if cols = [] then None else Some cols))"

definition load_sort_by :: "env \<Rightarrow> config_error + string list option" where
  "load_sort_by e = parse_column_list e ''MILLPOND_SORT_BY''"

definition COERCIBLE_TYPES :: "string list" where
  "COERCIBLE_TYPES = [''timestamptz'', ''bigint'', ''double'', ''boolean'', ''varchar'', ''uuid'']"

fun typed_tokens :: "(string \<times> string) list \<Rightarrow> string list \<Rightarrow> config_error + (string \<times> string) list" where
  "typed_tokens pairs [] = Inr pairs"
| "typed_tokens pairs (tok # tokens) =
     (let token = strip tok in
      if token = [] then typed_tokens pairs tokens
      else if CHR '':'' \<notin> set token then Inl (BadTypedColumn token)
      else
        let (n, t) = partition_on (CHR '':'') token; name = strip n; type_name = lower (strip t) in
        case require_safe_column ''MILLPOND_TYPED_COLUMNS'' name of
          Inl err \<Rightarrow> Inl err
        | Inr _ \<Rightarrow>
            if type_name \<notin> set COERCIBLE_TYPES then Inl (BadTypedColumn token)
            else case map_of pairs name of
                Some t' \<Rightarrow> if t' \<noteq> type_name then Inl (BadTypedColumn token)
                          else typed_tokens pairs tokens
              | None \<Rightarrow> typed_tokens (pairs @ [(name, type_name)]) tokens)"

definition load_typed_columns :: "env \<Rightarrow> config_error + (string \<times> string) list option" where
  "load_typed_columns e =
     (let raw = strip (env_get e ''MILLPOND_TYPED_COLUMNS'') in
      if raw = [] then Inr None
      else case typed_tokens [] (split_on (CHR '','') raw) of
          Inl err \<Rightarrow> Inl err
        | Inr pairs \<Rightarrow> Inr (if pairs = [] then None else Some pairs))"

definition VARIANT_COLUMN_SUFFIX :: string where
  "VARIANT_COLUMN_SUFFIX = ''_variant''"

definition variant_column_name :: "string \<Rightarrow> string" where
  "variant_column_name source = source @ VARIANT_COLUMN_SUFFIX"

definition load_variant_columns :: "env \<Rightarrow> config_error + string list option" where
  "load_variant_columns e =
     (case parse_column_list e ''MILLPOND_VARIANT_COLUMNS'' of
        Inl err \<Rightarrow> Inl err
      | Inr None \<Rightarrow> Inr None
      | Inr (Some cols) \<Rightarrow>
          (case filter (\<lambda>n. ends_with VARIANT_COLUMN_SUFFIX (lower n)) cols of
             [] \<Rightarrow> Inr (Some cols)
           | n # _ \<Rightarrow> Inl (VariantSuffix n)))"

definition load_auto_offset_reset :: "env \<Rightarrow> config_error + string" where
  "load_auto_offset_reset e =
     (let raw = lower (strip (case e ''KAFKA_AUTO_OFFSET_RESET'' of None \<Rightarrow> ''earliest'' | Some v \<Rightarrow> v)) in
      if raw \<notin> {''earliest'', ''latest''} then Inl (BadOffsetReset raw) else Inr raw)"

definition positive_int :: "env \<Rightarrow> string \<Rightarrow> int \<Rightarrow> config_error + int" where
  "positive_int e env_name dflt =
     (let raw = strip (env_get e env_name) in
      if raw = [] then Inr dflt
      else case parse_int raw of
          None \<Rightarrow> Inl (BadNumber env_name raw)
        | Some value \<Rightarrow> if value \<le> 0 then Inl (BadNumber env_name raw) else Inr value)"

definition load_http_port :: "env \<Rightarrow> config_error + int" where
  "load_http_port e =
     (let s = strip (env_get e ''MILLPOND_HTTP_PORT''); raw = (if s = [] then ''8000'' else s) in
      case parse_int raw of
        None \<Rightarrow> Inl (BadPort raw)
      | Some port \<Rightarrow> if 0 \<le> port \<and> port \<le> 65535 then Inr port else Inl (BadPort raw))"

definition default_group_id :: "string \<Rightarrow> string \<Rightarrow> string \<Rightarrow> string" where
  "default_group_id dest topic_name dest_table =
     (if dest = ''ducklake'' then ''millpond-'' @ topic_name @ ''-'' @ dest_table
      else ''millpond-'' @ dest @ ''-'' @ topic_name @ ''-'' @ dest_table)"

subsection \<open>The include-values group\<close>

record include_cfg =
  iv_url :: "string option"
  iv_mode :: string
  iv_poll_interval_s :: real
  iv_removal_polls :: int
  iv_request_timeout_s :: real
  iv_startup_timeout_s :: real
  iv_auth_header_name :: "string option"
  iv_auth_token :: "string option"

text \<open>\<open>cast(os.environ.get(name, default))\<close>; the failed cast is a \<open>RuntimeError\<close>.\<close>

definition parse_number :: "env \<Rightarrow> string \<Rightarrow> string \<Rightarrow> (string \<Rightarrow> 'n option) \<Rightarrow> config_error + 'n" where
  "parse_number e env_name dflt cast =
     (let raw = (case e env_name of None \<Rightarrow> dflt | Some v \<Rightarrow> v) in
      case cast raw of None \<Rightarrow> Inl (BadNumber env_name raw) | Some n \<Rightarrow> Inr n)"

text \<open>\<open>pf\<close> is \<open>float(s)\<close>, with \<open>None\<close> for the \<open>ValueError\<close>.\<close>

definition load_include_values_config ::
  "(string \<Rightarrow> real option) \<Rightarrow> env \<Rightarrow> string option \<Rightarrow> pyval list option \<Rightarrow> config_error + include_cfg" where
  "load_include_values_config pf e keep_field values =
     (let url = or_none (strip (env_get e ''MILLPOND_INCLUDE_VALUES_URL''));
          mode_raw = lower (strip (env_get e ''MILLPOND_INCLUDE_VALUES_MODE''));
          mode = (if mode_raw = [] then ''shadow'' else mode_raw);
          header_name = or_none (strip (env_get e ''MILLPOND_INCLUDE_VALUES_AUTH_HEADER_NAME''));
          token = or_none (strip (env_get e ''MILLPOND_INCLUDE_VALUES_AUTH_TOKEN''))
      in if url = None then
           (if mode_raw \<noteq> [] then Inl (BadIncludeValues ''mode without url'')
            else if header_name \<noteq> None \<or> token \<noteq> None then Inl (BadIncludeValues ''auth without url'')
            else Inr \<lparr>iv_url = None, iv_mode = ''static'', iv_poll_interval_s = 60,
              iv_removal_polls = 5, iv_request_timeout_s = 10, iv_startup_timeout_s = 60,
              iv_auth_header_name = None, iv_auth_token = None\<rparr>)
         else if mode \<notin> {''shadow'', ''authoritative''} then Inl (BadIncludeValues ''mode'')
         else if keep_field = None then Inl (BadIncludeValues ''url without keep filter'')
         else if mode = ''shadow'' \<and> values = None then Inl (BadIncludeValues ''shadow without values'')
         else if (header_name \<noteq> None) \<noteq> (token \<noteq> None) then Inl (BadIncludeValues ''auth pair'')
         else case parse_number e ''MILLPOND_INCLUDE_VALUES_POLL_INTERVAL_S'' ''60'' pf of
             Inl err \<Rightarrow> Inl err
           | Inr poll_interval \<Rightarrow>
         (case parse_number e ''MILLPOND_INCLUDE_VALUES_REMOVAL_POLLS'' ''5'' parse_int of
             Inl err \<Rightarrow> Inl err
           | Inr removal_polls \<Rightarrow>
         (case parse_number e ''MILLPOND_INCLUDE_VALUES_REQUEST_TIMEOUT_S'' ''10'' pf of
             Inl err \<Rightarrow> Inl err
           | Inr request_timeout \<Rightarrow>
         (case parse_number e ''MILLPOND_INCLUDE_VALUES_STARTUP_TIMEOUT_S'' ''60'' pf of
             Inl err \<Rightarrow> Inl err
           | Inr startup_timeout \<Rightarrow>
               if poll_interval \<le> 0 then Inl (BadIncludeValues ''poll interval'')
               else if removal_polls < 1 then Inl (BadIncludeValues ''removal polls'')
               else if request_timeout \<le> 0 \<or> startup_timeout \<le> 0 then Inl (BadIncludeValues ''timeout'')
               else Inr \<lparr>iv_url = url, iv_mode = mode, iv_poll_interval_s = poll_interval,
                 iv_removal_polls = removal_polls, iv_request_timeout_s = request_timeout,
                 iv_startup_timeout_s = startup_timeout, iv_auth_header_name = header_name,
                 iv_auth_token = token\<rparr>))))"

subsection \<open>Hoglake partition specs\<close>

fun split_commas_loop :: "string \<Rightarrow> nat \<Rightarrow> string \<Rightarrow> string list" where
  "split_commas_loop [] depth current = [strip current]"
| "split_commas_loop (ch # raw) depth current =
     (let d = (if ch = CHR ''('' then depth + 1 else if ch = CHR '')'' then depth - 1 else depth) in
      if ch = CHR '','' \<and> d = 0 then strip current # split_commas_loop raw d []
      else split_commas_loop raw d (current @ [ch]))"

definition split_top_level_commas :: "string \<Rightarrow> string list" where
  "split_top_level_commas raw = filter (\<lambda>e. e \<noteq> []) (split_commas_loop raw 0 [])"

definition HOGLAKE_TRANSFORMS :: "string list" where
  "HOGLAKE_TRANSFORMS = [''identity'', ''year'', ''month'', ''day'', ''hour'', ''bucket'']"

text \<open>
  The pattern \<open>^([A-Za-z_][A-Za-z0-9_]*)\s*\(\s*(.*?)\s*\)$\<close> on a stripped entry: a name, then the
  text between the first parenthesis and the final one, stripped; \<open>.\<close> does not match a newline.
\<close>

definition partition_call :: "string \<Rightarrow> (string \<times> string) option" where
  "partition_call entry =
     (let name = takeWhile ident_char entry;
          rest = dropWhile is_space (dropWhile ident_char entry)
      in if name = [] \<or> \<not> ident_start (hd name) then None
         else if length rest < 2 \<or> hd rest \<noteq> CHR ''('' \<or> last rest \<noteq> CHR '')'' then None
         else let arg = strip (butlast (tl rest)) in
           if CHR 0x0A \<in> set arg then None else Some (name, arg))"

definition partition_entry :: "string \<Rightarrow> config_error + (string \<times> string \<times> int option)" where
  "partition_entry entry =
     (let found =
        (case partition_call entry of
           None \<Rightarrow>
             (if CHR ''('' \<in> set entry \<or> CHR '')'' \<in> set entry
              then Inl (BadPartition entry ''malformed'')
              else Inr (entry, ''identity'', None))
         | Some (name, arg) \<Rightarrow>
             (let transform = lower name;
                  args = (if arg = [] then [] else map strip (split_on (CHR '','') arg))
              in if transform \<notin> set HOGLAKE_TRANSFORMS
                   then Inl (BadPartition entry ''unknown transform'')
                 else if transform = ''bucket'' then
                   (if length args \<noteq> 2 then Inl (BadPartition entry ''must be bucket(col, N)'')
                    else case parse_int (args ! 1) of
                        None \<Rightarrow> Inl (BadPartition entry ''non-integer bucket count'')
                      | Some param \<Rightarrow>
                          if param \<le> 0 then Inl (BadPartition entry ''non-positive bucket count'')
                          else Inr (args ! 0, transform, Some param))
                 else if length args \<noteq> 1 \<or> args ! 0 = []
                   then Inl (BadPartition entry ''must be transform(col)'')
                 else Inr (args ! 0, transform, None)))
      in case found of
           Inl err \<Rightarrow> Inl err
         | Inr (column, transform, param) \<Rightarrow>
             if \<not> SAFE_IDENTIFIER column then Inl (BadPartition entry ''unsafe column name'')
             else Inr (column, transform, param))"

fun partition_entries ::
  "(string \<times> string \<times> int option) list \<Rightarrow> string list
     \<Rightarrow> config_error + (string \<times> string \<times> int option) list" where
  "partition_entries flds [] = Inr flds"
| "partition_entries flds (entry # entries) =
     (case partition_entry entry of
        Inl err \<Rightarrow> Inl err
      | Inr triple \<Rightarrow>
          if triple \<in> set flds then Inl (BadPartition entry ''duplicated'')
          else partition_entries (flds @ [triple]) entries)"

definition parse_hoglake_partition_by ::
  "string \<Rightarrow> config_error + (string \<times> string \<times> int option) list" where
  "parse_hoglake_partition_by raw =
     (let entries = split_top_level_commas raw in
      if entries = [] then Inl (BadPartition raw ''no entries'')
      else partition_entries [] entries)"

subsection \<open>The liveness budget\<close>

definition LIVENESS_BUDGET_S :: real where "LIVENESS_BUDGET_S = 480"
definition BACKOFF_BASE_S :: real where "BACKOFF_BASE_S = 1"
definition BACKOFF_CAP_S :: real where "BACKOFF_CAP_S = 30"
definition BACKOFF_JITTER :: real where "BACKOFF_JITTER = 1/4"
definition DUCKLAKE_OUTER_ATTEMPTS :: nat where "DUCKLAKE_OUTER_ATTEMPTS = 3"
definition PREPARE_ALLOWANCE_S :: real where "PREPARE_ALLOWANCE_S = 20"
definition FLUSH_DEADLINE_MARGIN_S :: real where "FLUSH_DEADLINE_MARGIN_S = 30"

text \<open>The backoff ladder between \<open>n\<close> attempts, before jitter.\<close>

definition backoff_ladder :: "nat \<Rightarrow> real" where
  "backoff_ladder n =
     sum_list (map (\<lambda>attempt. min (BACKOFF_BASE_S * 2 ^ attempt) BACKOFF_CAP_S) [0..<n - 1])"

definition hoglake_worst_case_flush_s :: "int \<Rightarrow> real \<Rightarrow> real" where
  "hoglake_worst_case_flush_s max_retries timeout_s =
     of_int max_retries * (timeout_s + PREPARE_ALLOWANCE_S)
     + backoff_ladder (nat max_retries) * (1 + BACKOFF_JITTER)"

definition ducklake_worst_case_flush_s :: "nat \<Rightarrow> int \<Rightarrow> real \<Rightarrow> real" where
  "ducklake_worst_case_flush_s max_retries wait_ms backoff =
     (let inner = sum_list (map (\<lambda>n. of_int wait_ms / 1000 * backoff ^ n) [0..<max_retries])
      in of_nat DUCKLAKE_OUTER_ATTEMPTS * inner
         + backoff_ladder DUCKLAKE_OUTER_ATTEMPTS * (1 + BACKOFF_JITTER))"

definition check_ducklake_liveness_budget :: "nat \<Rightarrow> int \<Rightarrow> real \<Rightarrow> config_error + unit" where
  "check_ducklake_liveness_budget max_retries wait_ms backoff =
     (let worst = ducklake_worst_case_flush_s max_retries wait_ms backoff in
      if worst \<le> LIVENESS_BUDGET_S then Inr () else Inl (LivenessBudget worst))"

definition hoglake_flush_deadline :: "real \<Rightarrow> real \<times> real" where
  "hoglake_flush_deadline timeout_s =
     (LIVENESS_BUDGET_S - FLUSH_DEADLINE_MARGIN_S, timeout_s + PREPARE_ALLOWANCE_S)"

definition check_hoglake_liveness_budget :: "int \<Rightarrow> real \<Rightarrow> config_error + unit" where
  "check_hoglake_liveness_budget max_retries timeout_s =
     (let worst = hoglake_worst_case_flush_s max_retries timeout_s in
      if worst \<le> LIVENESS_BUDGET_S then Inr () else Inl (LivenessBudget worst))"

lemmas budget_defs = LIVENESS_BUDGET_S_def BACKOFF_BASE_S_def BACKOFF_CAP_S_def BACKOFF_JITTER_def
  DUCKLAKE_OUTER_ATTEMPTS_def PREPARE_ALLOWANCE_S_def FLUSH_DEADLINE_MARGIN_S_def

subsection \<open>What the parsers return\<close>

lemma parse_ordinal_pod:
  assumes "0 \<le> n"
  shows "parse_ordinal (base @ ''-'' @ str_int n) = Inr n"
proof -
  let ?d = "digits_of (nat n)"
  have s: "str_int n = ?d" using assms by (simp add: str_int_def)
  have dig: "\<forall>c \<in> set ?d. is_digit c" using digits_of_digits by blast
  then have "is_digit (last ?d)" by simp
  then have nl: "last ?d \<noteq> CHR 0x0A" by (auto simp: is_digit_def code_def)
  have "takeWhile is_digit (rev ?d @ rev ''-'' @ rev base) = rev ?d"
    using dig by (subst takeWhile_append2) (auto simp: is_digit_def code_def)
  moreover have "dropWhile is_digit (rev ?d @ rev ''-'' @ rev base) = CHR ''-'' # rev base"
    using dig by (subst dropWhile_append2) (auto simp: is_digit_def code_def)
  moreover have "\<not> is_digit CHR ''-''" by (simp add: is_digit_def code_def)
  ultimately show ?thesis using nl assms
    by (simp add: parse_ordinal_def s Let_def digits_value_digits_of)
qed

lemma column_tokens_Cons:
  "column_tokens v cols (tok # toks) =
     (if strip tok = [] then column_tokens v cols toks
      else if \<not> SAFE_IDENTIFIER (strip tok) then Inl (UnsafeColumn v (strip tok))
      else if strip tok \<in> set cols then column_tokens v cols toks
      else column_tokens v (cols @ [strip tok]) toks)"
  by (simp add: Let_def require_safe_column_def)

declare column_tokens.simps(2) [simp del]

lemma column_tokens_ok:
  "column_tokens v cols toks = Inr out \<Longrightarrow> distinct cols \<Longrightarrow> \<forall>c \<in> set cols. SAFE_IDENTIFIER c
     \<Longrightarrow> distinct out \<and> (\<forall>c \<in> set out. SAFE_IDENTIFIER c)"
proof (induction toks arbitrary: cols)
  case (Cons tok toks)
  consider "column_tokens v cols toks = Inr out"
    | "SAFE_IDENTIFIER (strip tok)" "strip tok \<notin> set cols"
      "column_tokens v (cols @ [strip tok]) toks = Inr out"
    using Cons.prems(1) unfolding column_tokens_Cons by (metis Inl_Inr_False)
  then show ?case
  proof cases
    case 1
    then show ?thesis using Cons.IH Cons.prems(2,3) by blast
  next
    case 2
    have "distinct (cols @ [strip tok])" using Cons.prems(2) 2(2) by simp
    moreover have "\<forall>c \<in> set (cols @ [strip tok]). SAFE_IDENTIFIER c"
      using Cons.prems(3) 2(1) by (simp add: ball_Un)
    ultimately show ?thesis by (rule Cons.IH [OF 2(3)])
  qed
qed simp

lemma typed_tokens_Cons:
  assumes "typed_tokens pairs (tok # toks) = Inr out"
    and "typed_tokens pairs toks = Inr out \<Longrightarrow> P"
    and "\<And>n t. SAFE_IDENTIFIER n \<Longrightarrow> t \<in> set COERCIBLE_TYPES \<Longrightarrow> map_of pairs n = None
      \<Longrightarrow> typed_tokens (pairs @ [(n, t)]) toks = Inr out \<Longrightarrow> P"
  shows P
proof -
  obtain n t where nt: "partition_on (CHR '':'') (strip tok) = (n, t)" by fastforce
  show P using assms nt
    by (auto simp: Let_def require_safe_column_def split: if_splits option.splits)
qed

declare typed_tokens.simps(2) [simp del]

lemma typed_tokens_ok:
  "typed_tokens pairs toks = Inr out \<Longrightarrow> distinct (map fst pairs)
     \<Longrightarrow> \<forall>(n, t) \<in> set pairs. SAFE_IDENTIFIER n \<and> t \<in> set COERCIBLE_TYPES
     \<Longrightarrow> distinct (map fst out) \<and> (\<forall>(n, t) \<in> set out. SAFE_IDENTIFIER n \<and> t \<in> set COERCIBLE_TYPES)"
proof (induction toks arbitrary: pairs)
  case (Cons tok toks)
  show ?case
  proof (rule typed_tokens_Cons [OF Cons.prems(1)], goal_cases)
    case 1
    then show ?case using Cons.IH Cons.prems(2,3) by blast
  next
    case (2 n t)
    have "distinct (map fst (pairs @ [(n, t)]))"
      using Cons.prems(2) 2(3) by (auto simp: map_of_eq_None_iff)
    moreover have "\<forall>(n, t) \<in> set (pairs @ [(n, t)]). SAFE_IDENTIFIER n \<and> t \<in> set COERCIBLE_TYPES"
      using Cons.prems(3) 2(1,2) by auto
    ultimately show ?case using Cons.IH 2(4) by blast
  qed
qed simp

lemma parse_filter_values_homogeneous:
  "parse_filter_values raw = Inr vs \<Longrightarrow> vs \<noteq> [] \<and> homogeneous vs"
  by (auto simp: parse_filter_values_def Let_def homogeneous_def split: if_splits)

lemma partition_entries_ok:
  "partition_entries flds es = Inr out \<Longrightarrow> distinct flds
     \<Longrightarrow> distinct out \<and> (\<forall>t \<in> set out. t \<in> set flds \<or> (\<exists>e \<in> set es. partition_entry e = Inr t))"
proof (induction es arbitrary: flds)
  case (Cons e es)
  then obtain t where t: "partition_entry e = Inr t" "t \<notin> set flds"
    "partition_entries (flds @ [t]) es = Inr out"
    by (auto split: sum.splits if_splits)
  with Cons.IH [OF t(3)] Cons.prems(2) show ?case by auto
qed simp

lemma partition_entry_ok:
  "partition_entry e = Inr (column, transform, param) \<Longrightarrow>
     SAFE_IDENTIFIER column \<and> transform \<in> set HOGLAKE_TRANSFORMS
     \<and> (transform = ''bucket'' \<longleftrightarrow> param \<noteq> None) \<and> (\<forall>n. param = Some n \<longrightarrow> 0 < n)"
  by (auto simp: partition_entry_def Let_def HOGLAKE_TRANSFORMS_def
      split: sum.splits option.splits prod.splits if_splits) metis

text \<open>An accepted partition spec has no duplicate field; every column is a safe identifier and
  every transform is in the server's vocabulary, with a positive parameter exactly on buckets.\<close>

theorem hoglake_partition_by_valid:
  assumes "parse_hoglake_partition_by raw = Inr spec"
  shows "distinct spec \<and> (\<forall>(column, transform, param) \<in> set spec.
     SAFE_IDENTIFIER column \<and> transform \<in> set HOGLAKE_TRANSFORMS
     \<and> (transform = ''bucket'' \<longleftrightarrow> param \<noteq> None) \<and> (\<forall>n. param = Some n \<longrightarrow> 0 < n))"
proof -
  have "partition_entries [] (split_top_level_commas raw) = Inr spec"
    using assms by (simp add: parse_hoglake_partition_by_def Let_def split: if_splits)
  from partition_entries_ok [OF this] show ?thesis using partition_entry_ok by fastforce
qed

theorem hoglake_partition_by_valid_witness:
  "distinct [(''team_id'', ''bucket'', Some (16::int)), (''ts'', ''day'', None)]"
proof -
  have "parse_hoglake_partition_by ''bucket(team_id, 16), day(ts)''
      = Inr [(''team_id'', ''bucket'', Some 16), (''ts'', ''day'', None)]"
    by code_simp
  from hoglake_partition_by_valid [OF this] show ?thesis ..
qed

text \<open>The typed-column map is a function from safe column names to known target types.\<close>

theorem typed_columns_valid:
  assumes "load_typed_columns e = Inr (Some pairs)"
  shows "pairs \<noteq> [] \<and> distinct (map fst pairs)
    \<and> (\<forall>(n, t) \<in> set pairs. SAFE_IDENTIFIER n \<and> t \<in> set COERCIBLE_TYPES)"
proof -
  have "typed_tokens [] (split_on (CHR '','') (strip (env_get e ''MILLPOND_TYPED_COLUMNS''))) = Inr pairs"
    and "pairs \<noteq> []"
    using assms by (auto simp: load_typed_columns_def Let_def split: if_splits sum.splits)
  then show ?thesis using typed_tokens_ok [of "[]"] by auto
qed

theorem typed_columns_valid_witness:
  "distinct (map fst [(''ts'', ''timestamptz''), (''id'', ''uuid'')])"
proof -
  have "load_typed_columns (\<lambda>n. if n = ''MILLPOND_TYPED_COLUMNS''
      then Some ''ts:timestamptz, id : UUID,ts:timestamptz,'' else None)
      = Inr (Some [(''ts'', ''timestamptz''), (''id'', ''uuid'')])"
    by code_simp
  from typed_columns_valid [OF this] show ?thesis by simp
qed

subsection \<open>Budget arithmetic\<close>

lemma backoff_step_bounds:
  "0 \<le> min (BACKOFF_BASE_S * 2 ^ n) BACKOFF_CAP_S"
  "min (BACKOFF_BASE_S * 2 ^ n) BACKOFF_CAP_S \<le> BACKOFF_CAP_S"
  by (simp_all add: budget_defs)

lemma backoff_ladder_nonneg: "0 \<le> backoff_ladder n"
  unfolding backoff_ladder_def by (intro sum_list_nonneg) (auto simp: budget_defs)

lemma backoff_ladder_Suc:
  "backoff_ladder (Suc (Suc n)) =
     backoff_ladder (Suc n) + min (BACKOFF_BASE_S * 2 ^ n) BACKOFF_CAP_S"
  by (simp add: backoff_ladder_def)

lemma hoglake_check_ok:
  "check_hoglake_liveness_budget n t = Inr () \<longleftrightarrow> hoglake_worst_case_flush_s n t \<le> LIVENESS_BUDGET_S"
  by (simp add: check_hoglake_liveness_budget_def Let_def)

lemma ducklake_check_ok:
  "check_ducklake_liveness_budget n w b = Inr () \<longleftrightarrow> ducklake_worst_case_flush_s n w b \<le> LIVENESS_BUDGET_S"
  by (simp add: check_ducklake_liveness_budget_def Let_def)

text \<open>A configuration the examples of the components start from.\<close>

definition demo_cfg :: config where
  "demo_cfg = \<lparr>destination = ''ducklake'', bootstrap_servers = ''b:9092'', topic = ''events'',
     group_id = ''g'', replica_count = 1, ordinal = 0, ducklake_schema = Some ''main'',
     ducklake_table = Some ''t'', ducklake_data_path = Some ''s3://bkt/'', ducklake_connection = Some '':memory:'',
     rds_host = Some ''h'', rds_port = Some ''5432'', rds_database = Some ''ducklake'',
     rds_username = Some ''ducklake'', rds_password = Some ''p'', partition_by = None,
     ducklake_max_retry_count = Some 100, ducklake_retry_wait_ms = Some 250,
     ducklake_retry_backoff = Some 1, duckdb_memory_limit = None,
     hoglake_url = None, hoglake_catalog = None, hoglake_namespace = None, hoglake_table = None,
     hoglake_data_path = None, hoglake_s3_endpoint = None, hoglake_s3_access_key = None,
     hoglake_s3_secret_key = None, hoglake_s3_region = None, hoglake_partition_by = None,
     hoglake_max_retry_count = None, hoglake_request_timeout_s = None, hoglake_compression = None,
     hoglake_compression_level = None, hoglake_deferred_stats = None,
     flush_size = 100, flush_interval_ms = 60000,
     fetch_min_bytes = 1, fetch_max_wait_ms = 500, consume_batch_size = 1000,
     stats_interval_ms = 5000, auto_offset_reset = ''earliest'', broker_source = [],
     filter_keep_field = None, filter_drop_field = None, filter_values = None, filter_drop_values = None,
     include_values_url = None, include_values_mode = ''static'', include_values_poll_interval_s = 60,
     include_values_removal_polls = 5, include_values_request_timeout_s = 10,
     include_values_startup_timeout_s = 60, include_values_auth_header_name = None,
     include_values_auth_token = None,
     sort_by = None, typed_columns = None, variant_columns = None, kafka_config_overrides = [],
     http_port = 8000, posthog_project_token = None, posthog_logs_endpoint = ''l'',
     service_namespace = ''millpond'', service_instance_id = None, service_version = ''unknown''\<rparr>"

definition no_repr :: "real \<Rightarrow> string" where
  "no_repr x = []"

end
