(* ===== verification/Consumer.thy ===== *)
theory Consumer
  imports Config
begin

text \<open>
  \<open>millpond/consumer.py\<close> and the lag sampling of \<open>millpond/main.py\<close>: the static partition
  assignment, the librdkafka configuration, the startup recovery of stale committed offsets, and the
  gauges. What the broker answers (committed offsets, watermarks, whether a commit succeeds) is an
  argument; \<open>oinv\<close> is \<open>confluent_kafka.OFFSET_INVALID\<close>. The librdkafka statistics callback is not
  modelled.
\<close>

subsection \<open>Partition assignment\<close>

text \<open>\<open>load\<close> refuses a replica count that is not above the (non-negative) ordinal, so the modulus is
  positive.\<close>

definition compute_assignment :: "int \<Rightarrow> int \<Rightarrow> int \<Rightarrow> int list" where
  "compute_assignment n_partitions n_replicas ord =
     filter (\<lambda>p. p mod n_replicas = ord) [0..n_partitions - 1]"

text \<open>A topic's metadata: its error, if any, and its partitions.\<close>

datatype kafka_error = TopicNotFound string | TopicError string | NoPartitions int
  | NoSigner | NoRegion

definition discover_partition_count ::
  "(string \<Rightarrow> (string option \<times> int) option) \<Rightarrow> config \<Rightarrow> kafka_error + int" where
  "discover_partition_count list_topics cfg =
     (case list_topics (topic cfg) of
        None \<Rightarrow> Inl (TopicNotFound (topic cfg))
      | Some (Some err, count) \<Rightarrow> Inl (TopicError err)
      | Some (None, count) \<Rightarrow> Inr count)"

lemma set_compute_assignment:
  "set (compute_assignment n r i) = {p. 0 \<le> p \<and> p < n \<and> p mod r = i}"
  by (auto simp: compute_assignment_def)

text \<open>C27: the pods of a stateful set cover every partition exactly once. Pod names are parsed by
  \<open>parse_ordinal\<close>, so the theorem is about the names the pods carry.\<close>

theorem assignment_partitions_topic:
  assumes "0 < r"
  shows "\<forall>p. 0 \<le> p \<and> p < n \<longrightarrow>
    (\<exists>!i. 0 \<le> i \<and> i < r \<and> (\<exists>k. parse_ordinal (base @ ''-'' @ str_int i) = Inr k
            \<and> p \<in> set (compute_assignment n r k)))"
proof (intro allI impI)
  fix p :: int assume p: "0 \<le> p \<and> p < n"
  have pod: "parse_ordinal (base @ CHR ''-'' # str_int i) = Inr i" if "0 \<le> i" for i
    using parse_ordinal_pod [OF that] by simp
  have "0 \<le> p mod r" "p mod r < r" using assms by simp_all
  then show "\<exists>!i. 0 \<le> i \<and> i < r \<and> (\<exists>k. parse_ordinal (base @ ''-'' @ str_int i) = Inr k
            \<and> p \<in> set (compute_assignment n r k))"
    using p by (intro ex1I [of _ "p mod r"]) (auto simp: pod set_compute_assignment)
qed

theorem assignment_partitions_topic_witness:
  "\<exists>!i::int. 0 \<le> i \<and> i < 3 \<and> (\<exists>k. parse_ordinal (''millpond'' @ ''-'' @ str_int i) = Inr k
     \<and> 7 \<in> set (compute_assignment 64 3 k))"
  using assignment_partitions_topic [of 3 64 "''millpond''"] by simp

subsection \<open>The librdkafka configuration\<close>

datatype kval = KStr string | KInt int | KBool bool | KOauth string | KStats

text \<open>
  \<open>_maybe_attach_oauth_cb\<close>: \<open>have_signer\<close> says whether the signer package imports. The result is
  the environment (whose \<open>AWS_ROLE_SESSION_NAME\<close> gets a default) and the configuration with the
  callback for the region.
\<close>

definition maybe_attach_oauth_cb ::
  "bool \<Rightarrow> env \<Rightarrow> (string, kval) dict \<Rightarrow> kafka_error + env \<times> (string, kval) dict" where
  "maybe_attach_oauth_cb have_signer e config =
     (if map_of config ''sasl.mechanisms'' \<noteq> Some (KStr ''OAUTHBEARER'') then Inr (e, config)
      else if \<not> have_signer then Inl NoSigner
      else
        let r1 = env_get e ''AWS_REGION'';
            region = (if r1 \<noteq> [] then r1 else env_get e ''AWS_DEFAULT_REGION'')
        in if region = [] then Inl NoRegion
           else let e' = (if e ''AWS_ROLE_SESSION_NAME'' = None
                          then e(''AWS_ROLE_SESSION_NAME'' \<mapsto> ''millpond'') else e)
             in Inr (e', AList.update ''oauth_cb'' (KOauth region) config))"

definition base_kafka_config ::
  "bool \<Rightarrow> env \<Rightarrow> config \<Rightarrow> kafka_error + env \<times> (string, kval) dict" where
  "base_kafka_config have_signer e cfg =
     maybe_attach_oauth_cb have_signer e
       (fold (\<lambda>(k, v) d. AList.update k (KStr v) d) (kafka_config_overrides cfg)
         [(''bootstrap.servers'', KStr (bootstrap_servers cfg)),
          (''client.id'', KStr (''millpond-'' @ topic cfg @ ''-'' @ table_label cfg @ ''-''
             @ str_int (ordinal cfg)))])"

text \<open>The explicit settings of \<open>create\<close>, written over the base; then one \<open>setdefault\<close>.\<close>

definition consumer_settings :: "config \<Rightarrow> (string, kval) dict" where
  "consumer_settings cfg =
     [(''group.id'', KStr (group_id cfg)),
      (''auto.offset.reset'', KStr (auto_offset_reset cfg)),
      (''enable.auto.commit'', KBool False),
      (''enable.auto.offset.store'', KBool False),
      (''fetch.min.bytes'', KInt (fetch_min_bytes cfg)),
      (''fetch.wait.max.ms'', KInt (fetch_max_wait_ms cfg)),
      (''max.poll.interval.ms'', KInt 600000),
      (''statistics.interval.ms'', KInt (stats_interval_ms cfg)),
      (''stats_cb'', KStats)]"

definition consumer_config :: "config \<Rightarrow> (string, kval) dict \<Rightarrow> (string, kval) dict" where
  "consumer_config cfg base =
     (let d = fold (\<lambda>(k, v) d. AList.update k v d) (consumer_settings cfg) base in
      if map_of d ''queued.max.messages.kbytes'' = None
      then AList.update ''queued.max.messages.kbytes'' (KInt 16384) d else d)"

lemma map_of_fold_update:
  "map_of (fold (\<lambda>(k, v) d. AList.update k v d) kvs d) = map_of d ++ map_of (rev kvs)"
proof (induction kvs arbitrary: d)
  case (Cons kv kvs)
  obtain k v where kv: "kv = (k, v)" by fastforce
  have "(map_of d)(k \<mapsto> v) ++ map_of (rev kvs) = map_of d ++ ([k \<mapsto> v] ++ map_of (rev kvs))"
    by (rule ext) (simp add: map_add_def split: option.splits)
  with Cons show ?case by (simp add: kv) (simp add: fun_upd_def)
qed simp

text \<open>no environment override reaches the settings at-least-once delivery rests on: whatever the
  base configuration holds, offsets are never committed or stored by librdkafka itself, the group and
  the reset policy are the validated ones, and the prefetch queue is bounded.\<close>

theorem consumer_config_pins:
  "map_of (consumer_config cfg base) ''enable.auto.commit'' = Some (KBool False)
   \<and> map_of (consumer_config cfg base) ''enable.auto.offset.store'' = Some (KBool False)
   \<and> map_of (consumer_config cfg base) ''group.id'' = Some (KStr (group_id cfg))
   \<and> map_of (consumer_config cfg base) ''auto.offset.reset'' = Some (KStr (auto_offset_reset cfg))
   \<and> map_of (consumer_config cfg base) ''queued.max.messages.kbytes'' =
       (case map_of base ''queued.max.messages.kbytes'' of
          None \<Rightarrow> Some (KInt 16384) | Some v \<Rightarrow> Some v)"
proof -
  define d where "d = fold (\<lambda>(k, v) d. AList.update k v d) (consumer_settings cfg) base"
  have d: "map_of d = map_of base ++ map_of (rev (consumer_settings cfg))"
    unfolding d_def by (rule map_of_fold_update)
  have c: "map_of (consumer_config cfg base) = (if map_of d ''queued.max.messages.kbytes'' = None
      then (map_of d)(''queued.max.messages.kbytes'' \<mapsto> KInt 16384) else map_of d)"
    by (simp add: consumer_config_def d_def Let_def)
  have q: "map_of d ''queued.max.messages.kbytes'' = map_of base ''queued.max.messages.kbytes''"
    and s: "map_of d ''enable.auto.commit'' = Some (KBool False)"
      "map_of d ''enable.auto.offset.store'' = Some (KBool False)"
      "map_of d ''group.id'' = Some (KStr (group_id cfg))"
      "map_of d ''auto.offset.reset'' = Some (KStr (auto_offset_reset cfg))"
    by (simp_all add: d consumer_settings_def map_add_def)
  show ?thesis unfolding c using q s by (simp split: option.split)
qed

subsection \<open>Watermarks\<close>

record tp =
  tp_topic :: string
  tp_partition :: int
  tp_offset :: int
  tp_error :: "string option"

definition TopicPartition :: "string \<Rightarrow> int \<Rightarrow> int \<Rightarrow> tp" where
  "TopicPartition t p off = \<lparr>tp_topic = t, tp_partition = p, tp_offset = off, tp_error = None\<rparr>"

text \<open>
  The two batched \<open>list_offsets\<close> calls: \<open>None\<close> when dispatching them raised, otherwise what each
  partition's future gives for the earliest and the latest offset (\<open>None\<close> when it raises).
\<close>

type_synonym rpc = "((string \<times> int \<Rightarrow> int option) \<times> (string \<times> int \<Rightarrow> int option)) option"

fun watermark_loop :: "(string \<times> int \<Rightarrow> int option) \<Rightarrow> (string \<times> int \<Rightarrow> int option) \<Rightarrow> tp list
    \<Rightarrow> (int, int \<times> int) dict \<Rightarrow> (int, int \<times> int) dict" where
  "watermark_loop earliest latest [] out = out"
| "watermark_loop earliest latest (t # ts) out =
     (case (earliest (tp_topic t, tp_partition t), latest (tp_topic t, tp_partition t)) of
        (Some low, Some high) \<Rightarrow>
          watermark_loop earliest latest ts (AList.update (tp_partition t) (low, high) out)
      | _ \<Rightarrow> watermark_loop earliest latest ts out)"

definition query_watermarks :: "rpc \<Rightarrow> tp list \<Rightarrow> (int, int \<times> int) dict" where
  "query_watermarks admin tps =
     (if tps = [] then []
      else case admin of None \<Rightarrow> [] | Some (earliest, latest) \<Rightarrow> watermark_loop earliest latest tps [])"

subsection \<open>Recovery of stale committed offsets\<close>

definition reset_target :: "config \<Rightarrow> int \<Rightarrow> int \<Rightarrow> int" where
  "reset_target cfg low high = (if auto_offset_reset cfg = ''latest'' then high else low)"

definition is_fresh :: "int \<Rightarrow> tp \<Rightarrow> bool" where
  "is_fresh oinv t \<longleftrightarrow> tp_error t = None \<and> tp_offset t = oinv"

definition is_committed :: "int \<Rightarrow> tp \<Rightarrow> bool" where
  "is_committed oinv t \<longleftrightarrow> tp_error t = None \<and> tp_offset t \<noteq> oinv"

text \<open>The partitions whose committed offset fell below the log start, with their new target.\<close>

definition to_recover :: "config \<Rightarrow> (int, int \<times> int) dict \<Rightarrow> tp list \<Rightarrow> tp list" where
  "to_recover cfg watermarks needs_watermark =
     List.map_filter (\<lambda>t. case map_of watermarks (tp_partition t) of
        None \<Rightarrow> None
      | Some (low, high) \<Rightarrow>
          if low \<le> tp_offset t then None
          else Some (TopicPartition (tp_topic t) (tp_partition t) (reset_target cfg low high)))
      needs_watermark"

definition seed_position ::
  "int \<Rightarrow> config \<Rightarrow> tp list \<Rightarrow> tp list \<Rightarrow> int \<Rightarrow> int \<Rightarrow> int \<Rightarrow> int" where
  "seed_position oinv cfg committed recovered p low high =
     (case map_of (rev (map (\<lambda>t. (tp_partition t, tp_offset t)) recovered)) p of
        Some off \<Rightarrow> off
      | None \<Rightarrow>
          (case map_of (rev (map (\<lambda>t. (tp_partition t, t)) committed)) p of
             Some t \<Rightarrow> if tp_error t = None \<and> tp_offset t \<noteq> oinv \<and> low \<le> tp_offset t then tp_offset t
                       else reset_target cfg low high
           | None \<Rightarrow> reset_target cfg low high))"

definition seed_startup_gauges ::
  "int \<Rightarrow> config \<Rightarrow> tp list \<Rightarrow> (int, int \<times> int) dict \<Rightarrow> tp list \<Rightarrow> metric list" where
  "seed_startup_gauges oinv cfg committed watermarks recovered =
     concat (map (\<lambda>(p, low, high).
        let position = seed_position oinv cfg committed recovered p low high in
        [SetG ''consumer_lag'' (str_int p) (of_int (high - position)),
         SetG ''last_committed_offset'' (str_int p) (of_int position)]) watermarks)"

text \<open>
  \<open>committed\<close> is the answer to the committed-offsets query (\<open>None\<close> when it raised), \<open>commit_ok\<close>
  whether the commit of the recovered offsets succeeds. The result is the commit that is issued, if
  any, and the gauges.
\<close>

definition recover_stale_committed_offsets ::
  "int \<Rightarrow> config \<Rightarrow> (tp list \<Rightarrow> tp list option) \<Rightarrow> rpc \<Rightarrow> (tp list \<Rightarrow> bool) \<Rightarrow> int list
     \<Rightarrow> tp list option \<times> metric list" where
  "recover_stale_committed_offsets oinv cfg committed_query admin commit_ok partitions =
     (if partitions = [] then (None, [])
      else case committed_query (map (\<lambda>p. TopicPartition (topic cfg) p oinv) partitions) of
          None \<Rightarrow> (None, [])
        | Some committed \<Rightarrow>
            let needs_watermark = filter (is_committed oinv) committed;
                fresh = filter (is_fresh oinv) committed;
                watermarks = query_watermarks admin
                  (map (\<lambda>t. TopicPartition (tp_topic t) (tp_partition t) oinv) (needs_watermark @ fresh));
                rec = to_recover cfg watermarks needs_watermark;
                ok = (if rec = [] then True else commit_ok rec)
            in (if rec = [] then None else Some rec,
                seed_startup_gauges oinv cfg committed watermarks (if ok then rec else [])))"

lemma watermark_loop_distinct:
  "distinct (map fst out) \<Longrightarrow> distinct (map fst (watermark_loop e l ts out))"
  by (induction e l ts out rule: watermark_loop.induct) (auto split: option.splits)

lemma watermark_loop_some:
  "map_of (watermark_loop e l ts out) p = Some (low, high) \<Longrightarrow>
     map_of out p = Some (low, high)
     \<or> (\<exists>t \<in> set ts. tp_partition t = p \<and> e (tp_topic t, p) = Some low \<and> l (tp_topic t, p) = Some high)"
  by (induction e l ts out rule: watermark_loop.induct) (fastforce split: option.splits if_splits)+

lemma query_watermarks_distinct: "distinct (map fst (query_watermarks admin tps))"
  by (auto simp: query_watermarks_def watermark_loop_distinct split: option.splits)

lemma query_watermarks_some:
  assumes "map_of (query_watermarks admin tps) p = Some (low, high)"
  shows "\<exists>e l. admin = Some (e, l) \<and> (\<exists>t \<in> set tps. tp_partition t = p
       \<and> e (tp_topic t, p) = Some low \<and> l (tp_topic t, p) = Some high)"
proof -
  obtain e l where el: "admin = Some (e, l)" "map_of (watermark_loop e l tps []) p = Some (low, high)"
    using assms by (auto simp: query_watermarks_def split: option.splits if_splits)
  from watermark_loop_some [OF el(2)] el(1) show ?thesis by auto
qed

lemma to_recover_iff:
  "t \<in> set (to_recover cfg ws ts) \<longleftrightarrow>
     (\<exists>c \<in> set ts. \<exists>low high. map_of ws (tp_partition c) = Some (low, high) \<and> tp_offset c < low
        \<and> t = TopicPartition (tp_topic c) (tp_partition c) (reset_target cfg low high))"
  unfolding to_recover_def in_map_filter
  by (rule bex_cong [OF refl]) (auto split: option.splits)

text \<open>C26: the startup recovery commits an offset for exactly the partitions whose committed offset
  is valid and below the log start; the target is the reset policy's end of the watermark range, so
  the commit only ever moves an offset forward, to a position the log still has.\<close>

theorem recovery_commits_exactly_stale:
  assumes "committed_query (map (\<lambda>p. TopicPartition (topic cfg) p oinv) partitions) = Some committed"
    and "partitions \<noteq> []"
    and "ws = query_watermarks admin (map (\<lambda>t. TopicPartition (tp_topic t) (tp_partition t) oinv)
            (filter (is_committed oinv) committed @ filter (is_fresh oinv) committed))"
    and "\<forall>p low high. map_of ws p = Some (low, high) \<longrightarrow> low \<le> high"
  shows "let call = fst (recover_stale_committed_offsets oinv cfg committed_query admin commit_ok partitions);
             stale = (\<lambda>c low high. is_committed oinv c
               \<and> map_of ws (tp_partition c) = Some (low, high) \<and> tp_offset c < low)
    in (call = None \<longleftrightarrow> (\<forall>c \<in> set committed. \<forall>low high. \<not> stale c low high))
     \<and> (\<forall>recovered. call = Some recovered \<longrightarrow>
         (\<forall>t. t \<in> set recovered \<longleftrightarrow> (\<exists>c \<in> set committed. \<exists>low high. stale c low high
            \<and> t = TopicPartition (tp_topic c) (tp_partition c) (reset_target cfg low high)))
       \<and> (\<forall>c \<in> set committed. \<forall>low high. stale c low high \<longrightarrow>
            tp_offset c < reset_target cfg low high
            \<and> low \<le> reset_target cfg low high \<and> reset_target cfg low high \<le> high))"
proof -
  let ?rec = "to_recover cfg ws (filter (is_committed oinv) committed)"
  have call: "fst (recover_stale_committed_offsets oinv cfg committed_query admin commit_ok partitions)
      = (if ?rec = [] then None else Some ?rec)"
    using assms(1,2,3) by (simp add: recover_stale_committed_offsets_def Let_def)
  have tgt: "low \<le> reset_target cfg low high \<and> reset_target cfg low high \<le> high"
    if "map_of ws p = Some (low, high)" for p low high
    using assms(4) that by (auto simp: reset_target_def)
  have iff: "t \<in> set ?rec \<longleftrightarrow> (\<exists>c \<in> set committed. \<exists>low high. (is_committed oinv c
           \<and> map_of ws (tp_partition c) = Some (low, high) \<and> tp_offset c < low)
           \<and> t = TopicPartition (tp_topic c) (tp_partition c) (reset_target cfg low high))" for t
    unfolding to_recover_iff by auto
  have "?rec = [] \<longleftrightarrow> (\<forall>t. t \<notin> set ?rec)" by (cases ?rec) auto
  also have "\<dots> \<longleftrightarrow> (\<forall>c \<in> set committed. \<forall>low high. \<not> (is_committed oinv c
           \<and> map_of ws (tp_partition c) = Some (low, high) \<and> tp_offset c < low))"
    unfolding iff by blast
  finally have none: "(if ?rec = [] then None else Some ?rec) = None \<longleftrightarrow>
      (\<forall>c \<in> set committed. \<forall>low high. \<not> (is_committed oinv c
           \<and> map_of ws (tp_partition c) = Some (low, high) \<and> tp_offset c < low))"
    by simp
  have fwd: "\<forall>c \<in> set committed. \<forall>low high. is_committed oinv c
        \<and> map_of ws (tp_partition c) = Some (low, high) \<and> tp_offset c < low \<longrightarrow>
      tp_offset c < reset_target cfg low high
      \<and> low \<le> reset_target cfg low high \<and> reset_target cfg low high \<le> high"
    using tgt by (meson order_less_le_trans)
  show ?thesis unfolding call Let_def
  proof (intro conjI allI impI)
    fix recovered t assume "(if ?rec = [] then None else Some ?rec) = Some recovered"
    then have "recovered = ?rec" by (metis option.distinct(1) option.inject)
    then show "t \<in> set recovered \<longleftrightarrow> (\<exists>c \<in> set committed. \<exists>low high. (is_committed oinv c
           \<and> map_of ws (tp_partition c) = Some (low, high) \<and> tp_offset c < low)
           \<and> t = TopicPartition (tp_topic c) (tp_partition c) (reset_target cfg low high))"
      using iff by simp
  qed (use none fwd in blast)+
qed

text \<open>A broker with three partitions, logs from 10 to 50: partition 0 is stale, 1 is in retention,
  2 was never committed.\<close>

definition demo_committed :: "tp list" where
  "demo_committed = [TopicPartition ''events'' 0 3, TopicPartition ''events'' 1 20,
     TopicPartition ''events'' 2 (-1001)]"

definition demo_ws :: "(int, int \<times> int) dict" where
  "demo_ws = [(0, 10, 50), (1, 10, 50), (2, 10, 50)]"

definition demo_rpc :: rpc where
  "demo_rpc = Some (\<lambda>_. Some 10, \<lambda>_. Some 50)"

lemmas demo_defs = demo_ws_def demo_cfg_def demo_committed_def demo_rpc_def is_committed_def is_fresh_def
  TopicPartition_def query_watermarks_def

lemma demo_watermarks:
  "query_watermarks demo_rpc (map (\<lambda>t. TopicPartition (tp_topic t) (tp_partition t) (-1001))
     (filter (is_committed (-1001)) demo_committed @ filter (is_fresh (-1001)) demo_committed))
   = demo_ws"
  by (simp add: demo_defs)

theorem recovery_commits_exactly_stale_witness:
  "fst (recover_stale_committed_offsets (-1001) demo_cfg (\<lambda>_. Some demo_committed) demo_rpc
      (\<lambda>_. True) [0, 1, 2]) \<noteq> None"
proof -
  have "\<forall>p low high. map_of demo_ws p = Some (low, high) \<longrightarrow> low \<le> high"
    by (simp add: demo_ws_def)
  note fact = recovery_commits_exactly_stale [OF refl _ demo_watermarks [symmetric] this,
      of "[0, 1, 2]" demo_cfg "\<lambda>_. True", unfolded Let_def]
  have "TopicPartition ''events'' 0 3 \<in> set demo_committed" by (simp add: demo_committed_def)
  moreover have "is_committed (-1001) (TopicPartition ''events'' 0 3)
      \<and> map_of demo_ws (tp_partition (TopicPartition ''events'' 0 3))
          = Some (10, 50)
      \<and> tp_offset (TopicPartition ''events'' 0 3) < 10"
    by (simp add: demo_defs)
  ultimately show ?thesis using fact by blast
qed

subsection \<open>Startup gauges\<close>

lemma map_of_rev_in: "map_of (rev (map (\<lambda>t. (f t, g t)) ts)) p = Some y \<Longrightarrow> \<exists>t \<in> set ts. f t = p \<and> g t = y"
  by (drule map_of_SomeD) auto

lemma seed_position_range:
  assumes "low \<le> high"
    and "\<forall>t \<in> set committed. tp_partition t = p \<and> is_committed oinv t \<longrightarrow> tp_offset t \<le> high"
    and "\<forall>t \<in> set recovered. tp_partition t = p \<longrightarrow> low \<le> tp_offset t \<and> tp_offset t \<le> high"
  shows "low \<le> seed_position oinv cfg committed recovered p low high
       \<and> seed_position oinv cfg committed recovered p low high \<le> high"
  using assms
  by (auto simp: seed_position_def reset_target_def is_committed_def split: option.splits
      dest!: map_of_rev_in)

text \<open>With committed offsets inside the log, the gauges seeded at startup tell a position inside
  the log of every partition that has watermarks, and a lag between zero and the length of the log,
  whether or not the recovery commit succeeded.\<close>

theorem seeded_gauges_in_log:
  assumes "committed_query (map (\<lambda>p. TopicPartition (topic cfg) p oinv) partitions) = Some committed"
    and "ws = query_watermarks admin (map (\<lambda>t. TopicPartition (tp_topic t) (tp_partition t) oinv)
            (filter (is_committed oinv) committed @ filter (is_fresh oinv) committed))"
    and "\<forall>p low high. map_of ws p = Some (low, high) \<longrightarrow> low \<le> high"
    and "\<forall>c \<in> set committed. \<forall>low high. is_committed oinv c
            \<and> map_of ws (tp_partition c) = Some (low, high) \<longrightarrow> tp_offset c \<le> high"
    and "partitions \<noteq> []"
  shows "\<exists>pos. snd (recover_stale_committed_offsets oinv cfg committed_query admin commit_ok partitions)
       = concat (map (\<lambda>(p, low, high).
           [SetG ''consumer_lag'' (str_int p) (of_int (high - pos p)),
            SetG ''last_committed_offset'' (str_int p) (of_int (pos p))]) ws)
     \<and> (\<forall>(p, low, high) \<in> set ws. low \<le> pos p \<and> 0 \<le> high - pos p \<and> high - pos p \<le> high - low)"
proof -
  let ?rec = "to_recover cfg ws (filter (is_committed oinv) committed)"
  define used where "used = (if ?rec = [] \<or> commit_ok ?rec then ?rec else [])"
  define pos where "pos = (\<lambda>p. case map_of ws p of None \<Rightarrow> 0
    | Some (low, high) \<Rightarrow> seed_position oinv cfg committed used p low high)"
  have key: "map_of ws p = Some lh" if "(p, lh) \<in> set ws" for p lh
    using that query_watermarks_distinct unfolding assms(2) by simp
  have snd: "snd (recover_stale_committed_offsets oinv cfg committed_query admin commit_ok partitions)
      = seed_startup_gauges oinv cfg committed ws used"
    using assms(1,2,5) by (simp add: recover_stale_committed_offsets_def Let_def used_def)
  have "low \<le> tp_offset t \<and> tp_offset t \<le> high"
    if "t \<in> set used" "map_of ws (tp_partition t) = Some (low, high)" for t low high
    using that assms(3) to_recover_iff [of t cfg ws "filter (is_committed oinv) committed"]
    by (auto simp: used_def reset_target_def TopicPartition_def split: if_splits)
  then have "low \<le> pos p \<and> pos p \<le> high" if "(p, low, high) \<in> set ws" for p low high
    using key [OF that] assms(3,4) unfolding pos_def
    by (simp, intro seed_position_range) auto
  moreover have "seed_startup_gauges oinv cfg committed ws used = concat (map (\<lambda>(p, low, high).
           [SetG ''consumer_lag'' (str_int p) (of_int (high - pos p)),
            SetG ''last_committed_offset'' (str_int p) (of_int (pos p))]) ws)"
    unfolding seed_startup_gauges_def Let_def
    by (intro arg_cong [where f = concat] map_cong) (auto simp: pos_def dest!: key)
  ultimately show ?thesis unfolding snd by (intro exI [of _ pos]) auto
qed

theorem seeded_gauges_in_log_witness:
  "\<exists>pos. snd (recover_stale_committed_offsets (-1001) demo_cfg (\<lambda>_. Some demo_committed) demo_rpc
        (\<lambda>_. False) [0, 1, 2])
     = concat (map (\<lambda>(p, low, high).
           [SetG ''consumer_lag'' (str_int p) (of_int (high - pos p)),
            SetG ''last_committed_offset'' (str_int p) (of_int (pos p))])
         demo_ws)"
proof -
  have "\<forall>p low high. map_of demo_ws p = Some (low, high) \<longrightarrow> low \<le> high"
    and "\<forall>c \<in> set demo_committed. \<forall>low high. is_committed (-1001) c
      \<and> map_of demo_ws (tp_partition c) = Some (low, high)
      \<longrightarrow> tp_offset c \<le> high"
    by (simp_all add: demo_defs)
  from seeded_gauges_in_log [OF refl demo_watermarks [symmetric] this, of "[0, 1, 2]" demo_cfg "\<lambda>_. False"]
  show ?thesis by blast
qed

subsection \<open>Periodic lag sampling\<close>

text \<open>
  \<open>_update_lag_metrics\<close>: the flushed positions, then librdkafka's fetch positions, then the committed
  offsets, then the reset target. The three queries may raise (\<open>None\<close>).
\<close>

definition lag_positions ::
  "tp list \<Rightarrow> tp list \<Rightarrow> (tp list \<Rightarrow> tp list option) \<Rightarrow> (tp list \<Rightarrow> tp list option) \<Rightarrow> (int \<rightharpoonup> int)" where
  "lag_positions tp_offsets idle position committed =
     (let positions = map_of (rev (map (\<lambda>t. (tp_partition t, tp_offset t)) tp_offsets)) in
      if idle = [] then positions
      else
        let positions1 =
              (case position idle of None \<Rightarrow> positions
               | Some ptps \<Rightarrow> positions ++ map_of (rev (map (\<lambda>t. (tp_partition t, tp_offset t))
                   (filter (\<lambda>t. 0 \<le> tp_offset t) ptps))));
            unresolved = filter (\<lambda>t. positions1 (tp_partition t) = None) idle
        in if unresolved = [] then positions1
           else case committed unresolved of None \<Rightarrow> positions1
             | Some ctps \<Rightarrow> positions1 ++ map_of (rev (map (\<lambda>t. (tp_partition t, tp_offset t))
                   (filter (\<lambda>t. tp_error t = None \<and> 0 \<le> tp_offset t) ctps))))"

definition update_lag_metrics ::
  "tp list option \<Rightarrow> (tp list \<Rightarrow> tp list option) \<Rightarrow> (tp list \<Rightarrow> tp list option) \<Rightarrow> rpc
     \<Rightarrow> tp list \<Rightarrow> string \<Rightarrow> metric list" where
  "update_lag_metrics assignment position committed admin tp_offsets reset =
     (let flushed = set (map tp_partition tp_offsets);
          assigned = (case assignment of None \<Rightarrow> [] | Some ts \<Rightarrow> ts);
          idle = filter (\<lambda>t. tp_partition t \<notin> flushed) assigned;
          positions = lag_positions tp_offsets idle position committed;
          query = tp_offsets @ idle
      in if query = [] then []
         else map (\<lambda>(p, low, high).
             let pos = (case positions p of Some x \<Rightarrow> x
                        | None \<Rightarrow> if reset = ''latest'' then high else low)
             in SetG ''consumer_lag'' (str_int p) (of_int (max 0 (high - pos))))
           (query_watermarks admin query))"

lemma lag_positions_flushed:
  assumes "t \<in> set tp_offsets" "distinct (map tp_partition tp_offsets)"
    and "\<forall>ts out. position ts = Some out \<longrightarrow> tp_partition ` set out \<subseteq> tp_partition ` set ts"
    and "\<forall>ts out. committed ts = Some out \<longrightarrow> tp_partition ` set out \<subseteq> tp_partition ` set ts"
    and "\<forall>i \<in> set idle. tp_partition i \<notin> set (map tp_partition tp_offsets)"
  shows "lag_positions tp_offsets idle position committed (tp_partition t) = Some (tp_offset t)"
proof -
  let ?base = "map_of (rev (map (\<lambda>t. (tp_partition t, tp_offset t)) tp_offsets))"
  have base: "?base (tp_partition t) = Some (tp_offset t)"
  proof (rule map_of_is_SomeI)
    have "distinct (rev (map tp_partition tp_offsets))" using assms(2) by simp
    then show "distinct (map fst (rev (map (\<lambda>t. (tp_partition t, tp_offset t)) tp_offsets)))"
      by (simp add: rev_map comp_def)
  qed (use assms(1) in force)
  have no: "map_of (rev (map (\<lambda>t. (tp_partition t, tp_offset t)) (filter P out))) (tp_partition t) = None"
    if "tp_partition ` set out \<subseteq> tp_partition ` set ts" "set ts \<subseteq> set idle" for out ts P
  proof -
    have "tp_partition t \<notin> tp_partition ` set out"
    proof
      assume "tp_partition t \<in> tp_partition ` set out"
      then have "tp_partition t \<in> tp_partition ` set idle" using that by blast
      then obtain i where i: "i \<in> set idle" "tp_partition t = tp_partition i" by (rule imageE)
      have "tp_partition t \<in> set (map tp_partition tp_offsets)" using assms(1) by simp
      moreover have "tp_partition i \<notin> set (map tp_partition tp_offsets)" using assms(5) i(1) by (rule bspec)
      ultimately show False unfolding i(2) by contradiction
    qed
    then show ?thesis by (auto simp: map_of_eq_None_iff)
  qed
  show ?thesis
  proof (cases "idle = []")
    case True
    then show ?thesis using base by (simp add: lag_positions_def Let_def)
  next
    case False
    define p1 where "p1 = (case position idle of None \<Rightarrow> ?base
      | Some ptps \<Rightarrow> ?base ++ map_of (rev (map (\<lambda>t. (tp_partition t, tp_offset t))
                   (filter (\<lambda>t. 0 \<le> tp_offset t) ptps))))"
    define un where "un = filter (\<lambda>t. p1 (tp_partition t) = None) idle"
    have p1: "p1 (tp_partition t) = Some (tp_offset t)"
    proof (cases "position idle")
      case None
      then show ?thesis using base by (simp add: p1_def)
    next
      case (Some out)
      then show ?thesis using base no [of out idle] assms(3) by (simp add: p1_def map_add_def)
    qed
    have "lag_positions tp_offsets idle position committed = (if un = [] then p1
        else case committed un of None \<Rightarrow> p1
             | Some ctps \<Rightarrow> p1 ++ map_of (rev (map (\<lambda>t. (tp_partition t, tp_offset t))
                   (filter (\<lambda>t. tp_error t = None \<and> 0 \<le> tp_offset t) ctps))))"
      using False unfolding lag_positions_def Let_def un_def p1_def by simp
    moreover have "set un \<subseteq> set idle" by (auto simp: un_def)
    moreover have "\<forall>out. committed un = Some out \<longrightarrow> tp_partition ` set out \<subseteq> tp_partition ` set un"
      using assms(4) by blast
    ultimately show ?thesis
      using p1 no [of "the (committed un)" un "\<lambda>t. tp_error t = None \<and> 0 \<le> tp_offset t"]
      by (cases "committed un") (simp_all add: map_add_def)
  qed
qed

text \<open>A sampled lag is never negative, and a partition that just delivered reports the distance
  from its flushed position, whatever the consumer's own positions say.\<close>

theorem sampled_lag:
  assumes "distinct (map tp_partition tp_offsets)"
    and "\<forall>ts out. position ts = Some out \<longrightarrow> tp_partition ` set out \<subseteq> tp_partition ` set ts"
    and "\<forall>ts out. committed ts = Some out \<longrightarrow> tp_partition ` set out \<subseteq> tp_partition ` set ts"
    and "m \<in> set (update_lag_metrics assignment position committed admin tp_offsets reset)"
  shows "\<exists>p low high lag. m = SetG ''consumer_lag'' (str_int p) (of_int lag) \<and> 0 \<le> lag
    \<and> (\<forall>t \<in> set tp_offsets. tp_partition t = p \<longrightarrow> lag = max 0 (high - tp_offset t))
    \<and> (\<exists>e l topic. admin = Some (e, l) \<and> e (topic, p) = Some low \<and> l (topic, p) = Some high)"
proof -
  define idle where "idle = filter (\<lambda>t. tp_partition t \<notin> set (map tp_partition tp_offsets))
    (case assignment of None \<Rightarrow> [] | Some ts \<Rightarrow> ts)"
  let ?pos = "lag_positions tp_offsets idle position committed"
  obtain p low high where w: "(p, low, high) \<in> set (query_watermarks admin (tp_offsets @ idle))"
    and m: "m = SetG ''consumer_lag'' (str_int p) (of_int (max 0 (high - (case ?pos p of Some x \<Rightarrow> x
                        | None \<Rightarrow> if reset = ''latest'' then high else low))))"
    using assms(4) by (auto simp: update_lag_metrics_def Let_def idle_def split: if_splits)
  have idle: "\<forall>i \<in> set idle. tp_partition i \<notin> set (map tp_partition tp_offsets)"
    by (simp add: idle_def)
  have fl: "?pos p = Some (tp_offset t)" if "t \<in> set tp_offsets" "tp_partition t = p" for t
    using lag_positions_flushed [OF that(1) assms(1-3) idle] that(2) by simp
  have "map_of (query_watermarks admin (tp_offsets @ idle)) p = Some (low, high)"
    using w query_watermarks_distinct by simp
  from query_watermarks_some [OF this] show ?thesis unfolding m using fl by fastforce
qed

theorem sampled_lag_witness:
  "\<exists>lag. SetG ''consumer_lag'' (str_int 0) 0 = SetG ''consumer_lag'' (str_int 0) (of_int lag) \<and> 0 \<le> lag"
proof -
  have "SetG ''consumer_lag'' (str_int 0) 0 \<in> set (update_lag_metrics None (\<lambda>_. None) (\<lambda>_. None) demo_rpc
      [TopicPartition ''events'' 0 50] ''earliest'')"
    by (simp add: update_lag_metrics_def lag_positions_def demo_rpc_def TopicPartition_def query_watermarks_def)
  from sampled_lag [OF _ _ _ this] show ?thesis by (auto simp: TopicPartition_def)
qed

end
