(* ===== verification/IncludeValues.thy ===== *)
theory IncludeValues
  imports Config "HOL-Library.List_Lexorder" "HOL-Library.Char_ord"
begin

text \<open>
  \<open>millpond/include_values.py\<close>: the keep-filter's include set, static or polled from an HTTP endpoint.
  The poll thread is modelled as the sequence of responses it gets: one response is one iteration of
  \<open>_run\<close>. Python sets are lists without duplicates here; their order is never observed, because
  \<open>_normalize\<close> sorts. Log lines, the jittered sleep and the HTTP transport are not modelled; a
  response is what \<open>_fetch\<close> sees of it.
\<close>

subsection \<open>Normalisation\<close>

fun is_container :: "pyval \<Rightarrow> bool" where
  "is_container (PList vs) = True"
| "is_container (PDict kvs) = True"
| "is_container v = False"

fun the_pint :: "pyval \<Rightarrow> int" where
  "the_pint (PInt i) = i"
| "the_pint v = 0"

definition normalize_scalars :: "(real \<Rightarrow> string) \<Rightarrow> pyval list \<Rightarrow> pyval list" where
  "normalize_scalars rf elements =
     (if \<forall>e \<in> set elements. is_pint e
      then map PInt (sort (remdups (map the_pint elements)))
      else map PStr (sort (remdups (map (str_of rf) elements))))"

text \<open>\<open>None\<close> is the \<open>ValueError\<close> for a non-scalar element. A \<open>bool\<close> is not a \<^const>\<open>PInt\<close>, so it
  forces the string path.\<close>

definition normalize :: "(real \<Rightarrow> string) \<Rightarrow> pyval list \<Rightarrow> pyval list option" where
  "normalize rf elements =
     (if \<exists>e \<in> set elements. is_container e then None else Some (normalize_scalars rf elements))"

fun py_type :: "pyval \<Rightarrow> string" where
  "py_type PNone = ''NoneType''"
| "py_type (PBool b) = ''bool''"
| "py_type (PInt i) = ''int''"
| "py_type (PFloat x) = ''float''"
| "py_type (PStr s) = ''str''"
| "py_type (PBytes bs) = ''bytes''"
| "py_type (PList vs) = ''list''"
| "py_type (PDict kvs) = ''dict''"

definition values_type :: "pyval list \<Rightarrow> string option" where
  "values_type vs = (case vs of [] \<Rightarrow> None | v # _ \<Rightarrow> Some (py_type v))"

subsection \<open>Fetching\<close>

text \<open>A failed request, or a body of some length with what \<open>json.loads\<close> makes of it.\<close>

datatype response = RequestFailed | Body nat "pyval option"

definition MAX_RESPONSE_BYTES :: nat where
  "MAX_RESPONSE_BYTES = 4 * 1024 * 1024"

definition fetch :: "response \<Rightarrow> pyval list option" where
  "fetch r = (case r of
      RequestFailed \<Rightarrow> None
    | Body n parsed \<Rightarrow>
        if MAX_RESPONSE_BYTES < n then None
        else (case parsed of Some (PList elements) \<Rightarrow> Some elements | _ \<Rightarrow> None))"

subsection \<open>The polled source\<close>

record iv_params =
  removal_confirm_polls :: int
  pinned :: "pyval list"
  shadow_reference :: "pyval list option"

record iv_state =
  held :: "pyval list option"
  absent_polls :: "(pyval, int) dict"
  synced :: bool

definition held_list :: "iv_state \<Rightarrow> pyval list" where
  "held_list st = (case held st of None \<Rightarrow> [] | Some vs \<Rightarrow> vs)"

text \<open>The constructor; \<open>None\<close> is the \<open>ValueError\<close> for a pin outside the bootstrap set.\<close>

definition http_init ::
  "int \<Rightarrow> pyval list option \<Rightarrow> pyval list option \<Rightarrow> pyval list option \<Rightarrow> (iv_params \<times> iv_state) option" where
  "http_init polls bootstrap pins shadow =
     (let ps = remdups (case pins of None \<Rightarrow> [] | Some vs \<Rightarrow> vs);
          bs = (case bootstrap of None \<Rightarrow> [] | Some vs \<Rightarrow> vs)
      in if ps \<noteq> [] \<and> \<not> set ps \<subseteq> set bs then None
         else Some (\<lparr>removal_confirm_polls = polls, pinned = ps, shadow_reference = shadow\<rparr>,
                    \<lparr>held = bootstrap, absent_polls = [], synced = False\<rparr>))"

definition success_metrics :: "iv_params \<Rightarrow> real \<Rightarrow> pyval list \<Rightarrow> iv_state \<Rightarrow> metric list" where
  "success_metrics P now remote st =
     [SetG ''include_values_size'' [] (of_nat (length (held_list st))),
      SetG ''include_values_pending_removals'' [] (of_nat (length (absent_polls st))),
      SetG ''include_values_last_success_timestamp_seconds'' [] now,
      SetG ''include_values_pinned'' [] (of_nat (length (pinned P))),
      SetG ''include_values_pinned_only'' []
        (of_nat (length (filter (\<lambda>v. v \<notin> set remote) (pinned P))))]
     @ (case shadow_reference P of None \<Rightarrow> []
        | Some vs \<Rightarrow> let ref = remdups vs in
            [SetG ''include_values_shadow_only_static'' []
               (of_nat (length (filter (\<lambda>v. v \<notin> set remote) ref))),
             SetG ''include_values_shadow_only_remote'' []
               (of_nat (length (filter (\<lambda>v. v \<notin> set ref) remote)))])"

definition refuse :: "string \<Rightarrow> metric list" where
  "refuse reason = [Inc ''include_values_refused_total'' reason 1]"

definition change_metrics :: "pyval list \<Rightarrow> pyval list \<Rightarrow> metric list" where
  "change_metrics additions removals =
     replicate (length additions) (Inc ''include_values_changes_total'' ''add'' 1)
     @ replicate (length removals) (Inc ''include_values_changes_total'' ''remove'' 1)"

text \<open>\<open>self._absent_polls.get(v, 0) + 1\<close>.\<close>

definition bumped :: "iv_state \<Rightarrow> pyval \<Rightarrow> int" where
  "bumped st v = (case map_of (absent_polls st) v of None \<Rightarrow> 0 | Some n \<Rightarrow> n) + 1"

text \<open>What a poll does: it fails before any effect, is refused, or is accepted.\<close>

datatype verdict = PollFailed | Refused string | Accepted

text \<open>The sets \<open>_poll_once\<close> computes, in its order: the values to add, the tentative absence
  counts, the removals they confirm, the new set and the slice the endpoint governs.\<close>

definition additions :: "pyval list \<Rightarrow> iv_state \<Rightarrow> pyval list" where
  "additions remote st = filter (\<lambda>v. v \<notin> set (held_list st)) (remdups remote)"

definition missing :: "iv_params \<Rightarrow> pyval list \<Rightarrow> iv_state \<Rightarrow> pyval list" where
  "missing P remote st =
     filter (\<lambda>v. v \<notin> set remote \<and> v \<notin> set (pinned P)) (remdups (held_list st))"

definition tentative_counts :: "iv_params \<Rightarrow> pyval list \<Rightarrow> iv_state \<Rightarrow> (pyval, int) dict" where
  "tentative_counts P remote st = map (\<lambda>v. (v, bumped st v)) (missing P remote st)"

definition confirmed_removals :: "iv_params \<Rightarrow> pyval list \<Rightarrow> iv_state \<Rightarrow> pyval list" where
  "confirmed_removals P remote st =
     filter (\<lambda>v. removal_confirm_polls P \<le> bumped st v) (missing P remote st)"

definition united :: "iv_params \<Rightarrow> pyval list \<Rightarrow> iv_state \<Rightarrow> pyval list" where
  "united P remote st = remdups (held_list st @ additions remote st @ pinned P)"

definition candidate :: "iv_params \<Rightarrow> pyval list \<Rightarrow> iv_state \<Rightarrow> pyval list" where
  "candidate P remote st =
     filter (\<lambda>v. v \<notin> set (confirmed_removals P remote st)) (united P remote st)"

definition managed :: "iv_params \<Rightarrow> pyval list \<Rightarrow> iv_state \<Rightarrow> pyval list" where
  "managed P remote st =
     filter (\<lambda>v. \<not> (v \<in> set (pinned P) \<and> v \<notin> set remote)) (remdups (held_list st))"

definition type_flip :: "pyval list \<Rightarrow> iv_state \<Rightarrow> bool" where
  "type_flip remote st \<longleftrightarrow>
     values_type (held_list st) \<noteq> None \<and> values_type remote \<noteq> None
       \<and> values_type (held_list st) \<noteq> values_type remote"

definition bulk_removal :: "iv_params \<Rightarrow> pyval list \<Rightarrow> iv_state \<Rightarrow> bool" where
  "bulk_removal P remote st \<longleftrightarrow>
     1 < length (managed P remote st)
       \<and> max 1 (length (managed P remote st) div 2) < length (confirmed_removals P remote st)"

text \<open>\<open>changed\<close> is the guard of the swap in the accepting branch.\<close>

definition changed :: "iv_params \<Rightarrow> pyval list \<Rightarrow> iv_state \<Rightarrow> bool" where
  "changed P remote st \<longleftrightarrow>
     set (candidate P remote st) \<noteq> set (held_list st) \<or> held st = None"

definition accept ::
  "(real \<Rightarrow> string) \<Rightarrow> iv_params \<Rightarrow> real \<Rightarrow> pyval list \<Rightarrow> iv_state \<Rightarrow> iv_state \<times> metric list" where
  "accept rf P now remote st =
     (let st1 = st\<lparr>absent_polls := filter (\<lambda>(v, n). v \<notin> set (confirmed_removals P remote st))
                                        (tentative_counts P remote st)\<rparr>;
          st2 = (if changed P remote st
                 then st1\<lparr>held := Some (normalize_scalars rf (candidate P remote st))\<rparr> else st1)
      in (st2\<lparr>synced := True\<rparr>,
          (if changed P remote st
           then change_metrics (additions remote st) (confirmed_removals P remote st) else [])
          @ success_metrics P now remote st2))"

definition grow :: "(real \<Rightarrow> string) \<Rightarrow> iv_params \<Rightarrow> pyval list \<Rightarrow> iv_state \<Rightarrow> iv_state" where
  "grow rf P remote st =
     (if additions remote st = [] then st
      else st\<lparr>held := Some (normalize_scalars rf (united P remote st))\<rparr>)"

definition poll_once ::
  "(real \<Rightarrow> string) \<Rightarrow> iv_params \<Rightarrow> real \<Rightarrow> response \<Rightarrow> iv_state \<Rightarrow> verdict \<times> iv_state \<times> metric list" where
  "poll_once rf P now r st =
     (case Option.bind (fetch r) (normalize rf) of
        None \<Rightarrow> (PollFailed, st, [])
      | Some remote \<Rightarrow>
        if type_flip remote st then
          (Refused ''type_flip'', st, refuse ''type_flip'' @ success_metrics P now remote st)
        else if remote = [] \<and> \<not> set (held_list st) \<subseteq> set (pinned P) then
          (Refused ''empty'', st, refuse ''empty'' @ success_metrics P now remote st)
        else if remote = [] \<and> pinned P = [] \<and> (held_list st \<noteq> [] \<or> held st = None) then
          (Refused ''empty'', st,
           refuse ''empty'' @ (if held_list st \<noteq> [] then success_metrics P now remote st else []))
        else if candidate P remote st = [] \<and> held_list st \<noteq> [] then
          (Refused ''empty'', st, refuse ''empty'' @ success_metrics P now remote st)
        else if bulk_removal P remote st then
          (Refused ''bulk_removal'', grow rf P remote st,
           refuse ''bulk_removal'' @ change_metrics (additions remote st) []
             @ success_metrics P now remote (grow rf P remote st))
        else
          (let (st', ms) = accept rf P now remote st in (Accepted, st', ms)))"

text \<open>One iteration of \<open>_run\<close>: an exception of the poll is counted and keeps the last set.\<close>

definition run_step ::
  "(real \<Rightarrow> string) \<Rightarrow> iv_params \<Rightarrow> (real \<times> response) \<Rightarrow> iv_state \<Rightarrow> iv_state \<times> metric list" where
  "run_step rf P tr st =
     (case poll_once rf P (fst tr) (snd tr) st of
        (PollFailed, st', ms) \<Rightarrow> (st', ms @ [Inc ''include_values_poll_failures_total'' [] 1])
      | (_, st', ms) \<Rightarrow> (st', ms))"

definition http_run ::
  "(real \<Rightarrow> string) \<Rightarrow> iv_params \<Rightarrow> (real \<times> response) list \<Rightarrow> iv_state \<Rightarrow> iv_state" where
  "http_run rf P rs st = fold (\<lambda>r s. fst (run_step rf P r s)) rs st"

text \<open>
  \<open>start\<close>: \<open>rs\<close> are the polls that complete before \<open>startup_timeout_s\<close>; \<open>None\<close> is the
  \<open>RuntimeError\<close>.
\<close>

definition http_start ::
  "(real \<Rightarrow> string) \<Rightarrow> iv_params \<Rightarrow> (real \<times> response) list \<Rightarrow> iv_state \<Rightarrow> iv_state option" where
  "http_start rf P rs st =
     (let st' = http_run rf P rs st in if synced st' then Some st' else None)"

subsection \<open>The three sources\<close>

datatype source =
    Static "pyval list option"
  | Shadow "pyval list option" iv_params iv_state
  | Http iv_params iv_state

fun source_current :: "source \<Rightarrow> pyval list option" where
  "source_current (Static vs) = vs"
| "source_current (Shadow vs P st) = vs"
| "source_current (Http P st) = held st"

fun source_mode :: "source \<Rightarrow> string" where
  "source_mode (Static vs) = ''static''"
| "source_mode (Shadow vs P st) = ''shadow''"
| "source_mode (Http P st) = ''authoritative''"

fun source_poll :: "(real \<Rightarrow> string) \<Rightarrow> (real \<times> response) \<Rightarrow> source \<Rightarrow> source" where
  "source_poll rf r (Static vs) = Static vs"
| "source_poll rf r (Shadow vs P st) = Shadow vs P (fst (run_step rf P r st))"
| "source_poll rf r (Http P st) = Http P (fst (run_step rf P r st))"

fun source_start :: "(real \<Rightarrow> string) \<Rightarrow> (real \<times> response) list \<Rightarrow> source \<Rightarrow> source option" where
  "source_start rf rs (Static vs) = Some (Static vs)"
| "source_start rf rs (Shadow vs P st) = Some (Shadow vs P st)"
| "source_start rf rs (Http P st) = map_option (Http P) (http_start rf P rs st)"

definition build :: "config \<Rightarrow> source option" where
  "build cfg =
     (if include_values_url cfg = None then Some (Static (filter_values cfg))
      else map_option
        (\<lambda>(P, st). if include_values_mode cfg = ''shadow'' then Shadow (filter_values cfg) P st
                   else Http P st)
        (http_init (include_values_removal_polls cfg) (filter_values cfg) (filter_values cfg)
          (if include_values_mode cfg = ''shadow'' then filter_values cfg else None)))"

subsection \<open>Normalised values\<close>

lemma map_the_pint: "\<forall>e \<in> set vs. is_pint e \<Longrightarrow> map PInt (map the_pint vs) = vs"
  by (induction vs) (auto elim!: is_pint.elims)

lemma set_normalize_ints:
  assumes "\<forall>e \<in> set vs. is_pint e"
  shows "set (normalize_scalars rf vs) = set vs"
proof -
  have "set (normalize_scalars rf vs) = PInt ` the_pint ` set vs"
    using assms by (simp add: normalize_scalars_def image_image)
  also have "\<dots> = set (map PInt (map the_pint vs))"
    by (simp add: image_image)
  finally show ?thesis
    by (simp only: map_the_pint[OF assms])
qed

lemma str_of_pstr: "is_pstr e \<Longrightarrow> PStr (str_of rf e) = e"
  by (cases e) simp_all

lemma set_normalize_strs:
  assumes "\<forall>e \<in> set vs. is_pstr e"
  shows "set (normalize_scalars rf vs) = set vs"
proof (cases "vs = []")
  case False
  have "\<not> (\<forall>e \<in> set vs. is_pint e)"
    using False assms by (cases vs) (auto elim!: is_pint.elims)
  then have "set (normalize_scalars rf vs) = (\<lambda>e. PStr (str_of rf e)) ` set vs"
    by (auto simp: normalize_scalars_def)
  also have "\<dots> = set vs"
    using assms by (simp add: str_of_pstr)
  finally show ?thesis .
qed (simp add: normalize_scalars_def)

lemma set_normalize_scalars:
  "homogeneous vs \<Longrightarrow> set (normalize_scalars rf vs) = set vs"
  unfolding homogeneous_def using set_normalize_ints set_normalize_strs by blast

lemma homogeneous_normalize_scalars [simp]: "homogeneous (normalize_scalars rf vs)"
  by (simp add: homogeneous_def normalize_scalars_def)

lemma distinct_normalize_scalars [simp]: "distinct (normalize_scalars rf vs)"
  by (simp add: normalize_scalars_def distinct_map inj_on_def)

lemma normalize_homogeneous: "normalize rf vs = Some ws \<Longrightarrow> homogeneous ws \<and> distinct ws"
  by (auto simp: normalize_def split: if_splits)

lemma homogeneous_subset: "homogeneous vs \<Longrightarrow> set ws \<subseteq> set vs \<Longrightarrow> homogeneous ws"
  by (auto simp: homogeneous_def)

text \<open>The type-flip guard of a poll is what keeps the union of two homogeneous sets homogeneous.\<close>

lemma homogeneous_same_type:
  assumes "homogeneous vs" "homogeneous ws"
    and "values_type vs = None \<or> values_type ws = None \<or> values_type vs = values_type ws"
  shows "homogeneous (vs @ ws)"
proof (cases "vs = [] \<or> ws = []")
  case True
  then show ?thesis using assms by auto
next
  case False
  then obtain v vs' w ws' where eq: "vs = v # vs'" "ws = w # ws'"
    by (metis list.exhaust)
  then have "py_type v = py_type w"
    using assms(3) by (simp add: values_type_def)
  then show ?thesis
    using assms(1,2) unfolding eq homogeneous_def
    by (auto elim!: is_pint.elims is_pstr.elims)
qed

subsection \<open>What one poll does\<close>

definition polled :: "(real \<Rightarrow> string) \<Rightarrow> response \<Rightarrow> pyval list option" where
  "polled rf r = Option.bind (fetch r) (normalize rf)"

text \<open>What the code relies on of its own state: one scalar type, and every pin served.\<close>

definition iv_ok :: "iv_params \<Rightarrow> iv_state \<Rightarrow> bool" where
  "iv_ok P st \<longleftrightarrow> homogeneous (held_list st) \<and> set (pinned P) \<subseteq> set (held_list st)"

lemma set_confirmed_removals:
  "set (confirmed_removals P remote st) =
     {v \<in> set (held_list st). v \<notin> set remote \<and> v \<notin> set (pinned P)
        \<and> removal_confirm_polls P \<le> bumped st v}"
  by (auto simp: confirmed_removals_def missing_def)

lemma set_united:
  "iv_ok P st \<Longrightarrow> set (united P remote st) = set (held_list st) \<union> set remote"
  by (auto simp: united_def additions_def iv_ok_def)

lemma set_candidate:
  "iv_ok P st \<Longrightarrow> set (candidate P remote st) =
     set (held_list st) \<union> set remote - set (confirmed_removals P remote st)"
  by (auto simp: candidate_def set_united)

lemma map_of_counts:
  "map_of (filter (\<lambda>(v, n). Q v) (map (\<lambda>v. (v, f v)) xs)) v
     = (if v \<in> set xs \<and> Q v then Some (f v) else None)"
  by (induction xs) auto

lemma polled_homogeneous: "polled rf r = Some remote \<Longrightarrow> homogeneous remote \<and> distinct remote"
  by (auto simp: polled_def Option.bind_eq_Some_conv normalize_homogeneous)

lemma homogeneous_union:
  assumes "iv_ok P st" "homogeneous remote" "\<not> type_flip remote st"
    and "set vs \<subseteq> set (held_list st) \<union> set remote"
  shows "homogeneous vs"
  using homogeneous_same_type[of "held_list st" remote] assms
  by (intro homogeneous_subset[of "held_list st @ remote" vs]) (auto simp: iv_ok_def type_flip_def)

lemma set_grow:
  assumes "iv_ok P st" "homogeneous remote" "\<not> type_flip remote st"
  shows "set (held_list (grow rf P remote st)) = set (held_list st) \<union> set remote"
proof (cases "additions remote st = []")
  case True
  then have "set remote \<subseteq> set (held_list st)"
    by (auto simp: additions_def filter_empty_conv)
  then show ?thesis using True by (auto simp: grow_def)
next
  case False
  have "homogeneous (united P remote st)"
    using assms by (rule homogeneous_union) (simp add: set_united assms(1))
  then show ?thesis
    using False set_united[OF assms(1)]
    by (simp add: grow_def held_list_def[of "_\<lparr>held := _\<rparr>"] set_normalize_scalars)
qed

lemma set_accept:
  assumes "iv_ok P st" "homogeneous remote" "\<not> type_flip remote st"
  shows "set (held_list (fst (accept rf P now remote st)))
           = set (held_list st) \<union> set remote - set (confirmed_removals P remote st)"
proof (cases "changed P remote st")
  case True
  have "homogeneous (candidate P remote st)"
    using assms by (rule homogeneous_union) (auto simp: set_candidate assms(1))
  then show ?thesis
    using True set_candidate[OF assms(1)]
    by (simp add: accept_def Let_def held_list_def[of "_\<lparr>synced := _\<rparr>"] set_normalize_scalars)
next
  case False
  then have "held_list (fst (accept rf P now remote st)) = held_list st"
    by (simp add: accept_def Let_def held_list_def)
  then show ?thesis
    using False set_candidate[OF assms(1)] by (simp add: changed_def)
qed

lemma accept_counts:
  "map_of (absent_polls (fst (accept rf P now remote st))) v =
     (if v \<in> set (missing P remote st) \<and> v \<notin> set (confirmed_removals P remote st)
      then Some (bumped st v) else None)"
  by (simp add: accept_def Let_def tentative_counts_def map_of_counts)

lemma grow_simps [simp]:
  "absent_polls (grow rf P remote st) = absent_polls st"
  "synced (grow rf P remote st) = synced st"
  by (simp_all add: grow_def)

lemma accept_simps [simp]:
  "synced (fst (accept rf P now remote st))"
  "held (fst (accept rf P now remote st)) \<noteq> None"
  by (auto simp: accept_def Let_def changed_def)

lemma poll_once_cases:
  obtains (unchanged) vd ms where
      "poll_once rf P now r st = (vd, st, ms)" "vd \<noteq> Accepted" "vd \<noteq> Refused ''bulk_removal''"
  | (bulk) remote ms where "polled rf r = Some remote" "\<not> type_flip remote st"
      "bulk_removal P remote st"
      "poll_once rf P now r st = (Refused ''bulk_removal'', grow rf P remote st, ms)"
  | (accepted) remote where "polled rf r = Some remote" "\<not> type_flip remote st"
      "\<not> bulk_removal P remote st" "candidate P remote st \<noteq> [] \<or> held_list st = []"
      "poll_once rf P now r st =
        (Accepted, fst (accept rf P now remote st), snd (accept rf P now remote st))"
proof (cases "polled rf r")
  case None
  then show ?thesis
    by (intro unchanged[of PollFailed "[]"]) (simp_all add: poll_once_def polled_def)
next
  case (Some remote)
  note poll = Some[unfolded polled_def]
  consider (flip) "type_flip remote st"
    | (empty) "\<not> type_flip remote st"
        "remote = [] \<and> \<not> set (held_list st) \<subseteq> set (pinned P)
          \<or> remote = [] \<and> pinned P = [] \<and> (held_list st \<noteq> [] \<or> held st = None)
          \<or> candidate P remote st = [] \<and> held_list st \<noteq> []"
    | (served) "\<not> type_flip remote st"
        "\<not> (remote = [] \<and> \<not> set (held_list st) \<subseteq> set (pinned P))"
        "\<not> (remote = [] \<and> pinned P = [] \<and> (held_list st \<noteq> [] \<or> held st = None))"
        "\<not> (candidate P remote st = [] \<and> held_list st \<noteq> [])"
    by argo
  then show ?thesis
  proof cases
    case flip
    then show ?thesis
      by (intro unchanged[where vd = "Refused ''type_flip''"]) (simp_all add: poll_once_def poll)
  next
    case empty
    then have "\<exists>ms. poll_once rf P now r st = (Refused ''empty'', st, ms)"
      by (elim disjE) (simp_all add: poll_once_def poll)
    then show ?thesis
      by (elim exE, intro unchanged[where vd = "Refused ''empty''"]) simp_all
  next
    case served
    then have eq: "poll_once rf P now r st =
      (if bulk_removal P remote st
       then (Refused ''bulk_removal'', grow rf P remote st,
             refuse ''bulk_removal'' @ change_metrics (additions remote st) []
               @ success_metrics P now remote (grow rf P remote st))
       else (Accepted, fst (accept rf P now remote st), snd (accept rf P now remote st)))"
      unfolding poll_once_def poll option.case if_not_P[OF served(1)] if_not_P[OF served(2)]
        if_not_P[OF served(3)] if_not_P[OF served(4)]
      by (simp add: split_beta)
    show ?thesis
      using bulk accepted Some served eq by (cases "bulk_removal P remote st") auto
  qed
qed

lemma iv_ok_grow:
  assumes "iv_ok P st" "homogeneous remote" "\<not> type_flip remote st"
  shows "iv_ok P (grow rf P remote st)"
proof -
  have "homogeneous (held_list (grow rf P remote st))"
    using assms by (rule homogeneous_union) (simp add: set_grow assms)
  then show ?thesis
    using assms(1) by (auto simp: iv_ok_def set_grow[OF assms])
qed

lemma iv_ok_accept:
  assumes "iv_ok P st" "homogeneous remote" "\<not> type_flip remote st"
  shows "iv_ok P (fst (accept rf P now remote st))"
proof -
  have "homogeneous (held_list (fst (accept rf P now remote st)))"
    using assms by (rule homogeneous_union) (auto simp: set_accept assms)
  moreover have "set (pinned P) \<subseteq> set (held_list (fst (accept rf P now remote st)))"
    using assms(1) by (auto simp: set_accept[OF assms] set_confirmed_removals iv_ok_def)
  ultimately show ?thesis
    by (simp add: iv_ok_def)
qed

lemma removals_bounded:
  assumes "\<not> bulk_removal P remote st"
  shows "length (confirmed_removals P remote st) \<le> max 1 (card (set (held_list st)) div 2)"
proof -
  have "length (confirmed_removals P remote st) = card (set (confirmed_removals P remote st))"
    by (intro distinct_card[symmetric]) (simp add: confirmed_removals_def missing_def)
  also have "\<dots> \<le> card (set (managed P remote st))"
    by (intro card_mono) (auto simp: set_confirmed_removals managed_def)
  also have len: "card (set (managed P remote st)) = length (managed P remote st)"
    by (intro distinct_card) (simp add: managed_def)
  finally have few: "length (confirmed_removals P remote st) \<le> length (managed P remote st)" .
  have "card (set (managed P remote st)) \<le> card (set (held_list st))"
    by (intro card_mono) (auto simp: managed_def)
  then have "length (managed P remote st) \<le> card (set (held_list st))"
    by (simp only: len)
  then have "length (managed P remote st) div 2 \<le> card (set (held_list st)) div 2"
    by (rule div_le_mono)
  then show ?thesis
    using few assms by (auto simp: bulk_removal_def)
qed

lemma iv_ok_poll: "iv_ok P st \<Longrightarrow> iv_ok P (fst (snd (poll_once rf P now r st)))"
  by (rule poll_once_cases[of rf P now r st])
    (auto simp: iv_ok_grow iv_ok_accept dest: polled_homogeneous)

lemma run_step_eq: "fst (run_step rf P tr st) = fst (snd (poll_once rf P (fst tr) (snd tr) st))"
  by (simp add: run_step_def split: prod.split verdict.split)

lemma iv_ok_step: "iv_ok P st \<Longrightarrow> iv_ok P (fst (run_step rf P tr st))"
  by (simp add: run_step_eq iv_ok_poll)

lemma card_removed:
  assumes "iv_ok P st" "homogeneous remote" "\<not> type_flip remote st" "\<not> bulk_removal P remote st"
  shows "card (set (held_list st) - set (held_list (fst (accept rf P now remote st))))
           \<le> max 1 (card (set (held_list st)) div 2)"
proof -
  have "card (set (held_list st) - set (held_list (fst (accept rf P now remote st))))
          \<le> card (set (confirmed_removals P remote st))"
    by (intro card_mono) (auto simp: set_accept assms)
  also have "\<dots> \<le> length (confirmed_removals P remote st)"
    by (rule card_length)
  also have "\<dots> \<le> max 1 (card (set (held_list st)) div 2)"
    using assms(4) by (rule removals_bounded)
  finally show ?thesis .
qed

lemma iv_ok_run: "iv_ok P st \<Longrightarrow> iv_ok P (http_run rf P rs st)"
  unfolding http_run_def by (induction rs arbitrary: st) (auto simp: iv_ok_step)

text \<open>
  C23: one poll, whatever the endpoint answers, is safe. It keeps the held set of one scalar type
  and every pin in it, never empties a set that held something, removes no more than half of it (or
  one value), and serves only what was held or what the endpoint sent. A poll that is not accepted
  removes nothing and leaves the absence counters as they were, and a poll that is accepted, or
  refused only for its removals, applies all of the endpoint's additions.
\<close>

theorem poll_is_safe:
  assumes "iv_ok P st" and "poll_once rf P now r st = (vd, st', ms)"
  shows "iv_ok P st' \<and> (held_list st = [] \<or> held_list st' \<noteq> [])
    \<and> card (set (held_list st) - set (held_list st')) \<le> max 1 (card (set (held_list st)) div 2)
    \<and> set (held_list st') \<subseteq> set (held_list st) \<union> set (case polled rf r of None \<Rightarrow> [] | Some vs \<Rightarrow> vs)
    \<and> (vd = Accepted \<or> set (held_list st) \<subseteq> set (held_list st') \<and> absent_polls st' = absent_polls st)
    \<and> (vd \<in> {Accepted, Refused ''bulk_removal''} \<longrightarrow>
        (\<exists>remote. polled rf r = Some remote \<and> set remote \<subseteq> set (held_list st')))"
proof (rule poll_once_cases[of rf P now r st])
  fix vd1 ms1 assume "poll_once rf P now r st = (vd1, st, ms1)" "vd1 \<noteq> Accepted"
    "vd1 \<noteq> Refused ''bulk_removal''"
  then show ?thesis
    using assms by auto
next
  fix remote ms1
  assume r: "polled rf r = Some remote" "\<not> type_flip remote st"
    and "poll_once rf P now r st = (Refused ''bulk_removal'', grow rf P remote st, ms1)"
  then have st': "st' = grow rf P remote st" "vd = Refused ''bulk_removal''"
    using assms(2) by auto
  have hom: "homogeneous remote"
    using polled_homogeneous r(1) by blast
  have none: "set (held_list st) - (set (held_list st) \<union> set remote) = {}"
    by blast
  have "held_list st = [] \<or> held_list (grow rf P remote st) \<noteq> []"
    using set_grow[OF assms(1) hom r(2), of rf] by (metis sup_eq_bot_iff set_empty)
  then show ?thesis
    unfolding st' using set_grow[OF assms(1) hom r(2), of rf] r iv_ok_grow[OF assms(1) hom r(2)]
    by (simp add: none)
next
  fix remote
  assume r: "polled rf r = Some remote" "\<not> type_flip remote st" "\<not> bulk_removal P remote st"
    and ne: "candidate P remote st \<noteq> [] \<or> held_list st = []"
    and "poll_once rf P now r st =
      (Accepted, fst (accept rf P now remote st), snd (accept rf P now remote st))"
  then have st': "st' = fst (accept rf P now remote st)" "vd = Accepted"
    using assms(2) by (metis Pair_inject)+
  have hom: "homogeneous remote"
    using polled_homogeneous r(1) by blast
  note set' = set_accept[OF assms(1) hom r(2), of rf now]
  have "held_list st = [] \<or> held_list (fst (accept rf P now remote st)) \<noteq> []"
    using ne set' set_candidate[OF assms(1), of remote] by (metis set_empty)
  moreover have "set remote \<subseteq> set (held_list (fst (accept rf P now remote st)))"
    using set' by (auto simp: set_confirmed_removals)
  ultimately show ?thesis
    unfolding st' using r iv_ok_accept[OF assms(1) hom r(2)]
      card_removed[OF assms(1) hom r(2,3), of rf now, unfolded set']
    by (simp add: set')
qed

text \<open>An example source: \<open>3\<close> confirming polls, the pin \<open>7\<close>, and \<open>1\<close> and \<open>2\<close> managed.\<close>

definition demo_iv :: iv_params where
  "demo_iv = \<lparr>removal_confirm_polls = 3, pinned = [PInt 7], shadow_reference = None\<rparr>"

definition demo_held :: iv_state where
  "demo_held = \<lparr>held = Some [PInt 1, PInt 2, PInt 7], absent_polls = [], synced = False\<rparr>"

definition demo_poll :: "int list \<Rightarrow> real \<times> response" where
  "demo_poll vs = (0, Body 2 (Some (PList (map PInt vs))))"

lemma iv_ok_demo: "iv_ok demo_iv demo_held"
  by (simp add: iv_ok_def demo_iv_def demo_held_def held_list_def homogeneous_def)

lemmas demo_run_simps = demo_iv_def demo_held_def demo_poll_def held_list_def poll_once_def fetch_def
  MAX_RESPONSE_BYTES_def normalize_def normalize_scalars_def type_flip_def values_type_def
  candidate_def united_def additions_def missing_def confirmed_removals_def bumped_def managed_def
  bulk_removal_def accept_def changed_def tentative_counts_def grow_def polled_def Let_def

theorem poll_is_safe_witness:
  "\<exists>vd st' ms. poll_once no_repr demo_iv 0 (snd (demo_poll [2, 5])) demo_held = (vd, st', ms)
     \<and> iv_ok demo_iv st' \<and> vd = Accepted \<and> PInt 5 \<in> set (held_list st')"
proof -
  obtain vd st' ms where
    poll: "poll_once no_repr demo_iv 0 (snd (demo_poll [2, 5])) demo_held = (vd, st', ms)"
    by (metis prod_cases3)
  then have "vd = Accepted"
    by (simp add: demo_run_simps)
  then show ?thesis
    using poll_is_safe[OF iv_ok_demo poll] poll
    by (auto simp: polled_def fetch_def normalize_def normalize_scalars_def MAX_RESPONSE_BYTES_def
        demo_poll_def)
qed

subsection \<open>Damped removals\<close>

text \<open>How many of the last accepted polls omitted \<open>v\<close>, in a row; other polls do not count.\<close>

fun absences ::
  "(real \<Rightarrow> string) \<Rightarrow> iv_params \<Rightarrow> pyval \<Rightarrow> int \<Rightarrow> (real \<times> response) list \<Rightarrow> iv_state \<Rightarrow> int" where
  "absences rf P v n [] st = n"
| "absences rf P v n (tr # rs) st =
     (let (vd, st', ms) = poll_once rf P (fst tr) (snd tr) st
      in absences rf P v
           (if vd \<noteq> Accepted then n
            else if v \<in> set (case polled rf (snd tr) of None \<Rightarrow> [] | Some vs \<Rightarrow> vs) then 0 else n + 1)
           rs st')"

text \<open>The code's counter for a served value is the number of those absences.\<close>

definition counter :: "iv_state \<Rightarrow> pyval \<Rightarrow> int" where
  "counter st v = (case map_of (absent_polls st) v of None \<Rightarrow> 0 | Some n \<Rightarrow> n)"

lemma bumped_counter: "bumped st v = counter st v + 1"
  by (simp add: bumped_def counter_def)

lemma counter_grow [simp]: "counter (grow rf P remote st) v = counter st v"
  by (simp add: counter_def)

lemma counter_accept:
  assumes "v \<in> set (held_list st)" "v \<notin> set (pinned P)" "counter st v + 1 < removal_confirm_polls P"
  shows "counter (fst (accept rf P now remote st)) v
           = (if v \<in> set remote then 0 else counter st v + 1)"
  using assms
  by (auto simp: counter_def[of "fst _"] accept_counts missing_def set_confirmed_removals bumped_counter)

lemma served_step:
  assumes "iv_ok P st" "v \<in> set (held_list st)" "v \<notin> set (pinned P)"
    and "absences rf P v (counter st v) [tr] st < removal_confirm_polls P"
  shows "v \<in> set (held_list (fst (run_step rf P tr st)))
    \<and> counter (fst (run_step rf P tr st)) v = absences rf P v (counter st v) [tr] st"
proof (rule poll_once_cases[of rf P "fst tr" "snd tr" st])
  fix remote
  assume r: "polled rf (snd tr) = Some remote" "\<not> type_flip remote st" "\<not> bulk_removal P remote st"
    and eq: "poll_once rf P (fst tr) (snd tr) st =
      (Accepted, fst (accept rf P (fst tr) remote st), snd (accept rf P (fst tr) remote st))"
  have hom: "homogeneous remote"
    using polled_homogeneous r(1) by blast
  have n: "absences rf P v (counter st v) [tr] st = (if v \<in> set remote then 0 else counter st v + 1)"
    unfolding absences.simps eq by (simp add: r(1))
  show ?thesis
    unfolding run_step_eq n eq fst_conv snd_conv set_accept[OF assms(1) hom r(2)]
    using assms n
    by (auto simp: set_confirmed_removals bumped_counter counter_def[of "fst _"] accept_counts
        missing_def split: if_splits)
next
  fix remote ms
  assume r: "polled rf (snd tr) = Some remote" "\<not> type_flip remote st"
    and eq: "poll_once rf P (fst tr) (snd tr) st = (Refused ''bulk_removal'', grow rf P remote st, ms)"
  have "homogeneous remote"
    using polled_homogeneous r(1) by blast
  then show ?thesis
    unfolding run_step_eq absences.simps eq using assms set_grow[OF assms(1) _ r(2)] by simp
qed (use assms in \<open>simp add: run_step_eq\<close>)

lemma absences_Cons:
  "absences rf P v n (tr # rs) st =
     absences rf P v (absences rf P v n [tr] st) rs (fst (run_step rf P tr st))"
  by (simp add: run_step_eq split_beta Let_def)

lemma served_run:
  assumes "iv_ok P st" "v \<in> set (held_list st)" "v \<notin> set (pinned P)"
    and "\<forall>k \<le> length rs. absences rf P v (counter st v) (take k rs) st < removal_confirm_polls P"
  shows "v \<in> set (held_list (http_run rf P rs st))"
  using assms
proof (induction rs arbitrary: st)
  case (Cons tr rs)
  have "absences rf P v (counter st v) [tr] st < removal_confirm_polls P"
    using Cons.prems(4)[THEN spec, of 1] by simp
  note step = served_step[OF Cons.prems(1-3) this]
  have "v \<in> set (held_list (http_run rf P rs (fst (run_step rf P tr st))))"
  proof (rule Cons.IH)
    show "\<forall>k \<le> length rs. absences rf P v (counter (fst (run_step rf P tr st)) v) (take k rs)
            (fst (run_step rf P tr st)) < removal_confirm_polls P"
    proof (intro allI impI)
      fix k assume "k \<le> length rs"
      then have "absences rf P v (counter st v) (take (Suc k) (tr # rs)) st < removal_confirm_polls P"
        using Cons.prems(4) by (metis Suc_le_mono length_Cons)
      then show "absences rf P v (counter (fst (run_step rf P tr st)) v) (take k rs)
            (fst (run_step rf P tr st)) < removal_confirm_polls P"
        using step absences_Cons[of rf P v "counter st v" tr "take k rs" st] by simp
    qed
  qed (use step Cons.prems iv_ok_step in auto)
  then show ?case
    by (simp add: http_run_def)
qed (simp add: http_run_def)

text \<open>
  C8: removals are damped. Along any sequence of polls, a served value is still served as long as
  it has not been absent from \<open>removal_confirm_polls\<close> accepted polls in a row; failed and refused
  polls are no evidence, and one accepted poll that serves the value starts the count over.
\<close>

theorem removals_are_damped:
  assumes "iv_ok P st" "absent_polls st = []" "v \<in> set (held_list st)"
    and "\<forall>k \<le> length rs. absences rf P v 0 (take k rs) st < removal_confirm_polls P"
  shows "v \<in> set (held_list (http_run rf P rs st))"
proof (cases "v \<in> set (pinned P)")
  case True
  have "iv_ok P (http_run rf P rs st)"
    using assms(1) by (rule iv_ok_run)
  then show ?thesis
    using True by (auto simp: iv_ok_def)
next
  case False
  have "counter st v = 0"
    using assms(2) by (simp add: counter_def)
  then show ?thesis
    using served_run[OF assms(1,3) False] assms(4) by simp
qed

theorem removals_are_damped_witness:
  "PInt 2 \<in> set (held_list (http_run no_repr demo_iv
      [demo_poll [1], (0, RequestFailed), demo_poll [1], demo_poll [1, 2]] demo_held))"
proof -
  define rs where "rs = [demo_poll [1], (0, RequestFailed), demo_poll [1], demo_poll [1, 2]]"
  have all: "list_all (\<lambda>k. absences no_repr demo_iv (PInt 2) 0 (take k rs) demo_held < 3) [0, 1, 2, 3, 4]"
    by (simp add: rs_def demo_run_simps)
  have "absences no_repr demo_iv (PInt 2) 0 (take k rs) demo_held < removal_confirm_polls demo_iv"
    if "k \<le> length rs" for k
  proof -
    have "k \<in> set [0, 1, 2, 3, 4]"
      using that by (auto simp: rs_def)
    then show ?thesis
      using all unfolding list_all_iff by (simp only: demo_iv_def iv_params.select_convs)
  qed
  then show ?thesis
    using removals_are_damped[OF iv_ok_demo, of "PInt 2" rs no_repr]
    by (simp add: rs_def demo_held_def held_list_def)
qed

lemma no_type_flip:
  assumes "homogeneous (held_list st)" "set remote \<subseteq> set (held_list st)"
  shows "\<not> type_flip remote st"
proof (cases "remote = [] \<or> held_list st = []")
  case False
  then obtain v vs w ws where eq: "held_list st = v # vs" "remote = w # ws"
    by (metis list.exhaust)
  then have "py_type v = py_type w"
    using assms by (auto simp: homogeneous_def elim!: is_pint.elims is_pstr.elims)
  then show ?thesis
    by (simp add: type_flip_def values_type_def eq)
qed (auto simp: type_flip_def values_type_def)

text \<open>A poll that serves everything held but \<open>v\<close> is accepted.\<close>

lemma omitting_poll:
  fixes now :: real
  assumes "iv_ok P st" "polled rf r = Some remote" "remote \<noteq> []"
    and "set (held_list st) = insert v (set remote)" "v \<notin> set remote" "v \<notin> set (pinned P)"
  defines "st' \<equiv> fst (run_step rf P (now, r) st)"
  shows "set (held_list st') =
      (if removal_confirm_polls P \<le> counter st v + 1 then set remote else insert v (set remote))"
    and "counter st v + 1 < removal_confirm_polls P \<Longrightarrow> counter st' v = counter st v + 1"
proof -
  have hom: "homogeneous remote"
    using polled_homogeneous assms(2) by blast
  have flip: "\<not> type_flip remote st"
    using assms(1,4) by (intro no_type_flip) (auto simp: iv_ok_def)
  have rem: "set (confirmed_removals P remote st) =
      (if removal_confirm_polls P \<le> counter st v + 1 then {v} else {})"
    using assms(4-6) by (auto simp: set_confirmed_removals bumped_counter)
  have "length (confirmed_removals P remote st) = card (set (confirmed_removals P remote st))"
    by (intro distinct_card[symmetric]) (simp add: confirmed_removals_def missing_def)
  then have bulk: "\<not> bulk_removal P remote st"
    unfolding rem by (auto simp: bulk_removal_def)
  have "set remote \<subseteq> set (candidate P remote st)"
    using assms(5) by (auto simp: set_candidate[OF assms(1)] rem)
  then have "candidate P remote st \<noteq> []"
    using assms(3) by auto
  then have st': "st' = fst (accept rf P now remote st)"
    using assms(2,3) flip bulk
    by (simp add: st'_def run_step_eq poll_once_def polled_def split_beta)
  show "set (held_list st') =
      (if removal_confirm_polls P \<le> counter st v + 1 then set remote else insert v (set remote))"
    using assms(4,5) unfolding st' set_accept[OF assms(1) hom flip] rem by auto
  show "counter st' v = counter st v + 1" if "counter st v + 1 < removal_confirm_polls P"
    using that assms(4-6)
    by (auto simp: st' counter_def[of "fst _"] accept_counts missing_def set_confirmed_removals
        bumped_counter)
qed

lemma omitting_polls:
  assumes "iv_ok P st" "polled rf r = Some remote" "remote \<noteq> []"
    and "set (held_list st) = insert v (set remote)" "v \<notin> set remote" "v \<notin> set (pinned P)"
    and "counter st v + int k < removal_confirm_polls P"
  shows "set (held_list (http_run rf P (replicate k (now, r)) st)) = insert v (set remote)
    \<and> counter (http_run rf P (replicate k (now, r)) st) v = counter st v + int k
    \<and> iv_ok P (http_run rf P (replicate k (now, r)) st)"
  using assms(1,4,7)
proof (induction k arbitrary: st)
  case (Suc k)
  note step = omitting_poll[OF Suc.prems(1) assms(2,3) Suc.prems(2) assms(5,6), of now]
  show ?case
    using Suc.IH[of "fst (run_step rf P (now, r) st)"] Suc.prems step iv_ok_step[OF Suc.prems(1)]
    by (simp add: http_run_def)
qed (simp add: http_run_def)

text \<open>Once the held set is what the endpoint serves, further polls leave it alone.\<close>

lemma agreeing_poll:
  assumes "iv_ok P st" "polled rf r = Some remote" "remote \<noteq> []" "set (held_list st) = set remote"
  shows "set (held_list (fst (run_step rf P (now, r) st))) = set remote"
proof -
  have hom: "homogeneous remote"
    using polled_homogeneous assms(2) by blast
  have flip: "\<not> type_flip remote st"
    using assms(1,4) by (intro no_type_flip) (auto simp: iv_ok_def)
  have rem: "confirmed_removals P remote st = []"
    using assms(4) by (auto simp: confirmed_removals_def missing_def filter_empty_conv)
  have "set (candidate P remote st) = set remote"
    using assms(4) by (auto simp: set_candidate[OF assms(1)] rem)
  then have "candidate P remote st \<noteq> []"
    using assms(3) by auto
  then have "fst (run_step rf P (now, r) st) = fst (accept rf P now remote st)"
    using assms(2,3) flip
    by (simp add: run_step_eq poll_once_def polled_def split_beta bulk_removal_def rem)
  then show ?thesis
    using assms(4) by (simp add: set_accept[OF assms(1) hom flip] rem)
qed

lemma agreeing_polls:
  assumes "iv_ok P st" "polled rf r = Some remote" "remote \<noteq> []" "set (held_list st) = set remote"
  shows "set (held_list (http_run rf P (replicate k (now, r)) st)) = set remote"
  using assms(1,4)
proof (induction k arbitrary: st)
  case (Suc k)
  then show ?case
    using agreeing_poll[OF Suc.prems(1) assms(2,3) Suc.prems(2)] iv_ok_step[OF Suc.prems(1)]
    by (simp add: http_run_def)
qed (simp add: http_run_def)

lemma http_run_append: "http_run rf P (rs @ rs') st = http_run rf P rs' (http_run rf P rs st)"
  by (simp add: http_run_def)

text \<open>
  C25: a removal the endpoint insists on does happen, and not before its time. When the endpoint
  serves exactly the held set without one unpinned value, poll after poll, the value is served up to
  the \<open>removal_confirm_polls\<close>-th of those polls and gone from then on, and nothing else changes.
\<close>

theorem insisted_removal_happens:
  assumes "iv_ok P st" "absent_polls st = []" "1 \<le> removal_confirm_polls P"
    and "polled rf r = Some remote" "remote \<noteq> []"
    and "set (held_list st) = insert v (set remote)" "v \<notin> set remote" "v \<notin> set (pinned P)"
  shows "set (held_list (http_run rf P (replicate k (now, r)) st)) =
    (if int k < removal_confirm_polls P then set (held_list st) else set (held_list st) - {v})"
proof -
  have 0: "counter st v = 0"
    using assms(2) by (simp add: counter_def)
  note before = omitting_polls[OF assms(1,4-8), of _ now, unfolded 0]
  show ?thesis
  proof (cases "int k < removal_confirm_polls P")
    case True
    then show ?thesis using before[of k] assms(6) by simp
  next
    case False
    define j where "j = nat (removal_confirm_polls P - 1)"
    define st2 where "st2 = http_run rf P (replicate j (now, r)) st"
    have j: "int j + 1 = removal_confirm_polls P"
      using assms(3) by (simp add: j_def)
    obtain i where k: "k = j + (1 + i)"
      using False j by (metis add.assoc le_Suc_ex not_less of_nat_1 of_nat_add of_nat_le_iff)
    have st2: "set (held_list st2) = insert v (set remote)" "counter st2 v = int j" "iv_ok P st2"
      using before[of j] j by (simp_all add: st2_def)
    have "http_run rf P (replicate k (now, r)) st
        = http_run rf P (replicate i (now, r)) (fst (run_step rf P (now, r) st2))"
      unfolding k replicate_add http_run_append st2_def by (simp add: http_run_def)
    moreover have "set (held_list (fst (run_step rf P (now, r) st2))) = set remote"
      using omitting_poll(1)[OF st2(3) assms(4,5) st2(1) assms(7,8), of now] st2(2) j by simp
    ultimately have "set (held_list (http_run rf P (replicate k (now, r)) st)) = set remote"
      using agreeing_polls[OF iv_ok_step[OF st2(3)] assms(4,5)] by simp
    then show ?thesis
      using False assms(6,7) by simp
  qed
qed

theorem insisted_removal_happens_witness:
  "set (held_list (http_run no_repr demo_iv (replicate 3 (demo_poll [7, 2])) demo_held))
     = {PInt 2, PInt 7}"
proof -
  have "polled no_repr (snd (demo_poll [7, 2])) = Some [PInt 2, PInt 7]"
    by (simp add: demo_run_simps)
  then show ?thesis
    using insisted_removal_happens[OF iv_ok_demo, of no_repr "snd (demo_poll [7, 2])"
        "[PInt 2, PInt 7]" "PInt 1" 3 0]
    by (auto simp: demo_iv_def demo_held_def demo_poll_def held_list_def insert_commute)
qed

subsection \<open>Startup\<close>

definition accepts :: "(real \<Rightarrow> string) \<Rightarrow> iv_params \<Rightarrow> real \<times> response \<Rightarrow> iv_state \<Rightarrow> bool" where
  "accepts rf P tr st \<longleftrightarrow> fst (poll_once rf P (fst tr) (snd tr) st) = Accepted"

lemma synced_step: "synced (fst (run_step rf P tr st)) \<longleftrightarrow> synced st \<or> accepts rf P tr st"
  by (rule poll_once_cases[of rf P "fst tr" "snd tr" st]) (auto simp: run_step_eq accepts_def)

lemma held_step:
  "held st \<noteq> None \<or> accepts rf P tr st \<Longrightarrow> held (fst (run_step rf P tr st)) \<noteq> None"
  by (rule poll_once_cases[of rf P "fst tr" "snd tr" st])
    (auto simp: run_step_eq accepts_def grow_def)

lemma synced_run:
  "synced (http_run rf P rs st)
     \<longleftrightarrow> synced st \<or> (\<exists>k < length rs. accepts rf P (rs ! k) (http_run rf P (take k rs) st))"
proof (induction rs rule: rev_induct)
  case (snoc tr rs)
  have "http_run rf P (rs @ [tr]) st = fst (run_step rf P tr (http_run rf P rs st))"
    by (simp add: http_run_def)
  then show ?case
    using snoc by (auto simp: synced_step nth_append less_Suc_eq)
qed (simp add: http_run_def)

lemma held_run: "synced st \<longrightarrow> held st \<noteq> None \<Longrightarrow>
    synced (http_run rf P rs st) \<longrightarrow> held (http_run rf P rs st) \<noteq> None"
proof (induction rs arbitrary: st)
  case (Cons tr rs)
  show ?case
    using Cons.IH[of "fst (run_step rf P tr st)"] Cons.prems synced_step held_step[of st rf P tr]
    by (simp add: http_run_def)
qed (simp add: http_run_def)

lemma http_init_ok:
  assumes "http_init polls bootstrap pins shadow = Some (P, st)"
    and "homogeneous (case bootstrap of None \<Rightarrow> [] | Some vs \<Rightarrow> vs)"
  shows "iv_ok P st" "\<not> synced st" "absent_polls st = []" "held st = bootstrap"
    "set (pinned P) = set (case pins of None \<Rightarrow> [] | Some vs \<Rightarrow> vs)"
  using assms
  by (auto simp: http_init_def iv_ok_def held_list_def Let_def split: if_splits option.splits)

text \<open>
  An authoritative source starts only on evidence. \<open>start\<close> returns exactly when one of the
  polls that completed before the timeout was accepted, and then serves a set, never \<open>None\<close>, that
  contains every pin; otherwise it raises.
\<close>

theorem start_needs_accepted_poll:
  assumes "http_init polls bootstrap pins shadow = Some (P, st)"
    and "homogeneous (case bootstrap of None \<Rightarrow> [] | Some vs \<Rightarrow> vs)"
  shows "http_start rf P rs st =
      (if \<exists>k < length rs. accepts rf P (rs ! k) (http_run rf P (take k rs) st)
       then Some (http_run rf P rs st) else None)
    \<and> (case http_start rf P rs st of None \<Rightarrow> True
       | Some st' \<Rightarrow> held st' \<noteq> None \<and> set (case pins of None \<Rightarrow> [] | Some vs \<Rightarrow> vs) \<subseteq> set (held_list st'))"
proof -
  note init = http_init_ok[OF assms]
  have "held (http_run rf P rs st) \<noteq> None" if "synced (http_run rf P rs st)"
    using that held_run init(2) by blast
  then show ?thesis
    using iv_ok_run[OF init(1), of rf rs] init(2,5)
    by (simp add: http_start_def Let_def synced_run iv_ok_def)
qed

theorem start_needs_accepted_poll_witness:
  "\<exists>P st. http_init 3 (Some [PInt 7]) (Some [PInt 7]) None = Some (P, st)
     \<and> http_start no_repr P [(0, RequestFailed)] st = None
     \<and> http_start no_repr P [(0, RequestFailed), demo_poll []] st \<noteq> None"
proof -
  define st where "st = \<lparr>held = Some [PInt 7], absent_polls = [], synced = False\<rparr>"
  have init: "http_init 3 (Some [PInt 7]) (Some [PInt 7]) None = Some (demo_iv, st)"
    by (simp add: http_init_def demo_iv_def st_def Let_def)
  have "accepts no_repr demo_iv (demo_poll []) st" "\<not> accepts no_repr demo_iv (0, RequestFailed) st"
    "run_step no_repr demo_iv (0, RequestFailed) st = (st, [Inc ''include_values_poll_failures_total'' [] 1])"
    by (simp_all add: st_def accepts_def demo_run_simps run_step_def)
  then show ?thesis
    using init start_needs_accepted_poll[OF init, of no_repr "[(0, RequestFailed)]"]
      start_needs_accepted_poll[OF init, of no_repr "[(0, RequestFailed), demo_poll []]"]
    by (auto simp: homogeneous_def http_run_def less_Suc_eq)
qed

subsection \<open>The contract of a source\<close>

text \<open>
  What the consume loop relies on, whichever of the three classes \<open>build\<close> returned: it starts the
  source once, polls happen at any time, and \<open>current()\<close> is read per batch. \<open>pins\<close> is the static
  configuration.
\<close>

locale include_source =
  fixes current :: "'s \<Rightarrow> pyval list option"
    and poll :: "real \<times> response \<Rightarrow> 's \<Rightarrow> 's"
    and good :: "'s \<Rightarrow> bool"
    and pins :: "pyval list"
  assumes good_poll: "good s \<Longrightarrow> good (poll tr s)"
    and good_serves: "good s \<Longrightarrow> \<exists>vs. current s = Some vs \<and> homogeneous vs \<and> set pins \<subseteq> set vs"
begin

lemma good_polls: "good s \<Longrightarrow> good (fold poll trs s)"
  by (induction trs arbitrary: s) (auto simp: good_poll)

lemma serves_pins:
  "good s \<Longrightarrow> \<exists>vs. current (fold poll trs s) = Some vs \<and> homogeneous vs \<and> set pins \<subseteq> set vs"
  by (rule good_serves[OF good_polls])

end

text \<open>A source of the model is good when it serves a homogeneous set that contains \<open>pins\<close>.\<close>

fun source_good :: "pyval list \<Rightarrow> source \<Rightarrow> bool" where
  "source_good pins (Static vs) \<longleftrightarrow> vs = Some pins \<and> homogeneous pins"
| "source_good pins (Shadow vs P st) \<longleftrightarrow> vs = Some pins \<and> homogeneous pins"
| "source_good pins (Http P st) \<longleftrightarrow> iv_ok P st \<and> set (pinned P) = set pins \<and> held st \<noteq> None"

interpretation sources: include_source source_current "source_poll rf" "source_good pins" pins for rf pins
proof
  show "source_good pins (source_poll rf tr s)" if "source_good pins s" for s tr
    using that by (cases s) (auto simp: iv_ok_step held_step)
  show "\<exists>vs. source_current s = Some vs \<and> homogeneous vs \<and> set pins \<subseteq> set vs"
    if "source_good pins s" for s
    using that by (cases s) (auto simp: iv_ok_def held_list_def)
qed

lemma build_good:
  assumes "build cfg = Some src" "filter_values cfg = Some pins" "homogeneous pins"
  shows "source_good pins src"
proof (cases "include_values_url cfg")
  case (Some url)
  obtain P st shadow where init:
    "http_init (include_values_removal_polls cfg) (Some pins) (Some pins) shadow = Some (P, st)"
    and src: "src \<in> {Shadow (Some pins) P st, Http P st}"
    using assms(1,2) Some by (auto simp: build_def split: if_splits)
  have "iv_ok P st" "held st = Some pins" "set (pinned P) = set pins"
    using http_init_ok[OF init] assms(3) by auto
  then show ?thesis
    using src assms(3) by auto
qed (use assms in \<open>auto simp: build_def\<close>)

lemma held_run_mono: "held st \<noteq> None \<Longrightarrow> held (http_run rf P rs st) \<noteq> None"
  unfolding http_run_def by (induction rs arbitrary: st) (auto simp del: not_None_eq simp: held_step)

lemma source_start_polls:
  "source_good pins src \<Longrightarrow> source_start rf rs src = Some src' \<Longrightarrow> source_good pins src'"
  using held_run_mono by (cases src) (auto simp: http_start_def Let_def iv_ok_run split: if_splits)

text \<open>
  C24: the static configuration is a permanent floor. Whatever source \<open>build\<close> makes of it (static,
  shadow or authoritative), after a successful start and any sequence of polls the batch filter reads
  a set of one scalar type that contains every configured value.
\<close>

theorem configured_values_always_served:
  assumes "filter_values cfg = Some pins" "homogeneous pins"
    and "build cfg = Some src" "source_start rf rs src = Some src'"
  shows "\<exists>vs. source_current (fold (source_poll rf) trs src') = Some vs
    \<and> homogeneous vs \<and> set pins \<subseteq> set vs"
  using source_start_polls[OF build_good[OF assms(3,1,2)] assms(4)] by (rule sources.serves_pins)

theorem configured_values_always_served_witness:
  "\<exists>src src'. build (demo_cfg\<lparr>filter_values := Some [PInt 7], include_values_url := Some ''http://x'',
      include_values_mode := ''authoritative''\<rparr>) = Some src
    \<and> source_start no_repr [demo_poll [1]] src = Some src'
    \<and> (\<exists>vs. source_current (fold (source_poll no_repr) [demo_poll [2]] src') = Some vs
        \<and> PInt 7 \<in> set vs)"
proof -
  define cfg where "cfg = demo_cfg\<lparr>filter_values := Some [PInt 7],
    include_values_url := Some ''http://x'', include_values_mode := ''authoritative''\<rparr>"
  define src where "src = Http (demo_iv\<lparr>removal_confirm_polls := 5\<rparr>)
    \<lparr>held = Some [PInt 7], absent_polls = [], synced = False\<rparr>"
  define src' where "src' = Http (demo_iv\<lparr>removal_confirm_polls := 5\<rparr>)
    \<lparr>held = Some [PInt 1, PInt 7], absent_polls = [], synced = True\<rparr>"
  have build: "build cfg = Some src"
    by (simp add: build_def cfg_def src_def demo_cfg_def demo_iv_def http_init_def Let_def)
  have start: "source_start no_repr [demo_poll [1]] src = Some src'"
    by (simp add: src_def src'_def http_start_def http_run_def run_step_def demo_run_simps)
  show ?thesis
    using configured_values_always_served[of cfg "[PInt 7]" src no_repr "[demo_poll [1]]" src'
        "[demo_poll [2]]"] build start
    unfolding cfg_def[symmetric] by (force simp: cfg_def homogeneous_def)
qed

end
