(* ===== verification/Arrow.thy ===== *)
theory Arrow
  imports Config
begin

text \<open>
  What the pipeline uses of pyarrow. A table is what its API shows: the schema, and the rows, each a
  dict from column names to the Python values \<open>to_pylist\<close> returns (\<^const>\<open>PNone\<close> for null or for a
  key the row does not have). The compute kernels are not code of this repository: they are the
  fields of a record \<open>arrow\<close>, an argument of every definition that calls one, and the documented
  behaviour a theorem relies on is a named predicate on that record. An Arrow exception is a value
  of \<open>arrow_error\<close>.
\<close>

subsection \<open>Types and tables\<close>

datatype atype =
    ANull | ABool
  | AInt bool nat
  | AFloat nat
  | AString | ALargeString
  | ABinary | ALargeBinary | AFixedBinary nat
  | ADate32
  | ATimestamp string "string option"
  | AStruct | AListT | AMap
  | AUuid
  | AExtension string
  | AOther string

fun is_integer :: "atype \<Rightarrow> bool" where
  "is_integer (AInt s bits) = True"
| "is_integer t = False"

fun is_floating :: "atype \<Rightarrow> bool" where
  "is_floating (AFloat bits) = True"
| "is_floating t = False"

definition is_string_type :: "atype \<Rightarrow> bool" where
  "is_string_type t \<longleftrightarrow> t = AString \<or> t = ALargeString"

fun is_extension :: "atype \<Rightarrow> bool" where
  "is_extension AUuid = True"
| "is_extension (AExtension n) = True"
| "is_extension t = False"

datatype arrow_error = ArrowInvalid | ArrowTypeError | ArrowNotImplemented | OtherError

type_synonym row = "(string \<times> pyval) list"

record table =
  tschema :: "(string \<times> atype) list"
  trows :: "row list"

definition cell :: "row \<Rightarrow> string \<Rightarrow> pyval" where
  "cell r n = (case map_of r n of None \<Rightarrow> PNone | Some v \<Rightarrow> v)"

definition column :: "table \<Rightarrow> string \<Rightarrow> pyval list" where
  "column t n = map (\<lambda>r. cell r n) (trows t)"

definition column_type :: "table \<Rightarrow> string \<Rightarrow> atype option" where
  "column_type t n = map_of (tschema t) n"

definition num_rows :: "table \<Rightarrow> nat" where
  "num_rows t = length (trows t)"

definition null_count :: "pyval list \<Rightarrow> nat" where
  "null_count vs = length (filter (\<lambda>v. v = PNone) vs)"

text \<open>\<open>table.filter(mask)\<close>, \<open>table.slice(0, 0)\<close> and \<open>table.take(indices)\<close>.\<close>

definition mask_select :: "bool list \<Rightarrow> 'a list \<Rightarrow> 'a list" where
  "mask_select bs xs = map snd (filter fst (zip bs xs))"

definition filter_rows :: "bool list \<Rightarrow> table \<Rightarrow> table" where
  "filter_rows bs t = t\<lparr>trows := mask_select bs (trows t)\<rparr>"

definition no_rows :: "table \<Rightarrow> table" where
  "no_rows t = t\<lparr>trows := []\<rparr>"

definition take_rows :: "nat list \<Rightarrow> table \<Rightarrow> table" where
  "take_rows idxs t = t\<lparr>trows := map (\<lambda>i. trows t ! i) idxs\<rparr>"

subsection \<open>The kernels\<close>

record arrow =
  storage_of :: "atype \<Rightarrow> atype"
  infer_type :: "pyval \<Rightarrow> atype"
  cast :: "atype \<Rightarrow> atype \<Rightarrow> pyval list \<Rightarrow> arrow_error + pyval list"
  assume_utc :: "pyval list \<Rightarrow> arrow_error + pyval list"
  values_array :: "pyval list \<Rightarrow> atype \<Rightarrow> arrow_error + pyval list"
  is_in :: "pyval list \<Rightarrow> pyval list \<Rightarrow> bool option list"
  value_counts :: "pyval list \<Rightarrow> (pyval \<times> nat) list"
  sort_indices :: "table \<Rightarrow> string list \<Rightarrow> arrow_error + nat list"
  from_pylist :: "row list \<Rightarrow> (string \<times> atype) list \<Rightarrow> arrow_error + table"
  concat_tables :: "table list \<Rightarrow> arrow_error + table"
  nbytes :: "table \<Rightarrow> int"

text \<open>The documented behaviour of the kernels the theorems use.\<close>

text \<open>\<open>is_in\<close> tests membership value by value; a null gives null or false.\<close>

definition is_in_law :: "arrow \<Rightarrow> bool" where
  "is_in_law A \<longleftrightarrow> (\<forall>vs S. list_all2
     (\<lambda>v m. if v = PNone then m \<noteq> Some True else m = Some (v \<in> set S)) vs (is_in A vs S))"

text \<open>\<open>value_counts\<close> lists each distinct value with the number of its occurrences.\<close>

definition value_counts_law :: "arrow \<Rightarrow> bool" where
  "value_counts_law A \<longleftrightarrow> (\<forall>vs. distinct (map fst (value_counts A vs))
     \<and> set (value_counts A vs) = {(v, count_list vs v) |v. v \<in> set vs})"

text \<open>\<open>sort_indices\<close>, when it does not raise, returns a permutation of the row numbers.\<close>

definition sort_indices_law :: "arrow \<Rightarrow> bool" where
  "sort_indices_law A \<longleftrightarrow> (\<forall>t ks idxs. sort_indices A t ks = Inr idxs \<longrightarrow>
     distinct idxs \<and> set idxs = {..<num_rows t})"

text \<open>\<open>concat_tables\<close>, when it does not raise, keeps all rows in order.\<close>

definition concat_law :: "arrow \<Rightarrow> bool" where
  "concat_law A \<longleftrightarrow> (\<forall>ts t. concat_tables A ts = Inr t \<longrightarrow> trows t = concat (map trows ts))"

text \<open>\<open>from_pylist\<close>, when it does not raise, makes one row of each dict under the given schema; a table
  without columns has no rows.\<close>

definition from_pylist_law :: "arrow \<Rightarrow> bool" where
  "from_pylist_law A \<longleftrightarrow> (\<forall>rs sch t. from_pylist A rs sch = Inr t \<longrightarrow>
     tschema t = sch \<and> num_rows t = (if sch = [] then 0 else length rs))"

text \<open>A cast keeps the number of values.\<close>

definition cast_law :: "arrow \<Rightarrow> bool" where
  "cast_law A \<longleftrightarrow> (\<forall>src dst vs vs'. cast A src dst vs = Inr vs' \<longrightarrow> length vs' = length vs)
     \<and> (\<forall>vs vs'. assume_utc A vs = Inr vs' \<longrightarrow> length vs' = length vs)"

lemmas arrow_laws = is_in_law_def value_counts_law_def sort_indices_law_def concat_law_def
  from_pylist_law_def cast_law_def

subsection \<open>Typed arrays\<close>

text \<open>An array as the code passes it between kernels: an Arrow type of its own beside its values. A cast
  gives an array of the type it is asked for; \<open>assume_timezone\<close> takes a timestamp without zone to the
  same unit in the zone.\<close>

datatype arr = Arr (arr_type: atype) (arr_vals: "pyval list")

definition arr_cast :: "arrow \<Rightarrow> arr \<Rightarrow> atype \<Rightarrow> arrow_error + arr" where
  "arr_cast A a ty = map_sum id (Arr ty) (cast A (arr_type a) ty (arr_vals a))"

definition assume_timezone_utc :: "arrow \<Rightarrow> arr \<Rightarrow> arrow_error + arr" where
  "assume_timezone_utc A a =
     (case arr_type a of
        ATimestamp unit None \<Rightarrow> map_sum id (Arr (ATimestamp unit (Some ''UTC''))) (assume_utc A (arr_vals a))
      | ATimestamp unit (Some tz) \<Rightarrow> Inl ArrowInvalid
      | _ \<Rightarrow> Inl ArrowNotImplemented)"

lemma arr_cast_result:
  "cast_law A \<Longrightarrow> arr_cast A a ty = Inr b \<Longrightarrow> arr_type b = ty \<and> length (arr_vals b) = length (arr_vals a)"
  by (auto simp: arr_cast_def cast_law_def map_sum_def split: sum.splits)

lemma assume_timezone_result:
  "cast_law A \<Longrightarrow> assume_timezone_utc A a = Inr b \<Longrightarrow>
     (\<exists>unit. arr_type a = ATimestamp unit None \<and> arr_type b = ATimestamp unit (Some ''UTC''))
     \<and> length (arr_vals b) = length (arr_vals a)"
  by (auto simp: assume_timezone_utc_def cast_law_def map_sum_def split: sum.splits atype.splits option.splits)

subsection \<open>Masks\<close>

lemma mask_select_Nil [simp]: "mask_select bs [] = []" "mask_select [] xs = []"
  by (simp_all add: mask_select_def)

lemma mask_select_Cons [simp]:
  "mask_select (b # bs) (x # xs) = (if b then x # mask_select bs xs else mask_select bs xs)"
  by (simp add: mask_select_def)

lemma mask_select_map: "mask_select (map P xs) xs = filter P xs"
  by (induction xs) simp_all

lemma mask_select_map2: "mask_select (map P xs) (map f xs) = map f (filter P xs)"
  by (induction xs) simp_all

lemma cell_list_update [simp]:
  "cell (AList.update n v r) m = (if m = n then v else cell r m)"
  by (simp add: cell_def update_conv)

lemma length_column [simp]: "length (column t n) = num_rows t"
  by (simp add: column_def num_rows_def)

lemma num_rows_filter: "num_rows (filter_rows (map P (trows t)) t) = length (filter P (trows t))"
  by (simp add: filter_rows_def num_rows_def mask_select_map)

subsection \<open>Kernels the examples run on\<close>

text \<open>A small implementation with the documented behaviour, on which the theorems that rely on it are
  instantiated.\<close>

fun demo_infer :: "pyval \<Rightarrow> atype" where
  "demo_infer (PBool b) = ABool"
| "demo_infer (PInt i) = AInt True 64"
| "demo_infer (PFloat x) = AFloat 64"
| "demo_infer (PStr s) = AString"
| "demo_infer (PBytes bs) = ABinary"
| "demo_infer (PList vs) = AListT"
| "demo_infer (PDict kvs) = AStruct"
| "demo_infer PNone = ANull"

definition demo_arrow :: arrow where
  "demo_arrow = \<lparr>storage_of = (\<lambda>ty. if ty = AUuid then AFixedBinary 16 else ty),
     infer_type = demo_infer,
     cast = (\<lambda>src dst vs. if src = ABool \<and> dst = ATimestamp ''us'' None then Inl ArrowNotImplemented
                          else if \<exists>v \<in> set vs. v = PStr ''x'' then Inl ArrowInvalid else Inr vs),
     assume_utc = Inr,
     values_array = (\<lambda>vs ty. Inr vs),
     is_in = (\<lambda>vs S. map (\<lambda>v. if v = PNone then None else Some (v \<in> set S)) vs),
     value_counts = (\<lambda>vs. map (\<lambda>v. (v, count_list vs v)) (remdups vs)),
     sort_indices = (\<lambda>t ks. Inr (rev [0..<num_rows t])),
     from_pylist = (\<lambda>rs sch. Inr \<lparr>tschema = sch, trows = if sch = [] then [] else rs\<rparr>),
     concat_tables = (\<lambda>ts. case ts of [] \<Rightarrow> Inl ArrowInvalid
                        | t # _ \<Rightarrow> Inr \<lparr>tschema = tschema t, trows = concat (map trows ts)\<rparr>),
     nbytes = (\<lambda>t. 8 * int (num_rows t))\<rparr>"

lemma demo_arrow_laws:
  "is_in_law demo_arrow" "value_counts_law demo_arrow" "sort_indices_law demo_arrow"
  "concat_law demo_arrow" "from_pylist_law demo_arrow" "cast_law demo_arrow"
  by (auto simp: arrow_laws demo_arrow_def list_all2_conv_all_nth distinct_map inj_on_def comp_def
      num_rows_def split: list.splits if_splits)

lemma demo_arrow_simps [simp]:
  "storage_of demo_arrow ty = (if ty = AUuid then AFixedBinary 16 else ty)"
  "infer_type demo_arrow = demo_infer"
  "from_pylist demo_arrow rs sch = Inr \<lparr>tschema = sch, trows = if sch = [] then [] else rs\<rparr>"
  "values_array demo_arrow vs ty = Inr vs"
  "assume_utc demo_arrow vs = Inr vs"
  "nbytes demo_arrow t = 8 * int (num_rows t)"
  "cast demo_arrow src dst vs =
     (if src = ABool \<and> dst = ATimestamp ''us'' None then Inl ArrowNotImplemented
      else if PStr ''x'' \<in> set vs then Inl ArrowInvalid else Inr vs)"
  by (simp_all add: demo_arrow_def)

end
