(* ===== verification/Filters.thy ===== *)
theory Filters
  imports Arrow "HOL-Library.Multiset"
begin

text \<open>
  The batch filters of \<open>millpond/main.py\<close>: the keep-filter (an allowlist that fails closed), the
  drop-filter (a denylist that fails open), and the sort before a write. The module-level memo of
  the parsed UUID values and the sets of warnings already given are explicit state. The cells of a
  uuid column are its 16 storage bytes, so \<open>_uuid_storage\<close> is the column itself. \<open>rf\<close> is the text
  of a float (\<open>float.__repr__\<close>). Log lines are not modelled.
\<close>

subsection \<open>UUID filter values\<close>

record filter_state =
  uuid_memo :: "(pyval list \<times> pyval list \<times> pyval list) option"
  uuid_warned :: "(string \<times> nat \<times> string) set"

definition split_uuid_values :: "pyval list \<Rightarrow> pyval list \<times> pyval list" where
  "split_uuid_values values =
     (List.map_filter (\<lambda>v. map_option PBytes (uuid_bytes v)) values,
      filter (\<lambda>v. uuid_bytes v = None) values)"

definition parse_uuid_filter_values ::
  "pyval list \<Rightarrow> filter_state \<Rightarrow> (pyval list \<times> pyval list) \<times> filter_state" where
  "parse_uuid_filter_values values st =
     (case uuid_memo st of
        Some (vs, parsed, invalid) \<Rightarrow>
          if vs = values then ((parsed, invalid), st)
          else (let (parsed, invalid) = split_uuid_values values
                in ((parsed, invalid), st\<lparr>uuid_memo := Some (values, parsed, invalid)\<rparr>))
      | None \<Rightarrow>
          (let (parsed, invalid) = split_uuid_values values
           in ((parsed, invalid), st\<lparr>uuid_memo := Some (values, parsed, invalid)\<rparr>)))"

definition warn_bad_uuid_filter_values ::
  "(real \<Rightarrow> string) \<Rightarrow> string \<Rightarrow> pyval list \<Rightarrow> pyval list \<Rightarrow> filter_state \<Rightarrow> filter_state" where
  "warn_bad_uuid_filter_values rf field values invalid st =
     (let key = (field, length values, str_of rf (hd invalid))
      in if key \<in> uuid_warned st then st
         else st\<lparr>uuid_warned := insert key (uuid_warned st)\<rparr>)"

definition SKIPPED :: string where "SKIPPED = ''records_skipped_total''"

text \<open>The Arrow exceptions the three functions catch.\<close>

definition caught :: "arrow_error \<Rightarrow> bool" where
  "caught e \<longleftrightarrow> e \<in> {ArrowInvalid, ArrowNotImplemented, ArrowTypeError}"

subsection \<open>The keep-filter\<close>

definition finish_keep_filter ::
  "arrow \<Rightarrow> (pyval \<Rightarrow> string) \<Rightarrow> table \<Rightarrow> pyval list \<Rightarrow> pyval list \<Rightarrow> table \<times> metric list" where
  "finish_keep_filter A render t col value_array =
     (let keep_mask = map (\<lambda>m. case m of None \<Rightarrow> False | Some b \<Rightarrow> b) (is_in A col value_array);
          nulls = null_count col;
          filtered = filter_rows keep_mask t;
          n_excluded = int (num_rows t) - int (num_rows filtered) - int nulls
      in (filtered,
          (if 0 < nulls then [Inc SKIPPED ''filter_field_missing'' (int nulls)] else [])
          @ (if 0 < n_excluded then [Inc SKIPPED ''filter_excluded'' n_excluded] else [])
          @ (if 0 < num_rows filtered
             then map (\<lambda>(v, n). Inc ''filter_matched_total'' (render v) (int n))
                    (value_counts A (mask_select keep_mask col))
             else [])))"

definition uuid_label :: "pyval \<Rightarrow> string" where
  "uuid_label v = (case v of PBytes bs \<Rightarrow> (case uuid_text bs of Some s \<Rightarrow> s | None \<Rightarrow> []) | _ \<Rightarrow> [])"

definition drop_batch :: "string \<Rightarrow> table \<Rightarrow> table \<times> metric list" where
  "drop_batch reason t = (no_rows t, [Inc SKIPPED reason (int (num_rows t))])"

definition apply_filter ::
  "arrow \<Rightarrow> (real \<Rightarrow> string) \<Rightarrow> config \<Rightarrow> pyval list option \<Rightarrow> filter_state \<Rightarrow> table
     \<Rightarrow> (arrow_error + table \<times> metric list) \<times> filter_state" where
  "apply_filter A rf cfg values_opt st t =
     (case (filter_keep_field cfg, values_opt) of
        (Some field, Some values) \<Rightarrow>
          (case column_type t field of
             None \<Rightarrow> (Inr (drop_batch ''filter_field_missing'' t), st)
           | Some ty \<Rightarrow>
               if ty = AUuid then
                 (let ((value_array, invalid), st1) = parse_uuid_filter_values values st;
                      st2 = (if invalid \<noteq> [] then warn_bad_uuid_filter_values rf field values invalid st1 else st1);
                      ms = (if invalid \<noteq> [] then [Inc ''errors_total'' ''filter_value_invalid'' 1] else [])
                  in if value_array = [] then
                       (let (t', ms') = drop_batch ''filter_value_invalid'' t in (Inr (t', ms @ ms'), st2))
                     else
                       (let (t', ms') = finish_keep_filter A uuid_label t (column t field) value_array
                        in (Inr (t', ms @ ms'), st2)))
               else if \<not> (is_integer ty \<or> is_string_type ty) then
                 (Inr (drop_batch ''filter_field_missing'' t), st)
               else
                 (case values_array A values ty of
                    Inl e \<Rightarrow> (if caught e then Inr (drop_batch ''filter_field_missing'' t) else Inl e, st)
                  | Inr value_array \<Rightarrow>
                      (Inr (finish_keep_filter A (str_of rf) t (column t field) value_array), st)))
      | _ \<Rightarrow> (Inr (t, []), st))"

subsection \<open>The drop-filter\<close>

definition finish_drop_filter :: "arrow \<Rightarrow> table \<Rightarrow> pyval list \<Rightarrow> pyval list \<Rightarrow> table \<times> metric list" where
  "finish_drop_filter A t col value_array =
     (let drop_mask = map (\<lambda>m. case m of None \<Rightarrow> False | Some b \<Rightarrow> b) (is_in A col value_array);
          filtered = filter_rows (map Not drop_mask) t;
          n_dropped = num_rows t - num_rows filtered
      in (filtered, if 0 < n_dropped then [Inc SKIPPED ''filter_dropped'' (int n_dropped)] else []))"

definition apply_drop_filter ::
  "arrow \<Rightarrow> (real \<Rightarrow> string) \<Rightarrow> config \<Rightarrow> filter_state \<Rightarrow> table
     \<Rightarrow> (arrow_error + table \<times> metric list) \<times> filter_state" where
  "apply_drop_filter A rf cfg st t =
     (case (filter_drop_field cfg, filter_drop_values cfg) of
        (Some field, Some values) \<Rightarrow>
          (case column_type t field of
             None \<Rightarrow> (Inr (t, []), st)
           | Some ty \<Rightarrow>
               if ty = AUuid then
                 (let ((value_array, invalid), st1) = parse_uuid_filter_values values st;
                      st2 = (if invalid \<noteq> [] then warn_bad_uuid_filter_values rf field values invalid st1 else st1);
                      ms = (if invalid \<noteq> [] then [Inc ''errors_total'' ''filter_value_invalid'' 1] else [])
                  in if value_array = [] then (Inr (t, ms), st2)
                     else (let (t', ms') = finish_drop_filter A t (column t field) value_array
                           in (Inr (t', ms @ ms'), st2)))
               else if \<not> (is_integer ty \<or> is_string_type ty) then (Inr (t, []), st)
               else
                 (case values_array A values ty of
                    Inl e \<Rightarrow> (if caught e then Inr (t, []) else Inl e, st)
                  | Inr value_array \<Rightarrow> (Inr (finish_drop_filter A t (column t field) value_array), st)))
      | _ \<Rightarrow> (Inr (t, []), st))"

subsection \<open>The sort before a write\<close>

record sort_state =
  missing_warned :: "string set"
  unsortable_warned :: "string set"

text \<open>\<open>_sortable_key_projection\<close>: an extension-typed sort key is replaced by its storage.\<close>

definition sortable_key_projection :: "arrow \<Rightarrow> table \<Rightarrow> string list \<Rightarrow> table" where
  "sortable_key_projection A t sort_keys =
     t\<lparr>tschema := map (\<lambda>(n, ty). (n, if n \<in> set sort_keys \<and> is_extension ty then storage_of A ty else ty)) (tschema t)\<rparr>"

definition apply_sort :: "arrow \<Rightarrow> config \<Rightarrow> sort_state \<Rightarrow> table
     \<Rightarrow> (arrow_error + table \<times> metric list) \<times> sort_state" where
  "apply_sort A cfg st t =
     (case sort_by cfg of
        None \<Rightarrow> (Inr (t, []), st)
      | Some sort_keys \<Rightarrow>
          let missing = filter (\<lambda>f. column_type t f = None) sort_keys in
          if missing \<noteq> [] then
            (Inr (t, [Inc ''sort_skipped_total'' ''field_missing'' (int (num_rows t))]),
             st\<lparr>missing_warned := insert (join '','' missing) (missing_warned st)\<rparr>)
          else
            (case sort_indices A (sortable_key_projection A t sort_keys) sort_keys of
               Inl e \<Rightarrow>
                 if \<not> caught e then (Inl e, st)
                 else (Inr (t, [Inc ''sort_skipped_total'' ''unsortable_type'' (int (num_rows t))]),
                  st\<lparr>unsortable_warned := insert (join '','' sort_keys) (unsortable_warned st)\<rparr>)
             | Inr indices \<Rightarrow> (Inr (take_rows indices t, []), st)))"

subsection \<open>What the filters keep\<close>

lemma is_in_mask:
  assumes "is_in_law A"
  shows "map (\<lambda>m. case m of None \<Rightarrow> False | Some b \<Rightarrow> b) (is_in A vs S)
    = map (\<lambda>v. v \<noteq> PNone \<and> v \<in> set S) vs"
proof -
  have "list_all2 (\<lambda>v m. if v = PNone then m \<noteq> Some True else m = Some (v \<in> set S)) vs (is_in A vs S)"
    using assms by (simp add: is_in_law_def)
  then show ?thesis
    by (induction rule: list_all2_induct) (auto split: option.split if_splits)
qed

definition in_set :: "string \<Rightarrow> pyval list \<Rightarrow> row \<Rightarrow> bool" where
  "in_set field S r \<longleftrightarrow> cell r field \<noteq> PNone \<and> cell r field \<in> set S"

lemma column_mask:
  "is_in_law A \<Longrightarrow> map (\<lambda>m. case m of None \<Rightarrow> False | Some b \<Rightarrow> b) (is_in A (column t field) S)
     = map (in_set field S) (trows t)"
  by (simp add: is_in_mask column_def in_set_def)

lemma null_count_column: "null_count (column t field) = length (filter (\<lambda>r. cell r field = PNone) (trows t))"
  by (simp add: null_count_def column_def filter_map comp_def)

lemma sum_counts: "sum_list (map snd ps) = length vs"
  if "distinct (map fst ps)" "set ps = {(v, count_list vs v) |v. v \<in> set vs}" for ps :: "('a \<times> nat) list"
proof -
  have "sum_list (map snd ps) = sum snd (set ps)"
    using that(1) by (metis distinct_map sum_list_distinct_conv_sum_set)
  also have "set ps = (\<lambda>v. (v, count_list vs v)) ` set vs"
    using that(2) by auto
  also have "sum snd \<dots> = sum (count_list vs) (set vs)"
    by (subst sum.reindex) (auto simp: inj_on_def)
  also have "\<dots> = length vs"
    by (rule sum_count_set) simp_all
  finally show ?thesis .
qed

lemma total_matched:
  "total ''filter_matched_total'' (map (\<lambda>(v, n). Inc ''filter_matched_total'' (render v) (int n)) ps)
     = int (sum_list (map snd ps))"
  by (induction ps) auto

lemma total_other:
  "name \<noteq> ''filter_matched_total'' \<Longrightarrow>
     total name (map (\<lambda>(v, n). Inc ''filter_matched_total'' (render v) (int n)) ps) = 0"
  by (induction ps) auto

lemma rows_split:
  "length (filter (in_set field S) rs) + length (filter (\<lambda>r. cell r field = PNone) rs) \<le> length rs"
  by (induction rs) (auto simp: in_set_def)

lemma finish_keep:
  assumes "is_in_law A" "finish_keep_filter A render t (column t field) S = (t', ms)"
  shows "tschema t' = tschema t"
    and "trows t' = filter (in_set field S) (trows t)"
    and "total SKIPPED ms = int (num_rows t) - int (num_rows t')"
    and "value_counts_law A \<Longrightarrow> total ''filter_matched_total'' ms = int (num_rows t')"
proof -
  let ?m = "map (in_set field S) (trows t)"
  have t': "t' = filter_rows ?m t"
    using assms by (simp add: finish_keep_filter_def column_mask Let_def)
  then show "tschema t' = tschema t" "trows t' = filter (in_set field S) (trows t)"
    by (simp_all add: filter_rows_def mask_select_map)
  have n: "num_rows t' = length (filter (in_set field S) (trows t))"
    by (simp add: t' num_rows_filter)
  have col: "mask_select ?m (column t field) = map (\<lambda>r. cell r field) (filter (in_set field S) (trows t))"
    by (simp add: column_def mask_select_map2)
  have ms: "ms = (if 0 < null_count (column t field)
        then [Inc SKIPPED ''filter_field_missing'' (int (null_count (column t field)))] else [])
      @ (if 0 < int (num_rows t) - int (num_rows t') - int (null_count (column t field))
         then [Inc SKIPPED ''filter_excluded'' (int (num_rows t) - int (num_rows t') - int (null_count (column t field)))]
         else [])
      @ (if 0 < num_rows t' then map (\<lambda>(v, n). Inc ''filter_matched_total'' (render v) (int n))
            (value_counts A (mask_select ?m (column t field))) else [])"
    using assms(2) unfolding finish_keep_filter_def column_mask[OF assms(1)] Let_def t' by simp
  have le: "num_rows t' + null_count (column t field) \<le> num_rows t"
    unfolding n null_count_column using rows_split[of field S "trows t"] by (simp add: num_rows_def)
  show "total SKIPPED ms = int (num_rows t) - int (num_rows t')"
    unfolding ms using le by (auto simp: total_other SKIPPED_def)
  show "total ''filter_matched_total'' ms = int (num_rows t')" if "value_counts_law A"
  proof -
    have "sum_list (map snd (value_counts A (mask_select ?m (column t field))))
        = length (mask_select ?m (column t field))"
      using that by (intro sum_counts) (auto simp: value_counts_law_def)
    then show ?thesis
      unfolding ms by (simp add: total_matched col n SKIPPED_def)
  qed
qed

lemma finish_drop:
  assumes "is_in_law A" "finish_drop_filter A t (column t field) S = (t', ms)"
  shows "trows t' = filter (\<lambda>r. \<not> in_set field S r) (trows t)" and "tschema t' = tschema t"
    and "total SKIPPED ms = int (num_rows t) - int (num_rows t')"
proof -
  have t': "t' = filter_rows (map (\<lambda>r. \<not> in_set field S r) (trows t)) t"
    using assms by (simp add: finish_drop_filter_def column_mask Let_def comp_def)
  then show "trows t' = filter (\<lambda>r. \<not> in_set field S r) (trows t)" "tschema t' = tschema t"
    by (simp_all add: filter_rows_def mask_select_map)
  have "num_rows t' \<le> num_rows t"
    by (simp add: t' num_rows_filter) (simp add: num_rows_def)
  then show "total SKIPPED ms = int (num_rows t) - int (num_rows t')"
    using assms t' by (auto simp: finish_drop_filter_def column_mask Let_def comp_def)
qed

text \<open>The memo is transparent: whatever was parsed before, a call returns the split of its own
  values.\<close>

definition memo_ok :: "filter_state \<Rightarrow> bool" where
  "memo_ok st \<longleftrightarrow> (case uuid_memo st of None \<Rightarrow> True
     | Some (vs, parsed, invalid) \<Rightarrow> (parsed, invalid) = split_uuid_values vs)"

lemma parse_uuid_transparent:
  "memo_ok st \<Longrightarrow> parse_uuid_filter_values values st = (res, st') \<Longrightarrow>
     res = split_uuid_values values \<and> memo_ok st'"
  by (auto simp: memo_ok_def parse_uuid_filter_values_def split_beta Let_def split: option.splits if_splits)

lemma memo_ok_warn [simp]:
  "memo_ok (warn_bad_uuid_filter_values rf field values invalid st) = memo_ok st"
  by (simp add: memo_ok_def warn_bad_uuid_filter_values_def Let_def)

text \<open>The values a column of type \<open>ty\<close> is compared with; \<open>None\<close> when the filter cannot be
  evaluated against it.\<close>

definition comparable :: "arrow \<Rightarrow> pyval list \<Rightarrow> atype \<Rightarrow> pyval list option" where
  "comparable A values ty =
     (if ty = AUuid then
        (let parsed = fst (split_uuid_values values) in if parsed = [] then None else Some parsed)
      else if is_integer ty \<or> is_string_type ty then
        (case values_array A values ty of Inl e \<Rightarrow> None | Inr va \<Rightarrow> Some va)
      else None)"

text \<open>An unevaluable allowlist keeps nothing; an unevaluable denylist drops nothing.\<close>

definition keeps :: "arrow \<Rightarrow> config \<Rightarrow> pyval list option \<Rightarrow> table \<Rightarrow> row \<Rightarrow> bool" where
  "keeps A cfg vopt t r =
     (case (filter_keep_field cfg, vopt) of
        (Some field, Some values) \<Rightarrow>
          (case Option.bind (column_type t field) (comparable A values) of
             None \<Rightarrow> False | Some S \<Rightarrow> in_set field S r)
      | _ \<Rightarrow> True)"

definition drops :: "arrow \<Rightarrow> config \<Rightarrow> table \<Rightarrow> row \<Rightarrow> bool" where
  "drops A cfg t r =
     (case (filter_drop_field cfg, filter_drop_values cfg) of
        (Some field, Some values) \<Rightarrow>
          (case Option.bind (column_type t field) (comparable A values) of
             None \<Rightarrow> False | Some S \<Rightarrow> in_set field S r)
      | _ \<Rightarrow> False)"

text \<open>What both filters promise of a batch they accept: a selection of its rows, under the same
  schema, with every row that is left out counted once.\<close>

definition selects :: "(row \<Rightarrow> bool) \<Rightarrow> table \<Rightarrow> table \<times> metric list \<Rightarrow> bool" where
  "selects P t res \<longleftrightarrow> tschema (fst res) = tschema t \<and> trows (fst res) = filter P (trows t)
     \<and> total SKIPPED (snd res) = int (num_rows t) - int (num_rows (fst res))"

lemma selects_finish_keep:
  assumes "is_in_law A"
  shows "selects (in_set field S) t (finish_keep_filter A render t (column t field) S)"
proof -
  obtain t' ms where eq: "finish_keep_filter A render t (column t field) S = (t', ms)"
    by fastforce
  show ?thesis
    using finish_keep[OF assms eq] by (simp add: selects_def eq)
qed

lemma selects_finish_drop:
  assumes "is_in_law A"
  shows "selects (\<lambda>r. \<not> in_set field S r) t (finish_drop_filter A t (column t field) S)"
proof -
  obtain t' ms where eq: "finish_drop_filter A t (column t field) S = (t', ms)"
    by fastforce
  show ?thesis
    using finish_drop[OF assms eq] by (simp add: selects_def eq)
qed

lemma selects_drop_batch: "selects (\<lambda>r. False) t (drop_batch reason t)"
  by (simp add: selects_def drop_batch_def no_rows_def num_rows_def)

lemma selects_all: "selects (\<lambda>r. True) t (t, [])"
  by (simp add: selects_def)

lemma selects_errors:
  "selects P t res \<Longrightarrow>
     selects P t (fst res, (if c then [Inc ''errors_total'' l 1] else []) @ snd res)"
  by (simp add: selects_def SKIPPED_def)

lemma keeps_cong: "tschema t = tschema t' \<Longrightarrow> keeps A cfg vopt t = keeps A cfg vopt t'"
  by (simp add: keeps_def column_type_def fun_eq_iff split: option.split)

lemma drops_cong: "tschema t = tschema t' \<Longrightarrow> drops A cfg t = drops A cfg t'"
  by (simp add: drops_def column_type_def fun_eq_iff split: option.split)

lemma apply_filter_uuid:
  assumes "is_in_law A" "memo_ok st" "filter_keep_field cfg = Some field" "column_type t field = Some AUuid"
  shows "\<exists>res st'. apply_filter A rf cfg (Some values) st t = (Inr res, st') \<and> memo_ok st'
    \<and> selects (keeps A cfg (Some values) t) t res"
proof -
  obtain va invalid st1 where p: "parse_uuid_filter_values values st = ((va, invalid), st1)"
    by (metis surj_pair)
  have va: "fst (split_uuid_values values) = va" and ok: "memo_ok st1"
    using parse_uuid_transparent[OF assms(2) p] by (metis fst_conv)+
  show ?thesis
  proof (cases "va = []")
    case True
    then have "keeps A cfg (Some values) t = (\<lambda>r. False)"
      using assms va by (simp add: keeps_def comparable_def fun_eq_iff)
    then have "selects (keeps A cfg (Some values) t) t (drop_batch ''filter_value_invalid'' t)"
      using selects_drop_batch by simp
    from selects_errors[OF this] show ?thesis
      using assms ok p True by (simp add: apply_filter_def drop_batch_def Let_def split_beta)
  next
    case False
    then have "keeps A cfg (Some values) t = in_set field va"
      using assms va by (simp add: keeps_def comparable_def fun_eq_iff)
    then have "selects (keeps A cfg (Some values) t) t
        (finish_keep_filter A uuid_label t (column t field) va)"
      using selects_finish_keep[OF assms(1)] by simp
    from selects_errors[OF this] show ?thesis
      using assms ok p False by (simp add: apply_filter_def split_beta)
  qed
qed

lemma apply_drop_filter_uuid:
  assumes "is_in_law A" "memo_ok st" "filter_drop_field cfg = Some field"
    and "filter_drop_values cfg = Some values" "column_type t field = Some AUuid"
  shows "\<exists>res st'. apply_drop_filter A rf cfg st t = (Inr res, st') \<and> memo_ok st'
    \<and> selects (\<lambda>r. \<not> drops A cfg t r) t res"
proof -
  obtain va invalid st1 where p: "parse_uuid_filter_values values st = ((va, invalid), st1)"
    by (metis surj_pair)
  have va: "fst (split_uuid_values values) = va" and ok: "memo_ok st1"
    using parse_uuid_transparent[OF assms(2) p] by (metis fst_conv)+
  show ?thesis
  proof (cases "va = []")
    case True
    then have "drops A cfg t = (\<lambda>r. False)"
      using assms va by (simp add: drops_def comparable_def fun_eq_iff)
    then have "selects (\<lambda>r. \<not> drops A cfg t r) t (t, [])"
      using selects_all by simp
    from selects_errors[OF this] show ?thesis
      using assms ok p True by (simp add: apply_drop_filter_def Let_def)
  next
    case False
    then have "drops A cfg t = in_set field va"
      using assms va by (simp add: drops_def comparable_def fun_eq_iff)
    then have "selects (\<lambda>r. \<not> drops A cfg t r) t (finish_drop_filter A t (column t field) va)"
      using selects_finish_drop[OF assms(1)] by simp
    from selects_errors[OF this] show ?thesis
      using assms ok p False by (simp add: apply_drop_filter_def split_beta)
  qed
qed

lemma apply_filter_selects:
  assumes "is_in_law A" "memo_ok st" "apply_filter A rf cfg vopt st t = (Inr res, st')"
  shows "selects (keeps A cfg vopt t) t res"
proof (cases "filter_keep_field cfg = None \<or> vopt = None")
  case True
  then have "keeps A cfg vopt t = (\<lambda>r. True)"
    by (auto simp: keeps_def fun_eq_iff split: option.split)
  then show ?thesis
    using True assms(3) selects_all by (auto simp: apply_filter_def split: option.splits)
next
  case False
  then obtain field vals where f: "filter_keep_field cfg = Some field" "vopt = Some vals"
    by auto
  show ?thesis
  proof (cases "column_type t field")
    case None
    then have "keeps A cfg vopt t = (\<lambda>r. False)"
      by (simp add: keeps_def fun_eq_iff f)
    then show ?thesis
      using None assms(3) selects_drop_batch by (auto simp: apply_filter_def f)
  next
    case (Some ty)
    show ?thesis
    proof (cases "ty = AUuid")
      case True
      then show ?thesis
        using apply_filter_uuid[OF assms(1,2) f(1), of t rf vals] Some assms(3) f(2) by auto
    next
      case False
      have "selects (keeps A cfg vopt t) t (finish_keep_filter A (str_of rf) t (column t field) va)"
        if "values_array A vals ty = Inr va" "is_integer ty \<or> is_string_type ty" for va
      proof -
        have "keeps A cfg vopt t = in_set field va"
          using False Some f that by (simp add: keeps_def comparable_def fun_eq_iff)
        then show ?thesis
          using selects_finish_keep[OF assms(1)] by simp
      qed
      moreover have "keeps A cfg vopt t = (\<lambda>r. False)" if "comparable A vals ty = None"
        using that Some by (simp add: keeps_def fun_eq_iff f)
      ultimately show ?thesis
        using assms(3) selects_drop_batch False Some
        by (auto simp: apply_filter_def f comparable_def split: sum.splits if_splits)
    qed
  qed
qed

lemma apply_drop_filter_selects:
  assumes "is_in_law A" "memo_ok st" "apply_drop_filter A rf cfg st t = (Inr res, st')"
  shows "selects (\<lambda>r. \<not> drops A cfg t r) t res"
proof (cases "filter_drop_field cfg = None \<or> filter_drop_values cfg = None")
  case True
  then have "drops A cfg t = (\<lambda>r. False)"
    by (auto simp: drops_def fun_eq_iff split: option.split)
  then show ?thesis
    using True assms(3) selects_all by (auto simp: apply_drop_filter_def split: option.splits)
next
  case False
  then obtain field vals where f: "filter_drop_field cfg = Some field" "filter_drop_values cfg = Some vals"
    by auto
  show ?thesis
  proof (cases "column_type t field")
    case None
    then have "drops A cfg t = (\<lambda>r. False)"
      by (simp add: drops_def fun_eq_iff f)
    then show ?thesis
      using None assms(3) selects_all by (auto simp: apply_drop_filter_def f)
  next
    case (Some ty)
    show ?thesis
    proof (cases "ty = AUuid")
      case True
      then show ?thesis
        using apply_drop_filter_uuid[OF assms(1,2) f(1) f(2), of t rf] Some assms(3) by auto
    next
      case False
      have "selects (\<lambda>r. \<not> drops A cfg t r) t (finish_drop_filter A t (column t field) va)"
        if "values_array A vals ty = Inr va" "is_integer ty \<or> is_string_type ty" for va
      proof -
        have "drops A cfg t = in_set field va"
          using False Some f that by (simp add: drops_def comparable_def fun_eq_iff)
        then show ?thesis
          using selects_finish_drop[OF assms(1)] by simp
      qed
      moreover have "drops A cfg t = (\<lambda>r. False)" if "comparable A vals ty = None"
        using that Some by (simp add: drops_def fun_eq_iff f)
      ultimately show ?thesis
        using assms(3) selects_all False Some
        by (auto simp: apply_drop_filter_def f comparable_def split: sum.splits if_splits)
    qed
  qed
qed

lemma apply_filter_memo:
  "memo_ok st \<Longrightarrow> apply_filter A rf cfg vopt st t = (res, st') \<Longrightarrow> memo_ok st'"
  using parse_uuid_transparent
  by (auto simp: apply_filter_def Let_def split: option.splits if_splits prod.splits sum.splits)

lemma apply_drop_filter_memo:
  "memo_ok st \<Longrightarrow> apply_drop_filter A rf cfg st t = (res, st') \<Longrightarrow> memo_ok st'"
  using parse_uuid_transparent
  by (auto simp: apply_drop_filter_def Let_def split: option.splits if_splits prod.splits sum.splits)

subsection \<open>The contract of a batch filter\<close>

text \<open>The consume loop runs two filters in a row and relies on the same contract of each.\<close>

locale row_filter =
  fixes A :: arrow
    and run :: "filter_state \<Rightarrow> table \<Rightarrow> (arrow_error + table \<times> metric list) \<times> filter_state"
    and P :: "table \<Rightarrow> row \<Rightarrow> bool"
  assumes run_memo: "memo_ok st \<Longrightarrow> run st t = (out, st') \<Longrightarrow> memo_ok st'"
    and run_selects: "is_in_law A \<Longrightarrow> memo_ok st \<Longrightarrow> run st t = (Inr res, st') \<Longrightarrow> selects (P t) t res"
begin

lemma run_rows:
  assumes "is_in_law A" "memo_ok st" "run st t = (Inr (t', ms), st')"
  shows "trows t' = filter (P t) (trows t)" "tschema t' = tschema t"
    and "int (num_rows t) = int (num_rows t') + total SKIPPED ms"
  using run_selects[OF assms] by (simp_all add: selects_def)

end

interpretation keep: row_filter A "apply_filter A rf cfg vopt" "keeps A cfg vopt" for A rf cfg vopt
  by unfold_locales (rule apply_filter_memo, assumption+, rule apply_filter_selects)

interpretation drop: row_filter A "apply_drop_filter A rf cfg" "\<lambda>t r. \<not> drops A cfg t r" for A rf cfg
  by unfold_locales (rule apply_drop_filter_memo, assumption+, rule apply_drop_filter_selects)

text \<open>
  C32: the batch that reaches the buffer is exactly the rows on the allowlist and not on the
  denylist, in order, under the same schema; an allowlist that cannot be evaluated admits nothing, a
  denylist that cannot be evaluated removes nothing, and every removed row is counted in
  \<open>records_skipped_total\<close> exactly once.
\<close>

theorem filters_keep_and_not_drop:
  assumes "is_in_law A" "memo_ok st"
    and "apply_filter A rf cfg vopt st t = (Inr (t1, ms1), st1)"
    and "apply_drop_filter A rf cfg st1 t1 = (Inr (t2, ms2), st2)"
  shows "trows t2 = filter (\<lambda>r. keeps A cfg vopt t r \<and> \<not> drops A cfg t r) (trows t)
    \<and> tschema t2 = tschema t
    \<and> int (num_rows t) = int (num_rows t2) + total SKIPPED (ms1 @ ms2)"
proof -
  note k = keep.run_rows[OF assms(1-3)]
  note d = drop.run_rows[OF assms(1) keep.run_memo[OF assms(2,3)] assms(4)]
  have "drops A cfg t1 = drops A cfg t"
    by (rule drops_cong[OF k(2)])
  then show ?thesis
    using k d by (auto simp: conj_commute intro: filter_cong)
qed

text \<open>
  the per-value match counts of the keep-filter add up to the rows it kept, so every row of a
  filtered batch is in \<open>filter_matched_total\<close> or in \<open>records_skipped_total\<close>.
\<close>

theorem keep_filter_accounts_for_every_row:
  assumes "is_in_law A" "value_counts_law A" "memo_ok st" "filter_keep_field cfg = Some field"
    and "apply_filter A rf cfg (Some vals) st t = (Inr (t', ms), st')"
  shows "int (num_rows t) = total ''filter_matched_total'' ms + total SKIPPED ms"
proof -
  have drop: "total ''filter_matched_total'' ms' = int (num_rows t'')"
    if "drop_batch reason t = (t'', ms')" for reason t'' ms'
    using that by (auto simp: drop_batch_def no_rows_def num_rows_def SKIPPED_def)
  have fin: "total ''filter_matched_total'' ms' = int (num_rows t'')"
    if "finish_keep_filter A render t (column t field) S = (t'', ms')" for render S t'' ms'
    using finish_keep(4)[OF assms(1) that assms(2)] .
  have "total ''filter_matched_total'' ms = int (num_rows t')"
    using assms(4,5)
    by (auto simp: apply_filter_def Let_def drop fin split: option.splits if_splits prod.splits sum.splits)
  then show ?thesis
    using keep.run_rows(3)[OF assms(1,3,5)] by simp
qed

lemma sorted_rows_mset:
  assumes "sort_indices_law A" "sort_indices A (sortable_key_projection A t ks) ks = Inr idxs"
  shows "mset (map ((!) (trows t)) idxs) = mset (trows t)"
proof -
  have "num_rows (sortable_key_projection A t ks) = num_rows t"
    by (simp add: sortable_key_projection_def num_rows_def)
  then have idxs: "distinct idxs" "set idxs = {..<length (trows t)}"
    using assms by (auto simp: sort_indices_law_def num_rows_def)
  then have "mset idxs = mset [0..<length (trows t)]"
    by (intro set_eq_iff_mset_eq_distinct[THEN iffD1]) (auto simp: atLeast0LessThan)
  then have "mset (map ((!) (trows t)) idxs) = mset (map ((!) (trows t)) [0..<length (trows t)])"
    by (simp only: mset_map)
  then show ?thesis
    by (simp add: map_nth)
qed

lemma apply_sort_mset:
  assumes "sort_indices_law A" "apply_sort A cfg st t = (Inr (t', ms), st')"
  shows "mset (trows t') = mset (trows t)"
  using assms(2) sorted_rows_mset[OF assms(1)]
  by (auto simp: apply_sort_def Let_def take_rows_def split: option.splits if_splits sum.splits)

text \<open>
  Sorting loses nothing. The sorted batch has the same rows and schema; when the keys cannot be
  sorted the batch goes through in its order and every row is counted as unsorted.
\<close>

theorem sort_permutes_rows:
  assumes "sort_indices_law A" "apply_sort A cfg st t = (Inr (t', ms), st')"
  shows "mset (trows t') = mset (trows t) \<and> tschema t' = tschema t
    \<and> (t' = t \<and> total ''sort_skipped_total'' ms = (if ms = [] then 0 else int (num_rows t))
       \<or> ms = [] \<and> (\<exists>ks idxs. sort_by cfg = Some ks
            \<and> sort_indices A (sortable_key_projection A t ks) ks = Inr idxs \<and> t' = take_rows idxs t))"
  using assms(2) apply_sort_mset[OF assms]
  by (auto simp: apply_sort_def Let_def take_rows_def split: option.splits if_splits sum.splits)

text \<open>A batch of four rows and a configuration with both filters.\<close>

definition demo_table :: table where
  "demo_table = \<lparr>tschema = [(''team_id'', AInt True 64), (''ev'', AString)],
     trows = [[(''team_id'', PInt 1), (''ev'', PStr ''a'')], [(''team_id'', PInt 2), (''ev'', PStr ''b'')],
              [(''team_id'', PInt 3), (''ev'', PStr ''a'')], [(''ev'', PStr ''a'')]]\<rparr>"

definition demo_filter_cfg :: config where
  "demo_filter_cfg = demo_cfg\<lparr>filter_keep_field := Some ''team_id'', filter_drop_field := Some ''team_id'',
     filter_drop_values := Some [PInt 2], sort_by := Some [''team_id'']\<rparr>"

definition fresh_filters :: filter_state where
  "fresh_filters = \<lparr>uuid_memo = None, uuid_warned = {}\<rparr>"

lemma memo_ok_fresh: "memo_ok fresh_filters"
  by (simp add: memo_ok_def fresh_filters_def)

lemmas demo_filter_simps = apply_filter_def apply_drop_filter_def demo_filter_cfg_def demo_cfg_def
  demo_table_def column_type_def is_string_type_def demo_arrow_def finish_keep_filter_def
  finish_drop_filter_def Let_def column_def cell_def null_count_def filter_rows_def mask_select_def
  num_rows_def SKIPPED_def

theorem filters_keep_and_not_drop_witness:
  "\<exists>t1 ms1 st1 t2 ms2 st2.
     apply_filter demo_arrow no_repr demo_filter_cfg (Some [PInt 1, PInt 2]) fresh_filters demo_table
       = (Inr (t1, ms1), st1)
     \<and> apply_drop_filter demo_arrow no_repr demo_filter_cfg st1 t1 = (Inr (t2, ms2), st2)
     \<and> trows t2 = [[(''team_id'', PInt 1), (''ev'', PStr ''a'')]] \<and> total SKIPPED (ms1 @ ms2) = 3"
proof -
  obtain t1 ms1 st1 where k:
    "apply_filter demo_arrow no_repr demo_filter_cfg (Some [PInt 1, PInt 2]) fresh_filters demo_table
       = (Inr (t1, ms1), st1)"
    by (simp add: demo_filter_simps)
  then have t1: "t1 = \<lparr>tschema = tschema demo_table, trows = take 2 (trows demo_table)\<rparr>"
    by (simp add: demo_filter_simps)
  obtain t2 ms2 st2 where d:
    "apply_drop_filter demo_arrow no_repr demo_filter_cfg st1 t1 = (Inr (t2, ms2), st2)"
    unfolding t1 by (simp add: demo_filter_simps)
  have "filter (\<lambda>r. keeps demo_arrow demo_filter_cfg (Some [PInt 1, PInt 2]) demo_table r
          \<and> \<not> drops demo_arrow demo_filter_cfg demo_table r) (trows demo_table)
      = [[(''team_id'', PInt 1), (''ev'', PStr ''a'')]]"
    by (simp add: keeps_def drops_def comparable_def in_set_def demo_filter_simps)
  then show ?thesis
    using filters_keep_and_not_drop[OF demo_arrow_laws(1) memo_ok_fresh k d] k d
    by (auto simp: num_rows_def demo_table_def)
qed

theorem keep_filter_accounts_for_every_row_witness:
  "\<exists>t' ms st'.
     apply_filter demo_arrow no_repr demo_filter_cfg (Some [PInt 1, PInt 2]) fresh_filters demo_table
       = (Inr (t', ms), st')
     \<and> 4 = total ''filter_matched_total'' ms + total SKIPPED ms"
proof -
  obtain t1 ms1 st1 where k:
    "apply_filter demo_arrow no_repr demo_filter_cfg (Some [PInt 1, PInt 2]) fresh_filters demo_table
       = (Inr (t1, ms1), st1)"
    by (simp add: demo_filter_simps)
  have "filter_keep_field demo_filter_cfg = Some ''team_id''"
    by (simp add: demo_filter_cfg_def)
  from keep_filter_accounts_for_every_row[OF demo_arrow_laws(1,2) memo_ok_fresh this k] k show ?thesis
    by (simp add: num_rows_def demo_table_def)
qed

theorem sort_permutes_rows_witness:
  "\<exists>t' ms st'. apply_sort demo_arrow demo_filter_cfg \<lparr>missing_warned = {}, unsortable_warned = {}\<rparr> demo_table
       = (Inr (t', ms), st')
     \<and> mset (trows t') = mset (trows demo_table)"
proof -
  obtain t' ms st' where s:
    "apply_sort demo_arrow demo_filter_cfg \<lparr>missing_warned = {}, unsortable_warned = {}\<rparr> demo_table
       = (Inr (t', ms), st')"
    by (simp add: apply_sort_def demo_filter_simps)
  from sort_permutes_rows[OF demo_arrow_laws(3) s] s show ?thesis
    by auto
qed

end
