(* ===== verification/Converter.thy ===== *)
theory Converter
  imports Arrow
begin

text \<open>
  \<open>millpond/arrow_converter.py\<close>: from raw Kafka values to an Arrow table. The LZ4 stream of a framed
  value, \<open>orjson\<close> and the Arrow kernels are arguments; the UUID text forms are in theory Uuid. Log
  lines are not modelled.
\<close>

subsection \<open>Decoding a message value\<close>

definition LZ4_FRAME_MAGIC :: "byte list" where
  "LZ4_FRAME_MAGIC = [0x04, 0x22, 0x4d, 0x18]"

definition MAX_DECODED_VALUE_BYTES :: nat where
  "MAX_DECODED_VALUE_BYTES = 32 * 1024 * 1024"

definition DECODE_CHUNK_BYTES :: nat where
  "DECODE_CHUNK_BYTES = 1024 * 1024"

datatype decode_error = StreamError | OversizedValueError

text \<open>
  \<open>rd pos n\<close> is what \<open>stream.read(n)\<close> returns when \<open>pos\<close> bytes have been read (\<open>Inl\<close> when it
  raises \<open>OSError\<close>). A chunk longer than asked for ends the model in \<open>OversizedValueError\<close>, as the
  code's check does.
\<close>

type_synonym stream = "nat \<Rightarrow> nat \<Rightarrow> unit + byte list"

function read_loop :: "stream \<Rightarrow> nat \<Rightarrow> nat \<Rightarrow> byte list \<Rightarrow> decode_error + byte list" where
  "read_loop rd limit sofar chunks =
     (case rd sofar (min DECODE_CHUNK_BYTES (limit + 1 - sofar)) of
        Inl e \<Rightarrow> Inl StreamError
      | Inr chunk \<Rightarrow>
          if chunk = [] then Inr chunks
          else if limit < sofar + length chunk then Inl OversizedValueError
          else read_loop rd limit (sofar + length chunk) (chunks @ chunk))"
  by pat_completeness auto
termination
  by (relation "measure (\<lambda>(rd, limit, sofar, chunks). limit - sofar)")
    (auto simp flip: length_greater_0_conv)

declare read_loop.simps [simp del]

definition decode_value :: "(byte list \<Rightarrow> stream) \<Rightarrow> nat option \<Rightarrow> byte list \<Rightarrow> decode_error + byte list" where
  "decode_value lz4 limit raw =
     (if take 4 raw \<noteq> LZ4_FRAME_MAGIC then Inr raw
      else read_loop (lz4 raw) (case limit of None \<Rightarrow> MAX_DECODED_VALUE_BYTES | Some n \<Rightarrow> n) 0 [])"

subsection \<open>Records\<close>

text \<open>\<open>dumps\<close> is \<open>orjson.dumps(v).decode()\<close>; \<open>None\<close> is the \<open>JSONEncodeError\<close> it raises, for instance for
  a document nested deeper than it writes. Nothing in \<open>convert\<close> catches it.\<close>

definition flatten_value :: "(pyval \<Rightarrow> string option) \<Rightarrow> pyval \<Rightarrow> pyval option" where
  "flatten_value dumps v = (case v of
     PDict kvs \<Rightarrow> map_option PStr (dumps v) | PList vs \<Rightarrow> map_option PStr (dumps v) | _ \<Rightarrow> Some v)"

definition flatten_record :: "(pyval \<Rightarrow> string option) \<Rightarrow> row \<Rightarrow> row option" where
  "flatten_record dumps r = those (map (\<lambda>(k, v). map_option (Pair k) (flatten_value dumps v)) r)"

definition flatten_nested_to_json :: "(pyval \<Rightarrow> string option) \<Rightarrow> row list \<Rightarrow> row list option" where
  "flatten_nested_to_json dumps records = those (map (flatten_record dumps) records)"

fun dict_values :: "pyval \<Rightarrow> pyval list option" where
  "dict_values (PDict kvs) = Some (map snd kvs)"
| "dict_values v = None"

definition note_sample :: "string \<Rightarrow> pyval \<Rightarrow> (string, pyval) dict \<Rightarrow> (string, pyval) dict" where
  "note_sample k v first_non_null =
     (if v = PNone then first_non_null
      else case map_of first_non_null k of
          None \<Rightarrow> AList.update k v first_non_null
        | Some existing \<Rightarrow>
            (case (dict_values v, dict_values existing) of
               (Some vs, Some es) \<Rightarrow>
                 if PNone \<in> set es \<and> PNone \<notin> set vs then AList.update k v first_non_null
                 else first_non_null
             | _ \<Rightarrow> first_non_null))"

definition note_key :: "string \<Rightarrow> string list \<Rightarrow> string list" where
  "note_key k all_keys = (if k \<in> set all_keys then all_keys else all_keys @ [k])"

fun scan_items :: "row \<Rightarrow> (string, pyval) dict \<times> string list \<Rightarrow> (string, pyval) dict \<times> string list" where
  "scan_items [] s = s"
| "scan_items ((k, v) # kvs) (samples, keys) = scan_items kvs (note_sample k v samples, note_key k keys)"

definition build_schema :: "arrow \<Rightarrow> row list \<Rightarrow> (string \<times> atype) list" where
  "build_schema A records =
     (let (samples, keys) = fold scan_items records ([], [])
      in map (\<lambda>key. (key, case map_of samples key of None \<Rightarrow> AString | Some s \<Rightarrow> infer_type A s)) keys)"

text \<open>The Python classes of \<open>type_checks\<close> and \<open>isinstance\<close> on them; a \<open>bool\<close> is an \<open>int\<close>.\<close>

datatype pyclass = ClsBool | ClsInt | ClsIntFloat | ClsStr

fun type_check :: "atype \<Rightarrow> pyclass option" where
  "type_check ABool = Some ClsBool"
| "type_check (AInt s bits) = Some ClsInt"
| "type_check (AFloat bits) = Some ClsIntFloat"
| "type_check AString = Some ClsStr"
| "type_check ALargeString = Some ClsStr"
| "type_check t = None"

fun isinstance :: "pyval \<Rightarrow> pyclass \<Rightarrow> bool" where
  "isinstance (PBool b) c \<longleftrightarrow> c \<in> {ClsBool, ClsInt, ClsIntFloat}"
| "isinstance (PInt i) c \<longleftrightarrow> c \<in> {ClsInt, ClsIntFloat}"
| "isinstance (PFloat x) c \<longleftrightarrow> c = ClsIntFloat"
| "isinstance (PStr s) c \<longleftrightarrow> c = ClsStr"
| "isinstance v c \<longleftrightarrow> False"

definition conflicts :: "(string \<times> atype) list \<Rightarrow> string \<times> pyval \<Rightarrow> bool" where
  "conflicts schema = (\<lambda>(k, v). v \<noteq> PNone \<and>
     (case Option.bind (map_of schema k) type_check of None \<Rightarrow> False | Some c \<Rightarrow> \<not> isinstance v c))"

definition conflicting_keys :: "row list \<Rightarrow> (string \<times> atype) list \<Rightarrow> string list" where
  "conflicting_keys records schema = remdups (map fst (filter (conflicts schema) (concat records)))"

definition stringify_mixed_type_values ::
  "(real \<Rightarrow> string) \<Rightarrow> row list \<Rightarrow> (string \<times> atype) list \<Rightarrow> row list" where
  "stringify_mixed_type_values rf records schema =
     map (map (\<lambda>(k, v). (k, if k \<in> set (conflicting_keys records schema) \<and> v \<noteq> PNone
                           then PStr (str_of rf v) else v))) records"

definition floatify_integers_in_float_fields :: "row list \<Rightarrow> (string \<times> atype) list \<Rightarrow> row list" where
  "floatify_integers_in_float_fields records schema =
     map (map (\<lambda>(k, v). (k, case v of
         PInt i \<Rightarrow> (case map_of schema k of
                      Some ty \<Rightarrow> if is_floating ty then PFloat (fl (of_int i)) else v
                    | None \<Rightarrow> v)
       | _ \<Rightarrow> v))) records"

subsection \<open>The table\<close>

text \<open>A table with one column replaced.\<close>

definition set_column :: "string \<Rightarrow> pyval list \<Rightarrow> row list \<Rightarrow> row list" where
  "set_column n vs rs = map2 (\<lambda>v r. AList.update n v r) vs rs"

text \<open>Integers become \<open>int64\<close> and floats \<open>float64\<close>.\<close>

definition numeric_target :: "atype \<Rightarrow> atype" where
  "numeric_target ty = (if is_integer ty then AInt True 64 else if is_floating ty then AFloat 64 else ty)"

fun normalize_columns ::
  "arrow \<Rightarrow> (string \<times> atype) list \<Rightarrow> table \<Rightarrow> arrow_error + (string \<times> atype) list \<times> row list" where
  "normalize_columns A [] t = Inr ([], trows t)"
| "normalize_columns A ((n, ty) # cols) t =
     (case (if numeric_target ty = ty then Inr (column t n) else cast A ty (numeric_target ty) (column t n)) of
        Inl e \<Rightarrow> Inl e
      | Inr vs \<Rightarrow>
          (case normalize_columns A cols t of
             Inl e \<Rightarrow> Inl e
           | Inr (cols', rs) \<Rightarrow>
               Inr ((n, numeric_target ty) # cols',
                    if numeric_target ty = ty then rs else set_column n vs rs)))"

definition normalize_numeric_types :: "arrow \<Rightarrow> table \<Rightarrow> arrow_error + table" where
  "normalize_numeric_types A t =
     (case normalize_columns A (tschema t) t of
        Inl e \<Rightarrow> Inl e
      | Inr (cols, rs) \<Rightarrow> Inr \<lparr>tschema = cols, trows = rs\<rparr>)"

definition drop_null_typed_columns :: "table \<Rightarrow> table" where
  "drop_null_typed_columns t =
     (let null_cols = map fst (filter (\<lambda>(n, ty). ty = ANull) (tschema t))
      in \<lparr>tschema = filter (\<lambda>(n, ty). n \<notin> set null_cols) (tschema t),
          trows = map (filter (\<lambda>(n, v). n \<notin> set null_cols)) (trows t)\<rparr>)"

subsection \<open>\<open>convert\<close>\<close>

text \<open>What \<open>convert\<close> calls outside the module: the LZ4 reader, \<open>orjson.loads\<close> (\<open>None\<close> for a
  \<open>JSONDecodeError\<close>) and \<open>orjson.dumps\<close> (\<open>None\<close> for a \<open>JSONEncodeError\<close>), the text of a float, and Arrow.\<close>

record codec =
  lz4_stream :: "byte list \<Rightarrow> stream"
  json_loads :: "byte list \<Rightarrow> pyval option"
  json_dumps :: "pyval \<Rightarrow> string option"
  float_repr :: "real \<Rightarrow> string"

definition parse_message :: "codec \<Rightarrow> byte list \<Rightarrow> row option" where
  "parse_message C raw =
     (case decode_value (lz4_stream C) None raw of
        Inl e \<Rightarrow> None
      | Inr body \<Rightarrow> (case json_loads C body of Some (PDict kvs) \<Rightarrow> Some kvs | _ \<Rightarrow> None))"

definition prepare_records :: "codec \<Rightarrow> arrow \<Rightarrow> row list \<Rightarrow> (row list \<times> (string \<times> atype) list) option" where
  "prepare_records C A records =
     (case flatten_nested_to_json (json_dumps C) records of
        None \<Rightarrow> None
      | Some records \<Rightarrow>
          (let schema = build_schema A records;
               patched = stringify_mixed_type_values (float_repr C) records schema;
               schema = (if conflicting_keys records schema \<noteq> [] then build_schema A patched else schema)
           in Some (floatify_integers_in_float_fields patched schema, schema)))"

definition convert :: "codec \<Rightarrow> arrow \<Rightarrow> byte list list \<Rightarrow> arrow_error + table option" where
  "convert C A messages =
     (let records = List.map_filter (parse_message C) messages in
      if records = [] then Inr None
      else
        (case prepare_records C A records of
           None \<Rightarrow> Inl OtherError
         | Some (patched, schema) \<Rightarrow>
             (case from_pylist A patched schema of
                Inl e \<Rightarrow> Inl e
              | Inr t \<Rightarrow>
                  (case normalize_numeric_types A t of
                     Inl e \<Rightarrow> Inl e
                   | Inr t' \<Rightarrow> Inr (Some (drop_null_typed_columns t'))))))"

subsection \<open>Pinned columns\<close>

fun decode_uuids :: "pyval list \<Rightarrow> pyval list option" where
  "decode_uuids [] = Some []"
| "decode_uuids (v # vs) =
     (case (if v = PNone then Some PNone else map_option PBytes (uuid_bytes v)) of
        None \<Rightarrow> None
      | Some b \<Rightarrow> map_option ((#) b) (decode_uuids vs))"

text \<open>The storage of a uuid array, and \<open>pa.ExtensionArray.from_storage(UUID_TYPE, storage)\<close>, which takes an
  array of that type only. \<open>pa.array(values, type)\<close> is \<^const>\<open>Arr\<close>: the code calls it on nulls and on
  values of the kind \<open>as_py\<close> gives for that type, which it lays out as they are.\<close>

definition UUID_STORAGE_TYPE :: atype where
  "UUID_STORAGE_TYPE = AFixedBinary 16"

definition uuid_from_storage :: "arr \<Rightarrow> arrow_error + arr" where
  "uuid_from_storage storage =
     (if arr_type storage = UUID_STORAGE_TYPE then Inr (Arr AUuid (arr_vals storage)) else Inl ArrowTypeError)"

definition to_uuid :: "arrow \<Rightarrow> arr \<Rightarrow> arrow_error + arr" where
  "to_uuid A col =
     (if arr_type col = AUuid then Inr col
      else if arr_type col = AFixedBinary 16 then uuid_from_storage col
      else if arr_type col = ABinary \<or> arr_type col = ALargeBinary then
        (case arr_cast A col UUID_STORAGE_TYPE of Inl e \<Rightarrow> Inl e | Inr storage \<Rightarrow> uuid_from_storage storage)
      else case decode_uuids (arr_vals col) of
          None \<Rightarrow> Inl ArrowInvalid
        | Some decoded \<Rightarrow> uuid_from_storage (Arr UUID_STORAGE_TYPE decoded))"

definition to_timestamptz :: "arrow \<Rightarrow> arr \<Rightarrow> arrow_error + arr" where
  "to_timestamptz A col =
     (case arr_cast A col (ATimestamp ''us'' None) of Inl e \<Rightarrow> Inl e | Inr ts \<Rightarrow> assume_timezone_utc A ts)"

definition COERCERS :: "(string \<times> atype) list" where
  "COERCERS =
     [(''timestamptz'', ATimestamp ''us'' (Some ''UTC'')), (''bigint'', AInt True 64),
      (''double'', AFloat 64), (''boolean'', ABool), (''varchar'', AString), (''uuid'', AUuid)]"

definition coercer :: "arrow \<Rightarrow> string \<Rightarrow> arr \<Rightarrow> arrow_error + arr" where
  "coercer A type_name col =
     (if type_name = ''timestamptz'' then to_timestamptz A col
      else if type_name = ''uuid'' then to_uuid A col
      else if type_name = ''bigint'' then arr_cast A col (AInt True 64)
      else if type_name = ''double'' then arr_cast A col (AFloat 64)
      else if type_name = ''boolean'' then arr_cast A col ABool
      else if type_name = ''varchar'' then arr_cast A col AString
      else Inl OtherError)"

text \<open>The Arrow exceptions \<open>_coerce_or_null\<close> catches.\<close>

definition retried :: "arrow_error \<Rightarrow> bool" where
  "retried e \<longleftrightarrow> e \<in> {ArrowInvalid, ArrowTypeError}"

text \<open>\<open>(one.storage if extension is not None else one)[0].as_py()\<close>: only an extension array has a storage.\<close>

definition first_value :: "atype \<Rightarrow> arr \<Rightarrow> arrow_error + pyval" where
  "first_value arrow_type one =
     (if is_extension arrow_type \<and> \<not> is_extension (arr_type one) then Inl OtherError
      else case arr_vals one of [] \<Rightarrow> Inl OtherError | x # _ \<Rightarrow> Inr x)"

fun coerce_each ::
  "(arr \<Rightarrow> arrow_error + arr) \<Rightarrow> atype \<Rightarrow> atype \<Rightarrow> pyval list \<Rightarrow> arrow_error + pyval list \<times> nat" where
  "coerce_each co arrow_type src_type [] = Inr ([], 0)"
| "coerce_each co arrow_type src_type (v # vs) =
     (case (if v = PNone then Inr (PNone, 0)
            else case co (Arr src_type [v]) of
                Inl e \<Rightarrow> if retried e then Inr (PNone, 1) else Inl e
              | Inr one \<Rightarrow> map_sum id (\<lambda>x. (x, 0 :: nat)) (first_value arrow_type one)) of
        Inl e \<Rightarrow> Inl e
      | Inr (x, failed) \<Rightarrow>
          (case coerce_each co arrow_type src_type vs of
             Inl e \<Rightarrow> Inl e
           | Inr (out, failed') \<Rightarrow> Inr (x # out, failed + failed')))"

text \<open>An extension target is built through its storage type.\<close>

definition rebuild :: "atype \<Rightarrow> pyval list \<Rightarrow> arrow_error + arr" where
  "rebuild arrow_type out =
     (if arrow_type = AUuid then uuid_from_storage (Arr UUID_STORAGE_TYPE out) else Inr (Arr arrow_type out))"

definition coerce_or_null :: "(arr \<Rightarrow> arrow_error + arr) \<Rightarrow> atype \<Rightarrow> arr \<Rightarrow> arrow_error + arr \<times> nat" where
  "coerce_or_null co arrow_type col =
     (case co col of
        Inr out \<Rightarrow> Inr (out, 0)
      | Inl e \<Rightarrow>
          if \<not> retried e then Inl e
          else case coerce_each co arrow_type (arr_type col) (arr_vals col) of
              Inl e \<Rightarrow> Inl e
            | Inr (out, failed) \<Rightarrow> map_sum id (\<lambda>built. (built, failed)) (rebuild arrow_type out))"

text \<open>The new fields, each with the coerced array or \<open>None\<close> when the column goes through as it is.\<close>

fun coerce_fields ::
  "arrow \<Rightarrow> (string \<rightharpoonup> string) \<Rightarrow> table \<Rightarrow> (string \<times> atype) list
     \<Rightarrow> arrow_error + ((string \<times> atype) \<times> arr option) list \<times> metric list" where
  "coerce_fields A targets t [] = Inr ([], [])"
| "coerce_fields A targets t ((n, ty) # cols) =
     (case targets n of
        None \<Rightarrow> map_sum id (\<lambda>(fs, ms). (((n, ty), None) # fs, ms)) (coerce_fields A targets t cols)
      | Some type_name \<Rightarrow>
          (case map_of COERCERS type_name of
             None \<Rightarrow> Inl OtherError
           | Some arrow_type \<Rightarrow>
               if ty = arrow_type then
                 map_sum id (\<lambda>(fs, ms). (((n, ty), None) # fs, ms)) (coerce_fields A targets t cols)
               else
                 (case coerce_or_null (coercer A type_name) arrow_type (Arr ty (column t n)) of
                    Inl e \<Rightarrow> Inl e
                  | Inr (coerced, failed) \<Rightarrow>
                      map_sum id (\<lambda>(fs, ms). (((n, arrow_type), Some coerced) # fs,
                          (if 0 < failed then Inc ''errors_total'' ''column_coercion'' 1
                           else Inc ''columns_coerced_total'' type_name 1) # ms))
                        (coerce_fields A targets t cols))))"

text \<open>\<open>pa.table(columns, schema)\<close>: a column whose own type is not its field's is cast to it.\<close>

fun fill_columns ::
  "arrow \<Rightarrow> ((string \<times> atype) \<times> arr option) list \<Rightarrow> row list \<Rightarrow> arrow_error + row list" where
  "fill_columns A [] rs = Inr rs"
| "fill_columns A (((n, ty), col) # cols) rs =
     (case col of
        None \<Rightarrow> fill_columns A cols rs
      | Some a \<Rightarrow>
          (case (if arr_type a = ty then Inr a else arr_cast A a ty) of
             Inl e \<Rightarrow> Inl e
           | Inr b \<Rightarrow> map_sum id (set_column n (arr_vals b)) (fill_columns A cols rs)))"

definition coerce_typed_columns ::
  "arrow \<Rightarrow> table \<Rightarrow> (string \<times> string) list \<Rightarrow> arrow_error + table \<times> metric list" where
  "coerce_typed_columns A t pins =
     (if pins = [] then Inr (t, [])
      else case coerce_fields A (map_of (rev pins)) t (tschema t) of
          Inl e \<Rightarrow> Inl e
        | Inr (cols, ms) \<Rightarrow>
            map_sum id (\<lambda>rs. (\<lparr>tschema = map fst cols, trows = rs\<rparr>, ms)) (fill_columns A cols (trows t)))"

text \<open>\<open>_coerce_columns\<close> of \<open>millpond/main.py\<close>.\<close>

definition coerce_columns :: "arrow \<Rightarrow> table \<Rightarrow> config \<Rightarrow> arrow_error + table \<times> metric list" where
  "coerce_columns A t cfg =
     (case typed_columns cfg of None \<Rightarrow> Inr (t, []) | Some tc \<Rightarrow> coerce_typed_columns A t tc)"

subsection \<open>Decoding is bounded and exact\<close>

lemma read_loop_bounded:
  "read_loop rd limit sofar chunks = Inr v \<Longrightarrow> length chunks = sofar \<Longrightarrow> sofar \<le> limit \<Longrightarrow> length v \<le> limit"
proof (induction rd limit sofar chunks rule: read_loop.induct)
  case (1 rd limit sofar chunks)
  from 1(2-4) show ?case
    by (subst (asm) read_loop.simps) (auto split: sum.splits if_splits intro: 1(1))
qed

text \<open>A stream over the content \<open>c\<close>: a read returns the next bytes, at most as many as asked for, and
  nothing only at the end.\<close>

definition streams :: "stream \<Rightarrow> byte list \<Rightarrow> bool" where
  "streams rd c \<longleftrightarrow> (\<forall>pos n. \<exists>chunk. rd pos n = Inr chunk
     \<and> chunk = take (length chunk) (drop pos c) \<and> length chunk \<le> n
     \<and> (chunk = [] \<longrightarrow> n = 0 \<or> length c \<le> pos))"

lemma read_loop_exact:
  assumes "streams rd c"
  shows "chunks = take sofar c \<Longrightarrow> sofar \<le> limit \<Longrightarrow> sofar \<le> length c \<Longrightarrow>
    read_loop rd limit sofar chunks = (if length c \<le> limit then Inr c else Inl OversizedValueError)"
proof (induction "limit - sofar" arbitrary: sofar chunks rule: less_induct)
  case less
  let ?n = "min DECODE_CHUNK_BYTES (limit + 1 - sofar)"
  have n: "0 < ?n" "?n \<le> limit + 1 - sofar"
    using less.prems(2) by (auto simp: DECODE_CHUNK_BYTES_def)
  obtain chunk where rd: "rd sofar ?n = Inr chunk"
    and chunk: "chunk = take (length chunk) (drop sofar c)" "length chunk \<le> ?n"
    and fin: "chunk = [] \<longrightarrow> length c \<le> sofar"
    using assms n(1) unfolding streams_def by (metis less_numeral_extra(3))
  show ?case
  proof (cases "chunk = []")
    case True
    then show ?thesis
      using less.prems fin rd by (subst read_loop.simps) simp
  next
    case False
    have le: "sofar + length chunk \<le> length c"
      using chunk(1) less.prems(3) by (metis add.commute length_drop length_take le_diff_conv2 min.cobounded1)
    show ?thesis
    proof (cases "limit < sofar + length chunk")
      case True
      then show ?thesis
        using le rd False by (subst read_loop.simps) simp
    next
      case within: False
      have "chunks @ chunk = take (sofar + length chunk) c"
        unfolding less.prems(1) take_add using chunk(1) by simp
      then have "read_loop rd limit (sofar + length chunk) (chunks @ chunk)
          = (if length c \<le> limit then Inr c else Inl OversizedValueError)"
        using within le False by (intro less.hyps) (auto simp flip: length_greater_0_conv)
      then show ?thesis
        using within rd False by (subst read_loop.simps) simp
    qed
  qed
qed

text \<open>
  C33: decoding a framed value is bounded and exact. Whatever the stream does, no more than the limit
  comes out of it; an intact frame decodes to its whole content, however the reads are chunked, when
  the content is within the limit, and is refused as oversized otherwise. A value that does not start
  with the frame magic is returned unchanged.
\<close>

theorem decode_value_bounded_exact:
  fixes limit :: nat
  shows "(take 4 raw \<noteq> LZ4_FRAME_MAGIC \<longrightarrow> decode_value lz4 (Some limit) raw = Inr raw)
    \<and> (take 4 raw = LZ4_FRAME_MAGIC \<longrightarrow>
        (\<forall>v. decode_value lz4 (Some limit) raw = Inr v \<longrightarrow> length v \<le> limit)
      \<and> (\<forall>c. streams (lz4 raw) c \<longrightarrow> decode_value lz4 (Some limit) raw =
            (if length c \<le> limit then Inr c else Inl OversizedValueError)))"
proof -
  have framed: "decode_value lz4 (Some limit) raw = read_loop (lz4 raw) limit 0 []"
    if "take 4 raw = LZ4_FRAME_MAGIC"
    using that by (simp add: decode_value_def)
  moreover have "length v \<le> limit" if "read_loop (lz4 raw) limit 0 [] = Inr v" for v
    using read_loop_bounded[OF that] by simp
  moreover have "read_loop (lz4 raw) limit 0 [] = (if length c \<le> limit then Inr c else Inl OversizedValueError)"
    if "streams (lz4 raw) c" for c
    by (rule read_loop_exact[OF that]) simp_all
  moreover have "decode_value lz4 (Some limit) raw = Inr raw" if "take 4 raw \<noteq> LZ4_FRAME_MAGIC"
    using that by (simp add: decode_value_def)
  ultimately show ?thesis
    by metis
qed

theorem decode_value_bounded_exact_witness:
  "decode_value (\<lambda>raw pos n. Inr (take (min 2 n) (drop pos [7, 8, 9]))) (Some 5) (LZ4_FRAME_MAGIC @ [1])
     = Inr [7, 8, 9]
   \<and> decode_value (\<lambda>raw pos n. Inr (take (min 2 n) (drop pos [7, 8, 9]))) (Some 2) (LZ4_FRAME_MAGIC @ [1])
     = Inl OversizedValueError"
proof -
  have s: "streams (\<lambda>pos n. Inr (take (min 2 n) (drop pos [7, 8, 9]))) [7, 8, 9]"
    by (auto simp: streams_def min_def)
  have m: "take 4 (LZ4_FRAME_MAGIC @ [1]) = LZ4_FRAME_MAGIC"
    by (simp add: LZ4_FRAME_MAGIC_def)
  note exact = decode_value_bounded_exact[THEN conjunct2, THEN mp, OF m, THEN conjunct2, THEN spec,
      THEN mp, OF s]
  show ?thesis
    using exact[of 5] exact[of 2] by simp
qed

subsection \<open>The inferred schema fits the records\<close>

text \<open>What the one-pass scan knows of the items seen so far.\<close>

lemma scan_items_append: "scan_items (xs @ ys) s = scan_items ys (scan_items xs s)"
  by (induction xs s rule: scan_items.induct) simp_all

lemma fold_scan_items: "fold scan_items rs s = scan_items (concat rs) s"
  by (induction rs arbitrary: s) (simp_all add: scan_items_append)

lemma note_sample_other: "k' \<noteq> k \<Longrightarrow> map_of (note_sample k v d) k' = map_of d k'"
  by (auto simp: note_sample_def split: option.split)

lemma note_sample_same:
  "map_of (note_sample k v d) k = Some s \<Longrightarrow> s = v \<and> v \<noteq> PNone \<or> map_of d k = Some s"
  by (auto simp: note_sample_def split: option.splits if_splits)

lemma note_sample_none:
  "map_of (note_sample k v d) k = None \<longleftrightarrow> map_of d k = None \<and> v = PNone"
  by (auto simp: note_sample_def split: option.split)

lemma scan_keys:
  "distinct (snd s) \<Longrightarrow> distinct (snd (scan_items xs s))
     \<and> set (snd (scan_items xs s)) = set (snd s) \<union> fst ` set xs"
  by (induction xs s rule: scan_items.induct) (auto simp: note_key_def split: if_splits)

lemma scan_samples:
  "map_of (fst (scan_items xs s)) k = Some v \<Longrightarrow>
     v \<noteq> PNone \<and> (k, v) \<in> set xs \<or> map_of (fst s) k = Some v"
proof (induction xs s rule: scan_items.induct)
  case (2 k' v' kvs samples keys)
  show ?case
    using 2 note_sample_same[of k' v' samples v] note_sample_other[of k k' v' samples]
    by (cases "k' = k") auto
qed simp

lemma scan_samples_none:
  "map_of (fst (scan_items xs s)) k = None \<longleftrightarrow>
     map_of (fst s) k = None \<and> (\<forall>v. (k, v) \<in> set xs \<longrightarrow> v = PNone)"
proof (induction xs s rule: scan_items.induct)
  case (2 k' v' kvs samples keys)
  show ?case
    using 2 note_sample_none[of k v' samples] note_sample_other[of k k' v' samples]
    by (cases "k' = k") auto
qed simp

lemma scan_samples_local:
  "map_of (fst s) k = map_of (fst s') k \<Longrightarrow>
     map_of (fst (scan_items xs s)) k = map_of (fst (scan_items (filter (\<lambda>p. fst p = k) xs) s')) k"
proof (induction xs arbitrary: s s')
  case (Cons x xs)
  obtain k' v where x: "x = (k', v)" by fastforce
  obtain d ks d' ks' where s: "s = (d, ks)" "s' = (d', ks')" by fastforce
  show ?case
  proof (cases "k' = k")
    case True
    have "map_of (note_sample k v d) k = map_of (note_sample k v d') k"
      using Cons.prems by (auto simp: s note_sample_def split: option.split)
    then show ?thesis
      using Cons.IH[of "(note_sample k v d, note_key k ks)" "(note_sample k v d', note_key k ks')"]
      by (simp add: x s True)
  next
    case False
    then show ?thesis
      using Cons.IH[of "(note_sample k' v d, note_key k' ks)" s'] Cons.prems
      by (simp add: x s note_sample_other)
  qed
qed simp

lemma build_schema_eq:
  "build_schema A rs = map (\<lambda>key. (key,
      case map_of (fst (scan_items (concat rs) ([], []))) key of None \<Rightarrow> AString | Some s \<Rightarrow> infer_type A s))
    (snd (scan_items (concat rs) ([], [])))"
  by (simp add: build_schema_def fold_scan_items split_beta)

lemma build_schema_keys:
  "distinct (map fst (build_schema A rs))" "set (map fst (build_schema A rs)) = fst ` set (concat rs)"
  using scan_keys[of "([], [])" "concat rs"] by (simp_all add: build_schema_eq comp_def)

lemma map_of_build_schema:
  "map_of (build_schema A rs) k =
     (if k \<in> fst ` set (concat rs)
      then Some (case map_of (fst (scan_items (concat rs) ([], []))) k of
                   None \<Rightarrow> AString | Some s \<Rightarrow> infer_type A s)
      else None)"
  unfolding build_schema_eq map_of_map_restrict
  using scan_keys[of "([], [])" "concat rs"] by (simp add: map_of_map_restrict restrict_map_def)

text \<open>The type of a key depends only on the values of that key.\<close>

lemma build_schema_local:
  assumes "filter (\<lambda>p. fst p = k) (concat rs) = filter (\<lambda>p. fst p = k) (concat rs')"
  shows "map_of (build_schema A rs) k = map_of (build_schema A rs') k"
proof -
  have "k \<in> fst ` set (concat rs) \<longleftrightarrow> filter (\<lambda>p. fst p = k) (concat rs) \<noteq> []" for rs :: "row list"
    by (force simp: filter_empty_conv)
  then have "k \<in> fst ` set (concat rs) \<longleftrightarrow> k \<in> fst ` set (concat rs')"
    using assms by metis
  moreover have "map_of (fst (scan_items (concat rs) ([], []))) k = map_of (fst (scan_items (concat rs') ([], []))) k"
    using scan_samples_local[of "([], [])" k "([], [])" "concat rs"]
      scan_samples_local[of "([], [])" k "([], [])" "concat rs'"] assms by simp
  ultimately show ?thesis
    unfolding map_of_build_schema by simp
qed

text \<open>\<open>pa.array\<close> of a string has type \<open>string\<close>.\<close>

definition infer_str_law :: "arrow \<Rightarrow> bool" where
  "infer_str_law A \<longleftrightarrow> (\<forall>s. infer_type A (PStr s) = AString)"

definition fits :: "(string \<times> atype) list \<Rightarrow> string \<times> pyval \<Rightarrow> bool" where
  "fits schema = (\<lambda>(k, v). v = PNone \<or>
     (\<exists>ty. map_of schema k = Some ty \<and> (\<forall>c. type_check ty = Some c \<longrightarrow> isinstance v c)))"

lemma fits_unless_conflict:
  "k \<in> fst ` set schema \<Longrightarrow> \<not> conflicts schema (k, v) \<Longrightarrow> fits schema (k, v)"
proof -
  assume "k \<in> fst ` set schema" "\<not> conflicts schema (k, v)"
  moreover then obtain ty where "map_of schema k = Some ty"
    by (metis map_of_eq_None_iff not_None_eq)
  ultimately show ?thesis
    by (cases "type_check ty") (auto simp: fits_def conflicts_def)
qed

definition stringify_item :: "(real \<Rightarrow> string) \<Rightarrow> string set \<Rightarrow> string \<times> pyval \<Rightarrow> string \<times> pyval" where
  "stringify_item rf K = (\<lambda>(k, v). (k, if k \<in> K \<and> v \<noteq> PNone then PStr (str_of rf v) else v))"

lemma concat_stringify:
  "concat (stringify_mixed_type_values rf rs schema)
     = map (stringify_item rf (set (conflicting_keys rs schema))) (concat rs)"
  by (simp add: stringify_mixed_type_values_def stringify_item_def map_concat)

lemma set_conflicting_keys:
  "set (conflicting_keys rs schema) = {k. \<exists>v. (k, v) \<in> set (concat rs) \<and> conflicts schema (k, v)}"
  by (auto simp: conflicting_keys_def simp del: set_concat intro!: image_eqI)

lemma fst_stringify [simp]: "fst (stringify_item rf K p) = fst p"
  by (simp add: stringify_item_def split: prod.split)

lemma filter_stringify:
  "k \<notin> K \<Longrightarrow> filter (\<lambda>p. fst p = k) (map (stringify_item rf K) xs) = filter (\<lambda>p. fst p = k) xs"
  by (induction xs) (auto simp: stringify_item_def)

lemma stringified_fits:
  assumes law: "infer_str_law A" and sch: "schema = build_schema A rs"
    and p: "patched = stringify_mixed_type_values rf rs schema"
    and sch': "schema' = (if conflicting_keys rs schema \<noteq> [] then build_schema A patched else schema)"
    and kv: "(k, v) \<in> set (concat patched)"
  shows "fits schema' (k, v)"
proof -
  define K where "K = set (conflicting_keys rs schema)"
  have cp: "concat patched = map (stringify_item rf K) (concat rs)"
    by (simp add: p K_def concat_stringify)
  from kv obtain v0 where v0: "(k, v0) \<in> set (concat rs)" "(k, v) = stringify_item rf K (k, v0)"
    unfolding cp by (auto simp: stringify_item_def simp del: set_concat)
  have key: "k \<in> fst ` set (concat rs)"
    using v0(1) by force
  show ?thesis
  proof (cases "k \<in> K")
    case False
    have eq: "map_of schema' k = map_of schema k"
    proof (cases "conflicting_keys rs schema = []")
      case False
      have "map_of (build_schema A patched) k = map_of (build_schema A rs) k"
        by (rule build_schema_local) (simp only: cp filter_stringify[OF \<open>k \<notin> K\<close>])
      then show ?thesis using False by (simp add: sch' sch)
    qed (simp add: sch')
    have "\<not> conflicts schema (k, v0)"
      using False v0(1) by (auto simp: K_def set_conflicting_keys simp del: set_concat)
    then have "fits schema (k, v0)"
      using key build_schema_keys(2)[of A rs] by (intro fits_unless_conflict) (auto simp: sch simp del: set_concat)
    then show ?thesis
      using v0(2) False by (simp add: fits_def eq stringify_item_def)
  next
    case True
    then have "conflicting_keys rs schema \<noteq> []"
      by (auto simp: K_def)
    then have sch2: "schema' = build_schema A patched"
      by (simp add: sch')
    show ?thesis
    proof (cases "v = PNone")
      case False
      obtain s where v: "v = PStr s"
        using v0(2) True False by (auto simp: stringify_item_def split: if_splits)
      have strs: "\<exists>s. w = PStr s" if "(k, w) \<in> set (concat patched)" "w \<noteq> PNone" for w
        using that True unfolding cp
        by (auto simp: stringify_item_def simp del: set_concat split: if_splits)
      obtain smp where smp: "map_of (fst (scan_items (concat patched) ([], []))) k = Some smp"
        using scan_samples_none[of "concat patched" "([], [])" k] kv False by (meson not_None_eq)
      then obtain s' where "smp = PStr s'"
        using scan_samples[OF smp] strs by auto
      moreover have "k \<in> fst ` set (concat patched)"
        using kv by force
      ultimately have "map_of schema' k = Some AString"
        using law smp by (simp add: sch2 map_of_build_schema infer_str_law_def)
      then show ?thesis
        by (simp add: fits_def v)
    qed (simp add: fits_def)
  qed
qed

definition floatify_item :: "(string \<times> atype) list \<Rightarrow> string \<times> pyval \<Rightarrow> string \<times> pyval" where
  "floatify_item schema = (\<lambda>(k, v). (k, case v of
      PInt i \<Rightarrow> (case map_of schema k of
                   Some ty \<Rightarrow> if is_floating ty then PFloat (fl (of_int i)) else v
                 | None \<Rightarrow> v)
    | _ \<Rightarrow> v))"

lemma concat_floatify:
  "concat (floatify_integers_in_float_fields rs schema) = map (floatify_item schema) (concat rs)"
  by (simp add: floatify_integers_in_float_fields_def floatify_item_def map_concat)

text \<open>What \<open>from_pylist\<close> gets: a value of the class its column's type asks for, and no integer in a
  floating column.\<close>

definition well_typed :: "(string \<times> atype) list \<Rightarrow> string \<times> pyval \<Rightarrow> bool" where
  "well_typed schema = (\<lambda>(k, v). v = PNone \<or>
     (\<exists>ty. map_of schema k = Some ty \<and> (\<forall>c. type_check ty = Some c \<longrightarrow> isinstance v c)
        \<and> (is_floating ty \<longrightarrow> (\<nexists>i. v = PInt i))))"

lemma floatify_well_typed: "fits schema p \<Longrightarrow> well_typed schema (floatify_item schema p)"
proof -
  assume fits: "fits schema p"
  obtain k v where p: "p = (k, v)" by fastforce
  show ?thesis
  proof (cases v)
    case (PInt i)
    then obtain ty where ty: "map_of schema k = Some ty" "\<forall>c. type_check ty = Some c \<longrightarrow> isinstance v c"
      using fits by (auto simp: p fits_def)
    then show ?thesis
      using PInt by (cases ty) (auto simp: p well_typed_def floatify_item_def)
  qed (use fits in \<open>auto simp: p fits_def well_typed_def floatify_item_def\<close>)
qed

lemma fst_floatify [simp]: "fst (floatify_item schema p) = fst p"
  by (simp add: floatify_item_def split: prod.split)

lemma stringify_keys:
  "fst ` set (concat (stringify_mixed_type_values rf rs schema)) = fst ` set (concat rs)"
  unfolding concat_stringify set_map image_image by simp

lemma those_Some: "those xs = Some ys \<longleftrightarrow> xs = map Some ys"
  by (induction xs arbitrary: ys) (auto split: option.splits)

lemma flatten_record_keys: "flatten_record dumps r = Some r' \<Longrightarrow> map fst r' = map fst r"
proof -
  assume "flatten_record dumps r = Some r'"
  then have "map (\<lambda>(k, v). map_option (Pair k) (flatten_value dumps v)) r = map Some r'"
    by (simp add: flatten_record_def those_Some)
  then show ?thesis
  proof (induction r arbitrary: r')
    case (Cons kv r)
    then show ?case by (cases kv; cases r') auto
  qed simp
qed

lemma flatten_keys:
  assumes "flatten_nested_to_json dumps records = Some flat"
  shows "map (map fst) flat = map (map fst) records"
proof -
  have "map (flatten_record dumps) records = map Some flat"
    using assms by (simp add: flatten_nested_to_json_def those_Some)
  then show ?thesis
  proof (induction records arbitrary: flat)
    case (Cons r records)
    then show ?case
      using flatten_record_keys by (cases flat) auto
  qed simp
qed

lemma prepared_length:
  assumes "prepare_records C A records = Some (patched, schema)"
  shows "length patched = length records"
proof -
  obtain flat where flat: "flatten_nested_to_json (json_dumps C) records = Some flat"
    using assms by (cases "flatten_nested_to_json (json_dumps C) records") (auto simp: prepare_records_def)
  show ?thesis
    using assms arg_cong[OF flatten_keys[OF flat], of length]
    by (auto simp: prepare_records_def flat Let_def stringify_mixed_type_values_def
        floatify_integers_in_float_fields_def)
qed

text \<open>
  C34: whatever JSON a batch holds, the records handed to Arrow fit the inferred schema: the schema
  names every key of every record once and nothing else, and each value is null or of the Python class
  its column's type asks for (mixed columns having become strings, integers in floating columns
  floats), so no record can make the table construction fail on a type mismatch.
\<close>

theorem prepared_records_fit_schema:
  assumes "infer_str_law A" "prepare_records C A records = Some (patched, schema)"
  shows "distinct (map fst schema)
    \<and> set (map fst schema) = (\<Union>r \<in> set records. fst ` set r)
    \<and> length patched = length records
    \<and> (\<forall>r \<in> set patched. \<forall>kv \<in> set r. well_typed schema kv)"
proof -
  obtain flat where flat: "flatten_nested_to_json (json_dumps C) records = Some flat"
    using assms(2) by (cases "flatten_nested_to_json (json_dumps C) records") (auto simp: prepare_records_def)
  define sch where "sch = build_schema A flat"
  define str where "str = stringify_mixed_type_values (float_repr C) flat sch"
  have schema: "schema = (if conflicting_keys flat sch \<noteq> [] then build_schema A str else sch)"
    and patched: "patched = floatify_integers_in_float_fields str schema"
    using assms(2) by (auto simp: prepare_records_def Let_def flat sch_def str_def)
  have "fst ` set (concat flat) = set (concat (map (map fst) flat))"
    by auto
  then have keys: "fst ` set (concat flat) = (\<Union>r \<in> set records. fst ` set r)"
    unfolding flatten_keys[OF flat] by auto
  have "distinct (map fst schema) \<and> set (map fst schema) = fst ` set (concat flat)"
    unfolding schema using build_schema_keys[of A flat] build_schema_keys[of A str]
      stringify_keys[of "float_repr C" flat sch] by (simp add: sch_def str_def del: set_concat)
  moreover have "well_typed schema kv" if kv: "r \<in> set patched" "kv \<in> set r" for r kv
  proof -
    have "kv \<in> set (concat patched)"
      using kv by auto
    then obtain k v where p: "(k, v) \<in> set (concat str)" "kv = floatify_item schema (k, v)"
      unfolding patched concat_floatify set_map by (metis imageE surj_pair)
    show ?thesis
      unfolding p(2) by (rule floatify_well_typed[OF stringified_fits[OF assms(1) sch_def str_def schema p(1)]])
  qed
  moreover have "length patched = length records"
    by (rule prepared_length[OF assms(2)])
  ultimately show ?thesis
    using keys by auto
qed

text \<open>Two records that disagree on a key and mix integers with floats.\<close>

definition demo_codec :: codec where
  "demo_codec = \<lparr>lz4_stream = (\<lambda>raw pos n. Inl ()),
     json_loads = (\<lambda>body. if body = [1] then Some (PDict [(''a'', PBool True), (''x'', PFloat 1)])
                   else if body = [2] then Some (PDict [(''a'', PStr ''s''), (''x'', PInt 3)]) else None),
     json_dumps = (\<lambda>v. Some ''{}''), float_repr = no_repr\<rparr>"

lemma demo_infer_str: "infer_str_law demo_arrow"
  by (simp add: infer_str_law_def demo_arrow_def)

theorem prepared_records_fit_schema_witness:
  "\<exists>patched schema. prepare_records demo_codec demo_arrow
       [[(''a'', PBool True), (''x'', PFloat 1)], [(''a'', PStr ''s''), (''x'', PInt 3)]] = Some (patched, schema)
     \<and> set (map fst schema) = {''a'', ''x''} \<and> (\<forall>r \<in> set patched. \<forall>kv \<in> set r. well_typed schema kv)"
proof -
  obtain patched schema where p: "prepare_records demo_codec demo_arrow
       [[(''a'', PBool True), (''x'', PFloat 1)], [(''a'', PStr ''s''), (''x'', PInt 3)]] = Some (patched, schema)"
    by (simp add: prepare_records_def flatten_nested_to_json_def flatten_record_def flatten_value_def Let_def)
  show ?thesis
    using p prepared_records_fit_schema[OF demo_infer_str p] by (intro exI[of _ patched] exI[of _ schema]) auto
qed

subsection \<open>Every decodable document becomes a row\<close>

lemma length_set_column [simp]: "length vs = length rs \<Longrightarrow> length (set_column n vs rs) = length rs"
  by (simp add: set_column_def)

lemma cast_length: "cast_law A \<Longrightarrow> cast A src dst vs = Inr vs' \<Longrightarrow> length vs' = length vs"
  unfolding cast_law_def by blast

lemma normalize_columns_rows:
  "cast_law A \<Longrightarrow> normalize_columns A cols t = Inr (cols', rs) \<Longrightarrow>
     length rs = num_rows t \<and> map fst cols' = map fst cols"
proof (induction A cols t arbitrary: cols' rs rule: normalize_columns.induct)
  case (2 A n ty cols t)
  obtain vs cols2 rs2 where
    vs: "(if numeric_target ty = ty then Inr (column t n) else cast A ty (numeric_target ty) (column t n)) = Inr vs"
    and rest: "normalize_columns A cols t = Inr (cols2, rs2)"
    and eq: "cols' = (n, numeric_target ty) # cols2" "rs = (if numeric_target ty = ty then rs2 else set_column n vs rs2)"
    using 2(3) by (auto split: sum.splits prod.splits)
  have "length vs = num_rows t"
    using vs cast_length[OF 2(2), of ty "numeric_target ty" "column t n" vs] by (auto split: if_splits)
  then show ?case
    using 2(1)[OF vs 2(2) rest] by (simp add: eq)
qed (simp add: num_rows_def)

lemma prepared_schema:
  assumes "prepare_records C A records = Some (patched, schema)"
  shows "schema = [] \<longleftrightarrow> (\<forall>r \<in> set records. r = [])"
proof -
  obtain flat where flat: "flatten_nested_to_json (json_dumps C) records = Some flat"
    using assms by (cases "flatten_nested_to_json (json_dumps C) records") (auto simp: prepare_records_def)
  define sch where "sch = build_schema A flat"
  define str where "str = stringify_mixed_type_values (float_repr C) flat sch"
  have schema: "schema = (if conflicting_keys flat sch \<noteq> [] then build_schema A str else sch)"
    using assms by (auto simp: prepare_records_def Let_def flat sch_def str_def)
  have "fst ` set schema = fst ` set (concat flat)"
    unfolding schema using build_schema_keys(2)[of A flat] build_schema_keys(2)[of A str]
      stringify_keys[of "float_repr C" flat sch] by (simp add: sch_def str_def del: set_concat)
  also have "\<dots> = set (concat (map (map fst) flat))"
    by auto
  also have "\<dots> = set (concat (map (map fst) records))"
    unfolding flatten_keys[OF flat] ..
  finally show ?thesis
    by (auto simp flip: set_empty)
qed

text \<open>
  C35: conversion accounts for every message. There is no table exactly when no message decodes and
  parses to a JSON object. Otherwise each such message becomes one row, an empty object included, as
  long as one of the objects has a key; when all of them are empty the table has no column and so no
  row. The other messages are left out; the consume loop counts what the table lacks of the batch as
  \<open>json_parse\<close>.
\<close>

theorem convert_accounts_for_messages:
  assumes "from_pylist_law A" "cast_law A" "convert C A messages = Inr result"
  defines "objects \<equiv> List.map_filter (parse_message C) messages"
  shows "case result of
      None \<Rightarrow> objects = []
    | Some t \<Rightarrow> objects \<noteq> [] \<and> num_rows t = (if \<forall>r \<in> set objects. r = [] then 0 else length objects)"
proof (cases "objects = []")
  case True
  then show ?thesis
    using assms(3) by (simp add: convert_def objects_def)
next
  case False
  then obtain patched schema where p: "prepare_records C A objects = Some (patched, schema)"
    using assms(3) by (auto simp: convert_def objects_def Let_def split: option.splits)
  obtain t t' where t: "from_pylist A patched schema = Inr t" "normalize_numeric_types A t = Inr t'"
      "result = Some (drop_null_typed_columns t')"
    using assms(3) False p by (auto simp: convert_def objects_def[symmetric] Let_def split: sum.splits)
  have "num_rows t' = num_rows t"
    using t(2) normalize_columns_rows[OF assms(2)]
    by (auto simp: normalize_numeric_types_def num_rows_def split: sum.splits)
  moreover have "num_rows t = (if schema = [] then 0 else length patched)"
    using assms(1) t(1) unfolding from_pylist_law_def by blast
  moreover have "num_rows (drop_null_typed_columns t') = num_rows t'"
    by (simp add: drop_null_typed_columns_def num_rows_def Let_def)
  ultimately show ?thesis
    using False t(3) prepared_schema[OF p] prepared_length[OF p] by simp
qed

lemma demo_codec_simps [simp]:
  "lz4_stream demo_codec = (\<lambda>raw pos n. Inl ())" "json_dumps demo_codec = (\<lambda>v. Some ''{}'')"
  "float_repr demo_codec = no_repr"
  by (simp_all add: demo_codec_def)

theorem convert_accounts_for_messages_witness:
  "\<exists>t. convert demo_codec demo_arrow [[1], [9], [1]] = Inr (Some t) \<and> num_rows t = 2"
proof -
  have p: "parse_message demo_codec [1] = Some [(''a'', PBool True), (''x'', PFloat 1)]"
    "parse_message demo_codec [9] = None"
    by (simp_all add: parse_message_def decode_value_def demo_codec_def LZ4_FRAME_MAGIC_def)
  obtain t where t: "convert demo_codec demo_arrow [[1], [9], [1]] = Inr (Some t)"
    by (simp add: convert_def map_filter_simps p prepare_records_def Let_def flatten_nested_to_json_def
        flatten_record_def flatten_value_def build_schema_def note_sample_def note_key_def conflicting_keys_def
        conflicts_def stringify_mixed_type_values_def floatify_integers_in_float_fields_def
        normalize_numeric_types_def numeric_target_def)
  show ?thesis
    using convert_accounts_for_messages[OF demo_arrow_laws(5,6) t] t by (auto simp: p map_filter_simps)
qed

subsection \<open>Pinned columns keep their type\<close>

text \<open>A successful coercion gives an array of the target type, one value for each.\<close>

lemma uuid_from_storage_result:
  "uuid_from_storage a = Inr b \<longleftrightarrow> arr_type a = UUID_STORAGE_TYPE \<and> b = Arr AUuid (arr_vals a)"
  by (auto simp: uuid_from_storage_def)

lemma decode_uuids_some:
  "decode_uuids vs = Some out \<Longrightarrow>
     out = map (\<lambda>v. case uuid_bytes v of None \<Rightarrow> PNone | Some b \<Rightarrow> PBytes b) vs
     \<and> (\<forall>v \<in> set vs. v = PNone \<or> uuid_bytes v \<noteq> None)"
proof (induction vs arbitrary: out)
  case (Cons v vs)
  have "uuid_bytes PNone = None" by (simp add: uuid_bytes_def)
  with Cons show ?case by (auto split: if_splits option.splits)
qed simp

lemma decode_uuids_length: "decode_uuids vs = Some out \<Longrightarrow> length out = length vs"
  using decode_uuids_some by fastforce

lemma coercer_result:
  assumes "cast_law A" "map_of COERCERS tn = Some ty" "coercer A tn a = Inr b"
  shows "arr_type b = ty \<and> length (arr_vals b) = length (arr_vals a)"
proof -
  note cast = arr_cast_result[OF assms(1)]
  have ts: "arr_type b = ATimestamp ''us'' (Some ''UTC'') \<and> length (arr_vals b) = length (arr_vals a)"
    if "to_timestamptz A a = Inr b"
    using that cast assume_timezone_result[OF assms(1)]
    by (fastforce simp: to_timestamptz_def split: sum.splits)
  have uu: "arr_type b = AUuid \<and> length (arr_vals b) = length (arr_vals a)" if "to_uuid A a = Inr b"
    using that cast decode_uuids_length
    by (auto simp: to_uuid_def uuid_from_storage_result split: if_splits sum.splits option.splits)
  show ?thesis
    using assms(2,3) ts uu cast by (auto simp: coercer_def COERCERS_def split: if_splits)
qed

text \<open>What the per-value pass makes of one value.\<close>

definition coerced_one :: "(arr \<Rightarrow> arrow_error + arr) \<Rightarrow> atype \<Rightarrow> pyval \<Rightarrow> pyval" where
  "coerced_one co src v = (if v = PNone then PNone
     else case co (Arr src [v]) of Inl e \<Rightarrow> PNone | Inr one \<Rightarrow> hd (arr_vals one @ [PNone]))"

definition unconvertible :: "(arr \<Rightarrow> arrow_error + arr) \<Rightarrow> atype \<Rightarrow> pyval \<Rightarrow> bool" where
  "unconvertible co src v \<longleftrightarrow> v \<noteq> PNone \<and> (\<exists>e. co (Arr src [v]) = Inl e)"

lemma first_value_result: "first_value ty one = Inr x \<Longrightarrow> x = hd (arr_vals one @ [PNone])"
  by (auto simp: first_value_def split: if_splits list.splits)

lemma coerce_each_result:
  "coerce_each co ty src vs = Inr (out, failed) \<Longrightarrow>
     out = map (coerced_one co src) vs \<and> failed = length (filter (unconvertible co src) vs)"
proof (induction co ty src vs arbitrary: out failed rule: coerce_each.induct)
  case (2 co ty src v vs)
  obtain x n out2 n2 where
    x: "(if v = PNone then Inr (PNone, 0)
            else case co (Arr src [v]) of
                Inl e \<Rightarrow> if retried e then Inr (PNone, 1) else Inl e
              | Inr one \<Rightarrow> map_sum id (\<lambda>x. (x, 0 :: nat)) (first_value ty one)) = Inr (x, n)"
    and rest: "coerce_each co ty src vs = Inr (out2, n2)" and eq: "out = x # out2" "failed = n + n2"
    using 2(2) by (auto split: sum.splits prod.splits)
  have "x = coerced_one co src v \<and> n = (if unconvertible co src v then 1 else 0)"
    using x first_value_result
    by (auto simp: coerced_one_def unconvertible_def map_sum_def split: if_splits sum.splits)
  then show ?case
    using 2(1)[OF x refl rest] by (auto simp: eq)
qed simp

text \<open>How a pass over a column ends, when the coercer's arrays have the target type: with an array of it, or
  with an exception \<open>_coerce_or_null\<close> does not catch, which the coercer raised.\<close>

definition coerces :: "(arr \<Rightarrow> arrow_error + arr) \<Rightarrow> atype \<Rightarrow> atype \<Rightarrow> bool" where
  "coerces co src ty \<longleftrightarrow>
     (\<forall>vs b. co (Arr src vs) = Inr b \<longrightarrow> arr_type b = ty \<and> length (arr_vals b) = length vs)"

lemma coerce_each_ends:
  assumes "coerces co src ty"
  shows "case coerce_each co ty src vs of
      Inr (out, failed) \<Rightarrow> length out = length vs
    | Inl e \<Rightarrow> \<not> retried e \<and> (\<exists>v. co (Arr src [v]) = Inl e)"
proof (induction vs)
  case (Cons v vs)
  have "\<exists>x. first_value ty one = Inr x" if "co (Arr src [v]) = Inr one" for one
  proof -
    have "arr_type one = ty" "length (arr_vals one) = 1"
      using assms that by (fastforce simp: coerces_def)+
    then show ?thesis
      by (cases "arr_vals one") (auto simp: first_value_def)
  qed
  then show ?case
    using Cons by (cases "co (Arr src [v])") (auto simp: map_sum_def split: sum.splits if_splits)
qed simp

lemma coerce_or_null_ends:
  assumes "coerces co (arr_type a) ty"
  shows "case coerce_or_null co ty a of
      Inr (b, failed) \<Rightarrow> arr_type b = ty \<and> length (arr_vals b) = length (arr_vals a)
    | Inl e \<Rightarrow> \<not> retried e \<and> (\<exists>vs. co (Arr (arr_type a) vs) = Inl e)"
proof (cases "co a")
  case (Inr b)
  then show ?thesis
    using assms by (cases a) (auto simp: coerce_or_null_def coerces_def)
next
  case (Inl e)
  show ?thesis
  proof (cases "retried e")
    case False
    then show ?thesis
      using Inl by (cases a) (auto simp: coerce_or_null_def)
  next
    case True
    then show ?thesis
      using Inl coerce_each_ends[OF assms, of "arr_vals a"]
      by (auto simp: coerce_or_null_def rebuild_def uuid_from_storage_def split: sum.splits prod.splits)
  qed
qed

text \<open>
  C36: pinning a text column to \<open>uuid\<close> converts exactly the values that are UUIDs and nulls exactly
  the others, never raises, and reports how many non-null values it nulled; one bad value costs its
  neighbours nothing.
\<close>

theorem uuid_pin_nulls_exactly_bad_values:
  assumes "src \<notin> {AUuid, AFixedBinary 16, ABinary, ALargeBinary}"
  shows "coerce_or_null (coercer A ''uuid'') AUuid (Arr src vs) =
    Inr (Arr AUuid (map (\<lambda>v. case uuid_bytes v of None \<Rightarrow> PNone | Some b \<Rightarrow> PBytes b) vs),
         length (filter (\<lambda>v. v \<noteq> PNone \<and> uuid_bytes v = None) vs))"
proof -
  define co where "co = coercer A ''uuid''"
  define dec where "dec = (\<lambda>v. case uuid_bytes v of None \<Rightarrow> PNone | Some b \<Rightarrow> PBytes b)"
  have co: "co (Arr src ws) = (case decode_uuids ws of None \<Rightarrow> Inl ArrowInvalid | Some bs \<Rightarrow> Inr (Arr AUuid bs))" for ws
    using assms by (simp add: co_def coercer_def to_uuid_def uuid_from_storage_def split: option.split)
  have none: "uuid_bytes PNone = None" by (simp add: uuid_bytes_def)
  have each: "coerce_each co AUuid src ws = Inr (map dec ws, length (filter (\<lambda>v. v \<noteq> PNone \<and> uuid_bytes v = None) ws))" for ws
    by (induction ws) (auto simp: co dec_def none first_value_def retried_def split: option.split)
  have "coerce_or_null co AUuid (Arr src vs) =
    Inr (Arr AUuid (map dec vs), length (filter (\<lambda>v. v \<noteq> PNone \<and> uuid_bytes v = None) vs))"
  proof (cases "decode_uuids vs")
    case None
    then show ?thesis
      by (simp add: coerce_or_null_def co retried_def each rebuild_def uuid_from_storage_def)
  next
    case (Some out)
    have "filter (\<lambda>v. v \<noteq> PNone \<and> uuid_bytes v = None) vs = []"
      using decode_uuids_some[OF Some] by (auto simp: filter_empty_conv)
    then show ?thesis
      using decode_uuids_some[OF Some] Some by (simp add: coerce_or_null_def co dec_def)
  qed
  then show ?thesis
    by (simp only: co_def dec_def)
qed

theorem uuid_pin_nulls_exactly_bad_values_witness:
  "coerce_or_null (coercer demo_arrow ''uuid'') AUuid (Arr AString [PStr ''no'', PNone]) = Inr (Arr AUuid [PNone, PNone], 1)"
proof -
  have "uuid_bytes (PStr ''no'') = None" "uuid_bytes PNone = None"
    by (simp_all add: uuid_bytes_def unwrap_uuid_def URN_PREFIX_def starts_with_def Let_def)
  then show ?thesis
    using uuid_pin_nulls_exactly_bad_values[of AString demo_arrow "[PStr ''no'', PNone]"] by simp
qed

text \<open>A uuid pin over text needs no kernel.\<close>

lemma uuid_coerces_text:
  "src \<notin> {AUuid, AFixedBinary 16, ABinary, ALargeBinary} \<Longrightarrow> coerces (coercer A ''uuid'') src AUuid"
  using decode_uuids_length
  by (auto simp: coerces_def coercer_def to_uuid_def uuid_from_storage_result split: option.splits)

text \<open>The schema the pins ask for.\<close>

definition pinned_type :: "(string \<rightharpoonup> string) \<Rightarrow> string \<times> atype \<Rightarrow> string \<times> atype" where
  "pinned_type targets = (\<lambda>(n, ty). (n, case Option.bind (targets n) (map_of COERCERS) of
     None \<Rightarrow> ty | Some ty' \<Rightarrow> ty'))"

text \<open>Every array that replaces a column has the type of its field and a value for every row.\<close>

definition columns_fit :: "nat \<Rightarrow> ((string \<times> atype) \<times> arr option) list \<Rightarrow> bool" where
  "columns_fit rows cols \<longleftrightarrow>
     (\<forall>field a. (field, Some a) \<in> set cols \<longrightarrow> arr_type a = snd field \<and> length (arr_vals a) = rows)"

definition escapes :: "arrow \<Rightarrow> (string \<rightharpoonup> string) \<Rightarrow> (string \<times> atype) list \<Rightarrow> arrow_error \<Rightarrow> bool" where
  "escapes A targets cols e \<longleftrightarrow> \<not> retried e
     \<and> (\<exists>n ty tn vs. (n, ty) \<in> set cols \<and> targets n = Some tn \<and> coercer A tn (Arr ty vs) = Inl e)"

lemma coerce_fields_ends:
  assumes "\<forall>(n, ty) \<in> set cols. \<forall>tn. targets n = Some tn \<longrightarrow>
      (\<exists>ty'. map_of COERCERS tn = Some ty' \<and> coerces (coercer A tn) ty ty')"
  shows "case coerce_fields A targets t cols of
      Inr (cols', ms) \<Rightarrow> map fst cols' = map (pinned_type targets) cols \<and> columns_fit (num_rows t) cols'
    | Inl e \<Rightarrow> escapes A targets cols e"
  using assms
proof (induction cols)
  case Nil
  then show ?case by (simp add: columns_fit_def)
next
  case (Cons c cols)
  obtain n ty where c: "c = (n, ty)" by fastforce
  have esc: "escapes A targets (c # cols) e" if "escapes A targets cols e" for e
    using that by (auto simp: escapes_def)
  have IH: "case coerce_fields A targets t cols of
      Inr (cols', ms) \<Rightarrow> map fst cols' = map (pinned_type targets) cols \<and> columns_fit (num_rows t) cols'
    | Inl e \<Rightarrow> escapes A targets (c # cols) e"
    using Cons esc by (auto split: sum.splits)
  have keep: ?case if "coerce_fields A targets t (c # cols) =
      map_sum id (\<lambda>(fs, ms). (((n, ty), None) # fs, ms)) (coerce_fields A targets t cols)" "pinned_type targets c = (n, ty)"
    using IH that by (auto simp: columns_fit_def split: sum.splits)
  show ?case
  proof (cases "targets n")
    case None
    then show ?thesis by (intro keep) (simp_all add: c pinned_type_def)
  next
    case (Some tn)
    then obtain ty' where ty': "map_of COERCERS tn = Some ty'" "coerces (coercer A tn) ty ty'"
      using Cons.prems by (auto simp: c)
    show ?thesis
    proof (cases "ty = ty'")
      case True
      then show ?thesis
        using Some ty' by (intro keep) (simp_all add: c pinned_type_def)
    next
      case False
      note ends = coerce_or_null_ends[of "coercer A tn" "Arr ty (column t n)" ty', unfolded arr.sel, OF ty'(2)]
      show ?thesis
      proof (cases "coerce_or_null (coercer A tn) ty' (Arr ty (column t n))")
        case (Inl e)
        then have "escapes A targets (c # cols) e"
          using ends Some by (auto simp: escapes_def c)
        then show ?thesis
          using Inl Some ty' False by (simp add: c)
      next
        case (Inr bf)
        then show ?thesis
          using ends IH Some ty' False by (auto simp: c pinned_type_def columns_fit_def split: sum.splits)
      qed
    qed
  qed
qed

lemma fill_columns_fit:
  "columns_fit (length rs) cols \<Longrightarrow> \<exists>rs'. fill_columns A cols rs = Inr rs' \<and> length rs' = length rs"
proof (induction cols)
  case (Cons c cols)
  obtain n ty col where c: "c = ((n, ty), col)" by (metis prod_cases3 prod.collapse)
  have fit: "columns_fit (length rs) cols" "\<And>a. col = Some a \<Longrightarrow> arr_type a = ty \<and> length (arr_vals a) = length rs"
    using Cons.prems by (auto simp: columns_fit_def c)
  then obtain rs' where "fill_columns A cols rs = Inr rs'" "length rs' = length rs"
    using Cons.IH by blast
  then show ?case
    using fit(2) by (cases col) (auto simp: c)
qed simp

lemma coerce_typed_ends:
  assumes "\<forall>(n, ty) \<in> set (tschema t). \<forall>tn. map_of (rev pins) n = Some tn \<longrightarrow>
      (\<exists>ty'. map_of COERCERS tn = Some ty' \<and> coerces (coercer A tn) ty ty')"
  shows "case coerce_typed_columns A t pins of
      Inr (t', ms) \<Rightarrow> num_rows t' = num_rows t \<and> tschema t' = map (pinned_type (map_of (rev pins))) (tschema t)
    | Inl e \<Rightarrow> escapes A (map_of (rev pins)) (tschema t) e"
proof (cases "pins = []")
  case True
  then show ?thesis
    by (simp add: coerce_typed_columns_def pinned_type_def)
next
  case False
  note ends = coerce_fields_ends[OF assms, of t]
  show ?thesis
  proof (cases "coerce_fields A (map_of (rev pins)) t (tschema t)")
    case (Inr cm)
    obtain cols ms where cm: "cm = (cols, ms)" by fastforce
    obtain rs where "fill_columns A cols (trows t) = Inr rs" "length rs = num_rows t"
      using fill_columns_fit[of "trows t" cols A] ends Inr cm by (auto simp: num_rows_def)
    then show ?thesis
      using False Inr ends cm by (simp add: coerce_typed_columns_def num_rows_def)
  qed (use False ends in \<open>simp add: coerce_typed_columns_def\<close>)
qed

text \<open>
  C37: pinning, with pins of known types. When it returns, every row is there and every pinned column of
  the batch has its target type, whatever type was inferred for it, so that batches with different
  inferences can be concatenated; each coerced array came out of its coercer (or of the per-value
  rebuild) with that type, so that assembling the table casts nothing more. When it raises, it is with
  an exception \<open>_coerce_or_null\<close> does not catch, raised by the coercer of a pinned column.
\<close>

theorem pinned_columns_have_target_type:
  assumes "cast_law A" "\<forall>tn \<in> snd ` set pins. tn \<in> fst ` set COERCERS" "pins \<noteq> []"
  shows "case coerce_typed_columns A t pins of
      Inr (t', ms) \<Rightarrow> num_rows t' = num_rows t
        \<and> tschema t' = map (pinned_type (map_of (rev pins))) (tschema t)
        \<and> (\<exists>cols. coerce_fields A (map_of (rev pins)) t (tschema t) = Inr (cols, ms) \<and> columns_fit (num_rows t) cols)
    | Inl e \<Rightarrow> escapes A (map_of (rev pins)) (tschema t) e"
proof -
  have "\<exists>ty'. map_of COERCERS tn = Some ty' \<and> coerces (coercer A tn) ty ty'"
    if "map_of (rev pins) n = Some tn" for n tn ty
  proof -
    have "tn \<in> snd ` set pins"
      using map_of_SomeD[OF that] by force
    then obtain ty' where ty': "map_of COERCERS tn = Some ty'"
      using bspec[OF assms(2)] by (metis map_of_eq_None_iff not_None_eq)
    then show ?thesis
      using coercer_result[OF assms(1) ty', of "Arr ty vs" for vs] by (auto simp: coerces_def)
  qed
  then have known: "\<forall>(n, ty) \<in> set (tschema t). \<forall>tn. map_of (rev pins) n = Some tn \<longrightarrow>
      (\<exists>ty'. map_of COERCERS tn = Some ty' \<and> coerces (coercer A tn) ty ty')"
    by blast
  note ends = coerce_typed_ends[OF known] coerce_fields_ends[OF known, of t]
  show ?thesis
  proof (cases "coerce_typed_columns A t pins")
    case (Inr r)
    then obtain cols where "coerce_fields A (map_of (rev pins)) t (tschema t) = Inr (cols, snd r)"
      using assms(3) by (auto simp: coerce_typed_columns_def map_sum_def split: sum.splits)
    then show ?thesis
      using ends Inr by (cases r) simp
  qed (use ends(1) in simp)
qed

definition demo_pin_table :: table where
  "demo_pin_table = \<lparr>tschema = [(''a'', ABool), (''u'', AString)],
     trows = [[(''a'', PBool True), (''u'', PStr ''no'')], [(''a'', PBool False)]]\<rparr>"

theorem pinned_columns_have_target_type_witness:
  "\<exists>t' ms. coerce_typed_columns demo_arrow demo_pin_table [(''u'', ''uuid'')] = Inr (t', ms)
     \<and> tschema t' = [(''a'', ABool), (''u'', AUuid)] \<and> num_rows t' = 2"
proof -
  have no: "uuid_bytes (PStr ''no'') = None" "uuid_bytes PNone = None"
    by (simp_all add: uuid_bytes_def unwrap_uuid_def URN_PREFIX_def starts_with_def Let_def)
  obtain t' ms where "coerce_typed_columns demo_arrow demo_pin_table [(''u'', ''uuid'')] = Inr (t', ms)"
    by (simp add: coerce_typed_columns_def demo_pin_table_def COERCERS_def coerce_or_null_def coercer_def to_uuid_def
        column_def cell_def no retried_def rebuild_def uuid_from_storage_def)
  then show ?thesis
    using pinned_columns_have_target_type[OF demo_arrow_laws(6), of "[(''u'', ''uuid'')]" demo_pin_table]
    by (auto simp: demo_pin_table_def pinned_type_def COERCERS_def num_rows_def)
qed

text \<open>
  the exception the retry does not expect escapes. When the kernel has no cast from the column's
  type to the pinned type at all (\<open>ArrowNotImplementedError\<close>, as for a boolean column pinned
  \<open>timestamptz\<close>), pinning raises out of the consume path instead of nulling the column.
\<close>

theorem unsupported_cast_escapes:
  assumes "(n, ty) \<in> set (tschema t)" "map_of (rev pins) n = Some tn" "map_of COERCERS tn = Some ty'"
    and "ty \<noteq> ty'" "coercer A tn (Arr ty (column t n)) = Inl ArrowNotImplemented"
  shows "\<exists>e. coerce_typed_columns A t pins = Inl e"
proof -
  have "\<exists>e. coerce_fields A (map_of (rev pins)) t cols = Inl e" if "(n, ty) \<in> set cols" for cols
    using that
  proof (induction cols)
    case (Cons c cols)
    show ?case
    proof (cases "c = (n, ty)")
      case True
      then show ?thesis
        using assms by (simp add: coerce_or_null_def retried_def)
    next
      case False
      then obtain e where "coerce_fields A (map_of (rev pins)) t cols = Inl e"
        using Cons by auto
      then show ?thesis
        by (cases c) (auto split: option.split sum.split)
    qed
  qed simp
  then show ?thesis
    using assms(1,2) by (force simp: coerce_typed_columns_def)
qed

theorem unsupported_cast_escapes_witness:
  "\<exists>e. coerce_typed_columns demo_arrow demo_pin_table [(''a'', ''timestamptz'')] = Inl e"
  by (rule unsupported_cast_escapes[of "''a''" ABool _ _ "''timestamptz''" "ATimestamp ''us'' (Some ''UTC'')"])
    (simp_all add: demo_pin_table_def COERCERS_def coercer_def to_timestamptz_def arr_cast_def)

end
