(* ===== verification/Retry.thy ===== *)
theory Retry
  imports Arrow
begin

text \<open>
  The write-retry layer of \<open>millpond/main.py\<close>: error classification, the backoff delay, the attempt
  loop with its wall-clock deadline, and the decision about the final flush. A sink is the record of
  the hooks the loop looks up by name (an absent hook is \<open>None\<close>), over a world \<open>'w\<close> that every call
  may change; a clock is the record of \<open>time.monotonic\<close>, \<open>time.sleep\<close> and \<open>random.random\<close>. Seconds
  are reals: the rounding of their float arithmetic is not modelled. The events a call performs are
  returned in order; log lines are not modelled.
\<close>

subsection \<open>Errors, sinks and clocks\<close>

text \<open>
  What the code reads of an exception: its text, \<open>errors_total_type\<close> when it is a string, whether
  \<open>retryable is True\<close>, the module of its class, whether it refuses new attributes, and the mark
  \<open>_millpond_write_permanent\<close>.
\<close>

record exc =
  exc_text :: string
  errors_total_type :: "string option"
  retryable :: bool
  exc_module :: string
  slotted :: bool
  write_permanent :: bool

text \<open>The keyword arguments of \<open>write\<close>: none, or the flushed offsets with the trigger.\<close>

type_synonym write_kwargs = "((string \<times> int \<times> int \<times> int) list \<times> string) option"

record 'w sink =
  sink_write :: "table \<Rightarrow> write_kwargs \<Rightarrow> 'w \<Rightarrow> (exc + int) \<times> 'w"
  write_retry_budget :: "(nat \<times> real) option"
  retry_after_hint :: "('w \<Rightarrow> real option \<times> 'w) option"
  is_retryable :: "(exc \<Rightarrow> bool) option"
  write_flush_deadline :: "(real \<times> real) option"
  reset_caches :: "'w \<Rightarrow> 'w"

record 'w clock =
  monotonic :: "'w \<Rightarrow> real \<times> 'w"
  sleep :: "real \<Rightarrow> 'w \<Rightarrow> 'w"
  random01 :: "'w \<Rightarrow> real \<times> 'w"

definition CONSUME_MAX_BLOCK_S :: real where "CONSUME_MAX_BLOCK_S = 60"
definition WRITE_MAX_RETRIES :: nat where "WRITE_MAX_RETRIES = 3"
definition WRITE_BASE_DELAY_S :: real where "WRITE_BASE_DELAY_S = 1"
definition COMMIT_MAX_RETRIES :: nat where "COMMIT_MAX_RETRIES = 3"
definition COMMIT_BASE_DELAY_S :: real where "COMMIT_BASE_DELAY_S = 1 / 2"
definition RETRY_AFTER_MAX_S :: real where "RETRY_AFTER_MAX_S = 30"
definition RETRY_JITTER :: real where "RETRY_JITTER = 1 / 4"

definition consume_timeout :: "real \<Rightarrow> real" where
  "consume_timeout remaining = min (max remaining (1 / 10)) CONSUME_MAX_BLOCK_S"

subsection \<open>Classification\<close>

definition is_commit_contention :: "exc \<Rightarrow> bool" where
  "is_commit_contention e \<longleftrightarrow>
     (let msg = exc_text e in
      contains ''maximum retry count'' msg \<or> contains ''duplicate key value'' msg
      \<or> contains ''could not serialize access'' msg \<or> contains ''Transaction conflict'' msg)"

definition classify_write_error :: "exc \<Rightarrow> string \<Rightarrow> string" where
  "classify_write_error e dest =
     (case errors_total_type e of
        Some label \<Rightarrow> label
      | None \<Rightarrow>
          if retryable e \<and> starts_with ''pyhoglake'' (exc_module e) then ''hoglake_commit_contention''
          else if dest = ''ducklake'' \<and> is_commit_contention e then ''ducklake_commit_contention''
          else ''write_retry'')"

subsection \<open>Budget, delay and deadline\<close>

definition retry_budget :: "'w sink \<Rightarrow> nat \<times> real" where
  "retry_budget S = (case write_retry_budget S of
     None \<Rightarrow> (WRITE_MAX_RETRIES, WRITE_BASE_DELAY_S) | Some b \<Rightarrow> b)"

text \<open>Asking for the hint may consume it.\<close>

definition take_hint :: "'w sink \<Rightarrow> 'w \<Rightarrow> real option \<times> 'w" where
  "take_hint S w = (case retry_after_hint S of None \<Rightarrow> (None, w) | Some hint \<Rightarrow> hint w)"

text \<open>The delay before jitter: the capped exponential, floored by the sink's hint.\<close>

definition delay_floor :: "'w sink \<Rightarrow> nat \<Rightarrow> real \<Rightarrow> 'w \<Rightarrow> real" where
  "delay_floor S attempt base w =
     (let delay = min (base * 2 ^ attempt) RETRY_AFTER_MAX_S in
      case fst (take_hint S w) of
        None \<Rightarrow> delay
      | Some seconds \<Rightarrow> max delay (min seconds RETRY_AFTER_MAX_S))"

definition retry_delay :: "'w sink \<Rightarrow> 'w clock \<Rightarrow> nat \<Rightarrow> real \<Rightarrow> 'w \<Rightarrow> real \<times> 'w" where
  "retry_delay S K attempt base w =
     (let delay = delay_floor S attempt base w;
          (u, w') = random01 K (snd (take_hint S w))
      in (min (delay + u * (delay * RETRY_JITTER)) RETRY_AFTER_MAX_S, w'))"

definition flush_deadline :: "'w sink \<Rightarrow> (real \<times> real) option" where
  "flush_deadline S = write_flush_deadline S"

subsection \<open>The attempt loop\<close>

datatype write_event = Attempt "exc + int" | Metric metric | Reset | Sleep real

text \<open>\<open>NoAttempt\<close> is falling out of the loop, which an attempt budget of zero would do.\<close>

datatype write_result = Wrote int | Raised exc | NoAttempt

definition permanent_failure :: "'w sink \<Rightarrow> exc \<Rightarrow> bool" where
  "permanent_failure S e = (case is_retryable S of None \<Rightarrow> False | Some f \<Rightarrow> \<not> f e)"

definition mark_permanent :: "exc \<Rightarrow> exc" where
  "mark_permanent e = (if slotted e then e else e\<lparr>write_permanent := True\<rparr>)"

definition failed_attempt :: "string \<Rightarrow> exc \<Rightarrow> write_event list" where
  "failed_attempt dest e =
     [Attempt (Inl e), Metric (Inc ''errors_total'' (classify_write_error e dest) 1)]"

text \<open>\<open>left\<close> is the number of attempts left, this one included.\<close>

fun write_loop ::
  "'w sink \<Rightarrow> 'w clock \<Rightarrow> string \<Rightarrow> table \<Rightarrow> write_kwargs \<Rightarrow> real \<Rightarrow> real \<Rightarrow> nat \<Rightarrow> nat \<Rightarrow> 'w
     \<Rightarrow> write_result \<times> 'w \<times> write_event list" where
  "write_loop S K dest b kw base started attempt 0 w = (NoAttempt, w, [])"
| "write_loop S K dest b kw base started attempt (Suc left) w =
     (case sink_write S b kw w of
        (Inr n, w1) \<Rightarrow> (Wrote n, w1, [Attempt (Inr n)])
      | (Inl e, w1) \<Rightarrow>
          if permanent_failure S e then (Raised (mark_permanent e), w1, failed_attempt dest e)
          else if left = 0 then (Raised e, w1, failed_attempt dest e)
          else
            (let (delay, w2) = retry_delay S K attempt base w1;
                 again = (\<lambda>w. let (res, w', evs) =
                     write_loop S K dest b kw base started (Suc attempt) left
                       (sleep K delay (reset_caches S w))
                   in (res, w', failed_attempt dest e @ [Reset, Sleep delay] @ evs))
             in case flush_deadline S of
                  None \<Rightarrow> again w2
                | Some (budget_s, attempt_cost_s) \<Rightarrow>
                    (let (t, w3) = monotonic K w2 in
                     if budget_s < (t - started) + delay + attempt_cost_s then
                       (Raised e, w3, failed_attempt dest e
                          @ [Metric (Inc ''errors_total'' ''flush_deadline_exceeded'' 1)])
                     else again w3)))"

definition write_with_retry ::
  "'w sink \<Rightarrow> 'w clock \<Rightarrow> string \<Rightarrow> table \<Rightarrow> write_kwargs \<Rightarrow> 'w \<Rightarrow> write_result \<times> 'w \<times> write_event list" where
  "write_with_retry S K dest b kw w =
     (let (max_attempts, base_delay) = retry_budget S;
          (started, w1) = monotonic K w
      in write_loop S K dest b kw base_delay started 0 max_attempts w1)"

subsection \<open>The final flush\<close>

definition is_permanent_write_failure :: "exc option \<Rightarrow> bool" where
  "is_permanent_write_failure e = (case e of None \<Rightarrow> False | Some x \<Rightarrow> write_permanent x)"

definition final_flush_decision :: "int \<Rightarrow> exc option \<Rightarrow> bool \<Rightarrow> string" where
  "final_flush_decision pending_records loop_error started =
     (if pending_records \<le> 0 then ''none''
      else if is_permanent_write_failure loop_error then ''skip''
      else if started then ''flush'' else ''none'')"

subsection \<open>Delays\<close>

definition random_law :: "'w clock \<Rightarrow> bool" where
  "random_law K \<longleftrightarrow> (\<forall>w. 0 \<le> fst (random01 K w) \<and> fst (random01 K w) \<le> 1)"

lemma delay_floor_bounds:
  "0 \<le> base \<Longrightarrow> min (base * 2 ^ attempt) RETRY_AFTER_MAX_S \<le> delay_floor S attempt base w
     \<and> 0 \<le> min (base * 2 ^ attempt) RETRY_AFTER_MAX_S
     \<and> delay_floor S attempt base w \<le> RETRY_AFTER_MAX_S"
  by (auto simp: delay_floor_def Let_def RETRY_AFTER_MAX_S_def split: option.split)

lemma retry_delay_between:
  assumes "random_law K" "0 \<le> base" "retry_delay S K attempt base w = (d, w')"
  shows "delay_floor S attempt base w \<le> d" "d \<le> RETRY_AFTER_MAX_S"
    "d \<le> delay_floor S attempt base w * (1 + RETRY_JITTER)" "0 \<le> d"
proof -
  let ?f = "delay_floor S attempt base w" and ?u = "fst (random01 K (snd (take_hint S w)))"
  have f: "0 \<le> ?f" "?f \<le> RETRY_AFTER_MAX_S"
    using delay_floor_bounds[OF assms(2), of attempt S w] by linarith+
  have u: "0 \<le> ?u" "?u \<le> 1"
    using assms(1) by (simp_all add: random_law_def)
  have d: "d = min (?f + ?u * (?f * RETRY_JITTER)) RETRY_AFTER_MAX_S"
    using assms(3) by (auto simp: retry_delay_def Let_def split: prod.splits)
  have "0 \<le> ?f * RETRY_JITTER"
    using f by (simp add: RETRY_JITTER_def)
  then have "0 \<le> ?u * (?f * RETRY_JITTER)" "?u * (?f * RETRY_JITTER) \<le> ?f * RETRY_JITTER"
    using u by (simp_all add: mult_left_le_one_le)
  then show "?f \<le> d" "d \<le> RETRY_AFTER_MAX_S" "d \<le> ?f * (1 + RETRY_JITTER)" "0 \<le> d"
    using f unfolding d by (auto simp: algebra_simps)
qed

lemma retry_delay_ladder:
  assumes "random_law K" "0 \<le> base" "retry_delay S K attempt base w = (d, w')"
  shows "min (base * 2 ^ attempt) RETRY_AFTER_MAX_S \<le> d" "d \<le> RETRY_AFTER_MAX_S"
  using retry_delay_between[OF assms] delay_floor_bounds[OF assms(2), of attempt S w] by linarith+

text \<open>
  a backoff never returns before the server asked to be asked again (up to the cap), never shrinks
  the exponential ladder, never exceeds the cap that keeps the poll gap inside the liveness deadline,
  and spreads by at most a quarter.
\<close>

theorem retry_delay_bounds:
  assumes "random_law K" "0 \<le> base" "retry_delay S K attempt base w = (d, w')"
  shows "min (base * 2 ^ attempt) RETRY_AFTER_MAX_S \<le> d \<and> d \<le> RETRY_AFTER_MAX_S
    \<and> (case retry_after_hint S of None \<Rightarrow> True
       | Some hint \<Rightarrow> (case fst (hint w) of None \<Rightarrow> True | Some s \<Rightarrow> min s RETRY_AFTER_MAX_S \<le> d))
    \<and> d \<le> delay_floor S attempt base w * (1 + RETRY_JITTER)"
proof -
  note b = retry_delay_between[OF assms]
  have "min (base * 2 ^ attempt) RETRY_AFTER_MAX_S \<le> delay_floor S attempt base w"
    by (rule delay_floor_bounds[OF assms(2), THEN conjunct1])
  moreover have "min s RETRY_AFTER_MAX_S \<le> delay_floor S attempt base w"
    if "retry_after_hint S = Some hint" "fst (hint w) = Some s" for hint s
    using that by (simp add: delay_floor_def take_hint_def Let_def)
  ultimately show ?thesis
    using b by (auto split: option.split intro: order_trans)
qed

subsection \<open>What the attempt loop does\<close>

text \<open>A failed round: the attempt, its error count, the cache reset and the sleep.\<close>

definition round :: "string \<Rightarrow> exc \<times> real \<Rightarrow> write_event list" where
  "round dest = (\<lambda>(e, d). failed_attempt dest e @ [Reset, Sleep d])"

definition good_rounds :: "'w sink \<Rightarrow> real \<Rightarrow> nat \<Rightarrow> (exc \<times> real) list \<Rightarrow> bool" where
  "good_rounds S base attempt rounds \<longleftrightarrow> (\<forall>i < length rounds.
     \<not> permanent_failure S (fst (rounds ! i))
     \<and> min (base * 2 ^ (attempt + i)) RETRY_AFTER_MAX_S \<le> snd (rounds ! i)
     \<and> snd (rounds ! i) \<le> RETRY_AFTER_MAX_S)"

text \<open>How the loop ends after \<open>n\<close> failed rounds out of \<open>left\<close> attempts.\<close>

definition loop_ends :: "'w sink \<Rightarrow> string \<Rightarrow> nat \<Rightarrow> nat \<Rightarrow> write_result \<Rightarrow> write_event list \<Rightarrow> bool" where
  "loop_ends S dest left n res evs \<longleftrightarrow>
     (\<exists>k. res = Wrote k \<and> evs = [Attempt (Inr k)])
   \<or> (\<exists>e. permanent_failure S e \<and> res = Raised (mark_permanent e) \<and> evs = failed_attempt dest e)
   \<or> (\<exists>e. \<not> permanent_failure S e \<and> res = Raised e \<and> evs = failed_attempt dest e \<and> Suc n = left)
   \<or> (\<exists>e. \<not> permanent_failure S e \<and> res = Raised e \<and> flush_deadline S \<noteq> None \<and> evs = failed_attempt dest e
        @ [Metric (Inc ''errors_total'' ''flush_deadline_exceeded'' 1)])"

lemma loop_ends_Suc: "loop_ends S dest left n res evs \<Longrightarrow> loop_ends S dest (Suc left) (Suc n) res evs"
  by (auto simp: loop_ends_def)

lemma good_rounds_Cons:
  "good_rounds S base attempt (r # rounds) \<longleftrightarrow>
     \<not> permanent_failure S (fst r) \<and> min (base * 2 ^ attempt) RETRY_AFTER_MAX_S \<le> snd r
     \<and> snd r \<le> RETRY_AFTER_MAX_S \<and> good_rounds S base (Suc attempt) rounds"
  by (auto simp: good_rounds_def less_Suc_eq_0_disj nth_Cons split: nat.splits)

lemma good_rounds_Nil [simp]: "good_rounds S base attempt []"
  by (simp add: good_rounds_def)

lemma write_loop_trace:
  assumes law: "random_law K" "0 \<le> base"
  shows "write_loop S K dest b kw base started attempt left w = (res, w', evs) \<Longrightarrow> 0 < left \<Longrightarrow>
    \<exists>rounds tl. evs = concat (map (round dest) rounds) @ tl \<and> length rounds < left
      \<and> good_rounds S base attempt rounds \<and> loop_ends S dest left (length rounds) res tl"
proof (induction left arbitrary: attempt w res w' evs)
  case (Suc left)
  obtain out w1 where wr: "sink_write S b kw w = (out, w1)" by fastforce
  show ?case
  proof (cases out)
    case (Inr n)
    then show ?thesis
      using Suc.prems wr by (intro exI[of _ "[] :: (exc \<times> real) list"] exI[of _ evs]) (auto simp: loop_ends_def split: if_splits)
  next
    case (Inl e)
    show ?thesis
    proof (cases "permanent_failure S e \<or> left = 0")
      case True
      then show ?thesis
        using Suc.prems wr Inl by (intro exI[of _ "[] :: (exc \<times> real) list"] exI[of _ evs]) (auto simp: loop_ends_def split: if_splits)
    next
      case False
      obtain d w2 where d: "retry_delay S K attempt base w1 = (d, w2)" by fastforce
      note db = retry_delay_ladder[OF law d]
      have again: ?thesis if loop: "(case write_loop S K dest b kw base started (Suc attempt) left
            (sleep K d (reset_caches S w3)) of (res, w', evs) \<Rightarrow>
            (res, w', failed_attempt dest e @ [Reset, Sleep d] @ evs)) = (res, w', evs)" for w3
      proof -
        obtain evs2 where evs2: "write_loop S K dest b kw base started (Suc attempt) left
            (sleep K d (reset_caches S w3)) = (res, w', evs2)"
          "evs = failed_attempt dest e @ [Reset, Sleep d] @ evs2"
          using loop by (auto split: prod.splits)
        obtain rounds tl where r: "evs2 = concat (map (round dest) rounds) @ tl" "length rounds < left"
          "good_rounds S base (Suc attempt) rounds" "loop_ends S dest left (length rounds) res tl"
          using Suc.IH[OF evs2(1)] False by auto
        then show ?thesis
          using False db evs2(2)
          by (intro exI[of _ "(e, d) # rounds"] exI[of _ tl])
            (auto simp: round_def good_rounds_Cons intro: loop_ends_Suc)
      qed
      show ?thesis
      proof (cases "flush_deadline S")
        case None
        then show ?thesis
          using Suc.prems wr Inl False d by (intro again[of w2]) (simp add: Let_def)
      next
        case (Some bc)
        obtain budget cost t w3 where bc: "bc = (budget, cost)" "monotonic K w2 = (t, w3)"
          by fastforce
        show ?thesis
        proof (cases "budget < t - started + d + cost")
          case True
          then show ?thesis
            using Suc.prems wr Inl False d Some bc
            by (intro exI[of _ "[] :: (exc \<times> real) list"] exI[of _ evs]) (auto simp: loop_ends_def split: if_splits)
        next
          case within: False
          then show ?thesis
            using Suc.prems wr Inl False d Some bc by (intro again[of w3]) (simp add: Let_def)
        qed
      qed
    qed
  qed
qed simp

text \<open>
  C38: what one flush writes. The sink is called at most as often as its budget allows; every call
  but the last failed with an error the sink calls retryable, was counted under its class, and was
  followed by a cache reset and then a backoff between the exponential ladder and the cap. The result
  is the last call's: its record count, or its exception, marked permanent when the sink said so; a
  failure that is not permanent ends the loop only when the attempts or the deadline are used up.
\<close>

theorem write_retry_trace:
  assumes "random_law K" "retry_budget S = (max_attempts, base)" "0 < max_attempts" "0 \<le> base"
    and "write_with_retry S K dest b kw w = (res, w', evs)"
  shows "\<exists>rounds tl. evs = concat (map (round dest) rounds) @ tl \<and> length rounds < max_attempts
    \<and> good_rounds S base 0 rounds \<and> loop_ends S dest max_attempts (length rounds) res tl"
proof -
  obtain started w1 where "monotonic K w = (started, w1)" by fastforce
  then have "write_loop S K dest b kw base started 0 max_attempts w1 = (res, w', evs)"
    using assms(2,5) by (simp add: write_with_retry_def)
  then show ?thesis
    by (rule write_loop_trace[OF assms(1,4) _ assms(3)])
qed

subsection \<open>How long a flush can take\<close>

text \<open>
  \<open>tm\<close> reads the monotonic clock. Reading the clock, drawing a random number, asking for a hint and
  resetting the caches take no time; a sleep lasts at most \<open>slack\<close> longer than asked for. Nothing is
  said here of a write: it may take any time.
\<close>

definition clocked :: "('w \<Rightarrow> real) \<Rightarrow> real \<Rightarrow> 'w sink \<Rightarrow> 'w clock \<Rightarrow> bool" where
  "clocked tm slack S K \<longleftrightarrow>
     (\<forall>w. fst (monotonic K w) = tm w \<and> tm (snd (monotonic K w)) = tm w)
   \<and> (\<forall>w. tm (snd (random01 K w)) = tm w) \<and> (\<forall>w. tm (reset_caches S w) = tm w)
   \<and> (\<forall>w. tm (snd (take_hint S w)) = tm w)
   \<and> (\<forall>d w. 0 \<le> d \<longrightarrow> tm (sleep K d w) \<le> tm w + d + slack)"

text \<open>No write takes longer than \<open>longest\<close>; no hint asks for more than \<open>wait\<close>.\<close>

definition writes_within :: "('w \<Rightarrow> real) \<Rightarrow> real \<Rightarrow> 'w sink \<Rightarrow> bool" where
  "writes_within tm longest S \<longleftrightarrow> (\<forall>b kw w. tm (snd (sink_write S b kw w)) \<le> tm w + longest)"

definition hints_within :: "real \<Rightarrow> 'w sink \<Rightarrow> bool" where
  "hints_within wait S \<longleftrightarrow> (\<forall>w s. fst (take_hint S w) = Some s \<longrightarrow> s \<le> wait)"

lemma clocked_simps:
  assumes "clocked tm slack S K"
  shows "monotonic K w = (t, w') \<Longrightarrow> t = tm w \<and> tm w' = tm w"
    and "retry_delay S K attempt base w = (d, w') \<Longrightarrow> tm w' = tm w"
    and "0 \<le> d \<Longrightarrow> tm (sleep K d (reset_caches S w)) \<le> tm w + d + slack"
proof -
  show "monotonic K w = (t, w') \<Longrightarrow> t = tm w \<and> tm w' = tm w"
    using assms unfolding clocked_def by (metis fst_conv snd_conv)
  show "retry_delay S K attempt base w = (d, w') \<Longrightarrow> tm w' = tm w"
    using assms unfolding clocked_def by (auto simp: retry_delay_def Let_def split: prod.splits) (metis snd_conv)
  show "0 \<le> d \<Longrightarrow> tm (sleep K d (reset_caches S w)) \<le> tm w + d + slack"
    using assms unfolding clocked_def by (metis)
qed

lemma write_takes:
  "writes_within tm longest S \<Longrightarrow> sink_write S b kw w = (out, w') \<Longrightarrow> tm w' \<le> tm w + longest"
  unfolding writes_within_def by (metis snd_conv)

text \<open>
  An observer beside the world: the same sink and clock, with the clock reading at the start of every
  write appended to a journal that nothing else reads.
\<close>

definition journaled :: "('w \<Rightarrow> real) \<Rightarrow> 'w sink \<Rightarrow> ('w \<times> real list) sink" where
  "journaled tm S = \<lparr>
     sink_write = (\<lambda>b kw (w, j). let (out, w') = sink_write S b kw w in (out, (w', j @ [tm w]))),
     write_retry_budget = write_retry_budget S,
     retry_after_hint = map_option (\<lambda>hint (w, j). let (h, w') = hint w in (h, (w', j))) (retry_after_hint S),
     is_retryable = is_retryable S,
     write_flush_deadline = write_flush_deadline S,
     reset_caches = (\<lambda>(w, j). (reset_caches S w, j))\<rparr>"

definition beside :: "'w clock \<Rightarrow> ('w \<times> real list) clock" where
  "beside K = \<lparr>
     monotonic = (\<lambda>(w, j). let (t, w') = monotonic K w in (t, (w', j))),
     sleep = (\<lambda>d (w, j). (sleep K d w, j)),
     random01 = (\<lambda>(w, j). let (u, w') = random01 K w in (u, (w', j)))\<rparr>"

text \<open>When the attempts of a flush started, in order.\<close>

definition attempt_starts ::
  "('w \<Rightarrow> real) \<Rightarrow> 'w sink \<Rightarrow> 'w clock \<Rightarrow> string \<Rightarrow> table \<Rightarrow> write_kwargs \<Rightarrow> 'w \<Rightarrow> real list" where
  "attempt_starts tm S K dest b kw w =
     snd (fst (snd (write_with_retry (journaled tm S) (beside K) dest b kw (w, []))))"

definition attempts :: "write_event list \<Rightarrow> nat" where
  "attempts evs = length (filter (\<lambda>ev. case ev of Attempt out \<Rightarrow> True | _ \<Rightarrow> False) evs)"

lemma attempts_simps [simp]:
  "attempts [] = 0" "attempts (Attempt out # evs) = Suc (attempts evs)"
  "attempts (Metric m # evs) = attempts evs" "attempts (Reset # evs) = attempts evs"
  "attempts (Sleep d # evs) = attempts evs" "attempts (evs @ evs') = attempts evs + attempts evs'"
  "attempts (failed_attempt dest e) = 1"
  by (simp_all add: attempts_def failed_attempt_def)

lemma journaled_simps [simp]:
  "sink_write (journaled tm S) b kw (w, j) =
     (fst (sink_write S b kw w), (snd (sink_write S b kw w), j @ [tm w]))"
  "permanent_failure (journaled tm S) = permanent_failure S"
  "retry_budget (journaled tm S) = retry_budget S"
  "flush_deadline (journaled tm S) = flush_deadline S"
  "reset_caches (journaled tm S) (w, j) = (reset_caches S w, j)"
  "sleep (beside K) d (w, j) = (sleep K d w, j)"
  "monotonic (beside K) (w, j) = (fst (monotonic K w), (snd (monotonic K w), j))"
  "take_hint (journaled tm S) (w, j) = (fst (take_hint S w), (snd (take_hint S w), j))"
  by (auto simp: journaled_def beside_def permanent_failure_def retry_budget_def flush_deadline_def
      take_hint_def fun_eq_iff split_beta split: option.split)

lemma journaled_delay [simp]:
  "retry_delay (journaled tm S) (beside K) attempt base (w, j) =
     (fst (retry_delay S K attempt base w), (snd (retry_delay S K attempt base w), j))"
  by (simp add: retry_delay_def delay_floor_def Let_def split_beta) (simp add: beside_def split_beta)

text \<open>
  The observer changes nothing, and sees no attempt later than the deadline's reserve before the
  deadline allows, save the first, which the loop makes unasked.
\<close>

lemma write_loop_journal:
  assumes law: "random_law K" "0 \<le> base" "clocked tm slack S K"
    and dl: "flush_deadline S = Some (budget, cost)"
  shows "write_loop S K dest b kw base started attempt left w = (res, w', evs) \<Longrightarrow>
    \<exists>js. write_loop (journaled tm S) (beside K) dest b kw base started attempt left (w, j) = (res, (w', j @ js), evs)
      \<and> length js = attempts evs \<and> (left \<noteq> 0 \<longrightarrow> js \<noteq> [] \<and> hd js = tm w)
      \<and> (\<forall>t \<in> set (tl js). t + cost \<le> started + budget + slack)
      \<and> (\<forall>longest. writes_within tm longest S \<longrightarrow> left \<noteq> 0 \<longrightarrow> tm w' \<le> last js + longest)"
proof (induction left arbitrary: attempt w res w' evs j)
  case (Suc left)
  obtain out w1 where wr: "sink_write S b kw w = (out, w1)" by fastforce
  note w1 = write_takes[OF _ wr]
  show ?case
  proof (cases out)
    case (Inr n)
    then show ?thesis
      using Suc.prems(1) wr w1 by (auto intro!: exI[of _ "[tm w]"])
  next
    case (Inl e)
    obtain d w2 t w3 where d: "retry_delay S K attempt base w1 = (d, w2)" "monotonic K w2 = (t, w3)"
      by fastforce
    have t: "t = tm w3" "tm w3 = tm w1"
      using clocked_simps(1)[OF law(3) d(2)] clocked_simps(2)[OF law(3) d(1)] by auto
    have d0: "0 \<le> d"
      using retry_delay_between(4)[OF law(1,2) d(1)] .
    show ?thesis
    proof (cases "permanent_failure S e \<or> left = 0 \<or> budget < t - started + d + cost")
      case True
      then have "w' = w1 \<or> w' = w3"
        using Suc.prems(1) wr Inl d dl by (auto simp: Let_def split: if_splits)
      then have "tm w' = tm w1"
        using t by auto
      then show ?thesis
        using True Suc.prems(1) wr Inl d dl w1
        by (auto simp: Let_def failed_attempt_def intro!: exI[of _ "[tm w]"] split: if_splits)
    next
      case False
      define w4 where "w4 = sleep K d (reset_caches S w3)"
      have w4: "tm w4 + cost \<le> started + budget + slack"
        using clocked_simps(3)[OF law(3) d0, of w3] False t by (simp add: w4_def)
      obtain evs2 where evs2: "write_loop S K dest b kw base started (Suc attempt) left w4 = (res, w', evs2)"
          "evs = failed_attempt dest e @ [Reset, Sleep d] @ evs2"
        using Suc.prems(1) wr Inl d dl False by (auto simp: w4_def Let_def split: prod.splits)
      obtain js where js: "write_loop (journaled tm S) (beside K) dest b kw base started (Suc attempt) left (w4, j @ [tm w])
            = (res, (w', (j @ [tm w]) @ js), evs2)"
          "length js = attempts evs2" "js \<noteq> []" "hd js = tm w4"
          "\<forall>t \<in> set (tl js). t + cost \<le> started + budget + slack"
          "\<forall>longest. writes_within tm longest S \<longrightarrow> tm w' \<le> last js + longest"
        using Suc.IH[OF evs2(1), of "j @ [tm w]"] False by auto
      have "\<forall>t \<in> set js. t + cost \<le> started + budget + slack"
        using js(3-5) w4 by (cases js) auto
      then show ?thesis
        using js evs2(2) wr Inl d dl False
        by (intro exI[of _ "tm w # js"]) (simp add: w4_def Let_def)
    qed
  qed
qed (simp add: exI[of _ "[]"])

text \<open>
  C39: a sink that publishes a flush deadline is given no attempt after it. However long writes take
  and whatever the server hints, every attempt but the first starts at least the reserve
  \<open>cost\<close> before the deadline on the real clock (give or take the oversleep of one backoff). So the
  whole flush overruns by at most its last write: with \<open>longest\<close> bounding every write, it ends
  within \<open>longest\<close> of its start or of that last admissible moment.
\<close>

theorem flush_deadline_respected:
  assumes "write_flush_deadline S = Some (budget, cost)" "clocked tm slack S K"
    and "random_law K" "0 \<le> snd (retry_budget S)" "fst (retry_budget S) \<noteq> 0"
    and "write_with_retry S K dest b kw w = (res, w', evs)"
  shows "length (attempt_starts tm S K dest b kw w) = attempts evs
    \<and> hd (attempt_starts tm S K dest b kw w) = tm w
    \<and> (\<forall>t \<in> set (tl (attempt_starts tm S K dest b kw w)). t + cost \<le> tm w + budget + slack)
    \<and> (\<forall>longest. writes_within tm longest S \<longrightarrow>
         tm w' \<le> max (tm w) (tm w + budget + slack - cost) + longest)"
proof -
  obtain n base where rb: "retry_budget S = (n, base)" by fastforce
  obtain started w1 where m: "monotonic K w = (started, w1)" by fastforce
  have st: "started = tm w" "tm w1 = tm w"
    using clocked_simps(1)[OF assms(2) m] by auto
  have loop: "write_loop S K dest b kw base started 0 n w1 = (res, w', evs)"
    using assms(6) by (simp add: write_with_retry_def rb m)
  obtain js where js: "write_loop (journaled tm S) (beside K) dest b kw base started 0 n (w1, []) = (res, (w', js), evs)"
      "length js = attempts evs" "js \<noteq> []" "hd js = tm w1"
      "\<forall>t \<in> set (tl js). t + cost \<le> started + budget + slack"
      "\<forall>longest. writes_within tm longest S \<longrightarrow> tm w' \<le> last js + longest"
    using write_loop_journal[OF assms(3) _ assms(2) _ loop, of budget cost "[]"] assms(1,4,5) rb
    by (auto simp: flush_deadline_def)
  have starts: "attempt_starts tm S K dest b kw w = js"
    using js(1) by (simp add: attempt_starts_def write_with_retry_def rb m)
  have "last js = hd js \<or> last js \<in> set (tl js)"
    using js(3) by (cases js) auto
  then have "last js \<le> max (tm w) (tm w + budget + slack - cost)"
    using js(4,5) st by fastforce
  then have "tm w' \<le> max (tm w) (tm w + budget + slack - cost) + longest" if "writes_within tm longest S" for longest
    using js(6) that by force
  then show ?thesis
    unfolding starts using js(2,4,5) st by simp
qed

text \<open>The backoff ladder of the remaining attempts, before jitter.\<close>

fun rungs :: "real \<Rightarrow> nat \<Rightarrow> nat \<Rightarrow> real" where
  "rungs base a (Suc (Suc n)) = min (base * 2 ^ a) RETRY_AFTER_MAX_S + rungs base (Suc a) (Suc n)"
| "rungs base a n = 0"

lemma rungs_sum: "rungs base a n = sum_list (map (\<lambda>i. min (base * 2 ^ i) RETRY_AFTER_MAX_S) [a..<a + n - 1])"
proof (induction base a n rule: rungs.induct)
  case (1 base a n)
  have "[a..<a + Suc (Suc n) - 1] = a # [Suc a..<Suc a + Suc n - 1]"
    by (simp add: upt_conv_Cons)
  then show ?case using 1 by simp
qed auto

lemma rungs_backoff_ladder: "rungs BACKOFF_BASE_S 0 n = backoff_ladder n"
  by (simp add: rungs_sum backoff_ladder_def budget_defs RETRY_AFTER_MAX_S_def)

lemma rungs_nonneg: "0 \<le> base \<Longrightarrow> 0 \<le> rungs base a n"
  by (induction base a n rule: rungs.induct) (auto simp: RETRY_AFTER_MAX_S_def)

text \<open>A hint lengthens a rung of the ladder by at most what it exceeds the first rung.\<close>

lemma delay_floor_hint:
  assumes "hints_within wait S" "0 \<le> base"
  shows "delay_floor S a base w \<le> min (base * 2 ^ a) RETRY_AFTER_MAX_S + max 0 (wait - base)"
proof -
  have "base * 1 \<le> base * 2 ^ a"
    using assms(2) by (intro mult_left_mono) simp_all
  then have "min s RETRY_AFTER_MAX_S \<le> min (base * 2 ^ a) RETRY_AFTER_MAX_S + max 0 (wait - base)"
    if "fst (take_hint S w) = Some s" for s
    using assms(1) that unfolding hints_within_def by (fastforce simp: min_def max_def)
  then show ?thesis
    by (auto simp: delay_floor_def Let_def split: option.split)
qed

lemma write_loop_total_time:
  assumes law: "random_law K" "clocked tm slack S K" "writes_within tm longest S" "0 \<le> slack" "0 \<le> longest"
    and hint: "hints_within wait S" "0 \<le> base"
  shows "write_loop S K dest b kw base started attempt left w = (res, w', evs) \<Longrightarrow>
    tm w' \<le> tm w + of_nat left * (longest + slack + max 0 (wait - base) * (1 + RETRY_JITTER))
      + rungs base attempt left * (1 + RETRY_JITTER)"
proof (induction left arbitrary: attempt w res w' evs)
  case (Suc left)
  define x where "x = max 0 (wait - base) * (1 + RETRY_JITTER)"
  have j: "0 \<le> 1 + RETRY_JITTER" by (simp add: RETRY_JITTER_def)
  then have x: "0 \<le> x" by (simp add: x_def)
  have nn: "0 \<le> rungs base attempt (Suc left) * (1 + RETRY_JITTER)"
    by (intro mult_nonneg_nonneg rungs_nonneg hint j)
  have ls: "0 \<le> of_nat left * (longest + slack + x)"
    using law(4,5) x by simp
  obtain out w1 where wr: "sink_write S b kw w = (out, w1)" by fastforce
  note w1 = write_takes[OF law(3) wr]
  show ?case unfolding x_def[symmetric]
  proof (cases out)
    case (Inr n)
    then show "tm w' \<le> tm w + of_nat (Suc left) * (longest + slack + x) + rungs base attempt (Suc left) * (1 + RETRY_JITTER)"
      using Suc.prems wr w1 nn ls law(4) x by (simp add: algebra_simps)
  next
    case (Inl e)
    obtain d w2 t w3 where d: "retry_delay S K attempt base w1 = (d, w2)" "monotonic K w2 = (t, w3)"
      by fastforce
    have t: "tm w3 = tm w1" "tm w2 = tm w1"
      using clocked_simps(1)[OF law(2) d(2)] clocked_simps(2)[OF law(2) d(1)] by auto
    have d0: "0 \<le> d" "d \<le> delay_floor S attempt base w1 * (1 + RETRY_JITTER)"
      using retry_delay_between[OF law(1) hint(2) d(1)] by simp_all
    have d1: "d \<le> min (base * 2 ^ attempt) RETRY_AFTER_MAX_S * (1 + RETRY_JITTER) + x"
      using d0(2) mult_right_mono[OF delay_floor_hint[OF hint, of attempt w1] j]
      by (simp add: x_def distrib_right)
    have again: "tm w' \<le> tm w + of_nat (Suc left) * (longest + slack + x) + rungs base attempt (Suc left) * (1 + RETRY_JITTER)"
      if loop: "write_loop S K dest b kw base started (Suc attempt) left
          (sleep K d (reset_caches S w4)) = (res, w', evs2)" "tm w4 = tm w1" "left \<noteq> 0" for w4 evs2
    proof -
      have "tm (sleep K d (reset_caches S w4)) \<le> tm w + longest + d + slack"
        using clocked_simps(3)[OF law(2) d0(1), of w4] loop(2) w1 by simp
      then have "tm w' \<le> tm w + longest + d + slack + of_nat left * (longest + slack + x)
          + rungs base (Suc attempt) left * (1 + RETRY_JITTER)"
        using Suc.IH[OF loop(1)] by (simp add: x_def)
      moreover obtain l where "left = Suc l"
        using loop(3) not0_implies_Suc by blast
      ultimately show ?thesis
        using d1 by (simp add: algebra_simps)
    qed
    show "tm w' \<le> tm w + of_nat (Suc left) * (longest + slack + x) + rungs base attempt (Suc left) * (1 + RETRY_JITTER)"
    proof (cases "permanent_failure S e \<or> left = 0 \<or>
        (\<exists>budget cost. flush_deadline S = Some (budget, cost) \<and> budget < t - started + d + cost)")
      case True
      then have "tm w' = tm w1"
        using Suc.prems wr Inl d t by (auto simp: Let_def split: if_splits option.splits prod.splits)
      then show ?thesis
        using w1 nn ls law(4) x by (simp add: algebra_simps)
    next
      case False
      show ?thesis
      proof (cases "flush_deadline S")
        case None
        then show ?thesis
          using Suc.prems wr Inl d False again[of w2] t by (auto simp: Let_def split: prod.splits)
      next
        case (Some bc)
        then show ?thesis
          using Suc.prems wr Inl d False again[of w3] t by (cases bc) (auto simp: Let_def split: prod.splits)
      qed
    qed
  qed
qed simp

lemma write_total_time:
  assumes "random_law K" "clocked tm slack S K" "writes_within tm longest S" "0 \<le> slack" "0 \<le> longest"
    and "hints_within wait S" "0 \<le> base" "retry_budget S = (n, base)"
    and "write_with_retry S K dest b kw w = (res, w', evs)"
  shows "tm w' \<le> tm w + of_nat n * (longest + slack + max 0 (wait - base) * (1 + RETRY_JITTER))
      + rungs base 0 n * (1 + RETRY_JITTER)"
proof -
  obtain started w1 where m: "monotonic K w = (started, w1)" by fastforce
  have "write_loop S K dest b kw base started 0 n w1 = (res, w', evs)"
    using assms(8,9) by (simp add: write_with_retry_def m)
  from write_loop_total_time[OF assms(1-7) this] show ?thesis
    using clocked_simps(1)[OF assms(2) m] by simp
qed

text \<open>
  C40: what the startup check is worth. It is a model of the worst flush, not an enforced bound: it
  takes every attempt at the request timeout plus the prepare allowance and every backoff at its rung.
  For a retry count and a timeout it accepts, a flush that fails every attempt exceeds the liveness
  budget by no more than what its calls exceed the model: per attempt, what the longest write
  exceeds the timeout and the allowance, what the longest hint exceeds the first rung (with its
  jitter), and one oversleep.
\<close>

theorem accepted_budget_covers_flush:
  assumes "check_hoglake_liveness_budget (int n) timeout_s = Inr ()" "0 \<le> timeout_s"
    and "write_retry_budget S = Some (n, BACKOFF_BASE_S)" "random_law K" "clocked tm slack S K" "0 \<le> slack"
    and "writes_within tm longest S" "hints_within wait S"
    and "write_with_retry S K ''hoglake'' b kw w = (res, w', evs)"
  shows "tm w' \<le> tm w + LIVENESS_BUDGET_S
    + of_nat n * (max 0 (longest - (timeout_s + PREPARE_ALLOWANCE_S))
        + max 0 (wait - BACKOFF_BASE_S) * (1 + BACKOFF_JITTER) + slack)"
proof -
  let ?c = "timeout_s + PREPARE_ALLOWANCE_S" and ?o = "max 0 (longest - (timeout_s + PREPARE_ALLOWANCE_S))"
  have c: "0 \<le> ?c" "0 \<le> BACKOFF_BASE_S"
    using assms(2) by (simp_all add: budget_defs)
  have "writes_within tm (?c + ?o) S"
    using assms(7) unfolding writes_within_def by (fastforce intro: order_trans)
  then have "tm w' \<le> tm w + of_nat n * (?c + ?o + slack + max 0 (wait - BACKOFF_BASE_S) * (1 + RETRY_JITTER))
      + rungs BACKOFF_BASE_S 0 n * (1 + RETRY_JITTER)"
    using write_total_time[OF assms(4,5) _ assms(6) _ assms(8) c(2) _ assms(9)] assms(3) c
    by (simp add: retry_budget_def)
  moreover have "of_nat n * ?c + backoff_ladder n * (1 + BACKOFF_JITTER) \<le> LIVENESS_BUDGET_S"
    using assms(1) by (simp add: hoglake_check_ok hoglake_worst_case_flush_s_def)
  ultimately show ?thesis
    by (simp add: rungs_backoff_ladder RETRY_JITTER_def BACKOFF_JITTER_def algebra_simps)
qed

subsection \<open>An example sink\<close>

text \<open>The world is the time and the number of writes that will still fail.\<close>

definition demo_exc :: exc where
  "demo_exc = \<lparr>exc_text = ''503'', errors_total_type = None, retryable = True,
     exc_module = ''pyhoglake.errors'', slotted = False, write_permanent = False\<rparr>"

definition demo_sink :: "(real \<times> nat) sink" where
  "demo_sink = \<lparr>sink_write = (\<lambda>b kw (t, n).
       (if n = 0 then Inr (int (num_rows b)) else Inl demo_exc, (t + 5, n - 1))),
     write_retry_budget = Some (4, BACKOFF_BASE_S), retry_after_hint = Some (\<lambda>w. (Some 1, w)),
     is_retryable = Some (\<lambda>e. True), write_flush_deadline = Some (450, 30), reset_caches = (\<lambda>w. w)\<rparr>"

definition demo_clock :: "(real \<times> nat) clock" where
  "demo_clock = \<lparr>monotonic = (\<lambda>w. (fst w, w)), sleep = (\<lambda>d (t, n). (t + d, n)),
     random01 = (\<lambda>w. (1 / 2, w))\<rparr>"

lemma demo_random: "random_law demo_clock"
  by (simp add: random_law_def demo_clock_def)

lemma demo_clocked: "clocked fst 0 demo_sink demo_clock"
  by (simp add: clocked_def take_hint_def demo_clock_def demo_sink_def split_beta)

lemma demo_writes: "writes_within fst 5 demo_sink"
  by (simp add: writes_within_def demo_sink_def split_beta)

lemma demo_hints: "hints_within 1 demo_sink"
  by (simp add: hints_within_def take_hint_def demo_sink_def)

lemma demo_budget: "retry_budget demo_sink = (4, BACKOFF_BASE_S)"
  by (simp add: retry_budget_def demo_sink_def)

theorem retry_delay_bounds_witness:
  "fst (retry_delay demo_sink demo_clock 3 1 (0, 2)) \<le> 30
     \<and> 8 \<le> fst (retry_delay demo_sink demo_clock 3 1 (0, 2))"
  using retry_delay_bounds[OF demo_random, of 1 demo_sink 3 "(0, 2)"
      "fst (retry_delay demo_sink demo_clock 3 1 (0, 2))" "snd (retry_delay demo_sink demo_clock 3 1 (0, 2))"]
  by (simp add: RETRY_AFTER_MAX_S_def)

theorem write_retry_trace_witness:
  "\<exists>res w' evs rounds tl.
     write_with_retry demo_sink demo_clock ''hoglake'' \<lparr>tschema = [], trows = []\<rparr> None (0, 2) = (res, w', evs)
     \<and> evs = concat (map (round ''hoglake'') rounds) @ tl \<and> length rounds < 4
     \<and> loop_ends demo_sink ''hoglake'' 4 (length rounds) res tl"
proof -
  obtain res w' evs where w:
    "write_with_retry demo_sink demo_clock ''hoglake'' \<lparr>tschema = [], trows = []\<rparr> None (0, 2) = (res, w', evs)"
    by (metis prod_cases3)
  show ?thesis
    using write_retry_trace[OF demo_random demo_budget _ _ w] w by (auto simp: budget_defs)
qed

theorem flush_deadline_respected_witness:
  "\<exists>res w' evs. write_with_retry demo_sink demo_clock ''hoglake'' \<lparr>tschema = [], trows = []\<rparr> None (0, 9) = (res, w', evs)
     \<and> fst w' \<le> 425"
proof -
  obtain res w' evs where w:
    "write_with_retry demo_sink demo_clock ''hoglake'' \<lparr>tschema = [], trows = []\<rparr> None (0, 9) = (res, w', evs)"
    by (metis prod_cases3)
  have "write_flush_deadline demo_sink = Some (450, 30)"
    by (simp add: demo_sink_def)
  from flush_deadline_respected[OF this demo_clocked demo_random _ _ w] w demo_writes show ?thesis
    by (fastforce simp: demo_budget budget_defs)
qed

theorem accepted_budget_covers_flush_witness:
  "\<exists>res w' evs. write_with_retry demo_sink demo_clock ''hoglake'' \<lparr>tschema = [], trows = []\<rparr> None (0, 9) = (res, w', evs)
     \<and> fst w' \<le> 480"
proof -
  obtain res w' evs where w:
    "write_with_retry demo_sink demo_clock ''hoglake'' \<lparr>tschema = [], trows = []\<rparr> None (0, 9) = (res, w', evs)"
    by (metis prod_cases3)
  have "backoff_ladder 4 = 7"
    by (simp add: backoff_ladder_def budget_defs upt_rec)
  then have "check_hoglake_liveness_budget (int 4) 10 = Inr ()"
    by (simp add: hoglake_check_ok hoglake_worst_case_flush_s_def budget_defs)
  from accepted_budget_covers_flush[OF this _ _ demo_random demo_clocked _ demo_writes demo_hints w] w show ?thesis
    by (simp add: demo_sink_def budget_defs)
qed

end
