(* ===== verification/MainLoop.thy ===== *)
theory MainLoop
  imports Filters Converter Retry Consumer Health IncludeValues Backpressure
    "HOL-Library.Product_Lexorder"
begin

text \<open>
  The consume loop of \<open>millpond/main.py\<close>: taking a batch of messages into the buffer, the flush
  (sort, write with retries, offset commit), one iteration of \<open>main\<close>, the shutdown path and the exit
  code. The Kafka client is a record of calls over the world, like the sink and the clock; an exception
  is an \<open>exc\<close>. What happens is returned as a list of events in order, which is what the delivery
  theorems speak about. Log lines and the closing of the clients are not modelled.
\<close>

subsection \<open>Messages and the client\<close>

record msg =
  m_topic :: string
  m_partition :: int
  m_offset :: int
  m_value :: "byte list option"
  m_error :: bool

record 'w kafka =
  consume :: "int \<Rightarrow> real \<Rightarrow> 'w \<Rightarrow> (exc + msg list) \<times> 'w"
  commit :: "tp list \<Rightarrow> 'w \<Rightarrow> exc option \<times> 'w"
  assignment :: "'w \<Rightarrow> tp list option"
  position :: "'w \<Rightarrow> tp list \<Rightarrow> tp list option"
  committed :: "'w \<Rightarrow> tp list \<Rightarrow> tp list option"
  lag_admin :: "'w \<Rightarrow> rpc"

text \<open>Everything the loop is handed at startup.\<close>

record 'w deps =
  d_sink :: "'w sink"
  d_clock :: "'w clock"
  d_kafka :: "'w kafka"
  d_arrow :: arrow
  d_codec :: codec
  d_include :: "'w \<Rightarrow> pyval list option"
  d_shutdown :: "'w \<Rightarrow> bool"

text \<open>An exception that is not a sink's: it carries none of the marks the retry layer reads.\<close>

definition plain_exc :: exc where
  "plain_exc = \<lparr>exc_text = [], errors_total_type = None, retryable = False, exc_module = ''builtins'',
     slotted = False, write_permanent = False\<rparr>"

text \<open>
  \<open>EBatch msgs rows\<close>: the messages were processed and \<open>rows\<close> went into the buffer.
  \<open>EBatchFailed msgs\<close>: their processing raised.
\<close>

datatype event =
    EBatch "msg list" "row list"
  | EBatchFailed "msg list"
  | EWrite table write_event
  | ECommit "tp list" bool
  | EMetric metric
  | EFlushed

type_synonym offset_map = "(string \<times> int, int \<times> int) dict"

record loop_state =
  pending :: "table list"
  pending_bytes :: int
  pending_records :: int
  offsets :: offset_map
  flushed_at :: real
  lag_sampled_at :: real
  heartbeat_at :: real
  filters :: filter_state
  sorts :: sort_state
  probe :: health_state

definition LAG_SAMPLE_INTERVAL_S :: real where "LAG_SAMPLE_INTERVAL_S = 60"
definition HEARTBEAT_INTERVAL_S :: real where "HEARTBEAT_INTERVAL_S = 60"

subsection \<open>Taking a batch\<close>

definition note_offset :: "msg \<Rightarrow> offset_map \<Rightarrow> offset_map" where
  "note_offset m offs =
     (let key = (m_topic m, m_partition m); off = m_offset m;
          (first, final) = (case map_of offs key of None \<Rightarrow> (off, off) | Some p \<Rightarrow> p)
      in AList.update key (min first off, max final off) offs)"

fun note_messages :: "msg list \<Rightarrow> offset_map \<Rightarrow> byte list list \<times> offset_map \<times> metric list" where
  "note_messages [] offs = ([], offs, [])"
| "note_messages (m # msgs) offs =
     (if m_error m then
        (let (vals, offs', ms) = note_messages msgs offs
         in (vals, offs', Inc ''errors_total'' ''kafka'' 1 # ms))
      else
        (let consumed = Inc ''records_consumed_total'' (str_int (m_partition m)) 1 in
         case m_value m of
           None \<Rightarrow>
             (let (vals, offs', ms) = note_messages msgs offs in (vals, offs', consumed # ms))
         | Some v \<Rightarrow>
             (let (vals, offs', ms) = note_messages msgs (note_offset m offs)
              in (v # vals, offs', consumed # ms))))"

definition json_skips :: "int \<Rightarrow> event list" where
  "json_skips skipped = (if 0 < skipped then [EMetric (Inc SKIPPED ''json_parse'' skipped)] else [])"

text \<open>\<open>_convert_batch\<close>: the conversion, timed when it gives a table.\<close>

definition convert_batch ::
  "'w deps \<Rightarrow> byte list list \<Rightarrow> 'w \<Rightarrow> (arrow_error + table option) \<times> 'w \<times> metric list" where
  "convert_batch D vals w =
     (let (t0, w1) = monotonic (d_clock D) w in
      case convert (d_codec D) (d_arrow D) vals of
        Inr (Some t) \<Rightarrow>
          (let (t1, w2) = monotonic (d_clock D) w1
           in (Inr (Some t), w2, [Obs ''arrow_conversion_seconds'' (t1 - t0)]))
      | res \<Rightarrow> (res, w1, []))"

text \<open>Pinning and the two filters, in the order of the loop.\<close>

definition shape_batch ::
  "'w deps \<Rightarrow> config \<Rightarrow> pyval list option \<Rightarrow> filter_state \<Rightarrow> table
     \<Rightarrow> (arrow_error + table \<times> metric list) \<times> filter_state" where
  "shape_batch D cfg current fs t =
     (let A = d_arrow D; rf = float_repr (d_codec D) in
      case coerce_columns A t cfg of
        Inl e \<Rightarrow> (Inl e, fs)
      | Inr (t1, ms1) \<Rightarrow>
          (case apply_filter A rf cfg current fs t1 of
             (Inl e, fs1) \<Rightarrow> (Inl e, fs1)
           | (Inr (t2, ms2), fs1) \<Rightarrow>
               (case apply_drop_filter A rf cfg fs1 t2 of
                  (Inl e, fs2) \<Rightarrow> (Inl e, fs2)
                | (Inr (t3, ms3), fs2) \<Rightarrow> (Inr (t3, ms1 @ ms2 @ ms3), fs2))))"

definition buffer_table :: "arrow \<Rightarrow> table \<Rightarrow> loop_state \<Rightarrow> loop_state \<times> event list" where
  "buffer_table A t st =
     (if 0 < num_rows t then
        (let st' = st\<lparr>pending := pending st @ [t], pending_bytes := pending_bytes st + nbytes A t,
                      pending_records := pending_records st + int (num_rows t)\<rparr>
         in (st', [EMetric (SetG ''pending_bytes'' [] (of_int (pending_bytes st')))]))
      else (st, []))"

text \<open>The body of \<open>if msgs:\<close>. On an exception the offsets of the batch have already been noted.\<close>

definition take_batch ::
  "'w deps \<Rightarrow> config \<Rightarrow> msg list \<Rightarrow> loop_state \<Rightarrow> 'w \<Rightarrow> exc option \<times> loop_state \<times> 'w \<times> event list" where
  "take_batch D cfg msgs st w =
     (let (vals, offs, ms) = note_messages msgs (offsets st);
          st1 = st\<lparr>offsets := offs\<rparr>; evs = map EMetric ms
      in if vals = [] then (None, st1, w, evs @ [EBatch msgs []])
         else
         let (res, w1, ms1) = convert_batch D vals w; evs1 = evs @ map EMetric ms1 in
         case res of
           Inl e \<Rightarrow> (Some plain_exc, st1, w1, evs1 @ [EBatchFailed msgs])
         | Inr None \<Rightarrow> (None, st1, w1, evs1 @ json_skips (int (length vals)) @ [EBatch msgs []])
         | Inr (Some t) \<Rightarrow>
             (case shape_batch D cfg (d_include D w1) (filters st1) t of
                (Inl e, fs) \<Rightarrow> (Some plain_exc, st1\<lparr>filters := fs\<rparr>, w1, evs1 @ [EBatchFailed msgs])
              | (Inr (t', ms2), fs) \<Rightarrow>
                  (let (st2, evs2) = buffer_table (d_arrow D) t' (st1\<lparr>filters := fs\<rparr>)
                   in (None, st2, w1, evs1 @ map EMetric ms2 @ evs2
                        @ json_skips (int (length vals) - int (num_rows t)) @ [EBatch msgs (trows t')]))))"

subsection \<open>The flush\<close>

definition sink_write_kwargs :: "config \<Rightarrow> offset_map \<Rightarrow> string \<Rightarrow> write_kwargs" where
  "sink_write_kwargs cfg offs trigger =
     (if destination cfg \<noteq> ''hoglake'' then None
      else Some (sort (map (\<lambda>((tpc, part), (first, final)). (tpc, part, first, final)) offs), trigger))"

definition tp_offsets :: "offset_map \<Rightarrow> tp list" where
  "tp_offsets offs = map (\<lambda>((tpc, part), (first, final)). TopicPartition tpc part (final + 1)) offs"

fun commit_loop :: "'w deps \<Rightarrow> tp list \<Rightarrow> nat \<Rightarrow> nat \<Rightarrow> 'w \<Rightarrow> exc option \<times> 'w \<times> event list" where
  "commit_loop D tps attempt 0 w = (None, w, [])"
| "commit_loop D tps attempt (Suc left) w =
     (case commit (d_kafka D) tps w of
        (None, w1) \<Rightarrow> (None, w1, [ECommit tps True])
      | (Some e, w1) \<Rightarrow>
          (let evs = [ECommit tps False, EMetric (Inc ''errors_total'' ''offset_commit'' 1)] in
           if left = 0 then (Some e, w1, evs)
           else
             (let w2 = sleep (d_clock D) (COMMIT_BASE_DELAY_S * 2 ^ attempt) w1;
                  (res, w3, evs') = commit_loop D tps (Suc attempt) left w2
              in (res, w3, evs @ evs'))))"

definition flush_metrics ::
  "real \<Rightarrow> loop_state \<Rightarrow> int \<Rightarrow> string \<Rightarrow> tp list \<Rightarrow> event list" where
  "flush_metrics write_duration st records_written trigger tps =
     map EMetric
       ([Obs ''flush_duration_seconds'' write_duration,
         Obs ''flush_size_bytes'' (of_int (pending_bytes st)),
         Obs ''flush_size_records'' (of_int (pending_records st)),
         Inc ''records_written_total'' [] records_written,
         Inc ''batches_flushed_total'' trigger 1]
        @ map (\<lambda>t. SetG ''last_committed_offset'' (str_int (tp_partition t)) (of_int (tp_offset t))) tps)
     @ [EFlushed]"

text \<open>\<open>_flush\<close>, given the consolidated table.\<close>

definition flush ::
  "'w deps \<Rightarrow> config \<Rightarrow> table \<Rightarrow> string \<Rightarrow> loop_state \<Rightarrow> 'w
     \<Rightarrow> exc option \<times> loop_state \<times> 'w \<times> event list" where
  "flush D cfg consolidated trigger st w =
     (case apply_sort (d_arrow D) cfg (sorts st) consolidated of
        (Inl e, ss) \<Rightarrow> (Some plain_exc, st\<lparr>sorts := ss\<rparr>, w, [])
      | (Inr (batch, ms), ss) \<Rightarrow>
          let st1 = st\<lparr>sorts := ss\<rparr>; K = d_clock D;
              (t0, w1) = monotonic K w;
              (res, w2, wevs) = write_with_retry (d_sink D) K (destination cfg) batch
                (sink_write_kwargs cfg (offsets st) trigger) w1;
              evs = map EMetric ms @ map (EWrite batch) wevs
          in case res of
               Raised e \<Rightarrow> (Some e, st1, w2, evs)
             | _ \<Rightarrow>
                 (let (t1, w3) = monotonic K w2;
                      tps = tp_offsets (offsets st);
                      (cres, w4, cevs) = commit_loop D tps 0 COMMIT_MAX_RETRIES w3
                  in case cres of
                       Some e \<Rightarrow> (Some e, st1, w4, evs @ cevs)
                     | None \<Rightarrow>
                         (case res of
                            Wrote n \<Rightarrow>
                              (let (t2, w5) = monotonic K w4
                               in (None, st1\<lparr>probe := record_flush t2 (probe st1)\<rparr>, w5,
                                   evs @ cevs @ flush_metrics (t1 - t0) st n trigger tps))
                          | _ \<Rightarrow> (Some plain_exc, st1, w4, evs @ cevs))))"

definition flush_pending ::
  "'w deps \<Rightarrow> config \<Rightarrow> string \<Rightarrow> loop_state \<Rightarrow> 'w \<Rightarrow> exc option \<times> loop_state \<times> 'w \<times> event list" where
  "flush_pending D cfg trigger st w =
     (case concat_tables (d_arrow D) (pending st) of
        Inl e \<Rightarrow> (Some plain_exc, st, w, [])
      | Inr consolidated \<Rightarrow> flush D cfg consolidated trigger st w)"

subsection \<open>One iteration of \<open>main\<close>\<close>

text \<open>The lag sample and the clearing of the buffer after a successful flush.\<close>

definition after_flush ::
  "'w deps \<Rightarrow> config \<Rightarrow> loop_state \<Rightarrow> 'w \<Rightarrow> loop_state \<times> 'w \<times> event list" where
  "after_flush D cfg st w =
     (let K = d_clock D; Q = d_kafka D;
          (now, w1) = monotonic K w;
          due = LAG_SAMPLE_INTERVAL_S \<le> now - lag_sampled_at st;
          ms = (if due then update_lag_metrics (assignment Q w1) (position Q w1) (committed Q w1)
                      (lag_admin Q w1) (tp_offsets (offsets st)) (auto_offset_reset cfg)
                else []);
          st1 = (if due then st\<lparr>lag_sampled_at := now\<rparr> else st);
          (t, w2) = monotonic K w1
      in (st1\<lparr>pending := [], pending_bytes := 0, pending_records := 0, offsets := [], flushed_at := t\<rparr>,
          w2, map EMetric ms @ [EMetric (SetG ''pending_bytes'' [] 0)]))"

definition flush_if_due ::
  "'w deps \<Rightarrow> config \<Rightarrow> loop_state \<Rightarrow> 'w \<Rightarrow> exc option \<times> loop_state \<times> 'w \<times> event list" where
  "flush_if_due D cfg st w =
     (let (t, w1) = monotonic (d_clock D) w;
          elapsed = t - flushed_at st;
          size_triggered = flush_size cfg \<le> pending_bytes st;
          time_triggered = flush_interval_s cfg \<le> elapsed
      in if 0 < pending_records st \<and> (size_triggered \<or> time_triggered) then
           (case flush_pending D cfg (if size_triggered then ''size'' else ''time'') st w1 of
              (Some e, st1, w2, evs) \<Rightarrow> (Some e, st1, w2, evs)
            | (None, st1, w2, evs) \<Rightarrow>
                (let (st2, w3, evs2) = after_flush D cfg st1 w2 in (None, st2, w3, evs @ evs2)))
         else (None, st, w1, []))"

definition poll_client ::
  "'w deps \<Rightarrow> config \<Rightarrow> int \<Rightarrow> loop_state \<Rightarrow> 'w
     \<Rightarrow> (exc + msg list) \<times> loop_state \<times> 'w \<times> event list" where
  "poll_client D cfg max_batch_size st w =
     (let K = d_clock D;
          (t0, w1) = monotonic K w;
          timeout = consume_timeout (flush_interval_s cfg - (t0 - flushed_at st));
          (batch_size, bms) = compute_batch_size max_batch_size (pending_bytes st) (flush_size cfg)
      in case consume (d_kafka D) batch_size timeout w1 of
           (Inl e, w2) \<Rightarrow> (Inl e, st, w2, map EMetric bms)
         | (Inr msgs, w2) \<Rightarrow>
             (let (t1, w3) = monotonic K w2;
                  (now, w4) = monotonic K w3;
                  st1 = st\<lparr>probe := record_poll t1 (probe st)\<rparr>;
                  st2 = (if HEARTBEAT_INTERVAL_S \<le> now - heartbeat_at st1
                         then st1\<lparr>heartbeat_at := now\<rparr> else st1)
              in (Inr msgs, st2, w4, map EMetric bms)))"

definition iteration ::
  "'w deps \<Rightarrow> config \<Rightarrow> int \<Rightarrow> loop_state \<Rightarrow> 'w \<Rightarrow> exc option \<times> loop_state \<times> 'w \<times> event list" where
  "iteration D cfg max_batch_size st w =
     (case poll_client D cfg max_batch_size st w of
        (Inl e, st1, w1, evs1) \<Rightarrow> (Some e, st1, w1, evs1)
      | (Inr msgs, st1, w1, evs1) \<Rightarrow>
          (case (if msgs = [] then (None, st1, w1, []) else take_batch D cfg msgs st1 w1) of
             (Some e, st2, w2, evs2) \<Rightarrow> (Some e, st2, w2, evs1 @ evs2)
           | (None, st2, w2, evs2) \<Rightarrow>
               (let (res, st3, w3, evs3) = flush_if_due D cfg st2 w2
                in (res, st3, w3, evs1 @ evs2 @ evs3))))"

subsection \<open>The loop, the shutdown path and the exit code\<close>

text \<open>
  \<open>Running\<close> is a loop that is still going after the given number of iterations. A signal sets the
  flag that \<open>d_shutdown\<close> reads at the head of the loop.
\<close>

datatype loop_outcome = Stopped | Crashed exc | Running

fun main_loop ::
  "'w deps \<Rightarrow> config \<Rightarrow> int \<Rightarrow> nat \<Rightarrow> loop_state \<Rightarrow> 'w \<Rightarrow> loop_outcome \<times> loop_state \<times> 'w \<times> event list" where
  "main_loop D cfg M 0 st w = (Running, st, w, [])"
| "main_loop D cfg M (Suc n) st w =
     (if d_shutdown D w then (Stopped, st, w, [])
      else case iteration D cfg M st w of
          (Some e, st1, w1, evs) \<Rightarrow> (Crashed e, st1, w1, evs)
        | (None, st1, w1, evs) \<Rightarrow>
            (let (out, st2, w2, evs2) = main_loop D cfg M n st1 w1 in (out, st2, w2, evs @ evs2)))"

text \<open>The \<open>finally\<close> block, once the sink and the consumer exist: an exception of the final flush is
  logged and dropped.\<close>

definition shutdown_flush ::
  "'w deps \<Rightarrow> config \<Rightarrow> exc option \<Rightarrow> loop_state \<Rightarrow> 'w \<Rightarrow> 'w \<times> event list" where
  "shutdown_flush D cfg loop_error st w =
     (if final_flush_decision (pending_records st) loop_error True = ''flush'' then
        (let (res, st', w', evs) = flush_pending D cfg ''final'' st w in (w', evs))
      else (w, []))"

definition run_main ::
  "'w deps \<Rightarrow> config \<Rightarrow> int \<Rightarrow> nat \<Rightarrow> loop_state \<Rightarrow> 'w \<Rightarrow> loop_outcome \<times> 'w \<times> event list" where
  "run_main D cfg M n st w =
     (case main_loop D cfg M n st w of
        (Running, st1, w1, evs) \<Rightarrow> (Running, w1, evs)
      | (out, st1, w1, evs) \<Rightarrow>
          (let (w2, evs2) = shutdown_flush D cfg (case out of Crashed e \<Rightarrow> Some e | _ \<Rightarrow> None) st1 w1
           in (out, w2, evs @ evs2)))"

definition initial_state :: "real \<Rightarrow> health_state \<Rightarrow> loop_state" where
  "initial_state now h =
     \<lparr>pending = [], pending_bytes = 0, pending_records = 0, offsets = [], flushed_at = now,
      lag_sampled_at = 0, heartbeat_at = now, filters = \<lparr>uuid_memo = None, uuid_warned = {}\<rparr>,
      sorts = \<lparr>missing_warned = {}, unsortable_warned = {}\<rparr>, probe = h\<rparr>"

text \<open>How \<open>main()\<close> can end, and the code \<open>run\<close> passes to \<open>os._exit\<close>.\<close>

datatype system_exit_code = ExitNone | ExitInt int | ExitText string

datatype main_end = Returned "int option" | SystemExit system_exit_code | KeyboardInterrupt | OtherException

definition run_exit_code :: "main_end \<Rightarrow> int" where
  "run_exit_code e =
     (case e of
        Returned r \<Rightarrow> (case r of None \<Rightarrow> 0 | Some c \<Rightarrow> c)
      | SystemExit c \<Rightarrow> (case c of ExitNone \<Rightarrow> 0 | ExitInt i \<Rightarrow> i | ExitText s \<Rightarrow> 1)
      | KeyboardInterrupt \<Rightarrow> 130
      | OtherException \<Rightarrow> 1)"

subsection \<open>Reading the event log\<close>

definition valued :: "msg \<Rightarrow> bool" where
  "valued m \<longleftrightarrow> \<not> m_error m \<and> m_value m \<noteq> None"

fun kept_of :: "event \<Rightarrow> row list" where
  "kept_of (EBatch msgs rows) = rows"
| "kept_of e = []"

fun written_of :: "event \<Rightarrow> row list" where
  "written_of (EWrite t (Attempt (Inr n))) = trows t"
| "written_of e = []"

fun delivered_of :: "event \<Rightarrow> msg list" where
  "delivered_of (EBatch msgs rows) = filter valued msgs"
| "delivered_of e = []"

fun failed_batch :: "event \<Rightarrow> bool" where
  "failed_batch (EBatchFailed msgs) = True"
| "failed_batch e = False"

fun committed_of :: "event \<Rightarrow> tp list list" where
  "committed_of (ECommit tps b) = [tps]"
| "committed_of e = []"

text \<open>The rows the completed batches kept, the rows a sink call accepted, the messages with a value of
  the completed batches.\<close>

definition kept :: "event list \<Rightarrow> row list" where
  "kept evs = concat (map kept_of evs)"

definition written :: "event list \<Rightarrow> row list" where
  "written evs = concat (map written_of evs)"

definition delivered :: "event list \<Rightarrow> msg list" where
  "delivered evs = concat (map delivered_of evs)"

definition no_failed_batch :: "event list \<Rightarrow> bool" where
  "no_failed_batch evs \<longleftrightarrow> (\<forall>e \<in> set evs. \<not> failed_batch e)"

lemma log_append [simp]:
  "kept (xs @ ys) = kept xs @ kept ys" "written (xs @ ys) = written xs @ written ys"
  "delivered (xs @ ys) = delivered xs @ delivered ys"
  "no_failed_batch (xs @ ys) \<longleftrightarrow> no_failed_batch xs \<and> no_failed_batch ys"
  by (auto simp: kept_def written_def delivered_def no_failed_batch_def)

lemma log_Cons [simp]:
  "kept (e # ys) = kept_of e @ kept ys" "written (e # ys) = written_of e @ written ys"
  "delivered (e # ys) = delivered_of e @ delivered ys"
  "no_failed_batch (e # ys) \<longleftrightarrow> \<not> failed_batch e \<and> no_failed_batch ys"
  by (auto simp: kept_def written_def delivered_def no_failed_batch_def)

lemma log_Nil [simp]: "kept [] = []" "written [] = []" "delivered [] = []" "no_failed_batch []"
  by (auto simp: kept_def written_def delivered_def no_failed_batch_def)

text \<open>A commit is justified when every row kept so far is written, and each committed offset is the
  successor of a message of a completed batch.\<close>

definition reaches :: "msg list \<Rightarrow> string \<Rightarrow> int \<Rightarrow> int \<Rightarrow> bool" where
  "reaches ms tpc part off \<longleftrightarrow> (\<exists>m \<in> set ms. m_topic m = tpc \<and> m_partition m = part \<and> m_offset m = off)"

definition justified :: "event list \<Rightarrow> tp list \<Rightarrow> bool" where
  "justified pre tps \<longleftrightarrow> mset (kept pre) \<subseteq># mset (written pre)
     \<and> (no_failed_batch pre \<longrightarrow>
          (\<forall>t \<in> set tps. reaches (delivered pre) (tp_topic t) (tp_partition t) (tp_offset t - 1)))"

fun commits_justified :: "event list \<Rightarrow> event list \<Rightarrow> bool" where
  "commits_justified pre [] \<longleftrightarrow> True"
| "commits_justified pre (e # evs) \<longleftrightarrow>
     (\<forall>tps \<in> set (committed_of e). justified pre tps) \<and> commits_justified (pre @ [e]) evs"

lemma commits_justified_append:
  "commits_justified pre (xs @ ys) \<longleftrightarrow> commits_justified pre xs \<and> commits_justified (pre @ xs) ys"
  by (induction xs arbitrary: pre) auto

lemma commits_justified_at:
  "commits_justified pre (xs @ ECommit tps b # ys) \<Longrightarrow> justified (pre @ xs) tps"
  by (simp add: commits_justified_append)

lemma commits_none: "(\<forall>e \<in> set evs. committed_of e = []) \<Longrightarrow> commits_justified pre evs"
  by (induction evs arbitrary: pre) auto

definition neutral :: "event \<Rightarrow> bool" where
  "neutral e \<longleftrightarrow> kept_of e = [] \<and> written_of e = [] \<and> delivered_of e = [] \<and> \<not> failed_batch e"

lemma neutral_log:
  "(\<forall>e \<in> set evs. neutral e) \<Longrightarrow>
     kept evs = [] \<and> written evs = [] \<and> delivered evs = [] \<and> no_failed_batch evs"
  by (induction evs) (auto simp: neutral_def)

lemma neutral_simps [simp]: "neutral (EMetric m)" "neutral (ECommit tps b)" "neutral EFlushed"
  by (simp_all add: neutral_def)

lemma commits_neutral:
  "(\<forall>e \<in> set evs. neutral e) \<Longrightarrow> (\<forall>e \<in> set evs. \<forall>tps \<in> set (committed_of e). justified pre tps) \<Longrightarrow>
     commits_justified pre evs"
proof (induction evs arbitrary: pre)
  case (Cons e evs)
  have "justified (pre @ [e]) tps" if "justified pre tps" for tps
    using that Cons.prems(1) by (auto simp: justified_def neutral_def)
  then show ?case
    using Cons by auto
qed simp

lemma metrics_neutral [simp]:
  "kept (map EMetric ms) = []" "written (map EMetric ms) = []" "delivered (map EMetric ms) = []"
  "no_failed_batch (map EMetric ms)" "commits_justified pre (map EMetric ms)"
  by (induction ms arbitrary: pre) auto

lemma json_skips_neutral [simp]:
  "kept (json_skips n) = []" "written (json_skips n) = []" "delivered (json_skips n) = []"
  "no_failed_batch (json_skips n)" "commits_justified pre (json_skips n)"
  by (simp_all add: json_skips_def)

subsection \<open>The delivery invariant\<close>

definition buffered :: "loop_state \<Rightarrow> row list" where
  "buffered st = concat (map trows (pending st))"

definition delivery_inv :: "loop_state \<Rightarrow> event list \<Rightarrow> bool" where
  "delivery_inv st evs \<longleftrightarrow>
     mset (kept evs) \<subseteq># mset (written evs) + mset (buffered st)
   \<and> (no_failed_batch evs \<longrightarrow> (\<forall>((tpc, part), (first, final)) \<in> set (offsets st).
        reaches (delivered evs) tpc part final))
   \<and> commits_justified [] evs"

lemma set_update_subset: "set (AList.update k v al) \<subseteq> insert (k, v) (set al)"
  by (induction al) auto

text \<open>An entry of the map: its last offset is \<open>final\<close>.\<close>

definition noted :: "offset_map \<Rightarrow> string \<Rightarrow> int \<Rightarrow> int \<Rightarrow> bool" where
  "noted offs tpc part final \<longleftrightarrow> (\<exists>first. ((tpc, part), (first, final)) \<in> set offs)"

lemma note_offset_noted:
  assumes "noted (note_offset m offs) tpc part final"
  shows "noted offs tpc part final
    \<or> m_topic m = tpc \<and> m_partition m = part \<and> m_offset m = final"
proof (cases "map_of offs (m_topic m, m_partition m)")
  case None
  then show ?thesis
    using assms set_update_subset by (fastforce simp: noted_def note_offset_def Let_def)
next
  case (Some p)
  obtain f l where p: "p = (f, l)" by fastforce
  have old: "noted offs (m_topic m) (m_partition m) l"
    using Some map_of_SomeD unfolding noted_def p by fastforce
  obtain first where "((tpc, part), (first, final)) \<in> set
      (AList.update (m_topic m, m_partition m) (min f (m_offset m), max l (m_offset m)) offs)"
    using assms Some by (auto simp: noted_def note_offset_def Let_def p)
  then consider "((tpc, part), (first, final)) \<in> set offs"
    | "tpc = m_topic m" "part = m_partition m" "final = max l (m_offset m)"
    using set_update_subset by fastforce
  then show ?thesis
    using old by cases (auto simp: noted_def max_def)
qed

lemma note_messages_noted:
  "note_messages msgs offs = (vals, offs', ms) \<Longrightarrow> noted offs' tpc part final \<Longrightarrow>
     noted offs tpc part final \<or> reaches (filter valued msgs) tpc part final"
proof (induction msgs arbitrary: offs vals offs' ms)
  case (Cons m msgs)
  show ?case
  proof (cases "valued m")
    case False
    then show ?thesis
      using Cons by (auto simp: valued_def Let_def split: if_splits prod.splits option.splits)
  next
    case True
    then obtain vals2 ms2 where "note_messages msgs (note_offset m offs) = (vals2, offs', ms2)"
      using Cons.prems(1) by (auto simp: valued_def Let_def split: prod.splits)
    from Cons.IH[OF this Cons.prems(2)] show ?thesis
      using note_offset_noted[of m offs tpc part final] True by (auto simp: reaches_def)
  qed
qed simp

lemma reaches_append [simp]:
  "reaches (xs @ ys) tpc part off \<longleftrightarrow> reaches xs tpc part off \<or> reaches ys tpc part off"
  by (auto simp: reaches_def)

lemma reaches_Nil [simp]: "\<not> reaches [] tpc part off"
  by (simp add: reaches_def)

lemma delivery_inv_noted:
  "delivery_inv st evs \<longleftrightarrow>
     mset (kept evs) \<subseteq># mset (written evs) + mset (buffered st)
   \<and> (no_failed_batch evs \<longrightarrow> (\<forall>tpc part final. noted (offsets st) tpc part final \<longrightarrow>
        reaches (delivered evs) tpc part final))
   \<and> commits_justified [] evs"
  by (fastforce simp: delivery_inv_def noted_def)

lemma buffered_cong: "pending st' = pending st \<Longrightarrow> buffered st' = buffered st"
  by (simp add: buffered_def)

text \<open>Events that neither keep, write nor deliver leave the invariant alone.\<close>

lemma delivery_inv_neutral:
  assumes "delivery_inv st evs0" "pending st' = pending st" "offsets st' = offsets st"
    and "kept evs = []" "written evs = []" "delivered evs = []" "no_failed_batch evs"
    and "commits_justified evs0 evs"
  shows "delivery_inv st' (evs0 @ evs)"
  using assms by (simp add: delivery_inv_def buffered_def commits_justified_append)

lemma buffer_table_effect:
  "buffer_table A t st = (st', evs) \<Longrightarrow>
     buffered st' = buffered st @ trows t \<and> offsets st' = offsets st
     \<and> kept evs = [] \<and> written evs = [] \<and> delivered evs = [] \<and> no_failed_batch evs
     \<and> commits_justified pre evs"
  by (auto simp: buffer_table_def buffered_def num_rows_def Let_def split: if_splits)

lemma take_batch_inv:
  assumes inv: "delivery_inv st evs0" and take: "take_batch D cfg msgs st w = (res, st', w', evs)"
  shows "delivery_inv st' (evs0 @ evs)"
proof -
  obtain vals offs ms where n: "note_messages msgs (offsets st) = (vals, offs, ms)"
    by (metis prod_cases3)
  have reach: "reaches (delivered evs0 @ filter valued msgs) tpc part final"
    if "noted offs tpc part final" "no_failed_batch evs0" for tpc part final
    using note_messages_noted[OF n that(1)] inv that(2) by (auto simp: delivery_inv_noted)
  have batch: "delivery_inv st' (evs0 @ evs)"
    if "evs = evs1 @ [EBatch msgs rows]" "buffered st' = buffered st @ rows" "offsets st' = offs"
      "kept evs1 = []" "written evs1 = []" "delivered evs1 = []" "no_failed_batch evs1"
      "commits_justified evs0 evs1" for evs1 rows
    using inv that reach by (auto simp: delivery_inv_noted commits_justified_append)
  have failed: "delivery_inv st' (evs0 @ evs)"
    if "evs = evs1 @ [EBatchFailed msgs]" "buffered st' = buffered st"
      "kept evs1 = []" "written evs1 = []" "delivered evs1 = []"
      "commits_justified evs0 evs1" for evs1
    using inv that by (auto simp: delivery_inv_noted commits_justified_append)
  show ?thesis
  proof (cases "vals = []")
    case True
    then show ?thesis
      using take n
      by (intro batch[of "map EMetric ms" "[]"]) (auto simp: take_batch_def Let_def buffered_def)
  next
    case False
    obtain cres w1 ms1 where c: "convert_batch D vals w = (cres, w1, ms1)"
      by (metis prod_cases3)
    consider (err) e where "cres = Inl e" | (none) "cres = Inr None" | (some) t where "cres = Inr (Some t)"
      by (metis old.sum.exhaust option.exhaust)
    then show ?thesis
    proof cases
      case err
      then show ?thesis
        using take n c False
        by (intro failed[of "map EMetric ms @ map EMetric ms1"])
          (auto simp: take_batch_def Let_def buffered_def commits_justified_append)
    next
      case none
      then show ?thesis
        using take n c False
        by (intro batch[of "map EMetric ms @ map EMetric ms1 @ json_skips (int (length vals))" "[]"])
          (auto simp: take_batch_def Let_def buffered_def commits_justified_append)
    next
      case some
      obtain sres fs where s: "shape_batch D cfg (d_include D w1) (filters (st\<lparr>offsets := offs\<rparr>)) t = (sres, fs)"
        by fastforce
      show ?thesis
      proof (cases sres)
        case (Inl e)
        then show ?thesis
          using take n c False some s
          by (intro failed[of "map EMetric ms @ map EMetric ms1"])
            (auto simp: take_batch_def Let_def buffered_def commits_justified_append)
      next
        case (Inr tm)
        obtain t' ms2 where tm: "tm = (t', ms2)" by fastforce
        obtain st2 evs2 where b: "buffer_table (d_arrow D) t' (st\<lparr>offsets := offs, filters := fs\<rparr>) = (st2, evs2)"
          by fastforce
        have "st' = st2" "evs = (map EMetric ms @ map EMetric ms1 @ map EMetric ms2 @ evs2
            @ json_skips (int (length vals) - int (num_rows t))) @ [EBatch msgs (trows t')]"
          using take n c False some s Inr tm b by (auto simp: take_batch_def Let_def)
        moreover have "buffered st2 = buffered st @ trows t'" "offsets st2 = offs"
          using buffer_table_effect[OF b] by (simp_all add: buffered_def)
        ultimately show ?thesis
          using buffer_table_effect[OF b]
          by (intro batch[of "map EMetric ms @ map EMetric ms1 @ map EMetric ms2 @ evs2
              @ json_skips (int (length vals) - int (num_rows t))" "trows t'"])
            (auto simp: commits_justified_append)
      qed
    qed
  qed
qed

subsection \<open>Flush and commit\<close>

text \<open>A write that returns was an accepted attempt; without attempts the budget is zero.\<close>

lemma write_loop_wrote:
  "write_loop S K dest b kw base t0 attempt left w = (res, w', evs) \<Longrightarrow>
     (case res of Wrote n \<Rightarrow> Attempt (Inr n) \<in> set evs | NoAttempt \<Rightarrow> left = 0 | Raised e \<Rightarrow> True)"
proof (induction left arbitrary: attempt w res w' evs)
  case (Suc left)
  then show ?case
    by (fastforce simp: Let_def split: prod.splits sum.splits if_splits option.splits write_result.splits)
qed simp

lemma write_with_retry_wrote:
  assumes "write_with_retry S K dest b kw w = (res, w', evs)"
  shows "res = Wrote n \<Longrightarrow> Attempt (Inr n) \<in> set evs" "0 < fst (retry_budget S) \<Longrightarrow> res \<noteq> NoAttempt"
proof -
  obtain m base t0 w1 where *: "retry_budget S = (m, base)" "monotonic K w = (t0, w1)" by fastforce
  have loop: "write_loop S K dest b kw base t0 0 m w1 = (res, w', evs)"
    using assms by (simp add: write_with_retry_def *)
  show "res = Wrote n \<Longrightarrow> Attempt (Inr n) \<in> set evs" "0 < fst (retry_budget S) \<Longrightarrow> res \<noteq> NoAttempt"
    using write_loop_wrote[OF loop] by (auto simp: * split: write_result.splits)
qed

lemma commit_loop_events:
  "commit_loop D tps attempt left w = (res, w', evs) \<Longrightarrow>
     (\<forall>e \<in> set evs. neutral e) \<and> (\<forall>e \<in> set evs. set (committed_of e) \<subseteq> {tps})"
proof (induction left arbitrary: attempt w res w' evs)
  case (Suc left)
  then show ?case
    by (fastforce simp: Let_def split: prod.splits option.splits if_splits)
qed simp

lemma flush_metrics_events:
  "(\<forall>e \<in> set (flush_metrics d st n trigger tps). neutral e \<and> committed_of e = [])"
  by (auto simp: flush_metrics_def)

text \<open>Writing only adds rows to the written ones.\<close>

lemma write_events_log [simp]:
  "kept (map (EWrite t) es) = []" "delivered (map (EWrite t) es) = []" "no_failed_batch (map (EWrite t) es)"
  "commits_justified pre (map (EWrite t) es)"
  by (induction es arbitrary: pre) auto

lemma written_attempt:
  "Attempt (Inr n) \<in> set es \<Longrightarrow> mset (trows t) \<subseteq># mset (written (map (EWrite t) es))"
  by (induction es) (auto intro: subset_mset.order_trans)

lemma justified_tp_offsets:
  assumes "delivery_inv st evs0" "delivered pre = []" "no_failed_batch pre" "kept pre = []"
    and "mset (kept evs0) \<subseteq># mset (written (evs0 @ pre))"
  shows "justified (evs0 @ pre) (tp_offsets (offsets st))"
proof -
  have "reaches (delivered evs0) (tp_topic t) (tp_partition t) (tp_offset t - 1)"
    if clean: "no_failed_batch evs0" and t: "t \<in> set (tp_offsets (offsets st))" for t
  proof -
    obtain tpc part first final where "((tpc, part), (first, final)) \<in> set (offsets st)"
      "t = TopicPartition tpc part (final + 1)"
      using t by (auto simp: tp_offsets_def)
    then show ?thesis
      using assms(1) clean by (auto simp: delivery_inv_noted noted_def TopicPartition_def)
  qed
  then show ?thesis
    using assms(2-5) by (auto simp: justified_def)
qed

text \<open>Events that keep nothing and deliver nothing, and whose commits are justified.\<close>

lemma delivery_inv_written:
  assumes "delivery_inv st evs0" "pending st' = pending st" "offsets st' = offsets st"
    and "kept evs = []" "delivered evs = []" "no_failed_batch evs" "commits_justified evs0 evs"
  shows "delivery_inv st' (evs0 @ evs)"
proof -
  have "mset (kept evs0) \<subseteq># mset (written evs0) + mset (written evs) + mset (buffered st)"
    using assms(1) mset_subset_eq_add_left[of "mset (written evs0) + mset (buffered st)" "mset (written evs)"]
    by (auto simp: delivery_inv_def ac_simps intro: subset_mset.order_trans)
  then show ?thesis
    using assms by (simp add: delivery_inv_noted buffered_def commits_justified_append)
qed

lemma flush_inv:
  assumes inv: "delivery_inv st evs0" and law: "sort_indices_law (d_arrow D)"
    and budget: "0 < fst (retry_budget (d_sink D))"
    and rows: "trows consolidated = buffered st"
    and flush: "flush D cfg consolidated trigger st w = (res, st', w', evs)"
  shows "delivery_inv st' (evs0 @ evs) \<and> offsets st' = offsets st
    \<and> (res = None \<longrightarrow> mset (kept (evs0 @ evs)) \<subseteq># mset (written (evs0 @ evs)))"
proof -
  obtain sres ss where s: "apply_sort (d_arrow D) cfg (sorts st) consolidated = (sres, ss)" by fastforce
  show ?thesis
  proof (cases sres)
    case (Inl e)
    then show ?thesis
      using inv flush s by (auto simp: flush_def delivery_inv_def buffered_def)
  next
    case (Inr bm)
    obtain batch ms where bm: "bm = (batch, ms)" by fastforce
    obtain t0 w1 where c0: "monotonic (d_clock D) w = (t0, w1)" by fastforce
    obtain wres w2 wevs where wr: "write_with_retry (d_sink D) (d_clock D) (destination cfg) batch
        (sink_write_kwargs cfg (offsets st) trigger) w1 = (wres, w2, wevs)" by (metis prod_cases3)
    obtain t1 w3 where c1: "monotonic (d_clock D) w2 = (t1, w3)" by fastforce
    let ?tps = "tp_offsets (offsets st)" and ?pre = "map EMetric ms @ map (EWrite batch) wevs"
    obtain cres w4 cevs where co: "commit_loop D ?tps 0 COMMIT_MAX_RETRIES w3 = (cres, w4, cevs)"
      by (metis prod_cases3)
    have pre: "kept ?pre = []" "delivered ?pre = []" "no_failed_batch ?pre" "commits_justified evs0 ?pre"
      by (simp_all add: commits_justified_append)
    show ?thesis
    proof (cases wres)
      case (Raised e)
      then have "evs = ?pre" "res = Some e" "pending st' = pending st" "offsets st' = offsets st"
        using flush s Inr bm c0 wr by (auto simp: flush_def Let_def)
      then show ?thesis
        using delivery_inv_written[OF inv _ _ pre] by simp
    next
      case NoAttempt
      then show ?thesis
        using write_with_retry_wrote(2)[OF wr budget] by simp
    next
      case (Wrote n)
      have "mset (buffered st) = mset (trows batch)"
        using apply_sort_mset[OF law] s Inr bm rows by simp
      then have wrote: "mset (kept evs0) \<subseteq># mset (written (evs0 @ ?pre))"
        using inv written_attempt[OF write_with_retry_wrote(1)[OF wr Wrote], of batch]
        by (auto simp: delivery_inv_def intro: subset_mset.order_trans)
      obtain tail where tail: "evs = ?pre @ cevs @ tail" "\<forall>e \<in> set tail. neutral e \<and> committed_of e = []"
        "pending st' = pending st" "offsets st' = offsets st"
      proof (cases cres)
        case None
        obtain t2 w5 where "monotonic (d_clock D) w4 = (t2, w5)" by fastforce
        then show ?thesis
          using flush s Inr bm c0 wr Wrote c1 co None flush_metrics_events[of "t1 - t0" st n trigger ?tps]
          by (intro that[of "flush_metrics (t1 - t0) st n trigger ?tps"]) (auto simp: flush_def Let_def)
      next
        case (Some e)
        then show ?thesis
          using flush s Inr bm c0 wr Wrote c1 co by (intro that[of "[]"]) (auto simp: flush_def Let_def)
      qed
      have ce: "\<forall>e \<in> set (cevs @ tail). neutral e" "\<forall>e \<in> set (cevs @ tail). set (committed_of e) \<subseteq> {?tps}"
        using commit_loop_events[OF co] tail(2) by auto
      have "commits_justified (evs0 @ ?pre) (cevs @ tail)"
        using ce justified_tp_offsets[OF inv pre(2,3,1) wrote] by (intro commits_neutral) fastforce+
      then have "commits_justified evs0 evs"
        using pre(4) tail(1) by (simp add: commits_justified_append)
      moreover have "kept evs = []" "delivered evs = []" "no_failed_batch evs"
        using pre neutral_log[OF ce(1)] tail(1) by simp_all
      moreover have "written evs = written ?pre"
        using neutral_log[OF ce(1)] tail(1) by simp
      ultimately show ?thesis
        using delivery_inv_written[OF inv tail(3,4)] tail(4) wrote by simp
    qed
  qed
qed

text \<open>What the delivery theorems assume of the libraries and the sink.\<close>

definition delivery_laws :: "'w deps \<Rightarrow> bool" where
  "delivery_laws D \<longleftrightarrow> concat_law (d_arrow D) \<and> sort_indices_law (d_arrow D)
     \<and> 0 < fst (retry_budget (d_sink D))"

lemma flush_pending_inv:
  assumes "delivery_laws D" "delivery_inv st evs0" "flush_pending D cfg trigger st w = (res, st', w', evs)"
  shows "delivery_inv st' (evs0 @ evs) \<and> offsets st' = offsets st
    \<and> (res = None \<longrightarrow> mset (kept (evs0 @ evs)) \<subseteq># mset (written (evs0 @ evs)))"
proof (cases "concat_tables (d_arrow D) (pending st)")
  case (Inl e)
  then show ?thesis
    using assms by (auto simp: flush_pending_def)
next
  case (Inr t)
  then have "trows t = buffered st" "flush D cfg t trigger st w = (res, st', w', evs)"
    using assms(1,3) by (simp_all add: delivery_laws_def concat_law_def buffered_def flush_pending_def)
  then show ?thesis
    using assms(1,2) by (intro flush_inv[of st evs0 D t cfg trigger w]) (simp_all add: delivery_laws_def)
qed

lemma after_flush_effect:
  assumes "after_flush D cfg st w = (st', w', evs)"
  shows "pending st' = [] \<and> offsets st' = [] \<and> kept evs = [] \<and> written evs = [] \<and> delivered evs = []
    \<and> no_failed_batch evs \<and> commits_justified pre evs"
  using assms by (auto simp: after_flush_def Let_def commits_justified_append split: prod.splits if_splits)

lemma flush_if_due_inv:
  assumes "delivery_laws D" "delivery_inv st evs0" "flush_if_due D cfg st w = (res, st', w', evs)"
  shows "delivery_inv st' (evs0 @ evs)"
proof -
  obtain t w1 where t: "monotonic (d_clock D) w = (t, w1)" by fastforce
  show ?thesis
  proof (cases "0 < pending_records st \<and> (flush_size cfg \<le> pending_bytes st
      \<or> flush_interval_s cfg \<le> t - flushed_at st)")
    case False
    then have "st' = st" "evs = []"
      using assms(3) by (auto simp: flush_if_due_def t Let_def)
    then show ?thesis
      using assms(2) by simp
  next
    case True
    define trigger where "trigger = (if flush_size cfg \<le> pending_bytes st then ''size'' else ''time'')"
    obtain fres st1 w2 fevs where f: "flush_pending D cfg trigger st w1 = (fres, st1, w2, fevs)"
      by (metis prod_cases4)
    note inv1 = flush_pending_inv[OF assms(1,2) f]
    show ?thesis
    proof (cases fres)
      case (Some e)
      then have "st' = st1" "evs = fevs"
        using assms(3) True f by (simp_all add: flush_if_due_def t Let_def trigger_def)
      then show ?thesis
        using inv1 by simp
    next
      case None
      obtain st2 w3 aevs where a: "after_flush D cfg st1 w2 = (st2, w3, aevs)"
        by (metis prod_cases3)
      have "st' = st2" "evs = fevs @ aevs"
        using assms(3) True f None a by (simp_all add: flush_if_due_def t Let_def trigger_def)
      then show ?thesis
        using inv1 None after_flush_effect[OF a, of "evs0 @ fevs"]
        by (simp add: delivery_inv_def buffered_def commits_justified_append)
    qed
  qed
qed

lemma poll_client_effect:
  assumes "poll_client D cfg M st w = (res, st', w', evs)"
  shows "pending st' = pending st \<and> offsets st' = offsets st \<and> (\<exists>ms. evs = map EMetric ms)"
  using assms by (auto simp: poll_client_def Let_def split: prod.splits sum.splits if_splits)

lemma iteration_inv:
  assumes "delivery_laws D" "delivery_inv st evs0" "iteration D cfg M st w = (res, st', w', evs)"
  shows "delivery_inv st' (evs0 @ evs)"
proof -
  obtain pres st1 w1 evs1 where p: "poll_client D cfg M st w = (pres, st1, w1, evs1)"
    by (metis prod_cases4)
  have inv1: "delivery_inv st1 (evs0 @ evs1)"
    using poll_client_effect[OF p] by (auto intro!: delivery_inv_neutral[OF assms(2)])
  show ?thesis
  proof (cases pres)
    case (Inl e)
    then show ?thesis
      using assms(3) p inv1 by (simp add: iteration_def)
  next
    case (Inr msgs)
    obtain tres st2 w2 evs2 where
      t: "(if msgs = [] then (None, st1, w1, []) else take_batch D cfg msgs st1 w1) = (tres, st2, w2, evs2)"
      by (metis prod_cases4)
    have inv2: "delivery_inv st2 (evs0 @ evs1 @ evs2)"
      using t inv1 take_batch_inv[OF inv1, of D cfg msgs w1] by (auto split: if_splits)
    obtain fres st3 w3 evs3 where f: "flush_if_due D cfg st2 w2 = (fres, st3, w3, evs3)"
      by (metis prod_cases4)
    show ?thesis
      using assms(3) p Inr t f inv2 flush_if_due_inv[OF assms(1) inv2 f]
      by (cases tres) (auto simp: iteration_def)
  qed
qed

lemma main_loop_inv:
  "delivery_laws D \<Longrightarrow> delivery_inv st evs0 \<Longrightarrow> main_loop D cfg M n st w = (out, st', w', evs) \<Longrightarrow>
     delivery_inv st' (evs0 @ evs)"
proof (induction n arbitrary: st w evs0 out st' w' evs)
  case (Suc n)
  show ?case
  proof (cases "d_shutdown D w")
    case True
    then show ?thesis
      using Suc.prems by simp
  next
    case False
    obtain res st1 w1 evs1 where i: "iteration D cfg M st w = (res, st1, w1, evs1)"
      by (metis prod_cases4)
    note inv1 = iteration_inv[OF Suc.prems(1,2) i]
    show ?thesis
    proof (cases res)
      case (Some e)
      then show ?thesis
        using Suc.prems False i inv1 by simp
    next
      case None
      then obtain evs2 where "main_loop D cfg M n st1 w1 = (out, st', w', evs2)" "evs = evs1 @ evs2"
        using Suc.prems(3) False i by (auto split: prod.splits)
      then show ?thesis
        using Suc.IH[OF Suc.prems(1) inv1] by simp
    qed
  qed
qed simp

lemma run_main_inv:
  assumes "delivery_laws D" "delivery_inv st evs0" "run_main D cfg M n st w = (out, w', evs)"
  shows "\<exists>st'. delivery_inv st' (evs0 @ evs)"
proof -
  obtain mout st1 w1 evs1 where m: "main_loop D cfg M n st w = (mout, st1, w1, evs1)"
    by (metis prod_cases4)
  note inv1 = main_loop_inv[OF assms(1,2) m]
  have fin: ?thesis if "shutdown_flush D cfg le st1 w1 = (w2, evs2)" "evs = evs1 @ evs2" for le w2 evs2
  proof (cases "final_flush_decision (pending_records st1) le True = ''flush''")
    case True
    obtain fres st2 w3 fevs where f: "flush_pending D cfg ''final'' st1 w1 = (fres, st2, w3, fevs)"
      by (metis prod_cases4)
    then show ?thesis
      using flush_pending_inv[OF assms(1) inv1 f] that True by (auto simp: shutdown_flush_def)
  qed (use that inv1 in \<open>auto simp: shutdown_flush_def\<close>)
  show ?thesis
    using assms(3) m inv1 fin by (cases mout) (auto simp: run_main_def split: prod.splits)
qed

lemma initial_inv: "delivery_inv (initial_state now h) []"
  by (simp add: delivery_inv_def initial_state_def buffered_def)

text \<open>
  C1: at-least-once delivery. In any run of \<open>main\<close> (any number of iterations, then the shutdown path),
  whenever offsets are sent to Kafka, every row that a batch put into the buffer so far has been
  accepted by a sink call; and unless processing a batch raised, each committed offset is the successor
  of the offset of a message whose batch was completed.
\<close>

theorem commits_follow_writes:
  assumes "delivery_laws D" "run_main D cfg M n (initial_state now h) w = (out, w', evs)"
    and "evs = xs @ ECommit tps b # ys"
  shows "mset (kept xs) \<subseteq># mset (written xs)
    \<and> (no_failed_batch xs \<longrightarrow> (\<forall>t \<in> set tps.
         reaches (delivered xs) (tp_topic t) (tp_partition t) (tp_offset t - 1)))"
proof -
  obtain st' where "delivery_inv st' ([] @ evs)"
    using run_main_inv[OF assms(1) initial_inv assms(2)] by blast
  then have "justified xs tps"
    using commits_justified_at[of "[]" xs tps b ys] assms(3) by (simp add: delivery_inv_def)
  then show ?thesis
    by (simp add: justified_def)
qed

subsection \<open>The offset map\<close>

text \<open>What the map should hold for a partition: the least and the greatest offset of its messages with
  a value.\<close>

definition key_offsets :: "msg list \<Rightarrow> string \<times> int \<Rightarrow> int list" where
  "key_offsets msgs k = map m_offset (filter (\<lambda>m. valued m \<and> (m_topic m, m_partition m) = k) msgs)"

definition span_of :: "msg list \<Rightarrow> string \<times> int \<Rightarrow> (int \<times> int) option" where
  "span_of msgs k =
     (let offs = key_offsets msgs k in
      if offs = [] then None else Some (Min (set offs), Max (set offs)))"

lemma span_of_unvalued: "\<not> valued m \<Longrightarrow> span_of (pre @ m # msgs) = span_of (pre @ msgs)"
  by (simp add: span_of_def key_offsets_def fun_eq_iff)

lemma note_offset_span:
  assumes "map_of offs = span_of pre" "valued m"
  shows "map_of (note_offset m offs) = span_of (pre @ [m])"
proof
  fix k
  let ?K = "(m_topic m, m_partition m)"
  have offs: "key_offsets (pre @ [m]) k = key_offsets pre k @ (if k = ?K then [m_offset m] else [])" for k
    using assms(2) by (auto simp: key_offsets_def)
  show "map_of (note_offset m offs) k = span_of (pre @ [m]) k"
  proof (cases "k = ?K")
    case True
    then show ?thesis
      using assms(1) by (auto simp: note_offset_def span_of_def offs Let_def update_conv' min.commute max.commute)
  next
    case False
    then show ?thesis
      using assms(1) by (auto simp: note_offset_def span_of_def offs Let_def update_conv' split: prod.split)
  qed
qed

lemma note_messages_values:
  "note_messages msgs offs = (vals, offs', ms) \<Longrightarrow>
     vals = map (\<lambda>m. the (m_value m)) (filter valued msgs)
     \<and> total ''records_consumed_total'' ms = int (length (filter (\<lambda>m. \<not> m_error m) msgs))
     \<and> total ''errors_total'' ms = int (length (filter m_error msgs))"
proof (induction msgs arbitrary: offs vals offs' ms)
  case (Cons m msgs)
  obtain offs2 vals2 ms2 where "note_messages msgs offs2 = (vals2, offs', ms2)"
    "vals = (if valued m then [the (m_value m)] else []) @ vals2"
    "ms = (if m_error m then Inc ''errors_total'' ''kafka'' 1
           else Inc ''records_consumed_total'' (str_int (m_partition m)) 1) # ms2"
    using Cons.prems
    by (cases "m_error m"; cases "m_value m") (auto simp: valued_def Let_def split: prod.splits)
  from Cons.IH[OF this(1)] this(2,3) show ?case
    by (cases "m_error m"; cases "m_value m") (auto simp: valued_def)
qed simp

lemma note_messages_span:
  "map_of offs = span_of pre \<Longrightarrow> note_messages msgs offs = (vals, offs', ms) \<Longrightarrow>
     map_of offs' = span_of (pre @ msgs)"
proof (induction msgs arbitrary: pre offs vals offs' ms)
  case (Cons m msgs)
  show ?case
  proof (cases "valued m")
    case False
    then obtain vals2 ms2 where "note_messages msgs offs = (vals2, offs', ms2)"
      using Cons.prems(2) by (auto simp: valued_def Let_def split: if_splits prod.splits option.splits)
    from Cons.IH[OF Cons.prems(1) this] show ?thesis
      using span_of_unvalued[OF False] by simp
  next
    case True
    then obtain vals2 ms2 where "note_messages msgs (note_offset m offs) = (vals2, offs', ms2)"
      using Cons.prems(2) by (auto simp: valued_def Let_def split: prod.splits)
    from Cons.IH[OF note_offset_span[OF Cons.prems(1) True] this] show ?thesis
      by simp
  qed
qed simp

text \<open>
  C5: what is committed and what names a flush. The offset map that starts empty after a flush holds,
  for each partition, exactly the least and the greatest offset among the messages with a value taken
  in since, however they are split into batches; error messages and tombstones are counted and leave
  no trace in it.
\<close>

theorem offset_map_is_span:
  assumes "map_of offs = span_of pre" "note_messages msgs offs = (vals, offs', ms)"
  shows "map_of offs' = span_of (pre @ msgs)
    \<and> vals = map (\<lambda>m. the (m_value m)) (filter valued msgs)
    \<and> total ''records_consumed_total'' ms = int (length (filter (\<lambda>m. \<not> m_error m) msgs))
    \<and> total ''errors_total'' ms = int (length (filter m_error msgs))"
  using note_messages_span[OF assms] note_messages_values[OF assms(2)] by blast

subsection \<open>A crash and the final flush\<close>

lemma span_of_covers:
  assumes "m \<in> set msgs" "valued m"
  shows "\<exists>first final. span_of msgs (m_topic m, m_partition m) = Some (first, final)
    \<and> first \<le> m_offset m \<and> m_offset m \<le> final"
proof -
  let ?offs = "key_offsets msgs (m_topic m, m_partition m)"
  have "m_offset m \<in> set ?offs"
    using assms by (auto simp: key_offsets_def)
  then show ?thesis
    by (auto simp: span_of_def Let_def)
qed

lemma commit_loop_tps: "commit_loop D tps attempt left w = (res, w', evs) \<Longrightarrow> ECommit tps' b \<in> set evs \<Longrightarrow> tps' = tps"
  using commit_loop_events by fastforce

text \<open>The commits of a flush are of the offsets held, and its writes are of the pending rows.\<close>

lemma flush_commits:
  assumes "flush D cfg t trigger st w = (res, st', w', evs)" "ECommit tps b \<in> set evs"
  shows "tps = tp_offsets (offsets st)"
  using assms
  by (auto simp: flush_def Let_def flush_metrics_def
      split: prod.splits sum.splits write_result.splits option.splits dest: commit_loop_tps)

lemma flush_writes:
  assumes "flush D cfg t trigger st w = (res, st', w', evs)" "sort_indices_law (d_arrow D)"
    and "EWrite batch e \<in> set evs"
  shows "mset (trows batch) = mset (trows t)"
proof -
  have no_write: "EWrite batch e \<notin> set cevs"
    if "commit_loop D tps attempt left w1 = (cres, w2, cevs)" for tps attempt left w1 cres w2 cevs
    using that
  proof (induction left arbitrary: attempt w1 cres w2 cevs)
    case (Suc left)
    then show ?case
      by (fastforce simp: Let_def split: prod.splits option.splits if_splits)
  qed simp
  obtain sres ss where s: "apply_sort (d_arrow D) cfg (sorts st) t = (sres, ss)" by fastforce
  show ?thesis
    using assms(1,3) s apply_sort_mset[OF assms(2)]
    by (auto simp: flush_def Let_def flush_metrics_def no_write
        split: prod.splits sum.splits write_result.splits option.splits dest: no_write)
qed

lemma flush_kept:
  assumes "flush D cfg t trigger st w = (res, st', w', evs)"
  shows "kept evs = []"
proof -
  have "kept cevs = []" if "commit_loop D tps attempt left w1 = (cres, w2, cevs)"
    for tps attempt left w1 cres w2 cevs
    using commit_loop_events[OF that] neutral_log by blast
  moreover have "kept (flush_metrics d st' n trigger tps) = []" for d st' n tps
    using neutral_log[of "flush_metrics d st' n trigger tps"] flush_metrics_events by blast
  ultimately show ?thesis
    using assms
    by (auto simp: flush_def Let_def split: prod.splits sum.splits write_result.splits option.splits)
qed

lemma take_batch_failed:
  assumes "take_batch D cfg msgs st w = (Some e, st1, w1, evs)"
  shows "e = plain_exc \<and> pending st1 = pending st \<and> pending_records st1 = pending_records st
    \<and> EBatchFailed msgs \<in> set evs \<and> kept evs = []
    \<and> (\<exists>vals ms. note_messages msgs (offsets st) = (vals, offsets st1, ms))"
  using assms
  by (auto simp: take_batch_def Let_def split: prod.splits sum.splits option.splits if_splits)

lemma tp_offsets_lookup:
  assumes "map_of offs (tpc, part) = Some (first, final)"
  shows "\<exists>t \<in> set (tp_offsets offs). tp_topic t = tpc \<and> tp_partition t = part \<and> tp_offset t = final + 1"
  using map_of_SomeD[OF assms] by (force simp: tp_offsets_def TopicPartition_def)

text \<open>
  C4: a crash between taking a batch and buffering it loses the batch. The offsets of its messages are
  in the map before the conversion runs; when the conversion or a filter raises while earlier rows are
  pending, the final flush writes the earlier rows only and commits past every message of the failed
  batch, so none of them is read again.
\<close>

theorem crash_commits_unwritten_batch:
  assumes "delivery_laws D" "map_of (offsets st) = span_of pre"
    and "take_batch D cfg msgs st w = (Some e, st1, w1, evs1)"
    and "shutdown_flush D cfg (Some e) st1 w1 = (w2, evs2)" "ECommit tps True \<in> set evs2"
    and "m \<in> set msgs" "valued m"
  shows "(\<exists>t \<in> set tps. tp_topic t = m_topic m \<and> tp_partition t = m_partition m \<and> m_offset m < tp_offset t)
    \<and> (\<forall>batch we. EWrite batch we \<in> set evs2 \<longrightarrow> mset (trows batch) = mset (buffered st))
    \<and> kept (evs1 @ evs2) = []"
proof -
  note failed = take_batch_failed[OF assms(3)]
  then obtain vals ms where n: "note_messages msgs (offsets st) = (vals, offsets st1, ms)"
    by blast
  obtain res st2 where f: "flush_pending D cfg ''final'' st1 w1 = (res, st2, w2, evs2)"
    using assms(4,5) by (auto simp: shutdown_flush_def split: prod.splits if_splits)
  obtain t where t: "trows t = buffered st" "flush D cfg t ''final'' st1 w1 = (res, st2, w2, evs2)"
    using f assms(1,5) failed
    by (auto simp: flush_pending_def delivery_laws_def concat_law_def buffered_def split: sum.splits)
  obtain first final where "map_of (offsets st1) (m_topic m, m_partition m) = Some (first, final)"
    "m_offset m \<le> final"
    using note_messages_span[OF assms(2) n] span_of_covers[of m "pre @ msgs"] assms(6,7) by auto
  from tp_offsets_lookup[OF this(1)] this(2) have
    "\<exists>t \<in> set tps. tp_topic t = m_topic m \<and> tp_partition t = m_partition m \<and> m_offset m < tp_offset t"
    using flush_commits[OF t(2) assms(5)] by force
  moreover have "mset (trows batch) = mset (buffered st)" if "EWrite batch we \<in> set evs2" for batch we
    using flush_writes[OF t(2) _ that] assms(1) t(1) by (simp add: delivery_laws_def)
  moreover have "kept evs2 = []"
    using flush_kept[OF t(2)] .
  ultimately show ?thesis
    using failed by simp
qed

subsection \<open>Example runs\<close>

text \<open>The world is the time and the number of messages consumed: one message per poll. A sink that always
  accepts, a broker that always commits.\<close>

definition demo_msg :: "int \<Rightarrow> msg" where
  "demo_msg off = \<lparr>m_topic = ''events'', m_partition = 0, m_offset = off, m_value = Some [1], m_error = False\<rparr>"

definition demo_deps :: "(real \<times> nat) deps" where
  "demo_deps = \<lparr>
     d_sink = \<lparr>sink_write = (\<lambda>b kw (t, n). (Inr (int (num_rows b)), (t + 5, n))), write_retry_budget = None,
       retry_after_hint = None, is_retryable = None, write_flush_deadline = None, reset_caches = (\<lambda>w. w)\<rparr>,
     d_clock = demo_clock,
     d_kafka = \<lparr>consume = (\<lambda>k timeout (t, n). (Inr [demo_msg (int n)], (t + 1, n + 1))),
       commit = (\<lambda>tps w. (None, w)), assignment = (\<lambda>w. None), position = (\<lambda>w tps. None),
       committed = (\<lambda>w tps. None), lag_admin = (\<lambda>w. None)\<rparr>,
     d_arrow = demo_arrow, d_codec = demo_codec, d_include = (\<lambda>w. None), d_shutdown = (\<lambda>w. False)\<rparr>"

lemma demo_deps_simps [simp]:
  "d_clock demo_deps = demo_clock" "d_arrow demo_deps = demo_arrow" "d_codec demo_deps = demo_codec"
  "d_include demo_deps w = None" "d_shutdown demo_deps w = False"
  "consume (d_kafka demo_deps) k timeout (t, n) = (Inr [demo_msg (int n)], (t + 1, n + 1))"
  "commit (d_kafka demo_deps) tps w = (None, w)"
  "retry_budget (d_sink demo_deps) = (3, 1)"
  "sink_write (d_sink demo_deps) b kw (t, n) = (Inr (int (num_rows b)), (t + 5, n))"
  "monotonic demo_clock w' = (fst w', w')"
  by (simp_all add: demo_deps_def retry_budget_def WRITE_MAX_RETRIES_def WRITE_BASE_DELAY_S_def demo_clock_def)

lemma demo_delivery_laws: "delivery_laws demo_deps"
  using demo_arrow_laws by (simp add: delivery_laws_def)

definition demo_row :: row where
  "demo_row = [(''a'', PBool True), (''x'', PFloat 1)]"

lemma demo_convert:
  "convert demo_codec demo_arrow [[1]] = Inr (Some \<lparr>tschema = [(''a'', ABool), (''x'', AFloat 64)], trows = [demo_row]\<rparr>)"
proof -
  have p: "parse_message demo_codec [1] = Some [(''a'', PBool True), (''x'', PFloat 1)]"
    by (simp add: parse_message_def decode_value_def demo_codec_def LZ4_FRAME_MAGIC_def)
  show ?thesis
    by (auto simp: convert_def map_filter_simps p prepare_records_def Let_def flatten_nested_to_json_def
        flatten_record_def flatten_value_def build_schema_def note_sample_def note_key_def conflicting_keys_def
        conflicts_def stringify_mixed_type_values_def floatify_integers_in_float_fields_def
        normalize_numeric_types_def numeric_target_def drop_null_typed_columns_def demo_row_def)
qed

text \<open>A configuration without filters that flushes after every batch, and a state that just started.\<close>

definition eager_cfg :: config where
  "eager_cfg = demo_cfg\<lparr>flush_size := 1\<rparr>"

lemmas demo_run_simps = run_main_def iteration_def poll_client_def take_batch_def flush_if_due_def
  flush_pending_def flush_def after_flush_def shape_batch_def coerce_columns_def convert_batch_def
  demo_convert buffer_table_def apply_filter_def apply_drop_filter_def apply_sort_def
  eager_cfg_def demo_cfg_def initial_state_def Let_def demo_msg_def note_offset_def num_rows_def
  write_with_retry_def compute_batch_size_def

lemma demo_take:
  "take_batch demo_deps eager_cfg [demo_msg off] (initial_state 0 h) w =
     (None, (initial_state 0 h)\<lparr>offsets := [((''events'', 0), (off, off))],
        pending := [\<lparr>tschema = [(''a'', ABool), (''x'', AFloat 64)], trows = [demo_row]\<rparr>],
        pending_bytes := 8, pending_records := 1\<rparr>, w,
      [EMetric (Inc ''records_consumed_total'' (str_int 0) 1),
       EMetric (Obs ''arrow_conversion_seconds'' 0), EMetric (SetG ''pending_bytes'' [] 8),
       EBatch [demo_msg off] [demo_row]])"
  by (simp add: demo_run_simps json_skips_def)

lemma demo_write:
  "write_with_retry (d_sink demo_deps) demo_clock dest b kw (t, n)
     = (Wrote (int (num_rows b)), (t + 5, n), [Attempt (Inr (int (num_rows b)))])"
  by (simp add: write_with_retry_def eval_nat_numeral)

lemma demo_commit:
  "commit_loop demo_deps tps 0 COMMIT_MAX_RETRIES w = (None, w, [ECommit tps True])"
  by (simp add: COMMIT_MAX_RETRIES_def eval_nat_numeral)

lemma demo_concat: "concat_tables demo_arrow [t] = Inr t"
  by (simp add: demo_arrow_def)

lemma demo_flush_pending:
  assumes "pending st = [t]" "sort_by cfg = None"
  shows "\<exists>st' w' ys. flush_pending demo_deps cfg trigger st (s, n) = (None, st', w',
      EWrite t (Attempt (Inr (int (num_rows t)))) # ECommit (tp_offsets (offsets st)) True # ys)"
  using assms
  by (simp add: flush_pending_def demo_concat flush_def apply_sort_def demo_write demo_commit Let_def)

lemma demo_flush_due:
  assumes "pending st = [t]" "sort_by cfg = None" "0 < pending_records st" "flush_size cfg \<le> pending_bytes st"
  shows "\<exists>st' w' ys. flush_if_due demo_deps cfg st (s, n) = (None, st', w',
      EWrite t (Attempt (Inr (int (num_rows t)))) # ECommit (tp_offsets (offsets st)) True # ys)"
proof -
  obtain st1 w1 ys where f: "flush_pending demo_deps cfg ''size'' st (s, n) = (None, st1, w1,
      EWrite t (Attempt (Inr (int (num_rows t)))) # ECommit (tp_offsets (offsets st)) True # ys)"
    using demo_flush_pending[OF assms(1,2)] by blast
  obtain st2 w2 zs where a: "after_flush demo_deps cfg st1 w1 = (st2, w2, zs)"
    by (metis prod_cases3)
  show ?thesis
    using assms(3,4) by (simp add: flush_if_due_def f a Let_def)
qed

lemma demo_poll:
  "\<exists>ms. poll_client demo_deps eager_cfg M (initial_state 0 h) (0, 0)
     = (Inr [demo_msg 0], initial_state 0 (record_poll 1 h), (1, 1), map EMetric ms)"
proof -
  obtain bs bms where "compute_batch_size M 0 (flush_size eager_cfg) = (bs, bms)" by fastforce
  then show ?thesis
    by (auto simp: poll_client_def initial_state_def HEARTBEAT_INTERVAL_S_def Let_def)
qed

theorem commits_follow_writes_witness:
  "\<exists>out w' xs tps ys. run_main demo_deps eager_cfg 1000 1 (initial_state 0 health_default) (0, 0)
       = (out, w', xs @ ECommit tps True # ys)
     \<and> (\<exists>t \<in> set tps. tp_offset t = 1) \<and> kept xs = [demo_row] \<and> mset (kept xs) \<subseteq># mset (written xs)"
proof -
  let ?t = "\<lparr>tschema = [(''a'', ABool), (''x'', AFloat 64)], trows = [demo_row]\<rparr>"
  let ?st = "(initial_state 0 (record_poll 1 health_default))\<lparr>offsets := [((''events'', 0), (0, 0))],
        pending := [?t], pending_bytes := 8, pending_records := 1\<rparr>"
  obtain ms where p: "poll_client demo_deps eager_cfg 1000 (initial_state 0 health_default) (0, 0)
     = (Inr [demo_msg 0], initial_state 0 (record_poll 1 health_default), (1, 1), map EMetric ms)"
    using demo_poll by blast
  have tps: "tp_offsets (offsets ?st) = [TopicPartition ''events'' 0 1]"
    by (simp add: tp_offsets_def)
  have cfg: "sort_by eager_cfg = None" "flush_size eager_cfg = 1"
    by (simp_all add: eager_cfg_def demo_cfg_def)
  obtain st' w' ys where f: "flush_if_due demo_deps eager_cfg ?st (1, 1) = (None, st', w',
      EWrite ?t (Attempt (Inr (int (num_rows ?t)))) # ECommit [TopicPartition ''events'' 0 1] True # ys)"
    using demo_flush_due[of ?st ?t eager_cfg 1 1] tps cfg by auto
  define xs where "xs = map EMetric ms @ [EMetric (Inc ''records_consumed_total'' (str_int 0) 1),
      EMetric (Obs ''arrow_conversion_seconds'' 0), EMetric (SetG ''pending_bytes'' [] 8),
      EBatch [demo_msg 0] [demo_row], EWrite ?t (Attempt (Inr (int (num_rows ?t))))]"
  have run: "run_main demo_deps eager_cfg 1000 1 (initial_state 0 health_default) (0, 0)
      = (Running, w', xs @ ECommit [TopicPartition ''events'' 0 1] True # ys)"
    using f by (simp add: run_main_def iteration_def p demo_take xs_def Let_def)
  have "kept xs = [demo_row]"
    by (simp add: xs_def)
  with commits_follow_writes[OF demo_delivery_laws run refl] run show ?thesis
    by (intro exI[of _ Running] exI[of _ w'] exI[of _ xs] exI[of _ "[TopicPartition ''events'' 0 1]"] exI[of _ ys])
      (simp add: TopicPartition_def)
qed

text \<open>One pending row, and a pin the next batch's boolean column cannot be cast to.\<close>

definition pin_cfg :: config where
  "pin_cfg = demo_cfg\<lparr>typed_columns := Some [(''a'', ''timestamptz'')]\<rparr>"

definition demo_pending :: table where
  "demo_pending = \<lparr>tschema = [(''k'', AString)], trows = [[(''k'', PStr ''v'')]]\<rparr>"

definition demo_state :: loop_state where
  "demo_state = (initial_state 0 health_default)\<lparr>offsets := [((''events'', 0), (0, 0))],
     pending := [demo_pending], pending_bytes := 8, pending_records := 1\<rparr>"

lemma demo_take_fails:
  "\<exists>st1 evs. take_batch demo_deps pin_cfg [demo_msg 1] demo_state w = (Some plain_exc, st1, w, evs)
     \<and> pending st1 = [demo_pending] \<and> pending_records st1 = 1 \<and> offsets st1 = [((''events'', 0), (0, 1))]"
  by (simp add: take_batch_def demo_state_def initial_state_def demo_msg_def note_offset_def Let_def
      convert_batch_def demo_convert shape_batch_def coerce_columns_def pin_cfg_def demo_cfg_def
      coerce_typed_columns_def COERCERS_def coercer_def to_timestamptz_def arr_cast_def coerce_or_null_def retried_def)

lemma pin_sort: "sort_by pin_cfg = None"
  by (simp add: pin_cfg_def demo_cfg_def)

theorem crash_commits_unwritten_batch_witness:
  "\<exists>st1 w1 evs1 w2 evs2 tps.
     take_batch demo_deps pin_cfg [demo_msg 1] demo_state (0, 0) = (Some plain_exc, st1, w1, evs1)
     \<and> shutdown_flush demo_deps pin_cfg (Some plain_exc) st1 w1 = (w2, evs2)
     \<and> ECommit tps True \<in> set evs2 \<and> (\<exists>t \<in> set tps. m_offset (demo_msg 1) < tp_offset t)
     \<and> kept (evs1 @ evs2) = []"
proof -
  obtain st1 evs1 where t: "take_batch demo_deps pin_cfg [demo_msg 1] demo_state (0, 0)
      = (Some plain_exc, st1, (0, 0), evs1)" and st1: "pending st1 = [demo_pending]" "pending_records st1 = 1"
    using demo_take_fails by blast
  obtain st2 w2 ys where f: "flush_pending demo_deps pin_cfg ''final'' st1 (0, 0) = (None, st2, w2,
      EWrite demo_pending (Attempt (Inr (int (num_rows demo_pending))))
        # ECommit (tp_offsets (offsets st1)) True # ys)"
    using demo_flush_pending[OF st1(1) pin_sort] by blast
  then have s: "shutdown_flush demo_deps pin_cfg (Some plain_exc) st1 (0, 0)
      = (w2, EWrite demo_pending (Attempt (Inr (int (num_rows demo_pending))))
        # ECommit (tp_offsets (offsets st1)) True # ys)" (is "_ = (w2, ?evs2)")
    using st1 by (simp add: shutdown_flush_def final_flush_decision_def is_permanent_write_failure_def plain_exc_def)
  have span: "map_of (offsets demo_state) = span_of [demo_msg 0]"
    by (auto simp: demo_state_def span_of_def key_offsets_def demo_msg_def valued_def fun_eq_iff)
  have c: "ECommit (tp_offsets (offsets st1)) True \<in> set ?evs2"
    by simp
  from crash_commits_unwritten_batch[OF demo_delivery_laws span t s c, of "demo_msg 1"] t s c show ?thesis
    by (intro exI[of _ st1] exI[of _ "(0, 0)"] exI[of _ evs1] exI[of _ w2] exI[of _ ?evs2]
        exI[of _ "tp_offsets (offsets st1)"]) (auto simp: demo_msg_def valued_def)
qed

theorem offset_map_is_span_witness:
  "map_of (fst (snd (note_messages [demo_msg 4, demo_msg 2] []))) = span_of [demo_msg 4, demo_msg 2]
     \<and> length (fst (note_messages [demo_msg 4, demo_msg 2] [])) = 2"
proof -
  have start: "map_of ([] :: offset_map) = span_of []"
    by (simp add: span_of_def key_offsets_def fun_eq_iff)
  obtain vals offs ms where n: "note_messages [demo_msg 4, demo_msg 2] [] = (vals, offs, ms)"
    by (metis prod_cases3)
  show ?thesis
    using offset_map_is_span[OF start n] n by (simp add: demo_msg_def valued_def)
qed

end
