(* ===== verification/Schema.thy ===== *)
theory Schema
  imports Arrow
begin

text \<open>
  Schema evolution of DuckLake tables (\<open>millpond/schema.py\<close>): the map from Arrow types to DuckDB type
  names, and \<open>SchemaManager\<close>, which caches the column types of one table and issues DDL when a batch
  brings a new or wider column. The DuckDB connection is a parameter: a statement and its parameters
  give rows or an error, over the world. \<open>str(arrow_type)\<close> is a parameter as well. Log lines are not
  modelled.
\<close>

subsection \<open>Type names\<close>

text \<open>\<open>_ARROW_TO_DUCKDB\<close>.\<close>

definition ARROW_TO_DUCKDB :: "(string \<times> string) list" where
  "ARROW_TO_DUCKDB =
     [(''bool'', ''BOOLEAN''), (''int8'', ''TINYINT''), (''int16'', ''SMALLINT''), (''int32'', ''INTEGER''),
      (''int64'', ''BIGINT''), (''uint8'', ''UTINYINT''), (''uint16'', ''USMALLINT''),
      (''uint32'', ''UINTEGER''), (''uint64'', ''UBIGINT''), (''float16'', ''FLOAT''), (''float'', ''FLOAT''),
      (''double'', ''DOUBLE''), (''string'', ''VARCHAR''), (''large_string'', ''VARCHAR''),
      (''utf8'', ''VARCHAR''), (''large_utf8'', ''VARCHAR''), (''binary'', ''BLOB''), (''large_binary'', ''BLOB''),
      (''date32'', ''DATE''), (''timestamp[ns]'', ''TIMESTAMP''), (''timestamp[us]'', ''TIMESTAMP''),
      (''timestamp[ms]'', ''TIMESTAMP''), (''timestamp[s]'', ''TIMESTAMP''),
      (''timestamp[ns, tz=UTC]'', ''TIMESTAMPTZ''), (''timestamp[us, tz=UTC]'', ''TIMESTAMPTZ''),
      (''timestamp[ms, tz=UTC]'', ''TIMESTAMPTZ''), (''timestamp[s, tz=UTC]'', ''TIMESTAMPTZ'')]"

definition ARROW_EXTENSION_TO_DUCKDB :: "(string \<times> string) list" where
  "ARROW_EXTENSION_TO_DUCKDB = [(''arrow.uuid'', ''UUID'')]"

text \<open>The extension name of an extension type.\<close>

fun extension_name :: "atype \<Rightarrow> string option" where
  "extension_name AUuid = Some ''arrow.uuid''"
| "extension_name (AExtension n) = Some n"
| "extension_name ty = None"

fun is_blob_or_json :: "atype \<Rightarrow> string" where
  "is_blob_or_json (AFixedBinary n) = ''BLOB''"
| "is_blob_or_json AStruct = ''JSON''"
| "is_blob_or_json AListT = ''JSON''"
| "is_blob_or_json AMap = ''JSON''"
| "is_blob_or_json ty = ''VARCHAR''"

definition arrow_type_to_duckdb :: "(atype \<Rightarrow> string) \<Rightarrow> atype \<Rightarrow> string" where
  "arrow_type_to_duckdb type_str ty =
     (case Option.bind (extension_name ty) (map_of ARROW_EXTENSION_TO_DUCKDB) of
        Some d \<Rightarrow> d
      | None \<Rightarrow>
          (case map_of ARROW_TO_DUCKDB (type_str ty) of
             Some d \<Rightarrow> d
           | None \<Rightarrow> is_blob_or_json ty))"

definition INFO_SCHEMA_TO_CANONICAL :: "(string \<times> string) list" where
  "INFO_SCHEMA_TO_CANONICAL = [(''TIMESTAMP WITH TIME ZONE'', ''TIMESTAMPTZ'')]"

definition normalize_duckdb_type :: "string \<Rightarrow> string" where
  "normalize_duckdb_type type_name =
     (case map_of INFO_SCHEMA_TO_CANONICAL type_name of
        Some c \<Rightarrow> c
      | None \<Rightarrow> if upper type_name = ''VARIANT'' then ''VARIANT'' else type_name)"

subsection \<open>The manager\<close>

text \<open>\<open>CatalogException\<close> is a subclass of \<open>duckdb.Error\<close>; \<open>DuckError\<close> is any other.\<close>

datatype duck_error = CatalogException | DuckError

type_synonym 'w duck = "string \<Rightarrow> string list \<Rightarrow> 'w \<Rightarrow> (duck_error + (string \<times> string) list) \<times> 'w"

record schema_manager =
  sm_table :: string
  sm_schema :: string
  known_columns :: "(string, string) dict"
  initialized :: bool

definition schema_manager_init :: "string \<Rightarrow> string \<Rightarrow> schema_manager" where
  "schema_manager_init table_name schema_name =
     \<lparr>sm_table = table_name, sm_schema = schema_name, known_columns = [], initialized = False\<rparr>"

definition columns_query :: string where
  "columns_query = ''SELECT column_name, data_type FROM information_schema.columns ''
     @ ''WHERE table_catalog = ''@ [CHR 0x27] @ ''lake'' @ [CHR 0x27] @ '' AND table_schema = ? AND table_name = ?''"

definition quoted :: "string \<Rightarrow> string" where
  "quoted name = [CHR 0x22] @ name @ [CHR 0x22]"

definition table_ref :: "schema_manager \<Rightarrow> string" where
  "table_ref sm = ''lake.'' @ sm_schema sm @ ''.'' @ sm_table sm"

definition add_column_sql :: "schema_manager \<Rightarrow> string \<Rightarrow> string \<Rightarrow> string" where
  "add_column_sql sm c ty =
     ''ALTER TABLE '' @ table_ref sm @ '' ADD COLUMN IF NOT EXISTS '' @ quoted c @ '' '' @ ty"

definition set_type_sql :: "schema_manager \<Rightarrow> string \<Rightarrow> string \<Rightarrow> string" where
  "set_type_sql sm c ty =
     ''ALTER TABLE '' @ table_ref sm @ '' ALTER COLUMN '' @ quoted c @ '' SET DATA TYPE '' @ ty"

text \<open>A dict comprehension: the last value of a repeated key wins.\<close>

definition dict_of :: "('k \<times> 'v) list \<Rightarrow> ('k, 'v) dict" where
  "dict_of kvs = fold (\<lambda>(k, v). AList.update k v) kvs []"

definition load_table_schema ::
  "'w duck \<Rightarrow> schema_manager \<Rightarrow> 'w \<Rightarrow> (duck_error + unit) \<times> schema_manager \<times> 'w" where
  "load_table_schema Q sm w =
     (case Q columns_query [sm_schema sm, sm_table sm] w of
        (Inr rows, w') \<Rightarrow>
          (Inr (), sm\<lparr>known_columns := dict_of (map (\<lambda>(n, t). (n, normalize_duckdb_type t)) rows),
                      initialized := True\<rparr>, w')
      | (Inl CatalogException, w') \<Rightarrow> (Inr (), sm\<lparr>known_columns := [], initialized := True\<rparr>, w')
      | (Inl DuckError, w') \<Rightarrow> (Inl DuckError, sm, w'))"

text \<open>\<open>Inr False\<close>: the table is missing or has no columns.\<close>

definition ensure_schema_loaded ::
  "'w duck \<Rightarrow> schema_manager \<Rightarrow> 'w \<Rightarrow> (duck_error + bool) \<times> schema_manager \<times> 'w" where
  "ensure_schema_loaded Q sm w =
     (case (if initialized sm then (Inr (), sm, w) else load_table_schema Q sm w) of
        (Inl e, sm1, w1) \<Rightarrow> (Inl e, sm1, w1)
      | (Inr u, sm1, w1) \<Rightarrow>
          if known_columns sm1 \<noteq> [] then (Inr True, sm1, w1)
          else (case load_table_schema Q sm1 w1 of
                  (Inl e, sm2, w2) \<Rightarrow> (Inl e, sm2, w2)
                | (Inr u, sm2, w2) \<Rightarrow> (Inr (known_columns sm2 \<noteq> []), sm2, w2)))"

fun find_column :: "string \<Rightarrow> (string, string) dict \<Rightarrow> string option" where
  "find_column lname [] = None"
| "find_column lname ((n, t) # cs) = (if lower n = lname then Some t else find_column lname cs)"

definition cached_type :: "schema_manager \<Rightarrow> string \<Rightarrow> string option" where
  "cached_type sm c = find_column (lower c) (known_columns sm)"

fun set_type :: "string \<Rightarrow> string \<Rightarrow> (string, string) dict \<Rightarrow> (string, string) dict" where
  "set_type c ty [] = [(c, ty)]"
| "set_type c ty ((n, t) # cs) = (if lower n = lower c then (n, ty) # cs else (n, t) # set_type c ty cs)"

definition set_column_type :: "schema_manager \<Rightarrow> string \<Rightarrow> string \<Rightarrow> schema_manager" where
  "set_column_type sm c ty = sm\<lparr>known_columns := set_type c ty (known_columns sm)\<rparr>"

definition schema_error :: metric where
  "schema_error = Inc ''errors_total'' ''schema'' 1"

definition add_column ::
  "'w duck \<Rightarrow> schema_manager \<Rightarrow> string \<Rightarrow> string \<Rightarrow> bool \<Rightarrow> 'w \<Rightarrow> bool \<times> schema_manager \<times> 'w \<times> metric list" where
  "add_column Q sm c ty require_verified w =
     (case Q (add_column_sql sm c ty) [] w of
        (Inl e, w1) \<Rightarrow> (False, sm, w1, [schema_error])
      | (Inr rows, w1) \<Rightarrow>
          (case load_table_schema Q sm w1 of
             (Inl e, sm2, w2) \<Rightarrow>
               if require_verified then (False, sm2, w2, [schema_error])
               else (True, set_column_type sm2 c ty, w2,
                     [schema_error, Inc ''schema_columns_added_total'' [] 1])
           | (Inr u, sm2, w2) \<Rightarrow>
               (case cached_type sm2 c of
                  None \<Rightarrow> (False, sm2, w2, [schema_error])
                | Some live \<Rightarrow>
                    if live \<noteq> ty then (False, sm2, w2, [schema_error])
                    else (True, sm2, w2, [Inc ''schema_columns_added_total'' [] 1]))))"

text \<open>One field of \<open>evolve\<close>.\<close>

definition evolve_field ::
  "'w duck \<Rightarrow> (atype \<Rightarrow> string) \<Rightarrow> string \<times> atype \<Rightarrow> schema_manager \<Rightarrow> 'w \<Rightarrow> schema_manager \<times> 'w \<times> metric list" where
  "evolve_field Q type_str = (\<lambda>(name, ty) sm w.
     if name = ''_inserted_at'' then (sm, w, [])
     else if \<not> SAFE_IDENTIFIER name then (sm, w, [Inc ''records_skipped_total'' ''unsafe_field_name'' 1])
     else let duckdb_type = arrow_type_to_duckdb type_str ty in
       case cached_type sm name of
         None \<Rightarrow>
           (let (ok, sm1, w1, ms) = add_column Q sm name duckdb_type False w in (sm1, w1, ms))
       | Some existing \<Rightarrow>
           if existing = duckdb_type then (sm, w, [])
           else (case Q (set_type_sql sm name duckdb_type) [] w of
                   (Inr rows, w1) \<Rightarrow>
                     (set_column_type sm name duckdb_type, w1, [Inc ''schema_columns_widened_total'' [] 1])
                 | (Inl e, w1) \<Rightarrow> (sm, w1, [schema_error])))"

fun evolve_fields ::
  "'w duck \<Rightarrow> (atype \<Rightarrow> string) \<Rightarrow> (string \<times> atype) list \<Rightarrow> schema_manager \<Rightarrow> 'w \<Rightarrow> schema_manager \<times> 'w \<times> metric list" where
  "evolve_fields Q type_str [] sm w = (sm, w, [])"
| "evolve_fields Q type_str (f # fs) sm w =
     (let (sm1, w1, ms1) = evolve_field Q type_str f sm w;
          (sm2, w2, ms2) = evolve_fields Q type_str fs sm1 w1
      in (sm2, w2, ms1 @ ms2))"

definition evolve ::
  "'w duck \<Rightarrow> (atype \<Rightarrow> string) \<Rightarrow> (string \<times> atype) list \<Rightarrow> schema_manager \<Rightarrow> 'w
     \<Rightarrow> (duck_error + unit) \<times> schema_manager \<times> 'w \<times> metric list" where
  "evolve Q type_str batch_schema sm w =
     (case ensure_schema_loaded Q sm w of
        (Inl e, sm1, w1) \<Rightarrow> (Inl e, sm1, w1, [])
      | (Inr ok, sm1, w1) \<Rightarrow>
          if \<not> ok then (Inr (), sm1, w1, [])
          else (let (sm2, w2, ms) = evolve_fields Q type_str batch_schema sm1 w1
                in (Inr (), sm2, w2, ms)))"

definition live_typed_names ::
  "string \<Rightarrow> 'w duck \<Rightarrow> schema_manager \<Rightarrow> 'w \<Rightarrow> (duck_error + string list) \<times> schema_manager \<times> 'w" where
  "live_typed_names wanted Q sm w =
     (case ensure_schema_loaded Q sm w of
        (Inl e, sm1, w1) \<Rightarrow> (Inl e, sm1, w1)
      | (Inr ok, sm1, w1) \<Rightarrow>
          (Inr (if ok then map (\<lambda>(n, t). lower n) (filter (\<lambda>(n, t). t = wanted) (known_columns sm1)) else []),
           sm1, w1))"

definition live_variant_column_names ::
  "'w duck \<Rightarrow> schema_manager \<Rightarrow> 'w \<Rightarrow> (duck_error + string list) \<times> schema_manager \<times> 'w" where
  "live_variant_column_names = live_typed_names ''VARIANT''"

definition live_uuid_column_names ::
  "'w duck \<Rightarrow> schema_manager \<Rightarrow> 'w \<Rightarrow> (duck_error + string list) \<times> schema_manager \<times> 'w" where
  "live_uuid_column_names = live_typed_names ''UUID''"

text \<open>One source of \<open>ensure_variant_columns\<close>: whether it is ready to project.\<close>

definition ensure_variant ::
  "'w duck \<Rightarrow> string \<Rightarrow> schema_manager \<Rightarrow> 'w \<Rightarrow> bool \<times> schema_manager \<times> 'w \<times> metric list" where
  "ensure_variant Q source sm w =
     (if \<not> SAFE_IDENTIFIER source then (False, sm, w, [schema_error])
      else let vname = variant_column_name source in
        case cached_type sm vname of
          Some existing \<Rightarrow>
            if existing = ''VARIANT'' then (True, sm, w, []) else (False, sm, w, [schema_error])
        | None \<Rightarrow> add_column Q sm vname ''VARIANT'' True w)"

fun ensure_variants ::
  "'w duck \<Rightarrow> string list \<Rightarrow> string list \<Rightarrow> schema_manager \<Rightarrow> 'w \<Rightarrow> string list \<times> schema_manager \<times> 'w \<times> metric list" where
  "ensure_variants Q present_lower [] sm w = ([], sm, w, [])"
| "ensure_variants Q present_lower (source # sources) sm w =
     (if lower source \<notin> set present_lower then ensure_variants Q present_lower sources sm w
      else (let (ok, sm1, w1, ms1) = ensure_variant Q source sm w;
                (ready, sm2, w2, ms2) = ensure_variants Q present_lower sources sm1 w1
            in (if ok then source # ready else ready, sm2, w2, ms1 @ ms2)))"

definition ensure_variant_columns ::
  "'w duck \<Rightarrow> string list \<Rightarrow> string list \<Rightarrow> schema_manager \<Rightarrow> 'w
     \<Rightarrow> (duck_error + string list) \<times> schema_manager \<times> 'w \<times> metric list" where
  "ensure_variant_columns Q sources present sm w =
     (if sources = [] then (Inr [], sm, w, [])
      else case ensure_schema_loaded Q sm w of
        (Inl e, sm1, w1) \<Rightarrow> (Inl e, sm1, w1, [])
      | (Inr ok, sm1, w1) \<Rightarrow>
          if \<not> ok then (Inr [], sm1, w1, [])
          else (let (ready, sm2, w2, ms) = ensure_variants Q (map lower present) sources sm1 w1
                in (Inr ready, sm2, w2, ms)))"

definition invalidate :: "schema_manager \<Rightarrow> schema_manager" where
  "invalidate sm = sm\<lparr>initialized := False\<rparr>"

subsection \<open>What DuckDB promises\<close>

text \<open>
  \<open>live w\<close> are the columns of the table in the catalog, none when there is no table. Column names are
  case-insensitive; a failed statement changes nothing; \<open>ADD COLUMN IF NOT EXISTS\<close> does nothing when
  the column exists under any type; the catalog may report a type under another spelling. The statements
  are only understood when the column name has no quote in it.
\<close>

definition canon :: "(string \<times> string) list \<Rightarrow> (string \<times> string) list" where
  "canon cs = map (\<lambda>(n, t). (n, normalize_duckdb_type t)) cs"

definition lower_names :: "(string \<times> 'a) list \<Rightarrow> string list" where
  "lower_names cs = map (\<lambda>(n, t). lower n) cs"

definition query_law :: "'w duck \<Rightarrow> ('w \<Rightarrow> (string \<times> string) list) \<Rightarrow> schema_manager \<Rightarrow> bool" where
  "query_law Q live sm \<longleftrightarrow> (\<forall>w res w'. Q columns_query [sm_schema sm, sm_table sm] w = (res, w') \<longrightarrow>
     live w' = live w
     \<and> (case res of Inr rows \<Rightarrow> rows = live w | Inl e \<Rightarrow> e = CatalogException \<longrightarrow> live w = []))"

definition add_law :: "'w duck \<Rightarrow> ('w \<Rightarrow> (string \<times> string) list) \<Rightarrow> schema_manager \<Rightarrow> bool" where
  "add_law Q live sm \<longleftrightarrow> (\<forall>c ty w res w'. CHR 0x22 \<notin> set c \<longrightarrow> Q (add_column_sql sm c ty) [] w = (res, w') \<longrightarrow>
     (case res of
        Inl e \<Rightarrow> live w' = live w
      | Inr rows \<Rightarrow> if lower c \<in> set (lower_names (live w)) then live w' = live w
                    else (\<exists>t. normalize_duckdb_type t = ty \<and> live w' = live w @ [(c, t)])))"

definition retype :: "string \<Rightarrow> string \<Rightarrow> (string \<times> string) list \<Rightarrow> (string \<times> string) list" where
  "retype c t cs = map (\<lambda>(n, t0). (n, if lower n = lower c then t else t0)) cs"

definition set_type_law :: "'w duck \<Rightarrow> ('w \<Rightarrow> (string \<times> string) list) \<Rightarrow> schema_manager \<Rightarrow> bool" where
  "set_type_law Q live sm \<longleftrightarrow> (\<forall>c ty w res w'. CHR 0x22 \<notin> set c \<longrightarrow> Q (set_type_sql sm c ty) [] w = (res, w') \<longrightarrow>
     (case res of
        Inl e \<Rightarrow> live w' = live w
      | Inr rows \<Rightarrow> \<exists>t. normalize_duckdb_type t = ty \<and> live w' = retype c t (live w)))"

definition duck_law :: "'w duck \<Rightarrow> ('w \<Rightarrow> (string \<times> string) list) \<Rightarrow> schema_manager \<Rightarrow> bool" where
  "duck_law Q live sm \<longleftrightarrow> query_law Q live sm \<and> add_law Q live sm \<and> set_type_law Q live sm
     \<and> (\<forall>w. distinct (lower_names (live w)))"

lemma duck_law_cong: "sm_schema sm' = sm_schema sm \<Longrightarrow> sm_table sm' = sm_table sm \<Longrightarrow>
    duck_law Q live sm' = duck_law Q live sm"
  by (simp add: duck_law_def query_law_def add_law_def set_type_law_def add_column_sql_def
      set_type_sql_def table_ref_def)

lemma safe_unquoted: "SAFE_IDENTIFIER s \<Longrightarrow> CHR 0x22 \<notin> set s"
proof -
  assume safe: "SAFE_IDENTIFIER s"
  define t where "t = (if s \<noteq> [] \<and> last s = CHR 0x0A then butlast s else s)"
  have "t \<noteq> []" "ident_start (hd t)" "\<forall>c \<in> set (tl t). ident_char c"
    using safe unfolding SAFE_IDENTIFIER_def Let_def t_def[symmetric] by simp_all
  then have "\<forall>c \<in> set t. ident_char c"
    by (cases t) (simp_all add: ident_char_def)
  moreover have "\<not> ident_char (CHR 0x22)"
    by (simp add: ident_char_def ident_start_def is_alpha_def is_digit_def code_def)
  moreover have "set s \<subseteq> set t \<union> {CHR 0x0A}"
    by (cases s rule: rev_cases) (auto simp: t_def)
  ultimately show ?thesis
    by auto
qed

lemma variant_name_unquoted: "SAFE_IDENTIFIER s \<Longrightarrow> CHR 0x22 \<notin> set (variant_column_name s)"
  using safe_unquoted by (auto simp: variant_column_name_def VARIANT_COLUMN_SUFFIX_def)

lemma duckdb_type_not_variant: "arrow_type_to_duckdb type_str ty \<noteq> ''VARIANT''"
proof -
  have "''VARIANT'' \<notin> snd ` set ARROW_TO_DUCKDB" "''VARIANT'' \<notin> snd ` set ARROW_EXTENSION_TO_DUCKDB"
    by (simp_all add: ARROW_TO_DUCKDB_def ARROW_EXTENSION_TO_DUCKDB_def)
  then have "map_of ARROW_TO_DUCKDB k \<noteq> Some ''VARIANT''"
    "map_of ARROW_EXTENSION_TO_DUCKDB k \<noteq> Some ''VARIANT''" for k
    by (metis image_eqI map_of_SomeD snd_conv)+
  moreover have "is_blob_or_json ty \<noteq> ''VARIANT''"
    by (cases ty) simp_all
  ultimately show ?thesis
    by (auto simp: arrow_type_to_duckdb_def split: option.splits bind_splits)
qed

lemma dict_of_distinct:
  assumes "distinct (map fst kvs)"
  shows "dict_of kvs = kvs"
proof -
  have "fold (\<lambda>(k, v). AList.update k v) kvs acc = acc @ kvs" if "distinct (map fst (acc @ kvs))" for acc
    using that
  proof (induction kvs arbitrary: acc)
    case (Cons kv kvs)
    obtain k v where kv: "kv = (k, v)" by fastforce
    have "AList.update k v acc = acc @ [(k, v)]"
      using Cons.prems by (induction acc) (auto simp: kv)
    then show ?case
      using Cons.IH[of "acc @ [(k, v)]"] Cons.prems by (simp add: kv)
  qed simp
  from this[of "[]"] assms show ?thesis
    by (simp add: dict_of_def)
qed

lemma lower_names_canon [simp]: "lower_names (canon cs) = lower_names cs"
  by (induction cs) (auto simp: lower_names_def canon_def)

lemma distinct_names: "distinct (lower_names cs) \<Longrightarrow> distinct (map fst cs)"
  by (induction cs) (auto simp: lower_names_def rev_image_eqI)

lemma dict_of_canon: "distinct (lower_names cs) \<Longrightarrow> dict_of (canon cs) = canon cs"
  using dict_of_distinct[OF distinct_names[of "canon cs"]] by simp

subsection \<open>The cache and the catalog\<close>

definition coherent :: "('w \<Rightarrow> (string \<times> string) list) \<Rightarrow> schema_manager \<Rightarrow> 'w \<Rightarrow> bool" where
  "coherent live sm w \<longleftrightarrow> (initialized sm \<longrightarrow> known_columns sm = canon (live w))"

definition has_variant :: "('w \<Rightarrow> (string \<times> string) list) \<Rightarrow> 'w \<Rightarrow> string \<Rightarrow> bool" where
  "has_variant live w l \<longleftrightarrow>
     (\<exists>(m, t) \<in> set (live w). lower m = l \<and> normalize_duckdb_type t = ''VARIANT'')"

text \<open>A weaker relation that also survives an unverified \<open>ADD COLUMN\<close>: what the cache calls VARIANT is
  VARIANT.\<close>

definition variant_ok :: "('w \<Rightarrow> (string \<times> string) list) \<Rightarrow> schema_manager \<Rightarrow> 'w \<Rightarrow> bool" where
  "variant_ok live sm w \<longleftrightarrow> distinct (lower_names (known_columns sm))
     \<and> (initialized sm \<longrightarrow> (\<forall>(n, t) \<in> set (known_columns sm). t = ''VARIANT'' \<longrightarrow> has_variant live w (lower n)))"

definition same_table :: "schema_manager \<Rightarrow> schema_manager \<Rightarrow> bool" where
  "same_table sm sm' \<longleftrightarrow> sm_schema sm' = sm_schema sm \<and> sm_table sm' = sm_table sm"

lemma same_table_law: "same_table sm sm' \<Longrightarrow> duck_law Q live sm' = duck_law Q live sm"
  using duck_law_cong by (auto simp: same_table_def)

lemma same_table_trans: "same_table a b \<Longrightarrow> same_table b c \<Longrightarrow> same_table a c"
  by (simp add: same_table_def)

lemma same_table_refl [simp]: "same_table sm sm" "same_table sm (set_column_type sm c ty)"
  by (simp_all add: same_table_def set_column_type_def)

lemma coherent_variant_ok:
  "duck_law Q live sm0 \<Longrightarrow> known_columns sm = canon (live w) \<Longrightarrow> variant_ok live sm w"
  by (auto simp: variant_ok_def has_variant_def duck_law_def) (force simp: canon_def)

lemma load_effect:
  assumes "duck_law Q live sm" "load_table_schema Q sm w = (res, sm', w')"
  shows "live w' = live w \<and> same_table sm sm'
    \<and> (case res of Inl e \<Rightarrow> sm' = sm | Inr u \<Rightarrow> initialized sm' \<and> known_columns sm' = canon (live w'))"
proof -
  obtain out w1 where q: "Q columns_query [sm_schema sm, sm_table sm] w = (out, w1)" by fastforce
  have "live w1 = live w" "case out of Inr rows \<Rightarrow> rows = live w | Inl e \<Rightarrow> e = CatalogException \<longrightarrow> live w = []"
    using assms(1) q by (auto simp: duck_law_def query_law_def)
  moreover have "dict_of (map (\<lambda>(n, t). (n, normalize_duckdb_type t)) (live w)) = canon (live w)"
    using dict_of_canon[of "live w"] assms(1) by (simp add: duck_law_def canon_def)
  ultimately show ?thesis
    using assms(2) q
    by (auto simp: load_table_schema_def same_table_def canon_def split: sum.splits duck_error.splits)
qed

lemma ensure_effect:
  assumes "duck_law Q live sm" "ensure_schema_loaded Q sm w = (res, sm', w')"
  shows "live w' = live w \<and> same_table sm sm'
    \<and> (sm' = sm \<or> initialized sm' \<and> known_columns sm' = canon (live w'))
    \<and> (case res of Inl e \<Rightarrow> True | Inr ok \<Rightarrow> initialized sm' \<and> ok = (known_columns sm' \<noteq> []) \<and> (ok \<or> live w' = []))"
proof -
  obtain r1 sm1 w1 where l: "(if initialized sm then (Inr (), sm, w) else load_table_schema Q sm w) = (r1, sm1, w1)"
    by (metis prod_cases3)
  have one: "live w1 = live w \<and> same_table sm sm1 \<and> (sm1 = sm \<or> initialized sm1 \<and> known_columns sm1 = canon (live w1))
      \<and> (r1 = Inr () \<longrightarrow> initialized sm1)"
    using load_effect[OF assms(1), of w r1 sm1 w1] l by (auto split: if_splits sum.splits)
  show ?thesis
  proof (cases r1)
    case (Inl e)
    then show ?thesis
      using assms(2) l one by (auto simp: ensure_schema_loaded_def)
  next
    case (Inr u)
    obtain r2 sm2 w2 where l2: "load_table_schema Q sm1 w1 = (r2, sm2, w2)"
      by (metis prod_cases3)
    show ?thesis
    proof (cases "known_columns sm1 = []")
      case False
      then show ?thesis
        using assms(2) l one Inr by (auto simp: ensure_schema_loaded_def)
    next
      case True
      have "duck_law Q live sm1"
        using one same_table_law assms(1) by blast
      from load_effect[OF this l2] show ?thesis
        using assms(2) l l2 one Inr True
        by (auto simp: ensure_schema_loaded_def same_table_def canon_def split: sum.splits)
    qed
  qed
qed

lemma find_column_canon:
  "find_column l (canon cs) = map_of (map (\<lambda>(n, t). (lower n, normalize_duckdb_type t)) cs) l"
  by (induction cs) (auto simp: canon_def)

lemma find_column_SomeD: "find_column l cs = Some t \<Longrightarrow> \<exists>n. (n, t) \<in> set cs \<and> lower n = l"
  by (induction cs) (auto split: if_splits)

lemma lower_names_simps [simp]: "lower_names [] = []" "lower_names ((n, t) # cs) = lower n # lower_names cs"
  by (simp_all add: lower_names_def)

lemma lower_names_empty [simp]: "lower_names cs = [] \<longleftrightarrow> cs = []"
  by (simp add: lower_names_def)

lemma lower_in_names: "(n, t) \<in> set cs \<Longrightarrow> lower n \<in> set (lower_names cs)"
  by (force simp: lower_names_def)

lemma find_column_NoneD: "find_column l cs = None \<longleftrightarrow> l \<notin> set (lower_names cs)"
  by (induction cs) (auto split: if_splits)

lemma find_column_set: "find_column l (set_type c ty cs) = (if l = lower c then Some ty else find_column l cs)"
  by (induction cs) auto

lemma lower_names_set_type:
  "lower_names (set_type c ty cs) = (if lower c \<in> set (lower_names cs) then lower_names cs else lower_names cs @ [lower c])"
  by (induction cs) auto

lemma set_type_elem: "distinct (lower_names cs) \<Longrightarrow> (n, t) \<in> set (set_type c ty cs) \<Longrightarrow>
    lower n = lower c \<and> t = ty \<or> lower n \<noteq> lower c \<and> (n, t) \<in> set cs"
  by (induction cs) (auto split: if_splits, metis lower_in_names)

lemma set_type_canon:
  "distinct (lower_names cs) \<Longrightarrow> lower c \<in> set (lower_names cs) \<Longrightarrow>
     set_type c (normalize_duckdb_type t) (canon cs) = canon (retype c t cs)"
proof (induction cs)
  case (Cons x cs)
  obtain n t0 where x: "x = (n, t0)" by fastforce
  have same: "retype c t cs = cs" if "lower c \<notin> set (lower_names cs)" for cs
    using that by (induction cs) (auto simp: retype_def)
  show ?case
  proof (cases "lower n = lower c")
    case True
    then have "retype c t cs = cs"
      using Cons.prems(1) x by (intro same) simp
    then show ?thesis
      using True by (simp add: x canon_def retype_def)
  next
    case False
    then show ?thesis
      using Cons by (simp add: x canon_def retype_def)
  qed
qed simp

lemma has_variant_retype:
  "has_variant live w l \<Longrightarrow> live w' = retype c t (live w) \<Longrightarrow> l \<noteq> lower c \<Longrightarrow> has_variant live w' l"
proof -
  assume a: "has_variant live w l" "live w' = retype c t (live w)" "l \<noteq> lower c"
  then obtain m t0 where m: "(m, t0) \<in> set (live w)" "lower m = l" "normalize_duckdb_type t0 = ''VARIANT''"
    by (auto simp: has_variant_def)
  then have "(m, t0) \<in> set (retype c t (live w))"
    using a(3) by (force simp: retype_def)
  then show ?thesis
    using a(2) m by (auto simp: has_variant_def)
qed

lemma has_variant_append:
  "has_variant live w l \<Longrightarrow> live w' = live w @ cs \<Longrightarrow> has_variant live w' l"
  by (auto simp: has_variant_def)

lemma has_variant_cong: "live w' = live w \<Longrightarrow> has_variant live w' l = has_variant live w l"
  by (simp add: has_variant_def)

subsection \<open>Each operation on cache and catalog\<close>

definition errors :: "metric list \<Rightarrow> int" where
  "errors ms = counted ''errors_total'' ''schema'' ms"

lemma errors_simps [simp]:
  "errors [] = 0" "errors (ms @ ns) = errors ms + errors ns" "errors (schema_error # ms) = 1 + errors ms"
  "errors (Inc ''schema_columns_added_total'' l k # ms) = errors ms"
  "errors (Inc ''schema_columns_widened_total'' l k # ms) = errors ms"
  "errors (Inc ''records_skipped_total'' l k # ms) = errors ms"
  by (simp_all add: errors_def schema_error_def)

lemma add_column_effect:
  assumes law: "duck_law Q live sm" and c: "CHR 0x22 \<notin> set c" and v: "variant_ok live sm w"
    and ty: "ty \<noteq> ''VARIANT'' \<or> require_verified" and init: "initialized sm"
    and add: "add_column Q sm c ty require_verified w = (ok, sm', w', ms)"
  shows "same_table sm sm' \<and> initialized sm' \<and> variant_ok live sm' w' \<and> 0 \<le> errors ms"
    and "\<exists>new. live w' = live w @ new \<and> lower_names new = (if new = [] then [] else [lower c])
      \<and> (lower c \<in> set (lower_names (live w)) \<longrightarrow> new = [])"
    and "errors ms = 0 \<Longrightarrow> ok \<and> known_columns sm' = canon (live w') \<and> cached_type sm' c = Some ty"
    and "require_verified \<Longrightarrow> errors ms = (if ok then 0 else 1)"
proof -
  obtain r1 w1 where q: "Q (add_column_sql sm c ty) [] w = (r1, w1)" by fastforce
  have live1: "case r1 of Inl e \<Rightarrow> live w1 = live w
      | Inr rows \<Rightarrow> if lower c \<in> set (lower_names (live w)) then live w1 = live w
                    else (\<exists>t. normalize_duckdb_type t = ty \<and> live w1 = live w @ [(c, t)])"
    using law c q by (auto simp: duck_law_def add_law_def)
  obtain r2 sm2 w2 where l: "load_table_schema Q sm w1 = (r2, sm2, w2)" by (metis prod_cases3)
  note load = load_effect[OF law l]
  have live2: "\<exists>new. live w1 = live w @ new \<and> lower_names new = (if new = [] then [] else [lower c])
      \<and> (lower c \<in> set (lower_names (live w)) \<longrightarrow> new = [])"
  proof (cases r1)
    case (Inl e)
    then show ?thesis
      using live1 by (intro exI[of _ "[]"]) simp
  next
    case (Inr rows)
    show ?thesis
    proof (cases "lower c \<in> set (lower_names (live w))")
      case True
      then show ?thesis
        using live1 Inr by (intro exI[of _ "[]"]) simp
    next
      case False
      then obtain t where "live w1 = live w @ [(c, t)]"
        using live1 Inr by auto
      then show ?thesis
        using False by (intro exI[of _ "[(c, t)]"]) simp
    qed
  qed
  have keeps: "variant_ok live sm u" if grown: "\<exists>new. live u = live w @ new" for u
  proof -
    obtain new where "live u = live w @ new"
      using grown by blast
    then show ?thesis
      using v has_variant_append[of live w _ u new] by (auto simp: variant_ok_def)
  qed
  have w': "w' = (case r1 of Inl e \<Rightarrow> w1 | Inr rows \<Rightarrow> w2)"
    using add q l by (cases r1; cases r2; cases "cached_type sm2 c") (auto simp: add_column_def split: if_splits)
  show "\<exists>new. live w' = live w @ new \<and> lower_names new = (if new = [] then [] else [lower c])
      \<and> (lower c \<in> set (lower_names (live w)) \<longrightarrow> new = [])"
  proof -
    have "live w' = live w1"
      using load w' by (cases r1) simp_all
    then show ?thesis
      using live2 by simp
  qed
  consider (fail) e where "r1 = Inl e" "sm' = sm" "w' = w1" "ok = False" "errors ms = 1"
    | (verify) rows e where "r1 = Inr rows" "r2 = Inl e" "require_verified" "sm' = sm2" "w' = w2" "ok = False"
        "errors ms = 1"
    | (trust) rows e where "r1 = Inr rows" "r2 = Inl e" "\<not> require_verified" "sm' = set_column_type sm2 c ty"
        "w' = w2" "ok" "errors ms = 1"
    | (loaded) rows u where "r1 = Inr rows" "r2 = Inr u" "sm' = sm2" "w' = w2"
        "ok \<longleftrightarrow> cached_type sm2 c = Some ty" "errors ms = (if ok then 0 else 1)"
    using add q l by (cases r1; cases r2; cases "cached_type sm2 c")
      (auto simp: add_column_def split: if_splits)
  note outcome = this
  show "same_table sm sm' \<and> initialized sm' \<and> variant_ok live sm' w' \<and> 0 \<le> errors ms"
  proof (cases rule: outcome)
    case fail
    then show ?thesis
      using keeps[of w1] live2 init by auto
  next
    case verify
    then show ?thesis
      using keeps[of w2] live2 load init by auto
  next
    case trust
    have "variant_ok live sm w2"
      using keeps[of w2] live2 load by auto
    then have "variant_ok live sm' w'"
      using trust load ty init
      by (auto simp: variant_ok_def set_column_type_def lower_names_set_type dest!: set_type_elem)
    then show ?thesis
      using trust load init by (auto simp: set_column_type_def same_table_def)
  next
    case loaded
    then show ?thesis
      using load coherent_variant_ok[OF law, of sm2 w2] by auto
  qed
  show "errors ms = 0 \<Longrightarrow> ok \<and> known_columns sm' = canon (live w') \<and> cached_type sm' c = Some ty"
    using load by (cases rule: outcome) (auto split: if_splits)
  show "require_verified \<Longrightarrow> errors ms = (if ok then 0 else 1)"
    by (cases rule: outcome) auto
qed

lemma set_type_effect:
  assumes "duck_law Q live sm" "CHR 0x22 \<notin> set c" "Q (set_type_sql sm c ty) [] w = (res, w')"
  shows "res = Inl e \<Longrightarrow> live w' = live w"
    and "res = Inr rows \<Longrightarrow> \<exists>t. normalize_duckdb_type t = ty \<and> live w' = retype c t (live w)"
proof -
  have "case res of Inl e \<Rightarrow> live w' = live w
      | Inr rows \<Rightarrow> \<exists>t. normalize_duckdb_type t = ty \<and> live w' = retype c t (live w)"
    using assms unfolding duck_law_def set_type_law_def by blast
  then show "res = Inl e \<Longrightarrow> live w' = live w"
    "res = Inr rows \<Longrightarrow> \<exists>t. normalize_duckdb_type t = ty \<and> live w' = retype c t (live w)"
    by simp_all
qed

lemma lower_names_retype [simp]: "lower_names (retype c t cs) = lower_names cs"
  by (simp add: retype_def lower_names_def split_beta)

text \<open>The fields \<open>evolve\<close> reconciles.\<close>

definition managed_field :: "string \<Rightarrow> bool" where
  "managed_field name \<longleftrightarrow> name \<noteq> ''_inserted_at'' \<and> SAFE_IDENTIFIER name"

lemma evolve_field_effect:
  assumes law: "duck_law Q live sm" and v: "variant_ok live sm w" and init: "initialized sm"
    and ev: "evolve_field Q type_str (name, ty) sm w = (sm', w', ms)"
  shows "same_table sm sm' \<and> initialized sm' \<and> variant_ok live sm' w' \<and> 0 \<le> errors ms"
    and "\<exists>new. lower_names (live w') = lower_names (live w) @ new"
    and "errors ms = 0 \<Longrightarrow> known_columns sm = canon (live w) \<Longrightarrow>
      known_columns sm' = canon (live w')
      \<and> (managed_field name \<longrightarrow> cached_type sm' name = Some (arrow_type_to_duckdb type_str ty))
      \<and> (\<forall>l. l \<noteq> lower name \<longrightarrow> find_column l (known_columns sm') = find_column l (known_columns sm))"
proof -
  let ?ty = "arrow_type_to_duckdb type_str ty"
  have nv: "?ty \<noteq> ''VARIANT''" "''VARIANT'' \<noteq> ?ty"
    using duckdb_type_not_variant[of type_str ty] by metis+
  consider (skip) "\<not> managed_field name" "sm' = sm" "w' = w" "errors ms = 0"
    | (add) ok where "managed_field name" "cached_type sm name = None"
        "add_column Q sm name ?ty False w = (ok, sm', w', ms)"
    | (equal) "managed_field name" "cached_type sm name = Some ?ty" "sm' = sm" "w' = w" "errors ms = 0"
    | (widen) rows old where "managed_field name" "cached_type sm name = Some old" "old \<noteq> ?ty"
        "Q (set_type_sql sm name ?ty) [] w = (Inr rows, w')" "sm' = set_column_type sm name ?ty" "errors ms = 0"
    | (refused) e where "managed_field name" "Q (set_type_sql sm name ?ty) [] w = (Inl e, w')" "sm' = sm"
        "errors ms = 1"
  proof (cases "managed_field name")
    case False
    then show ?thesis
      using ev by (intro that(1)) (auto simp: evolve_field_def managed_field_def split: if_splits)
  next
    case True
    then have step: "(case cached_type sm name of
         None \<Rightarrow> (let (ok, sm1, w1, ms) = add_column Q sm name ?ty False w in (sm1, w1, ms))
       | Some existing \<Rightarrow>
           if existing = ?ty then (sm, w, [])
           else (case Q (set_type_sql sm name ?ty) [] w of
                   (Inr rows, w1) \<Rightarrow>
                     (set_column_type sm name ?ty, w1, [Inc ''schema_columns_widened_total'' [] 1])
                 | (Inl e, w1) \<Rightarrow> (sm, w1, [schema_error]))) = (sm', w', ms)"
      using ev by (simp add: evolve_field_def managed_field_def Let_def)
    show ?thesis
    proof (cases "cached_type sm name")
      case None
      then show ?thesis
        using step True that(2) by (auto simp: Let_def split: prod.splits)
    next
      case (Some old)
      obtain res w1 where q: "Q (set_type_sql sm name ?ty) [] w = (res, w1)" by fastforce
      note step' = step[unfolded Some option.case q prod.case]
      show ?thesis
      proof (cases "old = ?ty")
        case True
        then show ?thesis
          using step' Some \<open>managed_field name\<close> by (intro that(3)) auto
      next
        case False
        show ?thesis
        proof (cases res)
          case (Inl e)
          then show ?thesis
            using step' q False \<open>managed_field name\<close> by (intro that(5)[of e]) auto
        next
          case (Inr rows)
          then show ?thesis
            using step' q False Some \<open>managed_field name\<close> by (intro that(4)[of old rows]) auto
        qed
      qed
    qed
  qed
  note outcome = this
  have quote: "CHR 0x22 \<notin> set name" if "managed_field name"
    using that safe_unquoted by (simp add: managed_field_def)
  show "same_table sm sm' \<and> initialized sm' \<and> variant_ok live sm' w' \<and> 0 \<le> errors ms"
  proof (cases rule: outcome)
    case add
    show ?thesis
      using add_column_effect(1)[OF law quote[OF add(1)] v _ init add(3)] nv by auto
  next
    case widen
    obtain t where "live w' = retype name t (live w)"
      using set_type_effect(2)[OF law quote[OF widen(1)] widen(4) refl] by blast
    then have "has_variant live w' l" if "has_variant live w l" "l \<noteq> lower name" for l
      using has_variant_retype[OF that(1) _ that(2)] by blast
    then have "variant_ok live sm' w'"
      using v widen nv
      by (auto simp: variant_ok_def set_column_type_def lower_names_set_type dest!: set_type_elem)
    then show ?thesis
      using widen init by (simp add: set_column_type_def same_table_def)
  next
    case refused
    have "live w' = live w"
      by (rule set_type_effect(1)[OF law quote[OF refused(1)] refused(2) refl])
    then have "variant_ok live sm' w'"
      using v refused(3) has_variant_cong[of live w' w] by (simp add: variant_ok_def)
    then show ?thesis
      using refused init by simp
  qed (use v init in simp_all)
  show "\<exists>new. lower_names (live w') = lower_names (live w) @ new"
  proof (cases rule: outcome)
    case add
    show ?thesis
      using add_column_effect(2)[OF law quote[OF add(1)] v _ init add(3)] nv
      by (auto simp: lower_names_def)
  next
    case widen
    obtain t where "live w' = retype name t (live w)"
      using set_type_effect(2)[OF law quote[OF widen(1)] widen(4) refl] by blast
    then show ?thesis
      by simp
  next
    case refused
    have "live w' = live w"
      by (rule set_type_effect(1)[OF law quote[OF refused(1)] refused(2) refl])
    then show ?thesis
      by simp
  qed simp_all
  show "known_columns sm' = canon (live w')
      \<and> (managed_field name \<longrightarrow> cached_type sm' name = Some ?ty)
      \<and> (\<forall>l. l \<noteq> lower name \<longrightarrow> find_column l (known_columns sm') = find_column l (known_columns sm))"
    if clean: "errors ms = 0" and coh: "known_columns sm = canon (live w)"
  proof (cases rule: outcome)
    case add
    note a = add_column_effect[OF law quote[OF add(1)] v _ init add(3)]
    obtain new where "live w' = live w @ new" "lower_names new = (if new = [] then [] else [lower name])"
      using a(2) nv by blast
    moreover have "find_column l (canon (cs @ new)) = find_column l (canon cs)" if "l \<notin> set (lower_names new)" for l cs
      using that by (induction cs) (auto simp: canon_def find_column_NoneD lower_names_def split_beta)
    ultimately show ?thesis
      using a(3) clean coh nv by (auto split: if_splits)
  next
    case widen
    obtain t where t: "live w' = retype name t (live w)" "normalize_duckdb_type t = ?ty"
      using set_type_effect(2)[OF law quote[OF widen(1)] widen(4) refl] by blast
    have "lower name \<in> set (lower_names (live w))"
      using widen(2) coh find_column_NoneD[of "lower name" "canon (live w)"] by (auto simp: cached_type_def)
    then have "known_columns sm' = canon (live w')"
      using set_type_canon[of "live w" name t] law widen coh t
      by (simp add: duck_law_def set_column_type_def)
    moreover have "find_column l (known_columns sm') = (if l = lower name then Some ?ty else find_column l (known_columns sm))" for l
      using widen(5) by (simp add: set_column_type_def find_column_set)
    ultimately show ?thesis
      by (simp add: cached_type_def)
  qed (use clean coh in simp_all)
qed

lemma evolve_fields_effect:
  "duck_law Q live sm \<Longrightarrow> variant_ok live sm w \<Longrightarrow> initialized sm \<Longrightarrow>
     evolve_fields Q type_str fs sm w = (sm', w', ms) \<Longrightarrow>
     same_table sm sm' \<and> initialized sm' \<and> variant_ok live sm' w' \<and> 0 \<le> errors ms
     \<and> (\<exists>new. lower_names (live w') = lower_names (live w) @ new)"
proof (induction fs arbitrary: sm w sm' w' ms)
  case (Cons f fs)
  obtain name ty where f: "f = (name, ty)" by fastforce
  obtain sm1 w1 ms1 sm2 w2 ms2 where 1: "evolve_field Q type_str (name, ty) sm w = (sm1, w1, ms1)"
    and 2: "evolve_fields Q type_str fs sm1 w1 = (sm2, w2, ms2)" by (metis prod_cases3)
  note e1 = evolve_field_effect(1,2)[OF Cons.prems(1-3) 1]
  then have "duck_law Q live sm1"
    using Cons.prems(1) same_table_law by blast
  from Cons.IH[OF this _ _ 2] show ?case
    using Cons.prems(4) e1 by (auto simp: f 1 2 intro: same_table_trans)
qed simp

lemma evolve_fields_settled:
  "duck_law Q live sm \<Longrightarrow> variant_ok live sm w \<Longrightarrow> initialized sm \<Longrightarrow> known_columns sm = canon (live w) \<Longrightarrow>
     evolve_fields Q type_str fs sm w = (sm', w', ms) \<Longrightarrow> errors ms = 0 \<Longrightarrow> distinct (lower_names fs) \<Longrightarrow>
     known_columns sm' = canon (live w')
     \<and> (\<forall>(name, ty) \<in> set fs. managed_field name \<longrightarrow>
          cached_type sm' name = Some (arrow_type_to_duckdb type_str ty))
     \<and> (\<forall>l. l \<notin> set (lower_names fs) \<longrightarrow> find_column l (known_columns sm') = find_column l (known_columns sm))"
proof (induction fs arbitrary: sm w sm' w' ms)
  case (Cons f fs)
  obtain name ty where f: "f = (name, ty)" by fastforce
  obtain sm1 w1 ms1 sm2 w2 ms2 where 1: "evolve_field Q type_str (name, ty) sm w = (sm1, w1, ms1)"
    and 2: "evolve_fields Q type_str fs sm1 w1 = (sm2, w2, ms2)" by (metis prod_cases3)
  have eq: "sm' = sm2" "w' = w2" "ms = ms1 @ ms2"
    using Cons.prems(5) by (simp_all add: f 1 2)
  note e1 = evolve_field_effect[OF Cons.prems(1-3) 1]
  have law1: "duck_law Q live sm1"
    using e1(1) Cons.prems(1) same_table_law by blast
  have e2: "0 \<le> errors ms2"
    using evolve_fields_effect[OF law1 _ _ 2] e1(1) by blast
  then have clean: "errors ms1 = 0" "errors ms2 = 0"
    using Cons.prems(6) e1(1) by (auto simp: eq)
  note settled = e1(3)[OF clean(1) Cons.prems(4)]
  have names: "lower name \<notin> set (lower_names fs)" "distinct (lower_names fs)"
    using Cons.prems(7) by (simp_all add: f)
  note rest = Cons.IH[OF law1 _ _ _ 2 clean(2) names(2)]
  have rest: "known_columns sm2 = canon (live w2)"
    "\<forall>(name, ty) \<in> set fs. managed_field name \<longrightarrow> cached_type sm2 name = Some (arrow_type_to_duckdb type_str ty)"
    "\<forall>l. l \<notin> set (lower_names fs) \<longrightarrow> find_column l (known_columns sm2) = find_column l (known_columns sm1)"
    using rest e1(1) settled by blast+
  have "cached_type sm2 name = cached_type sm1 name"
    using rest(3) names(1) unfolding cached_type_def by blast
  moreover have "find_column l (known_columns sm2) = find_column l (known_columns sm)"
    if "l \<notin> set (lower_names (f # fs))" for l
  proof -
    have "l \<notin> set (lower_names fs)" "l \<noteq> lower name"
      using that by (simp_all add: f)
    then show ?thesis
      using rest(3) settled by metis
  qed
  ultimately show ?case
    using rest(1,2) settled by (simp add: f eq)
qed simp

definition skip_metric :: metric where
  "skip_metric = Inc ''records_skipped_total'' ''unsafe_field_name'' 1"

lemma evolve_fields_quiet:
  "(\<forall>(name, ty) \<in> set fs. managed_field name \<longrightarrow> cached_type sm name = Some (arrow_type_to_duckdb type_str ty)) \<Longrightarrow>
     evolve_fields Q type_str fs sm w = (sm, w,
       map (\<lambda>f. skip_metric) (filter (\<lambda>(name, ty). name \<noteq> ''_inserted_at'' \<and> \<not> SAFE_IDENTIFIER name) fs))"
proof (induction fs)
  case (Cons f fs)
  obtain name ty where f: "f = (name, ty)" by fastforce
  have "evolve_field Q type_str (name, ty) sm w = (sm, w,
      if name \<noteq> ''_inserted_at'' \<and> \<not> SAFE_IDENTIFIER name then [skip_metric] else [])"
    using Cons.prems by (simp add: f evolve_field_def managed_field_def skip_metric_def)
  then show ?case
    using Cons by (simp add: f)
qed simp

lemma cached_variant:
  assumes "variant_ok live sm w" "initialized sm" "cached_type sm c = Some ''VARIANT''"
  shows "has_variant live w (lower c)"
proof -
  obtain n where "(n, ''VARIANT'') \<in> set (known_columns sm)" "lower n = lower c"
    using assms(3) find_column_SomeD[of "lower c"] unfolding cached_type_def by metis
  then show ?thesis
    using assms(1,2) by (auto simp: variant_ok_def)
qed

lemma ensure_variants_effect:
  "duck_law Q live sm \<Longrightarrow> variant_ok live sm w \<Longrightarrow> initialized sm \<Longrightarrow>
     ensure_variants Q present sources sm w = (ready, sm', w', ms) \<Longrightarrow>
     same_table sm sm' \<and> initialized sm' \<and> variant_ok live sm' w' \<and> (\<exists>new. live w' = live w @ new)
     \<and> (\<forall>s \<in> set ready. s \<in> set sources \<and> lower s \<in> set present
          \<and> has_variant live w' (lower (variant_column_name s)))
     \<and> int (length ready) + errors ms = int (length (filter (\<lambda>s. lower s \<in> set present) sources))"
proof (induction sources arbitrary: sm w ready sm' w' ms)
  case (Cons s sources)
  show ?case
  proof (cases "lower s \<in> set present")
    case False
    then show ?thesis
      using Cons.IH[OF Cons.prems(1-3), of ready sm' w' ms] Cons.prems(4) by auto
  next
    case True
    obtain ok sm1 w1 ms1 ready2 sm2 w2 ms2 where 1: "ensure_variant Q s sm w = (ok, sm1, w1, ms1)"
      and 2: "ensure_variants Q present sources sm1 w1 = (ready2, sm2, w2, ms2)" by (metis prod_cases4)
    have e1: "same_table sm sm1 \<and> initialized sm1 \<and> variant_ok live sm1 w1 \<and> (\<exists>new. live w1 = live w @ new)
      \<and> errors ms1 = (if ok then 0 else 1) \<and> (ok \<longrightarrow> cached_type sm1 (variant_column_name s) = Some ''VARIANT'')"
    proof (cases "SAFE_IDENTIFIER s \<and> cached_type sm (variant_column_name s) = None")
      case True
      then have add: "add_column Q sm (variant_column_name s) ''VARIANT'' True w = (ok, sm1, w1, ms1)"
        using 1 by (simp add: ensure_variant_def)
      have name: "CHR 0x22 \<notin> set (variant_column_name s)"
        using True variant_name_unquoted by blast
      note a = add_column_effect[OF Cons.prems(1) name Cons.prems(2) _ Cons.prems(3) add]
      have "errors ms1 = (if ok then 0 else 1)"
        using a(4) by simp
      moreover from this have "ok \<longrightarrow> cached_type sm1 (variant_column_name s) = Some ''VARIANT''"
        using a(3) by simp
      moreover have "\<exists>new. live w1 = live w @ new"
        using a(2) by blast
      ultimately show ?thesis
        using a(1) by blast
    next
      case False
      then show ?thesis
        using 1 Cons.prems by (auto simp: ensure_variant_def split: if_splits option.splits)
    qed
    then have law1: "duck_law Q live sm1"
      using Cons.prems(1) same_table_law by blast
    note IH = Cons.IH[OF law1 _ _ 2]
    have "has_variant live w2 (lower (variant_column_name s))" if okay: ok
    proof -
      have "has_variant live w1 (lower (variant_column_name s))"
        by (rule cached_variant[of live sm1]) (use e1 okay in simp_all)
      moreover obtain new where "live w2 = live w1 @ new"
        using IH e1 by metis
      ultimately show ?thesis
        using has_variant_append[of live w1] by blast
    qed
    moreover have res: "ready = (if ok then s # ready2 else ready2)" "sm' = sm2" "w' = w2" "ms = ms1 @ ms2"
      using Cons.prems(4) True by (simp_all add: 1 2)
    moreover have "\<exists>new. live w2 = live w @ new"
      using IH e1 by (metis append.assoc)
    moreover have "same_table sm sm2"
      using IH e1 same_table_trans by blast
    moreover have "int (length ready) + errors ms
        = int (length (filter (\<lambda>s. lower s \<in> set present) (s # sources)))"
      using IH e1 True res by (simp split: if_splits)
    moreover have "\<forall>r \<in> set ready2. r \<in> set sources \<and> lower r \<in> set present
        \<and> has_variant live w2 (lower (variant_column_name r))" "initialized sm2" "variant_ok live sm2 w2"
      using IH e1 by blast+
    ultimately show ?thesis
      using True by simp
  qed
qed simp

subsection \<open>Promises of the manager\<close>

text \<open>
  C7: schema evolution reaches the batch and then is silent. When \<open>evolve\<close> reports no error against a
  table its cache agrees with, every field it manages is a column of the table with the field's type, no
  column was dropped or renamed, and evolving to the same schema again issues no statement at all.
\<close>

theorem evolve_settles:
  assumes "duck_law Q live sm" "coherent live sm w" "distinct (lower_names fs)" "live w \<noteq> []"
    and "evolve Q type_str fs sm w = (Inr (), sm', w', ms)" "errors ms = 0"
  shows "(\<forall>(name, ty) \<in> set fs. managed_field name \<longrightarrow>
       (\<exists>(n, t) \<in> set (live w'). lower n = lower name
          \<and> normalize_duckdb_type t = arrow_type_to_duckdb type_str ty))
    \<and> (\<exists>new. lower_names (live w') = lower_names (live w) @ new)
    \<and> evolve Q type_str fs sm' w' = (Inr (), sm', w', map (\<lambda>f. skip_metric)
        (filter (\<lambda>(name, ty). name \<noteq> ''_inserted_at'' \<and> \<not> SAFE_IDENTIFIER name) fs))"
proof -
  obtain res sm1 w1 where en: "ensure_schema_loaded Q sm w = (res, sm1, w1)" by (metis prod_cases3)
  note e = ensure_effect[OF assms(1) en]
  have ok: "res = Inr True" "initialized sm1"
    using e assms(4,5) by (auto simp: evolve_def en split: sum.splits)
  have known: "known_columns sm1 = canon (live w1)" "live w1 = live w"
    using e assms(2) ok by (auto simp: coherent_def)
  have law1: "duck_law Q live sm1"
    using assms(1) e same_table_law by blast
  have v: "variant_ok live sm1 w1"
    by (rule coherent_variant_ok[OF law1 known(1)])
  have run: "evolve_fields Q type_str fs sm1 w1 = (sm', w', ms)"
    using assms(5) ok by (auto simp: evolve_def en split: prod.splits)
  note settled = evolve_fields_settled[OF law1 v ok(2) known(1) run assms(6,3)]
  note frame = evolve_fields_effect[OF law1 v ok(2) run]
  have "\<exists>(n, t) \<in> set (live w'). lower n = lower name \<and> normalize_duckdb_type t = ty"
    if cached: "cached_type sm' name = Some ty" for name ty
  proof -
    obtain n where "(n, ty) \<in> set (canon (live w'))" "lower n = lower name"
      using cached settled find_column_SomeD[of "lower name" "known_columns sm'" ty]
      by (auto simp: cached_type_def)
    then show ?thesis
      by (auto simp: canon_def)
  qed
  then have "\<forall>(name, ty) \<in> set fs. managed_field name \<longrightarrow> (\<exists>(n, t) \<in> set (live w'). lower n = lower name
          \<and> normalize_duckdb_type t = arrow_type_to_duckdb type_str ty)"
    using settled by blast
  moreover have "known_columns sm' \<noteq> []"
    using settled frame known assms(4) by (auto simp: canon_def)
  then have "ensure_schema_loaded Q sm' w' = (Inr True, sm', w')"
    using frame by (simp add: ensure_schema_loaded_def)
  then have "evolve Q type_str fs sm' w' = (Inr (), sm', w', map (\<lambda>f. skip_metric)
        (filter (\<lambda>(name, ty). name \<noteq> ''_inserted_at'' \<and> \<not> SAFE_IDENTIFIER name) fs))"
    using evolve_fields_quiet[of fs sm' type_str Q w'] settled by (simp add: evolve_def)
  ultimately show ?thesis
    using frame known(2) by simp
qed

text \<open>The calls the sink makes on the manager, in any order, raised errors included.\<close>

datatype schema_call =
    Evolve "(string \<times> atype) list"
  | LiveNames string
  | EnsureVariants "string list" "string list"
  | Invalidate

fun schema_step :: "'w duck \<Rightarrow> (atype \<Rightarrow> string) \<Rightarrow> schema_call \<Rightarrow> schema_manager \<times> 'w \<Rightarrow> schema_manager \<times> 'w" where
  "schema_step Q type_str (Evolve fs) (sm, w) = (let (r, sm', w', ms) = evolve Q type_str fs sm w in (sm', w'))"
| "schema_step Q type_str (LiveNames wanted) (sm, w) = (let (r, sm', w') = live_typed_names wanted Q sm w in (sm', w'))"
| "schema_step Q type_str (EnsureVariants srcs present) (sm, w) =
     (let (r, sm', w', ms) = ensure_variant_columns Q srcs present sm w in (sm', w'))"
| "schema_step Q type_str Invalidate (sm, w) = (invalidate sm, w)"

lemma ensure_variant_ok:
  assumes "duck_law Q live sm" "variant_ok live sm w" "ensure_schema_loaded Q sm w = (res, sm', w')"
  shows "variant_ok live sm' w'"
proof -
  note e = ensure_effect[OF assms(1,3)]
  then have "duck_law Q live sm'"
    using assms(1) same_table_law by blast
  then have "known_columns sm' = canon (live w') \<Longrightarrow> variant_ok live sm' w'"
    by (rule coherent_variant_ok)
  moreover have "variant_ok live sm w'"
    using e assms(2) has_variant_cong[of live w' w] by (simp add: variant_ok_def)
  ultimately show ?thesis
    using e by blast
qed

lemma ensure_variant_columns_effect:
  assumes law: "duck_law Q live sm" and v: "variant_ok live sm w"
    and ens: "ensure_variant_columns Q sources present sm w = (res, sm', w', ms)"
  shows "same_table sm sm' \<and> variant_ok live sm' w'"
    and "res = Inr ready \<Longrightarrow> (\<forall>s \<in> set ready. s \<in> set sources \<and> lower s \<in> lower ` set present
        \<and> has_variant live w' (lower (variant_column_name s)))
      \<and> (live w \<noteq> [] \<longrightarrow>
          int (length ready) + errors ms = int (length (filter (\<lambda>s. lower s \<in> lower ` set present) sources)))"
proof -
  obtain r1 sm1 w1 where en: "ensure_schema_loaded Q sm w = (r1, sm1, w1)" by (metis prod_cases3)
  note e = ensure_effect[OF law en] and v1 = ensure_variant_ok[OF law v en]
  have law1: "duck_law Q live sm1"
    using e law same_table_law by blast
  obtain rd sm2 w2 ms2 where run: "ensure_variants Q (map lower present) sources sm1 w1 = (rd, sm2, w2, ms2)"
    by (metis prod_cases4)
  consider (none) "sources = []" "res = Inr []" "sm' = sm" "w' = w" "ms = []"
    | (raised) err where "res = Inl err" "sm' = sm1" "w' = w1"
    | (missing) "res = Inr []" "sm' = sm1" "w' = w1" "live w = []"
    | (ran) "initialized sm1" "res = Inr rd" "sm' = sm2" "w' = w2" "ms = ms2"
  proof (cases "sources = []")
    case True
    then show ?thesis
      using ens that(1) by (simp add: ensure_variant_columns_def)
  next
    case False
    note step = ens[unfolded ensure_variant_columns_def en prod.case if_not_P[OF False]]
    show ?thesis
    proof (cases r1)
      case (Inl err)
      then show ?thesis
        using step that(2) by auto
    next
      case (Inr ok)
      then show ?thesis
        using step e run that(3,4) by (cases ok) auto
    qed
  qed
  note outcome = this
  show "same_table sm sm' \<and> variant_ok live sm' w'"
  proof (cases rule: outcome)
    case ran
    show ?thesis
      using ensure_variants_effect[OF law1 v1 ran(1) run] e ran(3,4) same_table_trans by blast
  qed (use v v1 e in simp_all)
  show "(\<forall>s \<in> set ready. s \<in> set sources \<and> lower s \<in> lower ` set present
        \<and> has_variant live w' (lower (variant_column_name s)))
      \<and> (live w \<noteq> [] \<longrightarrow>
          int (length ready) + errors ms = int (length (filter (\<lambda>s. lower s \<in> lower ` set present) sources)))"
    if "res = Inr ready"
  proof (cases rule: outcome)
    case ran
    show ?thesis
      using ensure_variants_effect[OF law1 v1 ran(1) run] ran(2-5) that by simp
  qed (use that in simp_all)
qed

lemma schema_step_ok:
  assumes law: "duck_law Q live sm" and v: "variant_ok live sm w"
    and st: "schema_step Q type_str call (sm, w) = (sm', w')"
  shows "same_table sm sm' \<and> variant_ok live sm' w'"
proof (cases call)
  case (Evolve fs)
  obtain r1 sm1 w1 where en: "ensure_schema_loaded Q sm w = (r1, sm1, w1)" by (metis prod_cases3)
  note e = ensure_effect[OF law en] and v1 = ensure_variant_ok[OF law v en]
  have law1: "duck_law Q live sm1"
    using e law same_table_law by blast
  obtain sm2 w2 ms where run: "evolve_fields Q type_str fs sm1 w1 = (sm2, w2, ms)" by (metis prod_cases3)
  show ?thesis
  proof (cases "r1 = Inr True")
    case True
    then have "initialized sm1" "sm' = sm2" "w' = w2"
      using e st Evolve run by (simp_all add: evolve_def en)
    then show ?thesis
      using evolve_fields_effect[OF law1 v1 _ run] e same_table_trans by blast
  next
    case False
    then have "sm' = sm1" "w' = w1"
      using st Evolve by (cases r1; auto simp: evolve_def en)+
    then show ?thesis
      using v1 e by blast
  qed
next
  case (LiveNames wanted)
  obtain r1 sm1 w1 where en: "ensure_schema_loaded Q sm w = (r1, sm1, w1)" by (metis prod_cases3)
  then have "sm' = sm1" "w' = w1"
    using st LiveNames by (cases r1; simp add: live_typed_names_def en)+
  then show ?thesis
    using ensure_effect[OF law en] ensure_variant_ok[OF law v en] by blast
next
  case (EnsureVariants srcs present)
  obtain r sm1 w1 ms where en: "ensure_variant_columns Q srcs present sm w = (r, sm1, w1, ms)"
    by (metis prod_cases4)
  then show ?thesis
    using ensure_variant_columns_effect(1)[OF law v en] st EnsureVariants by simp
next
  case Invalidate
  then show ?thesis
    using st v by (auto simp: invalidate_def same_table_def variant_ok_def)
qed

lemma schema_run_ok:
  "duck_law Q live sm \<Longrightarrow> variant_ok live sm w \<Longrightarrow> fold (schema_step Q type_str) calls (sm, w) = (sm', w') \<Longrightarrow>
     same_table sm sm' \<and> variant_ok live sm' w'"
proof (induction calls arbitrary: sm w)
  case (Cons c calls)
  obtain sm1 w1 where 1: "schema_step Q type_str c (sm, w) = (sm1, w1)" by fastforce
  note s = schema_step_ok[OF Cons.prems(1,2) 1]
  then have "duck_law Q live sm1"
    using Cons.prems(1) same_table_law by blast
  from Cons.IH[OF this] s show ?case
    using Cons.prems(3) 1 same_table_trans by auto
qed (simp add: same_table_def)

text \<open>
  C6: VARIANT dual-writes never hit a wrong column. Whatever calls came before, in whatever order and
  with whatever failures, the sources \<open>ensure_variant_columns\<close> hands back are configured, present in the
  batch, and have a companion that is a VARIANT column of the table; every other configured source that
  is present is counted as a schema error.
\<close>

theorem variant_projection_is_safe:
  assumes "duck_law Q live (schema_manager_init tab sch)"
    and "fold (schema_step Q type_str) calls (schema_manager_init tab sch, w) = (sm, w1)"
    and "ensure_variant_columns Q sources present sm w1 = (Inr ready, sm', w2, ms)"
  shows "(\<forall>s \<in> set ready. s \<in> set sources \<and> lower s \<in> lower ` set present
        \<and> has_variant live w2 (lower (variant_column_name s)))
      \<and> (live w1 \<noteq> [] \<longrightarrow>
          int (length ready) + errors ms = int (length (filter (\<lambda>s. lower s \<in> lower ` set present) sources)))"
proof -
  have "variant_ok live (schema_manager_init tab sch) w"
    by (simp add: variant_ok_def schema_manager_init_def)
  from schema_run_ok[OF assms(1) this assms(2)] have s: "same_table (schema_manager_init tab sch) sm" "variant_ok live sm w1"
    by simp_all
  have "duck_law Q live sm"
    using assms(1) s(1) same_table_law by blast
  from ensure_variant_columns_effect(2)[OF this s(2) assms(3) refl] show ?thesis .
qed

subsection \<open>A small catalog\<close>

text \<open>The world is the list of columns; statements are read back from their text.\<close>

definition demo_type_str :: "atype \<Rightarrow> string" where
  "demo_type_str ty = (if ty = AString then ''string'' else if ty = AInt True 64 then ''int64'' else ''other'')"

definition demo_manager :: schema_manager where
  "demo_manager = schema_manager_init ''t'' ''main''"

definition demo_add_prefix :: string where
  "demo_add_prefix = ''ALTER TABLE lake.main.t ADD COLUMN IF NOT EXISTS '' @ [CHR 0x22]"

definition demo_set_prefix :: string where
  "demo_set_prefix = ''ALTER TABLE lake.main.t ALTER COLUMN '' @ [CHR 0x22]"

definition demo_live :: "(string \<times> string) list \<Rightarrow> (string \<times> string) list" where
  "demo_live w = (if distinct (lower_names w) then w else [])"

definition demo_duck :: "(string \<times> string) list duck" where
  "demo_duck s ps w =
     (if \<not> distinct (lower_names w) then (Inl DuckError, w)
      else if s = columns_query then (Inr w, w)
      else if starts_with demo_add_prefix s then
        (let rest = drop (length demo_add_prefix) s; c = takeWhile (\<lambda>x. x \<noteq> CHR 0x22) rest;
             ty = drop 2 (dropWhile (\<lambda>x. x \<noteq> CHR 0x22) rest)
         in if normalize_duckdb_type ty \<noteq> ty then (Inl DuckError, w)
            else if lower c \<in> set (lower_names w) then (Inr [], w) else (Inr [], w @ [(c, ty)]))
      else if starts_with demo_set_prefix s then
        (let rest = drop (length demo_set_prefix) s; c = takeWhile (\<lambda>x. x \<noteq> CHR 0x22) rest;
             ty = drop 16 (dropWhile (\<lambda>x. x \<noteq> CHR 0x22) rest)
         in if normalize_duckdb_type ty \<noteq> ty then (Inl DuckError, w) else (Inr [], retype c ty w))
      else (Inl DuckError, w))"

lemma starts_with_append [simp]: "starts_with p (p @ s)"
  by (simp add: starts_with_def)

lemma quote_split:
  "CHR 0x22 \<notin> set c \<Longrightarrow> takeWhile (\<lambda>x. x \<noteq> CHR 0x22) (c @ CHR 0x22 # s) = c
     \<and> dropWhile (\<lambda>x. x \<noteq> CHR 0x22) (c @ CHR 0x22 # s) = CHR 0x22 # s"
  by (auto simp: takeWhile_append dropWhile_append takeWhile_eq_all_conv)

lemma demo_add_sql: "add_column_sql demo_manager c ty = demo_add_prefix @ c @ CHR 0x22 # CHR '' '' # ty"
  by (simp add: add_column_sql_def table_ref_def demo_manager_def schema_manager_init_def demo_add_prefix_def quoted_def)

lemma demo_set_sql: "set_type_sql demo_manager c ty = demo_set_prefix @ c @ CHR 0x22 # '' SET DATA TYPE '' @ ty"
  by (simp add: set_type_sql_def table_ref_def demo_manager_def schema_manager_init_def demo_set_prefix_def quoted_def)

lemma demo_not_add: "\<not> starts_with demo_add_prefix (demo_set_prefix @ s)"
  by (simp add: starts_with_def demo_add_prefix_def demo_set_prefix_def)

lemma demo_not_query: "demo_add_prefix @ s \<noteq> columns_query" "demo_set_prefix @ s \<noteq> columns_query"
  by (simp_all add: demo_add_prefix_def demo_set_prefix_def columns_query_def)

lemma demo_add: "CHR 0x22 \<notin> set c \<Longrightarrow> distinct (lower_names w) \<Longrightarrow>
    demo_duck (add_column_sql demo_manager c ty) ps w =
      (if normalize_duckdb_type ty \<noteq> ty then (Inl DuckError, w)
       else if lower c \<in> set (lower_names w) then (Inr [], w) else (Inr [], w @ [(c, ty)]))"
  by (simp add: demo_duck_def demo_add_sql quote_split demo_not_query Let_def)

lemma demo_set: "CHR 0x22 \<notin> set c \<Longrightarrow> distinct (lower_names w) \<Longrightarrow>
    demo_duck (set_type_sql demo_manager c ty) ps w =
      (if normalize_duckdb_type ty \<noteq> ty then (Inl DuckError, w) else (Inr [], retype c ty w))"
  by (simp add: demo_duck_def demo_set_sql quote_split demo_not_query demo_not_add Let_def)

lemma demo_invalid: "\<not> distinct (lower_names w) \<Longrightarrow> demo_duck s ps w = (Inl DuckError, w)"
  by (simp add: demo_duck_def)

lemma demo_duck_law: "duck_law demo_duck demo_live demo_manager"
  unfolding duck_law_def
proof (intro conjI)
  show "query_law demo_duck demo_live demo_manager"
    by (auto simp: query_law_def demo_duck_def demo_live_def)
  show "add_law demo_duck demo_live demo_manager"
    unfolding add_law_def
  proof (intro allI impI)
    fix c ty w res w'
    assume c: "CHR 0x22 \<notin> set c" and q: "demo_duck (add_column_sql demo_manager c ty) [] w = (res, w')"
    show "case res of Inl e \<Rightarrow> demo_live w' = demo_live w
      | Inr rows \<Rightarrow> if lower c \<in> set (lower_names (demo_live w)) then demo_live w' = demo_live w
                    else (\<exists>t. normalize_duckdb_type t = ty \<and> demo_live w' = demo_live w @ [(c, t)])"
    proof (cases "distinct (lower_names w)")
      case True
      have "lower_names (w @ [(c, ty)]) = lower_names w @ [lower c]"
        by (simp add: lower_names_def)
      then show ?thesis
        using q demo_add[OF c True, of ty "[]"] True by (auto simp: demo_live_def split: if_splits)
    next
      case False
      then show ?thesis
        using q demo_invalid[OF False] by auto
    qed
  qed
  show "set_type_law demo_duck demo_live demo_manager"
    unfolding set_type_law_def
  proof (intro allI impI)
    fix c ty w res w'
    assume c: "CHR 0x22 \<notin> set c" and q: "demo_duck (set_type_sql demo_manager c ty) [] w = (res, w')"
    show "case res of Inl e \<Rightarrow> demo_live w' = demo_live w
      | Inr rows \<Rightarrow> \<exists>t. normalize_duckdb_type t = ty \<and> demo_live w' = retype c t (demo_live w)"
    proof (cases "distinct (lower_names w)")
      case True
      then show ?thesis
        using q demo_set[OF c True, of ty "[]"] by (auto simp: demo_live_def split: if_splits)
    next
      case False
      then show ?thesis
        using q demo_invalid[OF False] by auto
    qed
  qed
  show "\<forall>w. distinct (lower_names (demo_live w))"
    by (simp add: demo_live_def)
qed

lemmas demo_schema_simps = evolve_def ensure_schema_loaded_def load_table_schema_def demo_manager_def
  schema_manager_init_def evolve_field_def cached_type_def add_column_def set_column_type_def
  arrow_type_to_duckdb_def ARROW_TO_DUCKDB_def demo_type_str_def normalize_duckdb_type_def
  INFO_SCHEMA_TO_CANONICAL_def dict_of_def

lemma demo_query: "distinct (lower_names w) \<Longrightarrow> demo_duck columns_query ps w = (Inr w, w)"
  by (simp add: demo_duck_def)

lemma demo_add_any: "sm_table sm = ''t'' \<Longrightarrow> sm_schema sm = ''main'' \<Longrightarrow> CHR 0x22 \<notin> set c \<Longrightarrow>
    distinct (lower_names w) \<Longrightarrow>
    demo_duck (add_column_sql sm c ty) ps w =
      (if normalize_duckdb_type ty \<noteq> ty then (Inl DuckError, w)
       else if lower c \<in> set (lower_names w) then (Inr [], w) else (Inr [], w @ [(c, ty)]))"
  using demo_add[of c w ty ps]
  by (simp add: add_column_sql_def table_ref_def demo_manager_def schema_manager_init_def)

definition demo_fields :: "(string \<times> atype) list" where
  "demo_fields = [(''a'', AString), (''n'', AInt True 64), (''x-y'', AString)]"

lemma demo_safe: "SAFE_IDENTIFIER ''a''" "SAFE_IDENTIFIER ''n''" "\<not> SAFE_IDENTIFIER ''x-y''"
  by (simp_all add: SAFE_IDENTIFIER_def ident_start_def ident_char_def is_alpha_def is_digit_def code_def)

lemma demo_lower: "lower ''a'' = ''a''" "lower ''n'' = ''n''" "lower ''x-y'' = ''x-y''"
  "lower ''a_variant'' = ''a_variant''"
  by (simp_all add: lower_def lower_char_def code_def Let_def)

lemma demo_types: "normalize_duckdb_type ''VARCHAR'' = ''VARCHAR''" "normalize_duckdb_type ''BIGINT'' = ''BIGINT''"
  "normalize_duckdb_type ''VARIANT'' = ''VARIANT''"
  by (simp_all add: normalize_duckdb_type_def INFO_SCHEMA_TO_CANONICAL_def upper_def upper_char_def code_def Let_def)

lemma demo_duckdb_types: "arrow_type_to_duckdb demo_type_str AString = ''VARCHAR''"
  "arrow_type_to_duckdb demo_type_str (AInt True 64) = ''BIGINT''"
  by (simp_all add: arrow_type_to_duckdb_def demo_type_str_def ARROW_TO_DUCKDB_def)

lemma demo_evolve:
  "\<exists>sm' ms. evolve demo_duck demo_type_str demo_fields demo_manager [(''a'', ''VARCHAR'')]
     = (Inr (), sm', [(''a'', ''VARCHAR''), (''n'', ''BIGINT'')], ms) \<and> errors ms = 0"
  by (simp add: evolve_def ensure_schema_loaded_def load_table_schema_def demo_manager_def
      schema_manager_init_def demo_query demo_types dict_of_def demo_fields_def evolve_field_def demo_safe
      cached_type_def demo_lower demo_duckdb_types add_column_def demo_add_any Let_def)

theorem evolve_settles_witness:
  "\<exists>sm' ms. evolve demo_duck demo_type_str demo_fields demo_manager [(''a'', ''VARCHAR'')]
       = (Inr (), sm', [(''a'', ''VARCHAR''), (''n'', ''BIGINT'')], ms)
     \<and> evolve demo_duck demo_type_str demo_fields sm' [(''a'', ''VARCHAR''), (''n'', ''BIGINT'')]
       = (Inr (), sm', [(''a'', ''VARCHAR''), (''n'', ''BIGINT'')], [skip_metric])"
proof -
  obtain sm' ms where e: "evolve demo_duck demo_type_str demo_fields demo_manager [(''a'', ''VARCHAR'')]
       = (Inr (), sm', [(''a'', ''VARCHAR''), (''n'', ''BIGINT'')], ms)" "errors ms = 0"
    using demo_evolve by blast
  have h: "coherent demo_live demo_manager [(''a'', ''VARCHAR'')]" "distinct (lower_names demo_fields)"
    "demo_live [(''a'', ''VARCHAR'')] \<noteq> []"
    by (simp_all add: coherent_def demo_manager_def schema_manager_init_def demo_fields_def demo_lower demo_live_def)
  show ?thesis
    using evolve_settles[OF demo_duck_law h e] e(1)
    by (auto simp: demo_fields_def demo_safe)
qed

theorem variant_projection_is_safe_witness:
  "\<exists>ready sm' w2 ms. ensure_variant_columns demo_duck [''a'', ''n''] [''a''] demo_manager [(''a'', ''VARCHAR'')]
       = (Inr ready, sm', w2, ms)
     \<and> (\<forall>s \<in> set ready. has_variant demo_live w2 (lower (variant_column_name s)))
     \<and> int (length ready) + errors ms = 1"
proof -
  have loaded: "ensure_schema_loaded demo_duck demo_manager [(''a'', ''VARCHAR'')]
      = (Inr True, demo_manager\<lparr>known_columns := [(''a'', ''VARCHAR'')], initialized := True\<rparr>, [(''a'', ''VARCHAR'')])"
    by (simp add: ensure_schema_loaded_def load_table_schema_def demo_manager_def
      schema_manager_init_def demo_query demo_types dict_of_def)
  obtain ready sm' w2 ms where r: "ensure_variants demo_duck (map lower [''a'']) [''a'', ''n'']
      (demo_manager\<lparr>known_columns := [(''a'', ''VARCHAR'')], initialized := True\<rparr>) [(''a'', ''VARCHAR'')]
      = (ready, sm', w2, ms)"
    by (metis prod_cases4)
  have e: "ensure_variant_columns demo_duck [''a'', ''n''] [''a''] demo_manager [(''a'', ''VARCHAR'')] = (Inr ready, sm', w2, ms)"
    unfolding ensure_variant_columns_def loaded prod.case sum.case r Let_def by simp
  have run: "fold (schema_step demo_duck demo_type_str) [] (schema_manager_init ''t'' ''main'', [(''a'', ''VARCHAR'')])
      = (demo_manager, [(''a'', ''VARCHAR'')])"
    by (simp add: demo_manager_def)
  have live: "demo_live [(''a'', ''VARCHAR'')] \<noteq> []"
    by (simp add: demo_live_def)
  show ?thesis
    using variant_projection_is_safe[OF demo_duck_law[unfolded demo_manager_def] run e] e live
    by (auto simp: demo_lower)
qed

end
