(* ===== verification/ConfigLoad.thy ===== *)
theory ConfigLoad
  imports Config
begin

text \<open>
  The rest of \<open>millpond/config.py\<close>: the two destination groups and \<open>load\<close>, which builds the whole
  \<open>Config\<close> from the environment. What it calls outside the repository is a parameter: \<open>float\<close> (with
  \<open>None\<close> for its \<open>ValueError\<close>; NaN and the infinities are not modelled), pyhoglake's codec check, whether
  the installed pyhoglake takes \<open>deferred_stats\<close>, and the packaged version string.
\<close>

subsection \<open>Fallible steps\<close>

text \<open>The rest of a function after a step that may raise.\<close>

definition and_then :: "'e + 'a \<Rightarrow> ('a \<Rightarrow> 'e + 'b) \<Rightarrow> 'e + 'b" where
  "and_then x f = (case x of Inl e \<Rightarrow> Inl e | Inr a \<Rightarrow> f a)"

lemma and_then_simps [simp]: "and_then (Inl e) f = Inl e" "and_then (Inr a) f = f a"
  by (simp_all add: and_then_def)

lemma and_then_Inr: "and_then x f = Inr b \<longleftrightarrow> (\<exists>a. x = Inr a \<and> f a = Inr b)"
  by (cases x) auto

definition guard :: "bool \<Rightarrow> 'e \<Rightarrow> 'e + unit" where
  "guard ok e = (if ok then Inr () else Inl e)"

lemma guard_Inr [simp]: "guard ok e = Inr u \<longleftrightarrow> ok"
  by (simp add: guard_def)

subsection \<open>Name patterns\<close>

text \<open>\<open>$\<close> also matches before one final newline.\<close>

definition chomp :: "string \<Rightarrow> string" where
  "chomp s = (if s \<noteq> [] \<and> last s = CHR 0x0A then butlast s else s)"

definition is_lower_alpha :: "char \<Rightarrow> bool" where
  "is_lower_alpha c \<longleftrightarrow> 97 \<le> code c \<and> code c \<le> 122"

definition SAFE_PARTITION_EXPR :: "string \<Rightarrow> bool" where
  "SAFE_PARTITION_EXPR s \<longleftrightarrow> s \<noteq> []
     \<and> (\<forall>c \<in> set s. ident_char c \<or> c \<in> {CHR ''('', CHR '')'', CHR '',''} \<or> is_space c)"

definition HOGLAKE_IDENTIFIER :: "string \<Rightarrow> bool" where
  "HOGLAKE_IDENTIFIER s \<longleftrightarrow> (let t = chomp s in t \<noteq> [] \<and> ident_start (hd t) \<and> length t \<le> 128
     \<and> (\<forall>c \<in> set (tl t). ident_char c \<or> c = CHR ''-''))"

definition HOGLAKE_CATALOG_NAME :: "string \<Rightarrow> bool" where
  "HOGLAKE_CATALOG_NAME s \<longleftrightarrow> (let t = chomp s in t \<noteq> [] \<and> is_lower_alpha (hd t) \<and> length t \<le> 63
     \<and> (\<forall>c \<in> set (tl t). is_lower_alpha c \<or> is_digit c \<or> c \<in> {CHR ''_'', CHR ''-''}))"

definition bucket_end :: "char \<Rightarrow> bool" where
  "bucket_end c \<longleftrightarrow> is_lower_alpha c \<or> is_digit c"

definition S3_URI :: "string \<Rightarrow> bool" where
  "S3_URI s \<longleftrightarrow>
     (let t = chomp s; rest = drop 5 t; bucket = takeWhile (\<lambda>c. c \<noteq> CHR ''/'') rest
      in starts_with ''s3://'' t \<and> 3 \<le> length bucket \<and> length bucket \<le> 63
         \<and> bucket_end (hd bucket) \<and> bucket_end (last bucket)
         \<and> (\<forall>c \<in> set bucket. bucket_end c \<or> c \<in> {CHR ''.'', CHR ''-''})
         \<and> CHR 0x0A \<notin> set (dropWhile (\<lambda>c. c \<noteq> CHR ''/'') rest))"

subsection \<open>The DuckLake group\<close>

record ducklake_fields =
  dk_schema :: string
  dk_table :: string
  dk_data_path :: string
  dk_connection :: string
  dk_rds_host :: string
  dk_rds_port :: string
  dk_rds_database :: string
  dk_rds_username :: string
  dk_rds_password :: string
  dk_partition_by :: "string option"
  dk_max_retry_count :: int
  dk_retry_wait_ms :: int
  dk_retry_backoff :: real
  dk_memory_limit :: "string option"

definition env_default :: "env \<Rightarrow> string \<Rightarrow> string \<Rightarrow> string" where
  "env_default e name dflt = (case e name of None \<Rightarrow> dflt | Some v \<Rightarrow> v)"

text \<open>\<open>int(os.environ.get(name, default))\<close>.\<close>

definition env_int :: "env \<Rightarrow> string \<Rightarrow> string \<Rightarrow> config_error + int" where
  "env_int e name dflt = parse_number e name dflt parse_int"

definition load_ducklake_fields :: "(string \<Rightarrow> real option) \<Rightarrow> env \<Rightarrow> config_error + ducklake_fields" where
  "load_ducklake_fields pf e =
     and_then (require_env e ''DUCKLAKE_TABLE'') (\<lambda>table.
     and_then (guard (SAFE_IDENTIFIER table) (UnsafeName ''DUCKLAKE_TABLE'' table)) (\<lambda>_.
     let schema_raw = strip (env_get e ''DUCKLAKE_SCHEMA'');
         schema = (if schema_raw = [] then ''main'' else schema_raw) in
     and_then (guard (SAFE_IDENTIFIER schema) (UnsafeName ''DUCKLAKE_SCHEMA'' schema)) (\<lambda>_.
     let part = or_none (strip (env_get e ''DUCKLAKE_PARTITION_BY'')) in
     and_then (guard (case part of None \<Rightarrow> True | Some p \<Rightarrow> SAFE_PARTITION_EXPR p)
       (UnsafeName ''DUCKLAKE_PARTITION_BY'' (strip (env_get e ''DUCKLAKE_PARTITION_BY'')))) (\<lambda>_.
     and_then (env_int e ''DUCKLAKE_MAX_RETRY_COUNT'' ''100'') (\<lambda>retries.
     and_then (guard (0 < retries) (BadNumber ''DUCKLAKE_MAX_RETRY_COUNT'' (str_int retries))) (\<lambda>_.
     and_then (env_int e ''DUCKLAKE_RETRY_WAIT_MS'' ''250'') (\<lambda>wait_ms.
     and_then (guard (0 < wait_ms) (BadNumber ''DUCKLAKE_RETRY_WAIT_MS'' (str_int wait_ms))) (\<lambda>_.
     and_then (parse_number e ''DUCKLAKE_RETRY_BACKOFF'' ''1.0'' pf) (\<lambda>backoff.
     and_then (guard (1 \<le> backoff) (BadNumber ''DUCKLAKE_RETRY_BACKOFF''
       (env_default e ''DUCKLAKE_RETRY_BACKOFF'' ''1.0''))) (\<lambda>_.
     and_then (check_ducklake_liveness_budget (nat retries) wait_ms backoff) (\<lambda>_.
     and_then (require_env e ''DUCKLAKE_DATA_PATH'') (\<lambda>data_path.
     and_then (require_env e ''DUCKLAKE_CONNECTION'') (\<lambda>connection.
     and_then (require_env e ''DUCKLAKE_RDS_HOST'') (\<lambda>host.
     and_then (require_env e ''DUCKLAKE_RDS_PASSWORD'') (\<lambda>password.
     Inr \<lparr>dk_schema = schema, dk_table = table, dk_data_path = data_path, dk_connection = connection,
       dk_rds_host = host, dk_rds_port = env_default e ''DUCKLAKE_RDS_PORT'' ''5432'',
       dk_rds_database = env_default e ''DUCKLAKE_RDS_DATABASE'' ''ducklake'',
       dk_rds_username = env_default e ''DUCKLAKE_RDS_USERNAME'' ''ducklake'',
       dk_rds_password = password, dk_partition_by = part, dk_max_retry_count = retries,
       dk_retry_wait_ms = wait_ms, dk_retry_backoff = backoff,
       dk_memory_limit = or_none (env_get e ''DUCKDB_MEMORY_LIMIT'')\<rparr>)))))))))))))))"

subsection \<open>The hoglake group\<close>

record hoglake_fields =
  hg_url :: string
  hg_catalog :: string
  hg_namespace :: string
  hg_table :: string
  hg_data_path :: "string option"
  hg_s3_endpoint :: "string option"
  hg_s3_access_key :: "string option"
  hg_s3_secret_key :: "string option"
  hg_s3_region :: "string option"
  hg_partition_by :: "(string \<times> string \<times> int option) list option"
  hg_max_retry_count :: int
  hg_request_timeout_s :: real
  hg_compression :: string
  hg_compression_level :: "int option"
  hg_deferred_stats :: bool

definition positive_float :: "(string \<Rightarrow> real option) \<Rightarrow> env \<Rightarrow> string \<Rightarrow> real \<Rightarrow> config_error + real" where
  "positive_float pf e env_name dflt =
     (let raw = strip (env_get e env_name) in
      if raw = [] then Inr dflt
      else case pf raw of
          None \<Rightarrow> Inl (BadNumber env_name raw)
        | Some value \<Rightarrow> if value \<le> 0 then Inl (BadNumber env_name raw) else Inr value)"

definition check_upload_concurrency :: "env \<Rightarrow> config_error + unit" where
  "check_upload_concurrency e =
     (let raw = strip (env_get e ''PYHOGLAKE_UPLOAD_CONCURRENCY'') in
      if raw = [] then Inr ()
      else case parse_int raw of
          None \<Rightarrow> Inl (BadNumber ''PYHOGLAKE_UPLOAD_CONCURRENCY'' raw)
        | Some value \<Rightarrow>
            if value < 1 then Inl (BadNumber ''PYHOGLAKE_UPLOAD_CONCURRENCY'' raw) else Inr ())"

definition HOGLAKE_DEFAULT_CODEC :: string where "HOGLAKE_DEFAULT_CODEC = ''zstd''"
definition HOGLAKE_DEFAULT_ZSTD_LEVEL :: int where "HOGLAKE_DEFAULT_ZSTD_LEVEL = 3"

text \<open>\<open>codec_ok\<close>: \<open>pyhoglake.parquet_write_options\<close> accepts the codec and level.\<close>

definition hoglake_compression_env ::
  "(string \<Rightarrow> int option \<Rightarrow> bool) \<Rightarrow> env \<Rightarrow> config_error + string \<times> int option" where
  "hoglake_compression_env codec_ok e =
     (let codec_raw = lower (strip (env_get e ''HOGLAKE_COMPRESSION''));
          codec = (if codec_raw = [] then HOGLAKE_DEFAULT_CODEC else codec_raw);
          raw_level = strip (env_get e ''HOGLAKE_COMPRESSION_LEVEL'')
      in and_then
           (if raw_level = [] then Inr (if codec = ''zstd'' then Some HOGLAKE_DEFAULT_ZSTD_LEVEL else None)
            else case parse_int raw_level of
                None \<Rightarrow> Inl (BadNumber ''HOGLAKE_COMPRESSION_LEVEL'' raw_level)
              | Some n \<Rightarrow> Inr (Some n))
           (\<lambda>level. if codec_ok codec level then Inr (codec, level) else Inl (BadCompression codec)))"

text \<open>\<open>supported\<close>: the installed pyhoglake takes the keyword.\<close>

definition hoglake_deferred_stats_env :: "bool \<Rightarrow> env \<Rightarrow> config_error + bool" where
  "hoglake_deferred_stats_env supported e =
     (let raw = strip (env_get e ''HOGLAKE_DEFERRED_STATS'') in
      and_then
        (if raw = [] then Inr True
         else if lower raw = ''true'' then Inr True
         else if lower raw = ''false'' then Inr False
         else Inl (BadDeferredStats raw))
        (\<lambda>value. if supported then Inr value else Inl (BadDeferredStats ''pyhoglake'')))"

definition hoglake_data_path_env :: "env \<Rightarrow> config_error + string option" where
  "hoglake_data_path_env e =
     (let raw = strip (env_get e ''HOGLAKE_DATA_PATH'') in
      if raw = [] then Inr None else if S3_URI raw then Inr (Some raw) else Inl (BadDataPath raw))"

definition hoglake_s3_keys :: "env \<Rightarrow> config_error + string option \<times> string option" where
  "hoglake_s3_keys e =
     (let access = or_none (strip (env_get e ''HOGLAKE_S3_ACCESS_KEY''));
          secret = or_none (strip (env_get e ''HOGLAKE_S3_SECRET_KEY''))
      in if (access = None) \<noteq> (secret = None)
         then Inl (HalfS3Keys (if access = None then ''HOGLAKE_S3_ACCESS_KEY'' else ''HOGLAKE_S3_SECRET_KEY''))
         else Inr (access, secret))"

text \<open>What pyhoglake tells the loader.\<close>

record hoglake_client =
  codec_ok :: "string \<Rightarrow> int option \<Rightarrow> bool"
  deferred_supported :: bool

definition load_hoglake_fields ::
  "(string \<Rightarrow> real option) \<Rightarrow> hoglake_client \<Rightarrow> env \<Rightarrow> config_error + hoglake_fields" where
  "load_hoglake_fields pf H e =
     and_then (require_env e ''HOGLAKE_CATALOG'') (\<lambda>catalog.
     and_then (guard (HOGLAKE_CATALOG_NAME catalog) (UnsafeName ''HOGLAKE_CATALOG'' catalog)) (\<lambda>_.
     and_then (require_env e ''HOGLAKE_NAMESPACE'') (\<lambda>ns.
     and_then (guard (HOGLAKE_IDENTIFIER ns) (UnsafeName ''HOGLAKE_NAMESPACE'' ns)) (\<lambda>_.
     and_then (require_env e ''HOGLAKE_TABLE'') (\<lambda>table.
     and_then (guard (HOGLAKE_IDENTIFIER table) (UnsafeName ''HOGLAKE_TABLE'' table)) (\<lambda>_.
     and_then (positive_int e ''HOGLAKE_MAX_RETRY_COUNT'' 6) (\<lambda>retries.
     and_then (positive_float pf e ''HOGLAKE_REQUEST_TIMEOUT_S'' 45) (\<lambda>timeout_s.
     and_then (check_hoglake_liveness_budget retries timeout_s) (\<lambda>_.
     and_then (check_upload_concurrency e) (\<lambda>_.
     let partition_raw = strip (env_get e ''HOGLAKE_PARTITION_BY'') in
     and_then (guard (partition_raw \<noteq> [] \<or> strip (env_get e ''DUCKLAKE_PARTITION_BY'') = []) PartitionTrap) (\<lambda>_.
     and_then (hoglake_s3_keys e) (\<lambda>(access, secret).
     and_then (hoglake_compression_env (codec_ok H) e) (\<lambda>(codec, level).
     and_then (hoglake_deferred_stats_env (deferred_supported H) e) (\<lambda>deferred.
     and_then (require_env e ''HOGLAKE_URL'') (\<lambda>url.
     and_then (hoglake_data_path_env e) (\<lambda>data_path.
     and_then (if partition_raw = [] then Inr None
               else map_sum id Some (parse_hoglake_partition_by partition_raw)) (\<lambda>part.
     Inr \<lparr>hg_url = url, hg_catalog = catalog, hg_namespace = ns, hg_table = table, hg_data_path = data_path,
       hg_s3_endpoint = or_none (strip (env_get e ''HOGLAKE_S3_ENDPOINT'')),
       hg_s3_access_key = access, hg_s3_secret_key = secret,
       hg_s3_region = or_none (strip (env_get e ''HOGLAKE_S3_REGION'')), hg_partition_by = part,
       hg_max_retry_count = retries, hg_request_timeout_s = timeout_s, hg_compression = codec,
       hg_compression_level = level, hg_deferred_stats = deferred\<rparr>)))))))))))))))))"

subsection \<open>\<open>load\<close>\<close>

definition KAFKA_CONSUMER_PREFIX :: string where
  "KAFKA_CONSUMER_PREFIX = ''KAFKA_CONSUMER_''"

text \<open>\<open>os.environ\<close> as the ordered pairs its iteration gives.\<close>

definition kafka_overrides :: "(string \<times> string) list \<Rightarrow> (string \<times> string) list" where
  "kafka_overrides environ =
     List.map_filter (\<lambda>(k, v).
       if starts_with KAFKA_CONSUMER_PREFIX k
       then Some (map (\<lambda>c. if c = CHR ''_'' then CHR ''.'' else c) (lower (drop (length KAFKA_CONSUMER_PREFIX) k)), v)
       else None) environ"

definition DESTINATIONS :: "string list" where
  "DESTINATIONS = [''ducklake'', ''hoglake'']"

text \<open>The active group's fields; the other group's are all \<open>None\<close>.\<close>

definition load_destination ::
  "(string \<Rightarrow> real option) \<Rightarrow> hoglake_client \<Rightarrow> env \<Rightarrow> string
     \<Rightarrow> config_error + ducklake_fields option \<times> hoglake_fields option" where
  "load_destination pf H e dest =
     (if dest = ''hoglake'' then map_sum id (\<lambda>h. (None, Some h)) (load_hoglake_fields pf H e)
      else map_sum id (\<lambda>d. (Some d, None)) (load_ducklake_fields pf e))"

definition dest_table_of :: "ducklake_fields option \<times> hoglake_fields option \<Rightarrow> string" where
  "dest_table_of f = (case f of (Some d, _) \<Rightarrow> dk_table d | (None, Some h) \<Rightarrow> hg_table h | (None, None) \<Rightarrow> [])"

definition pod_name_of :: "env \<Rightarrow> string" where
  "pod_name_of e = (let p = env_get e ''POD_NAME'' in if p \<noteq> [] then p else env_default e ''HOSTNAME'' ''millpond-0'')"

text \<open>\<open>int(_require("REPLICA_COUNT"))\<close>.\<close>

definition load_replica_count :: "env \<Rightarrow> config_error + int" where
  "load_replica_count e =
     and_then (require_env e ''REPLICA_COUNT'') (\<lambda>raw.
       case parse_int raw of None \<Rightarrow> Inl (BadNumber ''REPLICA_COUNT'' raw) | Some n \<Rightarrow> Inr n)"

definition load :: "(string \<Rightarrow> real option) \<Rightarrow> hoglake_client \<Rightarrow> string \<Rightarrow> (string \<times> string) list \<Rightarrow> config_error + config" where
  "load pf H default_version environ =
     (let e = map_of environ in
     and_then (require_env e ''KAFKA_TOPIC'') (\<lambda>tpc.
     let dest_raw = lower (strip (env_get e ''MILLPOND_DESTINATION''));
         dest = (if dest_raw = [] then ''ducklake'' else dest_raw) in
     and_then (guard (dest \<in> set DESTINATIONS) (BadDestination dest)) (\<lambda>_.
     and_then (parse_ordinal (pod_name_of e)) (\<lambda>ord.
     and_then (load_replica_count e) (\<lambda>replicas.
     and_then (guard (ord < replicas) (OrdinalRange ord replicas)) (\<lambda>_.
     and_then (load_destination pf H e dest) (\<lambda>(dk, hg).
     let group_raw = env_get e ''GROUP_ID'';
         group = (if group_raw \<noteq> [] then group_raw else default_group_id dest tpc (dest_table_of (dk, hg)));
         overrides = kafka_overrides environ in
     and_then (guard (''auto.offset.reset'' \<notin> fst ` set overrides) OverrideNotHonored) (\<lambda>_.
     and_then (load_filter_fields e) (\<lambda>(keep, drp, vals, dvals).
     and_then (load_sort_by e) (\<lambda>sort.
     and_then (load_typed_columns e) (\<lambda>typed.
     and_then (require_uuid_filter_values typed keep vals ''MILLPOND_FILTER_VALUES'') (\<lambda>_.
     and_then (require_uuid_filter_values typed drp dvals ''MILLPOND_FILTER_DROP_VALUES'') (\<lambda>_.
     and_then (load_variant_columns e) (\<lambda>variants.
     and_then (guard (\<not> (dest = ''hoglake'' \<and> variants \<noteq> None)) VariantUnsupported) (\<lambda>_.
     and_then (require_env e ''KAFKA_BOOTSTRAP_SERVERS'') (\<lambda>servers.
     and_then (env_int e ''FLUSH_SIZE'' ''104857600'') (\<lambda>fsize.
     and_then (env_int e ''FLUSH_INTERVAL_MS'' ''60000'') (\<lambda>finterval.
     and_then (env_int e ''FETCH_MIN_BYTES'' ''1048576'') (\<lambda>fetch_min.
     and_then (env_int e ''FETCH_MAX_WAIT_MS'' ''500'') (\<lambda>fetch_wait.
     and_then (env_int e ''CONSUME_BATCH_SIZE'' ''1000'') (\<lambda>batch.
     and_then (env_int e ''STATS_INTERVAL_MS'' ''5000'') (\<lambda>stats.
     and_then (load_auto_offset_reset e) (\<lambda>reset.
     and_then (load_http_port e) (\<lambda>port.
     and_then (load_include_values_config pf e keep vals) (\<lambda>iv.
     Inr \<lparr>destination = dest, bootstrap_servers = servers, topic = tpc, group_id = group,
       replica_count = replicas, ordinal = ord,
       ducklake_schema = map_option dk_schema dk, ducklake_table = map_option dk_table dk,
       ducklake_data_path = map_option dk_data_path dk, ducklake_connection = map_option dk_connection dk,
       rds_host = map_option dk_rds_host dk, rds_port = map_option dk_rds_port dk,
       rds_database = map_option dk_rds_database dk, rds_username = map_option dk_rds_username dk,
       rds_password = map_option dk_rds_password dk, partition_by = Option.bind dk dk_partition_by,
       ducklake_max_retry_count = map_option dk_max_retry_count dk,
       ducklake_retry_wait_ms = map_option dk_retry_wait_ms dk,
       ducklake_retry_backoff = map_option dk_retry_backoff dk,
       duckdb_memory_limit = Option.bind dk dk_memory_limit,
       hoglake_url = map_option hg_url hg, hoglake_catalog = map_option hg_catalog hg,
       hoglake_namespace = map_option hg_namespace hg, hoglake_table = map_option hg_table hg,
       hoglake_data_path = Option.bind hg hg_data_path, hoglake_s3_endpoint = Option.bind hg hg_s3_endpoint,
       hoglake_s3_access_key = Option.bind hg hg_s3_access_key,
       hoglake_s3_secret_key = Option.bind hg hg_s3_secret_key,
       hoglake_s3_region = Option.bind hg hg_s3_region, hoglake_partition_by = Option.bind hg hg_partition_by,
       hoglake_max_retry_count = map_option hg_max_retry_count hg,
       hoglake_request_timeout_s = map_option hg_request_timeout_s hg,
       hoglake_compression = map_option hg_compression hg,
       hoglake_compression_level = Option.bind hg hg_compression_level,
       hoglake_deferred_stats = map_option hg_deferred_stats hg,
       flush_size = fsize, flush_interval_ms = finterval, fetch_min_bytes = fetch_min,
       fetch_max_wait_ms = fetch_wait, consume_batch_size = batch, stats_interval_ms = stats,
       auto_offset_reset = reset, broker_source = lower (strip (env_get e ''BROKER_SOURCE'')),
       filter_keep_field = keep, filter_drop_field = drp, filter_values = vals, filter_drop_values = dvals,
       include_values_url = iv_url iv, include_values_mode = iv_mode iv,
       include_values_poll_interval_s = iv_poll_interval_s iv,
       include_values_removal_polls = iv_removal_polls iv,
       include_values_request_timeout_s = iv_request_timeout_s iv,
       include_values_startup_timeout_s = iv_startup_timeout_s iv,
       include_values_auth_header_name = iv_auth_header_name iv,
       include_values_auth_token = iv_auth_token iv,
       sort_by = sort, typed_columns = typed, variant_columns = variants, kafka_config_overrides = overrides,
       http_port = port, posthog_project_token = or_none (env_get e ''POSTHOG_PROJECT_TOKEN''),
       posthog_logs_endpoint = env_default e ''POSTHOG_LOGS_ENDPOINT'' ''https://us.i.posthog.com/i/v1/logs'',
       service_namespace = env_default e ''MILLPOND_SERVICE_NAMESPACE'' ''millpond'',
       service_instance_id = or_none (env_get e ''MILLPOND_SERVICE_INSTANCE_ID''),
       service_version = env_default e ''MILLPOND_SERVICE_VERSION'' default_version\<rparr>)))))))))))))))))))))))))"

subsection \<open>What an accepted environment guarantees\<close>

lemma load_steps:
  assumes "load pf H default_version environ = Inr cfg"
  obtains dk hg where "load_destination pf H (map_of environ) (destination cfg) = Inr (dk, hg)
    \<and> ducklake_table cfg = map_option dk_table dk \<and> ducklake_schema cfg = map_option dk_schema dk
    \<and> rds_password cfg = map_option dk_rds_password dk \<and> partition_by cfg = Option.bind dk dk_partition_by
    \<and> ducklake_max_retry_count cfg = map_option dk_max_retry_count dk
    \<and> ducklake_retry_wait_ms cfg = map_option dk_retry_wait_ms dk
    \<and> ducklake_retry_backoff cfg = map_option dk_retry_backoff dk
    \<and> hoglake_table cfg = map_option hg_table hg
    \<and> hoglake_s3_access_key cfg = Option.bind hg hg_s3_access_key
    \<and> hoglake_s3_secret_key cfg = Option.bind hg hg_s3_secret_key
    \<and> hoglake_max_retry_count cfg = map_option hg_max_retry_count hg
    \<and> hoglake_request_timeout_s cfg = map_option hg_request_timeout_s hg"
    "destination cfg \<in> {''ducklake'', ''hoglake''}
    \<and> parse_ordinal (pod_name_of (map_of environ)) = Inr (ordinal cfg) \<and> ordinal cfg < replica_count cfg
    \<and> ''auto.offset.reset'' \<notin> fst ` set (kafka_config_overrides cfg)
    \<and> load_filter_fields (map_of environ)
       = Inr (filter_keep_field cfg, filter_drop_field cfg, filter_values cfg, filter_drop_values cfg)
    \<and> require_uuid_filter_values (typed_columns cfg) (filter_keep_field cfg) (filter_values cfg)
       ''MILLPOND_FILTER_VALUES'' = Inr ()
    \<and> require_uuid_filter_values (typed_columns cfg) (filter_drop_field cfg) (filter_drop_values cfg)
       ''MILLPOND_FILTER_DROP_VALUES'' = Inr ()
    \<and> (destination cfg = ''hoglake'' \<longrightarrow> variant_columns cfg = None)
    \<and> load_auto_offset_reset (map_of environ) = Inr (auto_offset_reset cfg)"
  using assms by (clarsimp simp: load_def Let_def and_then_Inr DESTINATIONS_def split: prod.splits)

lemma filter_fields_paired:
  "load_filter_fields e = Inr (keep, drp, vals, dvals) \<Longrightarrow>
     (keep = None \<longleftrightarrow> vals = None) \<and> (drp = None \<longleftrightarrow> dvals = None)"
  by (auto simp: load_filter_fields_def Let_def map_sum_def split: if_splits list.splits option.splits sum.splits)

lemma uuid_values_checked:
  assumes "require_uuid_filter_values (Some typed) (Some field) (Some vals) v = Inr ()"
    "map_of (rev typed) field = Some ''uuid''" "x \<in> set vals"
  shows "uuid_bytes x \<noteq> None"
proof -
  have "filter (\<lambda>v. uuid_bytes v = None) vals = []"
    using assms(1,2) by (auto simp: require_uuid_filter_values_def split: list.splits)
  then show ?thesis
    using assms(3) by (auto simp: filter_empty_conv)
qed

lemma positive_float_pos: "positive_float pf e n d = Inr x \<Longrightarrow> 0 < d \<Longrightarrow> 0 < x"
  by (auto simp: positive_float_def Let_def split: if_splits option.splits)

lemma positive_int_pos: "positive_int e n d = Inr x \<Longrightarrow> 0 < d \<Longrightarrow> 0 < x"
  by (auto simp: positive_int_def Let_def split: if_splits option.splits)

lemma s3_keys_paired: "hoglake_s3_keys e = Inr (a, s) \<Longrightarrow> (a = None \<longleftrightarrow> s = None)"
  by (auto simp: hoglake_s3_keys_def Let_def split: if_splits)

lemma ducklake_budget_ok:
  "check_ducklake_liveness_budget n w b = Inr () \<longleftrightarrow> ducklake_worst_case_flush_s n w b \<le> LIVENESS_BUDGET_S"
  by (simp add: check_ducklake_liveness_budget_def Let_def)

lemma hoglake_fields_valid:
  assumes "load_hoglake_fields pf H e = Inr h"
  shows "HOGLAKE_IDENTIFIER (hg_table h) \<and> HOGLAKE_IDENTIFIER (hg_namespace h) \<and> HOGLAKE_CATALOG_NAME (hg_catalog h)
    \<and> 0 < hg_max_retry_count h \<and> 0 < hg_request_timeout_s h
    \<and> hoglake_worst_case_flush_s (hg_max_retry_count h) (hg_request_timeout_s h) \<le> LIVENESS_BUDGET_S
    \<and> (hg_s3_access_key h = None \<longleftrightarrow> hg_s3_secret_key h = None)
    \<and> (hg_partition_by h = None \<longrightarrow> strip (env_get e ''DUCKLAKE_PARTITION_BY'') = [])"
  using assms
  by (fastforce simp: load_hoglake_fields_def and_then_Inr Let_def hoglake_check_ok map_sum_def
      split: prod.splits if_splits sum.splits dest: positive_float_pos positive_int_pos s3_keys_paired)

lemma ducklake_fields_valid:
  assumes "load_ducklake_fields pf e = Inr d"
  shows "SAFE_IDENTIFIER (dk_table d) \<and> SAFE_IDENTIFIER (dk_schema d)
    \<and> (case dk_partition_by d of None \<Rightarrow> True | Some p \<Rightarrow> SAFE_PARTITION_EXPR p)
    \<and> 0 < dk_max_retry_count d \<and> 0 < dk_retry_wait_ms d \<and> 1 \<le> dk_retry_backoff d
    \<and> ducklake_worst_case_flush_s (nat (dk_max_retry_count d)) (dk_retry_wait_ms d) (dk_retry_backoff d)
        \<le> LIVENESS_BUDGET_S"
  using assms
  by (clarsimp simp: load_ducklake_fields_def and_then_Inr Let_def ducklake_budget_ok)

lemma parse_ordinal_nonneg: "parse_ordinal p = Inr n \<Longrightarrow> 0 \<le> n"
  by (auto simp: parse_ordinal_def Let_def split: if_splits)

text \<open>Only the hoglake group is set, and it is usable; and the same for DuckLake.\<close>

definition hoglake_only :: "config \<Rightarrow> bool" where
  "hoglake_only cfg \<longleftrightarrow> destination cfg = ''hoglake'' \<and> ducklake_table cfg = None \<and> rds_password cfg = None
     \<and> partition_by cfg = None \<and> variant_columns cfg = None
     \<and> (hoglake_s3_access_key cfg = None \<longleftrightarrow> hoglake_s3_secret_key cfg = None)
     \<and> (\<exists>n t table. hoglake_max_retry_count cfg = Some n \<and> hoglake_request_timeout_s cfg = Some t
          \<and> hoglake_table cfg = Some table \<and> HOGLAKE_IDENTIFIER table
          \<and> 0 < n \<and> 0 < t \<and> hoglake_worst_case_flush_s n t \<le> LIVENESS_BUDGET_S)"

definition ducklake_only :: "config \<Rightarrow> bool" where
  "ducklake_only cfg \<longleftrightarrow> destination cfg = ''ducklake'' \<and> hoglake_table cfg = None
     \<and> hoglake_s3_secret_key cfg = None
     \<and> (\<exists>n w b table schema. ducklake_max_retry_count cfg = Some n \<and> ducklake_retry_wait_ms cfg = Some w
          \<and> ducklake_retry_backoff cfg = Some b \<and> ducklake_table cfg = Some table
          \<and> ducklake_schema cfg = Some schema \<and> SAFE_IDENTIFIER table \<and> SAFE_IDENTIFIER schema
          \<and> 0 < n \<and> ducklake_worst_case_flush_s (nat n) w b \<le> LIVENESS_BUDGET_S)"

lemma load_one_destination:
  assumes "load pf H default_version environ = Inr cfg"
  shows "hoglake_only cfg \<or> ducklake_only cfg"
proof -
  obtain dk hg where f: "load_destination pf H (map_of environ) (destination cfg) = Inr (dk, hg)
    \<and> ducklake_table cfg = map_option dk_table dk \<and> ducklake_schema cfg = map_option dk_schema dk
    \<and> rds_password cfg = map_option dk_rds_password dk \<and> partition_by cfg = Option.bind dk dk_partition_by
    \<and> ducklake_max_retry_count cfg = map_option dk_max_retry_count dk
    \<and> ducklake_retry_wait_ms cfg = map_option dk_retry_wait_ms dk
    \<and> ducklake_retry_backoff cfg = map_option dk_retry_backoff dk
    \<and> hoglake_table cfg = map_option hg_table hg
    \<and> hoglake_s3_access_key cfg = Option.bind hg hg_s3_access_key
    \<and> hoglake_s3_secret_key cfg = Option.bind hg hg_s3_secret_key
    \<and> hoglake_max_retry_count cfg = map_option hg_max_retry_count hg
    \<and> hoglake_request_timeout_s cfg = map_option hg_request_timeout_s hg"
    and checked: "destination cfg \<in> {''ducklake'', ''hoglake''}
    \<and> parse_ordinal (pod_name_of (map_of environ)) = Inr (ordinal cfg) \<and> ordinal cfg < replica_count cfg
    \<and> ''auto.offset.reset'' \<notin> fst ` set (kafka_config_overrides cfg)
    \<and> load_filter_fields (map_of environ)
       = Inr (filter_keep_field cfg, filter_drop_field cfg, filter_values cfg, filter_drop_values cfg)
    \<and> require_uuid_filter_values (typed_columns cfg) (filter_keep_field cfg) (filter_values cfg)
       ''MILLPOND_FILTER_VALUES'' = Inr ()
    \<and> require_uuid_filter_values (typed_columns cfg) (filter_drop_field cfg) (filter_drop_values cfg)
       ''MILLPOND_FILTER_DROP_VALUES'' = Inr ()
    \<and> (destination cfg = ''hoglake'' \<longrightarrow> variant_columns cfg = None)
    \<and> load_auto_offset_reset (map_of environ) = Inr (auto_offset_reset cfg)"
    using assms by (rule load_steps)
  show ?thesis
  proof (cases "destination cfg = ''hoglake''")
    case True
    then obtain h where "hg = Some h" "dk = None" "load_hoglake_fields pf H (map_of environ) = Inr h"
      using f by (auto simp: load_destination_def map_sum_def split: sum.splits)
    then have "hoglake_only cfg"
      using f True checked hoglake_fields_valid[of pf H "map_of environ" h]
      by (simp add: hoglake_only_def)
    then show ?thesis ..
  next
    case False
    then have dest: "destination cfg = ''ducklake''"
      using checked by simp
    then obtain d where "dk = Some d" "hg = None" "load_ducklake_fields pf (map_of environ) = Inr d"
      using f by (auto simp: load_destination_def map_sum_def split: sum.splits)
    then have "ducklake_only cfg"
      using f dest ducklake_fields_valid[of pf "map_of environ" d] by (simp add: ducklake_only_def)
    then show ?thesis ..
  qed
qed

text \<open>
  C22: a configuration that loads is consistent. The pod has an ordinal below the replica count; only the
  active destination has settings, so nothing of the other backend leaks in; the flush retry budget of
  the active destination fits the liveness deadline; credentials and filters come in pairs; a static
  filter on a column pinned \<open>uuid\<close> has UUIDs only; and the offset policy cannot be overridden behind the
  validated setting.
\<close>

theorem load_is_consistent:
  assumes "load pf H default_version environ = Inr cfg"
  shows "0 \<le> ordinal cfg \<and> ordinal cfg < replica_count cfg
    \<and> (hoglake_only cfg \<or> ducklake_only cfg)
    \<and> (filter_keep_field cfg = None \<longleftrightarrow> filter_values cfg = None)
    \<and> (filter_drop_field cfg = None \<longleftrightarrow> filter_drop_values cfg = None)
    \<and> (\<forall>typed field vals v. typed_columns cfg = Some typed \<longrightarrow> map_of (rev typed) field = Some ''uuid'' \<longrightarrow>
          filter_keep_field cfg = Some field \<and> filter_values cfg = Some vals
          \<or> filter_drop_field cfg = Some field \<and> filter_drop_values cfg = Some vals \<longrightarrow>
          v \<in> set vals \<longrightarrow> uuid_bytes v \<noteq> None)
    \<and> auto_offset_reset cfg \<in> {''earliest'', ''latest''}
    \<and> ''auto.offset.reset'' \<notin> fst ` set (kafka_config_overrides cfg)"
proof -
  obtain dk hg where check: "destination cfg \<in> {''ducklake'', ''hoglake''}
    \<and> parse_ordinal (pod_name_of (map_of environ)) = Inr (ordinal cfg) \<and> ordinal cfg < replica_count cfg
    \<and> ''auto.offset.reset'' \<notin> fst ` set (kafka_config_overrides cfg)
    \<and> load_filter_fields (map_of environ)
       = Inr (filter_keep_field cfg, filter_drop_field cfg, filter_values cfg, filter_drop_values cfg)
    \<and> require_uuid_filter_values (typed_columns cfg) (filter_keep_field cfg) (filter_values cfg)
       ''MILLPOND_FILTER_VALUES'' = Inr ()
    \<and> require_uuid_filter_values (typed_columns cfg) (filter_drop_field cfg) (filter_drop_values cfg)
       ''MILLPOND_FILTER_DROP_VALUES'' = Inr ()
    \<and> (destination cfg = ''hoglake'' \<longrightarrow> variant_columns cfg = None)
    \<and> load_auto_offset_reset (map_of environ) = Inr (auto_offset_reset cfg)"
    using assms by (rule load_steps)
  have "uuid_bytes v \<noteq> None" if "typed_columns cfg = Some typed" "map_of (rev typed) field = Some ''uuid''"
      "filter_keep_field cfg = Some field \<and> filter_values cfg = Some vals
          \<or> filter_drop_field cfg = Some field \<and> filter_drop_values cfg = Some vals" "v \<in> set vals"
    for typed field vals v
    using that(3)
  proof
    assume "filter_keep_field cfg = Some field \<and> filter_values cfg = Some vals"
    then have "require_uuid_filter_values (Some typed) (Some field) (Some vals) ''MILLPOND_FILTER_VALUES'' = Inr ()"
      using check that(1) by simp
    then show ?thesis
      by (rule uuid_values_checked) (rule that(2,4))+
  next
    assume "filter_drop_field cfg = Some field \<and> filter_drop_values cfg = Some vals"
    then have "require_uuid_filter_values (Some typed) (Some field) (Some vals) ''MILLPOND_FILTER_DROP_VALUES'' = Inr ()"
      using check that(1) by simp
    then show ?thesis
      by (rule uuid_values_checked) (rule that(2,4))+
  qed
  moreover have "auto_offset_reset cfg \<in> {''earliest'', ''latest''}"
    using check by (auto simp: load_auto_offset_reset_def Let_def split: if_splits)
  ultimately show ?thesis
    using filter_fields_paired parse_ordinal_nonneg load_one_destination[OF assms] check by blast
qed

subsection \<open>An environment that loads\<close>

definition demo_environ :: "(string \<times> string) list" where
  "demo_environ = [(''KAFKA_TOPIC'', ''events''), (''POD_NAME'', ''millpond-1''), (''REPLICA_COUNT'', ''2''),
     (''KAFKA_BOOTSTRAP_SERVERS'', ''b''), (''DUCKLAKE_TABLE'', ''t''), (''DUCKLAKE_DATA_PATH'', ''p''),
     (''DUCKLAKE_CONNECTION'', ''c''), (''DUCKLAKE_RDS_HOST'', ''h''), (''DUCKLAKE_RDS_PASSWORD'', ''x'')]"

definition demo_float :: "string \<Rightarrow> real option" where
  "demo_float s = (if s = ''1.0'' then Some 1 else None)"

definition demo_client :: hoglake_client where
  "demo_client = \<lparr>codec_ok = (\<lambda>c l. True), deferred_supported = True\<rparr>"

lemma demo_env_get:
  "map_of demo_environ n = None \<Longrightarrow> env_get (map_of demo_environ) n = []"
  "map_of demo_environ n = None \<Longrightarrow> env_default (map_of demo_environ) n d = d"
  by (simp_all add: env_get_def env_default_def)

lemma strip_Nil [simp]: "strip [] = []" "lower [] = []"
  by (simp_all add: strip_def lower_def)

lemma demo_ints: "parse_int ''2'' = Some 2" "parse_int ''100'' = Some 100" "parse_int ''250'' = Some 250"
  "parse_int ''104857600'' = Some 104857600" "parse_int ''60000'' = Some 60000"
  "parse_int ''1048576'' = Some 1048576" "parse_int ''500'' = Some 500" "parse_int ''1000'' = Some 1000"
  "parse_int ''5000'' = Some 5000" "parse_int ''8000'' = Some 8000"
  by (simp_all add: parse_int_def strip_def is_space_def code_def is_digit_def digits_value_def Let_def)

lemma demo_ducklake:
  "\<exists>d. load_ducklake_fields demo_float (map_of demo_environ) = Inr d"
proof -
  have ident: "SAFE_IDENTIFIER ''t''" "SAFE_IDENTIFIER ''main''"
    by (simp_all add: SAFE_IDENTIFIER_def ident_start_def ident_char_def is_alpha_def is_digit_def code_def)
  have "ducklake_worst_case_flush_s 100 250 1 \<le> LIVENESS_BUDGET_S"
    by (simp add: ducklake_worst_case_flush_s_def Let_def budget_defs backoff_ladder_def map_replicate_const
        sum_list_replicate upt_rec)
  then have budget: "check_ducklake_liveness_budget 100 250 1 = Inr ()"
    by (simp add: ducklake_budget_ok)
  show ?thesis
    by (simp add: load_ducklake_fields_def require_env_def demo_environ_def env_get_def env_int_def
        parse_number_def demo_ints demo_float_def ident budget guard_def or_none_def Let_def)
qed

lemma demo_load: "\<exists>cfg. load demo_float demo_client ''v'' demo_environ = Inr cfg \<and> ordinal cfg = 1"
proof -
  obtain d where d: "load_ducklake_fields demo_float (map_of demo_environ) = Inr d"
    using demo_ducklake by blast
  have ordn: "parse_ordinal ''millpond-1'' = Inr 1"
    by (simp add: parse_ordinal_def Let_def is_digit_def code_def digits_value_def)
  have env: "env_get (map_of demo_environ) ''MILLPOND_DESTINATION'' = []"
    "require_env (map_of demo_environ) ''KAFKA_TOPIC'' = Inr ''events''"
    "require_env (map_of demo_environ) ''REPLICA_COUNT'' = Inr ''2''"
    "require_env (map_of demo_environ) ''KAFKA_BOOTSTRAP_SERVERS'' = Inr ''b''"
    "pod_name_of (map_of demo_environ) = ''millpond-1''"
    "kafka_overrides demo_environ = []"
    "load_filter_fields (map_of demo_environ) = Inr (None, None, None, None)"
    "load_sort_by (map_of demo_environ) = Inr None"
    "load_typed_columns (map_of demo_environ) = Inr None"
    "load_variant_columns (map_of demo_environ) = Inr None"
    "load_auto_offset_reset (map_of demo_environ) = Inr ''earliest''"
    "load_http_port (map_of demo_environ) = Inr 8000"
    "env_int (map_of demo_environ) ''FLUSH_SIZE'' ''104857600'' = Inr 104857600"
    "env_int (map_of demo_environ) ''FLUSH_INTERVAL_MS'' ''60000'' = Inr 60000"
    "env_int (map_of demo_environ) ''FETCH_MIN_BYTES'' ''1048576'' = Inr 1048576"
    "env_int (map_of demo_environ) ''FETCH_MAX_WAIT_MS'' ''500'' = Inr 500"
    "env_int (map_of demo_environ) ''CONSUME_BATCH_SIZE'' ''1000'' = Inr 1000"
    "env_int (map_of demo_environ) ''STATS_INTERVAL_MS'' ''5000'' = Inr 5000"
    "env_get (map_of demo_environ) ''GROUP_ID'' = []"
    "\<exists>iv. load_include_values_config demo_float (map_of demo_environ) None None = Inr iv"
    by (simp_all add: demo_environ_def env_get_def env_default_def require_env_def pod_name_of_def kafka_overrides_def
        map_filter_simps starts_with_def KAFKA_CONSUMER_PREFIX_def load_filter_fields_def or_none_def
        load_sort_by_def parse_column_list_def load_typed_columns_def load_variant_columns_def
        load_auto_offset_reset_def load_http_port_def env_int_def parse_number_def demo_ints Let_def
        strip_def lower_def lower_char_def is_space_def code_def load_include_values_config_def)
  then obtain iv where iv: "load_include_values_config demo_float (map_of demo_environ) None None = Inr iv"
    by blast
  show ?thesis
    by (simp add: load_def Let_def env iv ordn load_replica_count_def demo_ints d load_destination_def
        DESTINATIONS_def require_uuid_filter_values_def guard_def)
qed

theorem load_is_consistent_witness:
  "\<exists>cfg. load demo_float demo_client ''v'' demo_environ = Inr cfg \<and> 1 < replica_count cfg
     \<and> (hoglake_only cfg \<or> ducklake_only cfg)"
proof -
  obtain cfg where cfg: "load demo_float demo_client ''v'' demo_environ = Inr cfg" "ordinal cfg = 1"
    using demo_load by blast
  from load_is_consistent[OF cfg(1)] cfg show ?thesis
    by auto
qed

end
