(* ===== verification/DuckLake.thy ===== *)
theory DuckLake
  imports Schema ConfigLoad Converter "HOL-Library.List_Lexorder" "HOL-Library.Char_ord"
begin

text \<open>
  The DuckLake sink (\<open>millpond/ducklake.py\<close>, with \<open>check_reserved_collision\<close> of \<open>millpond/sink.py\<close>):
  quoting, the statements of \<open>connect\<close>, the removal of columns that collide with VARIANT companions,
  the rewriting of integers DuckDB cannot shred, the INSERT projection and \<open>write\<close>. DuckDB and orjson are
  parameters. Log lines and the already-warned set are not modelled.
\<close>

subsection \<open>Reserved and protected columns\<close>

definition RESERVED_COLUMNS :: "string list" where
  "RESERVED_COLUMNS = [''_inserted_at'', ''year'', ''month'', ''day'', ''hour'']"

datatype lake_error =
    ReservedCollision "string list"
  | IllegalSetting string
  | UnsafePartition string
  | NoManager
  | TableFailed string
  | SchemaFailed duck_error
  | InsertFailed string
  | ConversionFailed arrow_error
  | EncodeFailed
  | MissingField string

definition check_reserved_collision :: "(string \<times> atype) list \<Rightarrow> string list \<Rightarrow> lake_error + unit" where
  "check_reserved_collision batch_schema reserved =
     (let collisions = sort (filter (\<lambda>n. n \<in> set reserved) (map fst batch_schema)) in
      if collisions \<noteq> [] then Inl (ReservedCollision collisions) else Inr ())"

text \<open>\<open>Table.drop_columns\<close> and \<open>Table.append_column\<close> for a string column.\<close>

definition drop_columns :: "string list \<Rightarrow> table \<Rightarrow> table" where
  "drop_columns cols t = \<lparr>tschema = filter (\<lambda>(n, ty). n \<notin> set cols) (tschema t),
     trows = map (filter (\<lambda>(n, v). n \<notin> set cols)) (trows t)\<rparr>"

definition append_column :: "string \<Rightarrow> pyval list \<Rightarrow> table \<Rightarrow> table" where
  "append_column n vs t = \<lparr>tschema = tschema t @ [(n, AString)],
     trows = map (\<lambda>(r, v). r @ [(n, v)]) (zip (trows t) vs)\<rparr>"

definition names :: "table \<Rightarrow> string list" where
  "names t = map fst (tschema t)"

definition drop_protected_columns :: "table \<Rightarrow> string list \<Rightarrow> table \<times> metric list" where
  "drop_protected_columns batch protected_lower =
     (let drp = filter (\<lambda>n. lower n \<in> set protected_lower) (names batch) in
      if protected_lower = [] \<or> drp = [] then (batch, [])
      else (drop_columns drp batch, map (\<lambda>n. Inc ''variant_companion_columns_dropped_total'' [] 1) drp))"

definition drop_variant_companion_columns :: "table \<Rightarrow> string list option \<Rightarrow> table \<times> metric list" where
  "drop_variant_companion_columns batch variants =
     drop_protected_columns batch
       (map (\<lambda>s. lower (variant_column_name s)) (case variants of None \<Rightarrow> [] | Some v \<Rightarrow> v))"

subsection \<open>Quoting\<close>

text \<open>\<open>s.replace(c, r)\<close> for a one-character \<open>c\<close>.\<close>

definition replace_char :: "char \<Rightarrow> string \<Rightarrow> string \<Rightarrow> string" where
  "replace_char c r s = concat (map (\<lambda>x. if x = c then r else [x]) s)"

definition quote_ident :: "string \<Rightarrow> string" where
  "quote_ident name = [CHR 0x22] @ replace_char (CHR 0x22) [CHR 0x22, CHR 0x22] name @ [CHR 0x22]"

definition escape_libpq :: "string option \<Rightarrow> string" where
  "escape_libpq val =
     (case val of
        None \<Rightarrow> [CHR 0x27, CHR 0x27]
      | Some s \<Rightarrow> [CHR 0x27]
          @ replace_char (CHR 0x27) [CHR 0x5C, CHR 0x27] (replace_char (CHR 0x5C) [CHR 0x5C, CHR 0x5C] s)
          @ [CHR 0x27])"

text \<open>The pattern \<open>^[a-zA-Z0-9_.:/\-@+=]+$\<close>.\<close>

definition setting_char :: "char \<Rightarrow> bool" where
  "setting_char c \<longleftrightarrow> is_alpha c \<or> is_digit c \<or> c \<in> set ''_.:/-@+=''"

definition sanitize_setting_value :: "string \<Rightarrow> lake_error + string" where
  "sanitize_setting_value val =
     (let t = chomp val in
      if t \<noteq> [] \<and> (\<forall>c \<in> set t. setting_char c) then Inr val else Inl (IllegalSetting val))"

definition validate_partition_expr :: "string \<Rightarrow> lake_error + string" where
  "validate_partition_expr expr = (if SAFE_PARTITION_EXPR expr then Inr expr else Inl (UnsafePartition expr))"

subsection \<open>The statements of \<open>connect\<close>\<close>

definition S3_ENV_KEYS :: "string list" where
  "S3_ENV_KEYS = [''DUCKDB_S3_ENDPOINT'', ''DUCKDB_S3_ACCESS_KEY_ID'', ''DUCKDB_S3_SECRET_ACCESS_KEY'',
     ''DUCKDB_S3_USE_SSL'', ''DUCKDB_S3_URL_STYLE'', ''DUCKDB_S3_REGION'']"

definition set_quoted :: "string \<Rightarrow> string \<Rightarrow> string" where
  "set_quoted setting val = ''SET '' @ setting @ '' = '' @ [CHR 0x27] @ val @ [CHR 0x27]"

text \<open>\<open>key.lower().replace("duckdb_", "")\<close> on the keys above drops their prefix.\<close>

fun s3_statements :: "env \<Rightarrow> string list \<Rightarrow> lake_error + string list" where
  "s3_statements e [] = Inr []"
| "s3_statements e (key # ks) =
     (case e key of
        None \<Rightarrow> s3_statements e ks
      | Some val \<Rightarrow>
          and_then (sanitize_setting_value val) (\<lambda>v.
          and_then (s3_statements e ks) (\<lambda>rest.
            Inr (set_quoted (drop (length ''duckdb_'') (lower key)) v # rest))))"

definition opt_text :: "string option \<Rightarrow> string" where
  "opt_text x = (case x of None \<Rightarrow> ''None'' | Some s \<Rightarrow> s)"

definition pg_connstr :: "config \<Rightarrow> string" where
  "pg_connstr cfg = ''host='' @ opt_text (rds_host cfg) @ '' port='' @ opt_text (rds_port cfg)
     @ '' dbname='' @ escape_libpq (rds_database cfg) @ '' user='' @ escape_libpq (rds_username cfg)
     @ '' password='' @ escape_libpq (rds_password cfg)"

text \<open>The body of a SQL string literal.\<close>

definition sql_literal :: "string \<Rightarrow> string" where
  "sql_literal s = replace_char (CHR 0x27) [CHR 0x27, CHR 0x27] s"

definition attach_statement :: "config \<Rightarrow> string" where
  "attach_statement cfg =
     [CHR 0x0A] @ ''        ATTACH '' @ [CHR 0x27] @ ''ducklake:postgres:'' @ sql_literal (pg_connstr cfg) @ [CHR 0x27]
     @ '' AS lake ('' @ [CHR 0x0A] @ ''            DATA_PATH '' @ [CHR 0x27]
     @ sql_literal (opt_text (ducklake_data_path cfg)) @ [CHR 0x27] @ [CHR 0x0A] @ ''        )'' @ [CHR 0x0A] @ ''    ''"

text \<open>A retry setting that is not set makes \<open>int(None)\<close> raise.\<close>

definition required :: "string \<Rightarrow> 'a option \<Rightarrow> lake_error + 'a" where
  "required field x = (case x of None \<Rightarrow> Inl (MissingField field) | Some v \<Rightarrow> Inr v)"

definition connect_statements :: "(real \<Rightarrow> string) \<Rightarrow> config \<Rightarrow> env \<Rightarrow> lake_error + string list" where
  "connect_statements float_text cfg e =
     and_then (s3_statements e S3_ENV_KEYS) (\<lambda>s3.
     and_then (required ''ducklake_max_retry_count'' (ducklake_max_retry_count cfg)) (\<lambda>retries.
     and_then (required ''ducklake_retry_wait_ms'' (ducklake_retry_wait_ms cfg)) (\<lambda>wait_ms.
     and_then (required ''ducklake_retry_backoff'' (ducklake_retry_backoff cfg)) (\<lambda>backoff.
     and_then (case duckdb_memory_limit cfg of
         None \<Rightarrow> Inr []
       | Some m \<Rightarrow> and_then (sanitize_setting_value m) (\<lambda>v. Inr [set_quoted ''memory_limit'' v])) (\<lambda>mem.
     Inr ([set_quoted ''TimeZone'' ''UTC''] @ s3
       @ [''LOAD httpfs'', ''LOAD ducklake'', ''LOAD postgres'', ''SET preserve_insertion_order = false'',
          ''SET ducklake_max_retry_count = '' @ str_int retries,
          ''SET ducklake_retry_wait_ms = '' @ str_int wait_ms,
          ''SET ducklake_retry_backoff = '' @ float_text backoff]
       @ mem @ [attach_statement cfg]))))))"

text \<open>What \<open>DuckLakeSink.__init__\<close> checks, in its order, before it connects.\<close>

definition sink_requirements :: "config \<Rightarrow> lake_error + unit" where
  "sink_requirements cfg =
     (case filter (\<lambda>(n, v). v = None)
        [(''ducklake_schema'', ducklake_schema cfg), (''ducklake_table'', ducklake_table cfg),
         (''ducklake_connection'', ducklake_connection cfg), (''ducklake_data_path'', ducklake_data_path cfg),
         (''rds_host'', rds_host cfg), (''rds_port'', rds_port cfg), (''rds_database'', rds_database cfg),
         (''rds_username'', rds_username cfg), (''rds_password'', rds_password cfg)] of
        [] \<Rightarrow> Inr ()
      | (n, v) # _ \<Rightarrow> Inl (MissingField n))"

subsection \<open>Integers DuckDB cannot shred\<close>

definition INT64_MAX :: int where "INT64_MAX = 2 ^ 63 - 1"
definition UINT64_MAX :: int where "UINT64_MAX = 2 ^ 64 - 1"

definition in_window :: "int \<Rightarrow> bool" where
  "in_window n \<longleftrightarrow> INT64_MAX < n \<and> n \<le> UINT64_MAX"

text \<open>The pattern \<open>(9[0-9]{18}|1[0-9]{19})\<close> at the head of a text, and anywhere in it.\<close>

definition window_digits :: "string \<Rightarrow> bool" where
  "window_digits s \<longleftrightarrow>
     19 \<le> length s \<and> hd s = CHR ''9'' \<and> (\<forall>c \<in> set (take 18 (tl s)). is_digit c)
   \<or> 20 \<le> length s \<and> hd s = CHR ''1'' \<and> (\<forall>c \<in> set (take 19 (tl s)). is_digit c)"

fun maybe_unshreddable_digits :: "string \<Rightarrow> bool" where
  "maybe_unshreddable_digits [] = False"
| "maybe_unshreddable_digits (c # cs) = (window_digits (c # cs) \<or> maybe_unshreddable_digits cs)"

text \<open>\<open>walk\<close>: whether a node changed, and the rewritten node. A \<open>bool\<close> is a constructor of its own.\<close>

fun walk :: "pyval \<Rightarrow> bool \<times> pyval" where
  "walk (PInt n) = (if in_window n then (True, PStr (str_int n)) else (False, PInt n))"
| "walk (PDict kvs) =
     (let rs = map (\<lambda>(k, v). (k, walk v)) kvs
      in (\<exists>(k, r) \<in> set rs. fst r, PDict (map (\<lambda>(k, r). (k, snd r)) rs)))"
| "walk (PList vs) = (let rs = map walk vs in (\<exists>r \<in> set rs. fst r, PList (map snd rs)))"
| "walk v = (False, v)"

record json =
  loads :: "string \<Rightarrow> pyval option"
  dumps :: "pyval \<Rightarrow> string option"

text \<open>
  \<open>None\<close> when the function returns its argument, \<open>Some\<close> a new text otherwise. A document that
  \<open>orjson.loads\<close> reads may be nested too deeply for \<open>orjson.dumps\<close>, whose \<open>JSONEncodeError\<close> nothing
  catches. Python's own recursion limit in \<open>walk\<close> is not modelled.
\<close>

definition coerce_unshreddable_ints :: "json \<Rightarrow> pyval \<Rightarrow> lake_error + string option" where
  "coerce_unshreddable_ints J raw =
     (case raw of
        PStr s \<Rightarrow>
          (case loads J s of
             None \<Rightarrow> Inr None
           | Some doc \<Rightarrow>
               (let (changed, fixed) = walk doc in
                if \<not> changed then Inr None
                else case dumps J fixed of None \<Rightarrow> Inl EncodeFailed | Some t \<Rightarrow> Inr (Some t)))
      | _ \<Rightarrow> Inr None)"

fun coerce_values :: "json \<Rightarrow> pyval list \<Rightarrow> lake_error + string option list" where
  "coerce_values J [] = Inr []"
| "coerce_values J (v # vs) =
     (case coerce_unshreddable_ints J v of
        Inl e \<Rightarrow> Inl e
      | Inr c \<Rightarrow> map_sum id ((#) c) (coerce_values J vs))"

definition VARIANT_SRC_PREFIX :: string where
  "VARIANT_SRC_PREFIX = ''__millpond_variant_src_''"

definition flagged :: "pyval \<Rightarrow> bool" where
  "flagged v = (case v of PStr s \<Rightarrow> maybe_unshreddable_digits s | _ \<Rightarrow> False)"

text \<open>One source; \<open>by_lower\<close> maps lower-cased names to the batch's.\<close>

definition sanitize_source ::
  "json \<Rightarrow> (string \<rightharpoonup> string) \<Rightarrow> string \<Rightarrow> table \<times> (string, string) dict
     \<Rightarrow> lake_error + (table \<times> (string, string) dict) \<times> metric list" where
  "sanitize_source J by_lower source = (\<lambda>(batch, src_columns).
     case by_lower (lower source) of
       None \<Rightarrow> Inr ((batch, src_columns), [])
     | Some name \<Rightarrow>
         if \<not> (case column_type batch name of None \<Rightarrow> False | Some ty \<Rightarrow> is_string_type ty)
         then Inr ((batch, src_columns), [])
         else if \<not> (\<exists>v \<in> set (column batch name). flagged v) then Inr ((batch, src_columns), [])
         else
           (case coerce_values J (column batch name) of
              Inl e \<Rightarrow> Inl e
            | Inr cs \<Rightarrow>
                (let fixed = map2 (\<lambda>v c. case c of None \<Rightarrow> v | Some s \<Rightarrow> PStr s) (column batch name) cs;
                     n_coerced = length (filter (\<lambda>c. c \<noteq> None) cs);
                     hidden = VARIANT_SRC_PREFIX @ source
                 in if n_coerced = 0 then Inr ((batch, src_columns), [])
                    else Inr ((append_column hidden fixed batch, AList.update source hidden src_columns),
                          [Inc ''variant_values_coerced_total'' [] (int n_coerced)]))))"

fun sanitize_sources ::
  "json \<Rightarrow> (string \<rightharpoonup> string) \<Rightarrow> string list \<Rightarrow> table \<times> (string, string) dict
     \<Rightarrow> lake_error + (table \<times> (string, string) dict) \<times> metric list" where
  "sanitize_sources J by_lower [] st = Inr (st, [])"
| "sanitize_sources J by_lower (source # sources) st =
     (case sanitize_source J by_lower source st of
        Inl e \<Rightarrow> Inl e
      | Inr (st1, ms1) \<Rightarrow>
          map_sum id (\<lambda>(st2, ms2). (st2, ms1 @ ms2)) (sanitize_sources J by_lower sources st1))"

definition sanitize_variant_sources ::
  "json \<Rightarrow> table \<Rightarrow> string list option \<Rightarrow> lake_error + (table \<times> (string, string) dict) \<times> metric list" where
  "sanitize_variant_sources J batch sources =
     (case sources of
        None \<Rightarrow> Inr ((batch, []), [])
      | Some srcs \<Rightarrow>
          sanitize_sources J (map_of (rev (map (\<lambda>n. (lower n, n)) (names batch)))) srcs (batch, []))"

subsection \<open>The INSERT projection\<close>

definition variant_cast :: "string \<Rightarrow> string \<Rightarrow> string" where
  "variant_cast src vname =
     ''try_cast(try_cast('' @ quote_ident src @ '' AS JSON) AS VARIANT) AS '' @ quote_ident vname"

fun select_parts ::
  "(string \<rightharpoonup> string) \<Rightarrow> (string \<rightharpoonup> string) \<Rightarrow> string list \<Rightarrow> string list \<Rightarrow> string list" where
  "select_parts active src [] projected = []"
| "select_parts active src (name # present) projected =
     quote_ident name #
     (case active (lower name) of
        None \<Rightarrow> select_parts active src present projected
      | Some source \<Rightarrow>
          if source \<in> set projected then select_parts active src present projected
          else variant_cast (case src source of None \<Rightarrow> name | Some h \<Rightarrow> h) (variant_column_name source)
               # select_parts active src present (source # projected))"

definition build_insert_select_sql ::
  "string list \<Rightarrow> string list option \<Rightarrow> (string, string) dict \<Rightarrow> string" where
  "build_insert_select_sql column_names variants variant_src =
     (let active = map_of (rev (map (\<lambda>s. (lower s, s)) (case variants of None \<Rightarrow> [] | Some v \<Rightarrow> v)));
          hidden = map snd variant_src;
          present = filter (\<lambda>n. n \<notin> set hidden) column_names
      in if hidden = [] \<and> (\<forall>n \<in> set present. active (lower n) = None) then ''*, NOW() AS _inserted_at''
         else join '', '' (select_parts active (map_of variant_src) present [] @ [''NOW() AS _inserted_at'']))"

definition is_unshreddable_value_error :: "string \<Rightarrow> bool" where
  "is_unshreddable_value_error msg \<longleftrightarrow> contains ''out of range for the destination type'' msg
     \<and> contains (''can'' @ [CHR 0x27] @ ''t be cast'') msg"

subsection \<open>The connection and the table\<close>

text \<open>\<open>run_with view t sql\<close> registers \<open>t\<close> as \<open>view\<close>, executes \<open>sql\<close> and unregisters; \<open>Some\<close> is the text of
  a \<open>duckdb.Error\<close>.\<close>

record 'w lake =
  lk_query :: "'w duck"
  run_with :: "string \<Rightarrow> table \<Rightarrow> string \<Rightarrow> 'w \<Rightarrow> string option \<times> 'w"

text \<open>What a call leaves behind: metric updates, and the INSERTs with the batch they read and whether they
  succeeded.\<close>

datatype lake_event = LMetric metric | LInsert string table bool

record lake_state =
  tables_ensured :: "string list"
  manager :: "schema_manager option"

definition exists_query :: string where
  "exists_query = ''SELECT 1 FROM information_schema.tables WHERE table_catalog = '' @ [CHR 0x27] @ ''lake'' @ [CHR 0x27]
     @ '' AND table_schema = ? AND table_name = ?''"

definition table_exists :: "'w lake \<Rightarrow> string \<Rightarrow> string \<Rightarrow> 'w \<Rightarrow> (duck_error + bool) \<times> 'w" where
  "table_exists L table_name schema_name w =
     (case lk_query L exists_query [schema_name, table_name] w of
        (Inl e, w') \<Rightarrow> (Inl e, w')
      | (Inr rows, w') \<Rightarrow> (Inr (rows \<noteq> []), w'))"

definition lake_table :: "string \<Rightarrow> string \<Rightarrow> string" where
  "lake_table schema_name table_name = ''lake.'' @ schema_name @ ''.'' @ table_name"

definition create_table_sql :: "string \<Rightarrow> string \<Rightarrow> string" where
  "create_table_sql schema_name table_name = ''CREATE TABLE IF NOT EXISTS '' @ lake_table schema_name table_name
     @ '' AS SELECT *, NOW() AS _inserted_at FROM _schema_batch WHERE false''"

definition partition_sql :: "string \<Rightarrow> string \<Rightarrow> string \<Rightarrow> string" where
  "partition_sql schema_name table_name expr =
     ''ALTER TABLE '' @ lake_table schema_name table_name @ '' SET PARTITIONED BY ('' @ expr @ '')''"

text \<open>A failed DDL statement is tolerated when another pod has the table by now.\<close>

definition tolerate_if_exists ::
  "'w lake \<Rightarrow> string \<Rightarrow> string \<Rightarrow> string \<Rightarrow> 'w \<Rightarrow> (lake_error + unit) \<times> 'w" where
  "tolerate_if_exists L table_name schema_name what w =
     (case table_exists L table_name schema_name w of
        (Inl e, w') \<Rightarrow> (Inl (SchemaFailed e), w')
      | (Inr ex, w') \<Rightarrow> (if ex then Inr () else Inl (TableFailed what), w'))"

definition set_partitioning ::
  "'w lake \<Rightarrow> string \<Rightarrow> string \<Rightarrow> string option \<Rightarrow> 'w \<Rightarrow> (lake_error + unit) \<times> 'w" where
  "set_partitioning L table_name schema_name part w =
     (case part of
        None \<Rightarrow> (Inr (), w)
      | Some expr \<Rightarrow>
          (case validate_partition_expr expr of
             Inl e \<Rightarrow> (Inl e, w)
           | Inr _ \<Rightarrow>
               (case lk_query L (partition_sql schema_name table_name expr) [] w of
                  (Inr _, w1) \<Rightarrow> (Inr (), w1)
                | (Inl _, w1) \<Rightarrow> tolerate_if_exists L table_name schema_name ''partition'' w1)))"

definition ensure_table ::
  "'w lake \<Rightarrow> string \<Rightarrow> table \<Rightarrow> string list \<Rightarrow> string option \<Rightarrow> string \<Rightarrow> 'w \<Rightarrow> (lake_error + string list) \<times> 'w" where
  "ensure_table L table_name batch ensured part schema_name w =
     (if table_name \<in> set ensured then (Inr ensured, w)
      else case table_exists L table_name schema_name w of
        (Inl e, w1) \<Rightarrow> (Inl (SchemaFailed e), w1)
      | (Inr ex, w1) \<Rightarrow>
          if ex then (Inr (table_name # ensured), w1)
          else
            (let (err, w2) = run_with L ''_schema_batch'' (no_rows batch) (create_table_sql schema_name table_name) w1;
                 (created, w3) = (if err = None then (Inr (), w2)
                                  else tolerate_if_exists L table_name schema_name ''create'' w2)
             in case created of
                  Inl e \<Rightarrow> (Inl e, w3)
                | Inr _ \<Rightarrow>
                    (case set_partitioning L table_name schema_name part w3 of
                       (Inl e, w4) \<Rightarrow> (Inl e, w4)
                     | (Inr _, w4) \<Rightarrow> (Inr (table_name # ensured), w4))))"

definition align_uuid_columns ::
  "'w lake \<Rightarrow> arrow \<Rightarrow> table \<Rightarrow> schema_manager \<Rightarrow> 'w
     \<Rightarrow> (lake_error + table) \<times> schema_manager \<times> 'w \<times> metric list" where
  "align_uuid_columns L A batch sm w =
     (case live_uuid_column_names (lk_query L) sm w of
        (Inl e, sm1, w1) \<Rightarrow> (Inl (SchemaFailed e), sm1, w1, [])
      | (Inr live_uuid, sm1, w1) \<Rightarrow>
          (let targets = map (\<lambda>(n, ty). (n, ''uuid''))
                 (filter (\<lambda>(n, ty). lower n \<in> set live_uuid \<and> is_string_type ty) (tschema batch));
               ms = map (\<lambda>t. schema_error) targets
           in if live_uuid = [] \<or> targets = [] then (Inr batch, sm1, w1, [])
              else case coerce_typed_columns A batch targets of
                Inl e \<Rightarrow> (Inl (ConversionFailed e), sm1, w1, ms)
              | Inr (batch', ms') \<Rightarrow> (Inr batch', sm1, w1, ms @ ms')))"

subsection \<open>\<open>write\<close>\<close>

text \<open>Dropping what collides with a companion: by configuration, then by the live table.\<close>

definition drop_companions ::
  "'w lake \<Rightarrow> table \<Rightarrow> string list option \<Rightarrow> schema_manager option \<Rightarrow> 'w
     \<Rightarrow> (lake_error + table) \<times> schema_manager option \<times> 'w \<times> metric list" where
  "drop_companions L batch variants smo w =
     (let (b1, ms1) = drop_variant_companion_columns batch variants in
      case smo of
        None \<Rightarrow> (Inr b1, None, w, ms1)
      | Some sm \<Rightarrow>
          (case live_variant_column_names (lk_query L) sm w of
             (Inl e, sm1, w1) \<Rightarrow> (Inl (SchemaFailed e), Some sm1, w1, ms1)
           | (Inr live, sm1, w1) \<Rightarrow>
               (let (b2, ms2) = drop_protected_columns b1 live in (Inr b2, Some sm1, w1, ms1 @ ms2))))"

text \<open>Alignment, evolution and companions; the result is the batch and the sources ready to project.\<close>

definition evolve_for ::
  "'w lake \<Rightarrow> arrow \<Rightarrow> (atype \<Rightarrow> string) \<Rightarrow> table \<Rightarrow> string list option \<Rightarrow> schema_manager option \<Rightarrow> 'w
     \<Rightarrow> (lake_error + table \<times> string list option) \<times> schema_manager option \<times> 'w \<times> metric list" where
  "evolve_for L A type_str batch variants smo w =
     (case smo of
        None \<Rightarrow> (Inr (batch, None), None, w, [])
      | Some sm \<Rightarrow>
          (case align_uuid_columns L A batch sm w of
             (Inl e, sm1, w1, ms1) \<Rightarrow> (Inl e, Some sm1, w1, ms1)
           | (Inr b1, sm1, w1, ms1) \<Rightarrow>
               (case evolve (lk_query L) type_str (tschema b1) sm1 w1 of
                  (Inl e, sm2, w2, ms2) \<Rightarrow> (Inl (SchemaFailed e), Some sm2, w2, ms1 @ ms2)
                | (Inr _, sm2, w2, ms2) \<Rightarrow>
                    (let srcs = (case variants of None \<Rightarrow> [] | Some v \<Rightarrow> v) in
                     if srcs = [] then (Inr (b1, None), Some sm2, w2, ms1 @ ms2)
                     else (case ensure_variant_columns (lk_query L) srcs (names b1) sm2 w2 of
                            (Inl e, sm3, w3, ms3) \<Rightarrow> (Inl (SchemaFailed e), Some sm3, w3, ms1 @ ms2 @ ms3)
                          | (Inr ready, sm3, w3, ms3) \<Rightarrow>
                              (let rs = filter (\<lambda>s. s \<in> set ready) srcs
                               in (Inr (b1, if rs = [] then None else Some rs), Some sm3, w3, ms1 @ ms2 @ ms3)))))))"

definition insert_sql :: "string \<Rightarrow> string \<Rightarrow> string \<Rightarrow> string" where
  "insert_sql schema_name table_name select_list =
     ''INSERT INTO '' @ lake_table schema_name table_name @ '' BY NAME (SELECT '' @ select_list @ '' FROM _arrow_batch)''"

definition insert_batch ::
  "'w lake \<Rightarrow> json \<Rightarrow> string \<Rightarrow> string \<Rightarrow> table \<Rightarrow> string list option \<Rightarrow> 'w
     \<Rightarrow> (lake_error + int) \<times> 'w \<times> lake_event list" where
  "insert_batch L J table_name schema_name batch ready w =
     (case sanitize_variant_sources J batch ready of
        Inl e \<Rightarrow> (Inl e, w, [])
      | Inr ((b, src), ms) \<Rightarrow>
      let sql = insert_sql schema_name table_name (build_insert_select_sql (names b) ready src);
          evs = map LMetric ms
      in case run_with L ''_arrow_batch'' b sql w of
           (None, w1) \<Rightarrow> (Inr (int (num_rows b)), w1, evs @ [LInsert sql b True])
         | (Some msg, w1) \<Rightarrow>
             if ready = None \<or> \<not> is_unshreddable_value_error msg
             then (Inl (InsertFailed msg), w1, evs @ [LInsert sql b False])
             else
               (let sql2 = insert_sql schema_name table_name (build_insert_select_sql (names b) None src)
                in case run_with L ''_arrow_batch'' b sql2 w1 of
                     (Some msg2, w2) \<Rightarrow>
                       (Inl (InsertFailed msg2), w2, evs @ [LInsert sql b False, LInsert sql2 b False])
                   | (None, w2) \<Rightarrow>
                       (Inr (int (num_rows b)), w2, evs @ [LInsert sql b False, LInsert sql2 b True,
                          LMetric (Inc ''errors_total'' ''variant_write'' 1),
                          LMetric (Inc ''variant_write_fallback_total'' [] 1)])))"

definition lake_write ::
  "'w lake \<Rightarrow> arrow \<Rightarrow> json \<Rightarrow> (atype \<Rightarrow> string) \<Rightarrow> string \<Rightarrow> string option \<Rightarrow> string \<Rightarrow> string list option
     \<Rightarrow> table \<Rightarrow> lake_state \<Rightarrow> 'w \<Rightarrow> (lake_error + int) \<times> lake_state \<times> 'w \<times> lake_event list" where
  "lake_write L A J type_str table_name part schema_name variants batch st w =
     (case check_reserved_collision (tschema batch) RESERVED_COLUMNS of
        Inl e \<Rightarrow> (Inl e, st, w, [])
      | Inr _ \<Rightarrow>
     if variants \<noteq> None \<and> variants \<noteq> Some [] \<and> manager st = None then (Inl NoManager, st, w, [])
     else case drop_companions L batch variants (manager st) w of
        (Inl e, smo, w1, ms1) \<Rightarrow> (Inl e, st\<lparr>manager := smo\<rparr>, w1, map LMetric ms1)
      | (Inr b1, smo1, w1, ms1) \<Rightarrow>
     if names batch \<noteq> [] \<and> names b1 = [] then
       (Inr 0, st\<lparr>manager := smo1\<rparr>, w1, map LMetric ms1
          @ [LMetric (Inc ''records_skipped_total'' ''variant_companion_collision'' (int (num_rows b1)))])
     else case ensure_table L table_name b1 (tables_ensured st) part schema_name w1 of
        (Inl e, w2) \<Rightarrow> (Inl e, st\<lparr>manager := smo1\<rparr>, w2, map LMetric ms1)
      | (Inr ensured, w2) \<Rightarrow>
     let st2 = st\<lparr>manager := smo1, tables_ensured := ensured\<rparr> in
     case evolve_for L A type_str b1 variants smo1 w2 of
        (Inl e, smo3, w3, ms3) \<Rightarrow> (Inl e, st2\<lparr>manager := smo3\<rparr>, w3, map LMetric (ms1 @ ms3))
      | (Inr (b3, ready), smo3, w3, ms3) \<Rightarrow>
     let (res, w4, evs) = insert_batch L J table_name schema_name b3 ready w3
     in (res, st2\<lparr>manager := smo3\<rparr>, w4, map LMetric (ms1 @ ms3) @ evs))"

definition lake_reset_caches :: "lake_state \<Rightarrow> lake_state" where
  "lake_reset_caches st = st\<lparr>tables_ensured := [], manager := map_option invalidate (manager st)\<rparr>"

text \<open>\<open>DuckLakeSink.write\<close>: the call with the settings of the configuration.\<close>

definition sink_write_batch ::
  "'w lake \<Rightarrow> arrow \<Rightarrow> json \<Rightarrow> (atype \<Rightarrow> string) \<Rightarrow> config \<Rightarrow> table \<Rightarrow> lake_state \<Rightarrow> 'w
     \<Rightarrow> (lake_error + int) \<times> lake_state \<times> 'w \<times> lake_event list" where
  "sink_write_batch L A J type_str cfg batch st w =
     lake_write L A J type_str (the (ducklake_table cfg)) (partition_by cfg) (the (ducklake_schema cfg))
       (variant_columns cfg) batch st w"

subsection \<open>The prefilter sees every unshreddable integer\<close>

fun has_window :: "pyval \<Rightarrow> bool" where
  "has_window (PInt n) = in_window n"
| "has_window (PDict kvs) = (\<exists>(k, v) \<in> set kvs. has_window v)"
| "has_window (PList vs) = (\<exists>v \<in> set vs. has_window v)"
| "has_window v = False"

fun has_int :: "int \<Rightarrow> pyval \<Rightarrow> bool" where
  "has_int n (PInt m) = (m = n)"
| "has_int n (PDict kvs) = (\<exists>(k, v) \<in> set kvs. has_int n v)"
| "has_int n (PList vs) = (\<exists>v \<in> set vs. has_int n v)"
| "has_int n v = False"

lemma has_window_int: "has_window d \<Longrightarrow> \<exists>n. in_window n \<and> has_int n d"
  by (induction d rule: has_window.induct) fastforce+

lemma walk_changes: "fst (walk d) = has_window d"
proof (induction d rule: walk.induct)
  case (2 kvs)
  then have "(\<exists>(k, r) \<in> set (map (\<lambda>(k, v). (k, walk v)) kvs). fst r) = (\<exists>(k, v) \<in> set kvs. has_window v)"
    by (force simp: split_beta)
  then show ?case
    by (simp add: Let_def)
qed (auto simp: Let_def)

lemma walk_clean: "\<not> has_window (snd (walk d))"
  by (induction d rule: walk.induct) (auto simp: Let_def)

lemma walk_same: "\<not> has_window d \<Longrightarrow> snd (walk d) = d"
proof (induction d rule: walk.induct)
  case (2 kvs)
  then have "map (\<lambda>x. (fst x, snd (walk (snd x)))) kvs = kvs"
    by (intro map_idI) auto
  then show ?case
    by (simp add: Let_def comp_def split_beta)
next
  case (3 vs)
  then have "map (\<lambda>v. snd (walk v)) vs = vs"
    by (intro map_idI) auto
  then show ?case
    by (simp add: Let_def comp_def)
qed auto

lemma digits_of_head:
  "10 ^ k \<le> n \<Longrightarrow> n < 10 ^ Suc k \<Longrightarrow> length (digits_of n) = Suc k \<and> hd (digits_of n) = char_of (48 + n div 10 ^ k)"
proof (induction k arbitrary: n)
  case (Suc k)
  have "10 ^ k \<le> n div 10" "n div 10 < 10 ^ Suc k" "\<not> n < 10"
    using Suc.prems one_le_power[of "10 :: nat" k] unfolding power_Suc
    by (simp_all only: less_eq_div_iff_mult_less_eq div_less_iff_less_mult zero_less_numeral) linarith+
  moreover have "n div 10 div 10 ^ k = n div 10 ^ Suc k"
    by (simp add: div_mult2_eq)
  moreover note digits_of.simps[of n]
  ultimately show ?case
    using Suc.IH[of "n div 10"] by (simp add: hd_append)
qed (simp add: digits_of.simps)

lemma char_digits: "char_of (57 :: nat) = CHR ''9''" "char_of (49 :: nat) = CHR ''1''"
  by (simp_all add: char_of_def bit_0)

lemma window_text:
  assumes "in_window n"
  shows "window_digits (str_int n @ t)"
proof -
  obtain m where m: "n = int m" "9223372036854775808 \<le> m" "m \<le> 18446744073709551615"
    using assms by (intro that[of "nat n"]) (auto simp: in_window_def INT64_MAX_def UINT64_MAX_def)
  have digits: "\<forall>c \<in> set (digits_of m). is_digit c"
    using digits_of_digits by blast
  have digs: "str_int n = digits_of m"
    by (simp add: str_int_def m(1))
  obtain c cs where cs: "digits_of m = c # cs"
    by (cases "digits_of m") simp_all
  have tail: "\<forall>x \<in> set (take k (cs @ t)). is_digit x" if "k \<le> length cs" for k
    using that digits cs by (auto dest: in_set_takeD)
  show ?thesis
  proof (cases "m < 10 ^ 19")
    case True
    have "m div 10 ^ 18 = 9"
      using m(2) True by (simp add: div_nat_eqI)
    then have "length (digits_of m) = 19" "hd (digits_of m) = CHR ''9''"
      using digits_of_head[of 18 m] True m(2) by (simp_all add: char_digits)
    then show ?thesis
      using tail[of 18] by (simp add: window_digits_def digs cs)
  next
    case False
    have "m div 10 ^ 19 = 1"
      using m(3) False by (simp add: div_nat_eqI)
    then have "length (digits_of m) = 20" "hd (digits_of m) = CHR ''1''"
      using digits_of_head[of 19 m] False m(3) by (simp_all add: char_digits)
    then show ?thesis
      using tail[of 19] by (simp add: window_digits_def digs cs)
  qed
qed

lemma maybe_skip: "maybe_unshreddable_digits s \<Longrightarrow> maybe_unshreddable_digits (pre @ s)"
  by (induction pre) auto

lemma contains_split: "contains sub s \<Longrightarrow> \<exists>pre post. s = pre @ sub @ post"
proof (induction s)
  case (Cons x xs)
  show ?case
  proof (cases "starts_with sub (x # xs)")
    case True
    then have "x # xs = sub @ drop (length sub) (x # xs)"
      by (metis starts_with_def append_take_drop_id)
    then show ?thesis
      by (metis append_Nil)
  next
    case False
    then obtain pre post where "xs = pre @ sub @ post"
      using Cons by auto
    then show ?thesis
      by (metis append_Cons)
  qed
qed simp

lemma prefilter_sound:
  assumes "in_window n" "contains (str_int n) s"
  shows "maybe_unshreddable_digits s"
proof -
  obtain pre post where s: "s = pre @ str_int n @ post"
    using contains_split[OF assms(2)] by blast
  have "window_digits (str_int n @ post)"
    by (rule window_text[OF assms(1)])
  then have "maybe_unshreddable_digits (str_int n @ post)"
    by (cases "str_int n @ post") (auto simp: window_digits_def)
  then show ?thesis
    using maybe_skip by (simp add: s)
qed

subsection \<open>Sanitized sources\<close>

text \<open>
  What the rewriting assumes of orjson: an integer of a document stands in its text in decimal, and the
  text of a rewritten document reads back as that document.
\<close>

definition json_laws :: "json \<Rightarrow> bool" where
  "json_laws J \<longleftrightarrow>
     (\<forall>s doc n. loads J s = Some doc \<longrightarrow> has_int n doc \<longrightarrow> in_window n \<longrightarrow> contains (str_int n) s)
   \<and> (\<forall>s doc t. loads J s = Some doc \<longrightarrow> dumps J (snd (walk doc)) = Some t \<longrightarrow> loads J t = Some (snd (walk doc)))"

text \<open>A value whose document DuckDB can shred; a text that is no document becomes a null companion.\<close>

definition shreddable :: "json \<Rightarrow> pyval \<Rightarrow> bool" where
  "shreddable J v \<longleftrightarrow> (\<forall>s doc. v = PStr s \<longrightarrow> loads J s = Some doc \<longrightarrow> \<not> has_window doc)"

lemma unflagged_shreddable:
  assumes "json_laws J" "\<not> flagged v"
  shows "shreddable J v"
proof -
  have "\<not> has_window doc" if "v = PStr s" "loads J s = Some doc" for s doc
  proof
    assume "has_window doc"
    then obtain n where n: "in_window n" "has_int n doc"
      using has_window_int by blast
    then have "contains (str_int n) s"
      using assms(1) that(2) unfolding json_laws_def by blast
    then show False
      using prefilter_sound[OF n(1)] assms(2) that(1) by (simp add: flagged_def)
  qed
  then show ?thesis
    by (auto simp: shreddable_def)
qed

definition rewritten :: "json \<Rightarrow> pyval \<Rightarrow> pyval" where
  "rewritten J v = (case coerce_unshreddable_ints J v of Inr (Some s) \<Rightarrow> PStr s | _ \<Rightarrow> v)"

lemma rewritten_shreddable:
  assumes "json_laws J" "coerce_unshreddable_ints J v = Inr c"
  shows "shreddable J (rewritten J v)"
proof (cases c)
  case None
  then show ?thesis
    using assms(2)
    by (auto simp: rewritten_def shreddable_def coerce_unshreddable_ints_def Let_def split_beta walk_changes
        split: if_splits option.splits)
next
  case (Some s)
  then obtain s0 doc where "v = PStr s0" "loads J s0 = Some doc" "dumps J (snd (walk doc)) = Some s"
    using assms(2)
    by (auto simp: coerce_unshreddable_ints_def Let_def split_beta split: pyval.splits option.splits if_splits)
  then have "loads J s = Some (snd (walk doc))"
    using assms(1) unfolding json_laws_def by blast
  then show ?thesis
    using Some assms(2) walk_clean by (auto simp: rewritten_def shreddable_def)
qed

lemma coerce_values_result:
  "coerce_values J vs = Inr cs \<Longrightarrow> map (coerce_unshreddable_ints J) vs = map Inr cs
     \<and> map2 (\<lambda>v c. case c of None \<Rightarrow> v | Some s \<Rightarrow> PStr s) vs cs = map (rewritten J) vs"
proof (induction vs arbitrary: cs)
  case (Cons v vs)
  then obtain c cs' where "coerce_unshreddable_ints J v = Inr c" "coerce_values J vs = Inr cs'" "cs = c # cs'"
    by (auto simp: map_sum_def split: sum.splits)
  then show ?case
    using Cons.IH by (auto simp: rewritten_def split: option.split)
qed simp

lemma not_coerced: "coerce_unshreddable_ints J v = Inr None \<Longrightarrow> rewritten J v = v"
  by (simp add: rewritten_def)

text \<open>Rows have cells for columns of the schema only.\<close>

definition table_ok :: "table \<Rightarrow> bool" where
  "table_ok t \<longleftrightarrow> (\<forall>r \<in> set (trows t). fst ` set r \<subseteq> set (names t))"

lemma cell_append: "h \<notin> fst ` set r \<Longrightarrow> cell (r @ [(h, v)]) n = (if n = h then v else cell r n)"
  by (auto simp: cell_def map_of_eq_None_iff[symmetric] split: option.splits)

lemma append_column_effect:
  assumes "table_ok t" "h \<notin> set (names t)" "length vs = num_rows t"
  shows "table_ok (append_column h vs t)" "names (append_column h vs t) = names t @ [h]"
    "num_rows (append_column h vs t) = num_rows t"
    "column (append_column h vs t) n = (if n = h then vs else column t n)"
    "column_type (append_column h vs t) n = (if n = h then Some AString else column_type t n)"
proof -
  have rows: "h \<notin> fst ` set r" if "r \<in> set (trows t)" for r
    using assms(1,2) that by (auto simp: table_ok_def)
  show "names (append_column h vs t) = names t @ [h]"
    by (simp add: names_def append_column_def)
  then show "table_ok (append_column h vs t)"
    using assms(1) by (auto simp: table_ok_def append_column_def dest!: set_zip_leftD)
  show "num_rows (append_column h vs t) = num_rows t"
    using assms(3) by (simp add: num_rows_def append_column_def)
  have "map (\<lambda>(r, v). cell (r @ [(h, v)]) n) (zip (trows t) vs)
      = map (\<lambda>(r, v). if n = h then v else cell r n) (zip (trows t) vs)"
    using rows by (auto simp: cell_append dest: set_zip_leftD)
  also have "\<dots> = (if n = h then vs else column t n)"
    using assms(3) by (auto simp: column_def num_rows_def map_zip_map2 map_snd_zip_take[symmetric] comp_def
        intro!: nth_equalityI)
  finally show "column (append_column h vs t) n = (if n = h then vs else column t n)"
    by (simp add: column_def append_column_def comp_def case_prod_beta')
  have "map_of (tschema t) h = None"
    using assms(2) by (simp add: map_of_eq_None_iff names_def)
  then show "column_type (append_column h vs t) n = (if n = h then Some AString else column_type t n)"
    by (simp add: column_type_def append_column_def map_of_append map_add_def split: option.splits)
qed

text \<open>A source the batch has as a text column, under that column's name.\<close>

definition text_source :: "table \<Rightarrow> (string \<rightharpoonup> string) \<Rightarrow> string \<Rightarrow> string \<Rightarrow> bool" where
  "text_source b0 by_lower s name \<longleftrightarrow> by_lower (lower s) = Some name
     \<and> (\<exists>ty. column_type b0 name = Some ty \<and> is_string_type ty)"

definition shadows :: "string list \<Rightarrow> string list" where
  "shadows srcs = map (\<lambda>s. VARIANT_SRC_PREFIX @ s) srcs"

text \<open>After the sources \<open>donesrc\<close>: the columns of the batch are as they came, and each text source's
  projection reads a shreddable column.\<close>

definition clean_for ::
  "json \<Rightarrow> (string \<rightharpoonup> string) \<Rightarrow> table \<Rightarrow> string list \<Rightarrow> table \<times> (string, string) dict \<Rightarrow> bool" where
  "clean_for J by_lower b0 donesrc st \<longleftrightarrow>
     table_ok (fst st) \<and> set (names (fst st)) \<subseteq> set (names b0) \<union> set (shadows donesrc)
     \<and> num_rows (fst st) = num_rows b0
     \<and> (\<forall>n. n \<notin> set (shadows donesrc) \<longrightarrow>
          column (fst st) n = column b0 n \<and> column_type (fst st) n = column_type b0 n)
     \<and> (\<forall>s h. map_of (snd st) s = Some h \<longrightarrow> s \<in> set donesrc \<and> h = VARIANT_SRC_PREFIX @ s)
     \<and> (\<forall>s \<in> set donesrc. \<forall>name. text_source b0 by_lower s name \<longrightarrow>
          (\<forall>v \<in> set (column (fst st) (case map_of (snd st) s of None \<Rightarrow> name | Some h \<Rightarrow> h)). shreddable J v))"

lemma sanitize_source_outcome:
  assumes "json_laws J" "sanitize_source J by_lower source (b, m) = Inr (out, ms)"
  obtains (untouched) "out = (b, m)"
      "\<And>name. text_source b by_lower source name \<Longrightarrow> \<forall>v \<in> set (column b name). shreddable J v"
  | (shadowed) name where "out = (append_column (VARIANT_SRC_PREFIX @ source) (map (rewritten J) (column b name)) b,
        AList.update source (VARIANT_SRC_PREFIX @ source) m)"
      "\<forall>v \<in> set (column b name). shreddable J (rewritten J v)"
proof (cases "\<exists>name. text_source b by_lower source name")
  case False
  then have "out = (b, m)"
    using assms(2) by (auto simp: sanitize_source_def text_source_def split: option.splits)
  then show ?thesis
    using False untouched by blast
next
  case True
  then obtain name ty where name: "by_lower (lower source) = Some name"
      "column_type b name = Some ty" "is_string_type ty"
    by (auto simp: text_source_def)
  have only: "n = name" if "text_source b by_lower source n" for n
    using that name(1) by (simp add: text_source_def)
  show ?thesis
  proof (cases "\<forall>v \<in> set (column b name). \<not> flagged v")
    case True
    then have "out = (b, m)"
      using assms(2) name by (auto simp: sanitize_source_def)
    then show ?thesis
      using True unflagged_shreddable[OF assms(1)] only untouched by blast
  next
    case False
    obtain cs where cs: "coerce_values J (column b name) = Inr cs"
      using assms(2) name False by (auto simp: sanitize_source_def split: sum.splits)
    note res = coerce_values_result[OF cs]
    have good: "shreddable J (rewritten J v)" if "v \<in> set (column b name)" for v
    proof -
      have "coerce_unshreddable_ints J v \<in> set (map Inr cs)"
        using that unfolding res[THEN conjunct1, symmetric] by simp
      then show ?thesis
        using rewritten_shreddable[OF assms(1)] by auto
    qed
    show ?thesis
    proof (cases "filter (\<lambda>c. c \<noteq> None) cs = []")
      case True
      then have out: "out = (b, m)"
        using assms(2) name False cs by (simp add: sanitize_source_def Let_def)
      have "set cs \<subseteq> {None}"
        using True by (auto simp: filter_empty_conv)
      then have "coerce_unshreddable_ints J v = Inr None" if "v \<in> set (column b name)" for v
      proof -
        have "coerce_unshreddable_ints J v \<in> set (map Inr cs)"
          using that unfolding res[THEN conjunct1, symmetric] by simp
        then show ?thesis
          using \<open>set cs \<subseteq> {None}\<close> by auto
      qed
      then show ?thesis
        using out good not_coerced only untouched by metis
    next
      case False
      then have "out = (append_column (VARIANT_SRC_PREFIX @ source) (map (rewritten J) (column b name)) b,
          AList.update source (VARIANT_SRC_PREFIX @ source) m)"
        using assms(2) name \<open>\<not> (\<forall>v \<in> set (column b name). \<not> flagged v)\<close> cs res
        by (auto simp: sanitize_source_def Let_def)
      then show ?thesis
        using good by (intro shadowed) auto
    qed
  qed
qed

lemma prefix_inject [simp]: "VARIANT_SRC_PREFIX @ s = VARIANT_SRC_PREFIX @ s' \<longleftrightarrow> s = s'"
  by simp

lemma clean_step:
  assumes "json_laws J" "clean_for J by_lower b0 donesrc st" "source \<notin> set donesrc"
    "VARIANT_SRC_PREFIX @ source \<notin> set (names b0)"
    "\<And>s name. by_lower s = Some name \<Longrightarrow> name \<in> set (names b0)"
    "\<And>s. VARIANT_SRC_PREFIX @ s \<notin> set (names b0)"
    and "sanitize_source J by_lower source st = Inr (out, ms)"
  shows "clean_for J by_lower b0 (source # donesrc) out"
proof -
  obtain b m where st: "st = (b, m)"
    by (cases st)
  let ?h = "VARIANT_SRC_PREFIX @ source"
  have fresh: "?h \<notin> set (shadows donesrc)"
    using assms(3) by (auto simp: shadows_def)
  have frame: "column b n = column b0 n" "column_type b n = column_type b0 n" if "n \<notin> set (shadows donesrc)" for n
    using assms(2) that by (simp_all add: st clean_for_def)
  have named: "name \<notin> set (shadows ss)" if "text_source b0 by_lower s name" for s name ss
    using that assms(5,6) by (auto simp: text_source_def shadows_def)
  show ?thesis
    using assms(1) assms(7)[unfolded st]
  proof (cases rule: sanitize_source_outcome)
    case untouched
    have "map_of m source = None"
      using assms(2,3) by (cases "map_of m source") (auto simp: st clean_for_def)
    moreover have "\<forall>v \<in> set (column b name). shreddable J v" if "text_source b0 by_lower source name" for name
      using untouched(2)[of name] that frame[OF named[OF that]] by (simp add: text_source_def)
    ultimately show ?thesis
      using assms(2) untouched(1) by (auto simp: st clean_for_def shadows_def)
  next
    case (shadowed name)
    have new: "?h \<notin> set (names b)" and ok: "table_ok b"
      using assms(2,4) fresh by (auto simp: st clean_for_def)
    have len: "length (map (rewritten J) (column b name)) = num_rows b"
      by (simp add: column_def num_rows_def)
    note eff = append_column_effect[OF ok new len]
    have reads: "\<forall>v \<in> set (column (append_column ?h (map (rewritten J) (column b name)) b)
          (case map_of (AList.update source ?h m) s of None \<Rightarrow> nm | Some h \<Rightarrow> h)). shreddable J v"
      if "s = source \<or> s \<in> set donesrc" "text_source b0 by_lower s nm" for s nm
    proof (cases "s = source")
      case True
      then show ?thesis
        using eff(4) shadowed(2) by (simp add: update_conv')
    next
      case False
      then have old: "\<forall>v \<in> set (column b (case map_of m s of None \<Rightarrow> nm | Some h \<Rightarrow> h)). shreddable J v"
        using assms(2) that by (simp add: st clean_for_def)
      have "(case map_of m s of None \<Rightarrow> nm | Some h \<Rightarrow> h) \<noteq> ?h"
        using assms(2) False named[OF that(2), of "[source]"] by (auto simp: st clean_for_def shadows_def split: option.splits)
      then show ?thesis
        using old False eff(4) by (simp add: update_conv')
    qed
    show ?thesis
      using assms(2) shadowed(1) reads eff
      by (auto simp: st clean_for_def shadows_def update_conv')
  qed
qed

lemma clean_steps:
  assumes "json_laws J" "clean_for J by_lower b0 donesrc st" "distinct srcs" "set srcs \<inter> set donesrc = {}"
    "\<And>s name. by_lower s = Some name \<Longrightarrow> name \<in> set (names b0)"
    "\<And>s. VARIANT_SRC_PREFIX @ s \<notin> set (names b0)"
    and "sanitize_sources J by_lower srcs st = Inr (out, ms)"
  shows "clean_for J by_lower b0 (rev srcs @ donesrc) out"
  using assms(2-4,7)
proof (induction srcs arbitrary: st donesrc ms)
  case (Cons s srcs)
  obtain st1 ms1 ms2 where one: "sanitize_source J by_lower s st = Inr (st1, ms1)"
      "sanitize_sources J by_lower srcs st1 = Inr (out, ms2)"
    using Cons.prems(4) by (auto simp: map_sum_def split: sum.splits prod.splits)
  have "clean_for J by_lower b0 (s # donesrc) st1"
    using clean_step[OF assms(1) Cons.prems(1) _ _ assms(5,6) one(1)] Cons.prems(3) assms(6)[of s] by simp
  then have "clean_for J by_lower b0 (rev srcs @ s # donesrc) out"
    using Cons.prems one(2) by (intro Cons.IH) auto
  then show ?case by simp
qed simp

lemma by_lower_names: "map_of (rev (map (\<lambda>n. (lower n, n)) ns)) s = Some name \<Longrightarrow> name \<in> set ns \<and> lower name = s"
  by (auto dest!: map_of_SomeD)


definition demo_big :: int where "demo_big = 9223372036854775808"
definition demo_quoted :: string where "demo_quoted = CHR 0x22 # str_int demo_big @ [CHR 0x22]"

definition demo_json :: json where
  "demo_json = \<lparr>loads = (\<lambda>s. if s = str_int demo_big then Some (PInt demo_big)
       else if s = demo_quoted then Some (PStr (str_int demo_big)) else None),
     dumps = (\<lambda>d. Some (if d = PInt demo_big then str_int demo_big else demo_quoted))\<rparr>"

definition demo_poison :: table where
  "demo_poison = \<lparr>tschema = [(''properties'', AString)], trows = [[(''properties'', PStr (str_int demo_big))]]\<rparr>"

lemma demo_big_window: "in_window demo_big"
  by (simp add: in_window_def INT64_MAX_def UINT64_MAX_def demo_big_def)

lemma demo_quoted_new: "demo_quoted \<noteq> str_int demo_big"
  by (simp add: demo_quoted_def)

lemma contains_itself: "contains s s"
  by (cases s) (simp_all add: starts_with_def)

lemma demo_json_laws: "json_laws demo_json"
  using demo_quoted_new contains_itself by (auto simp: json_laws_def demo_json_def demo_big_window)

lemma demo_poison_sanitized:
  "sanitize_variant_sources demo_json demo_poison (Some [''properties'']) =
     Inr ((append_column (VARIANT_SRC_PREFIX @ ''properties'') [PStr demo_quoted] demo_poison,
       [(''properties'', VARIANT_SRC_PREFIX @ ''properties'')]), [Inc ''variant_values_coerced_total'' [] 1])"
proof -
  have "flagged (PStr (str_int demo_big))"
    using prefilter_sound[OF demo_big_window contains_itself] by (simp add: flagged_def)
  moreover have "coerce_unshreddable_ints demo_json (PStr (str_int demo_big)) = Inr (Some demo_quoted)"
    by (simp add: coerce_unshreddable_ints_def demo_json_def demo_big_window)
  moreover have "column demo_poison ''properties'' = [PStr (str_int demo_big)]"
      "column_type demo_poison ''properties'' = Some AString" "names demo_poison = [''properties'']"
    by (simp_all add: demo_poison_def column_def cell_def column_type_def names_def)
  ultimately show ?thesis
    by (simp add: sanitize_variant_sources_def sanitize_source_def is_string_type_def Let_def)
qed


subsection \<open>What the ATTACH statement reads back to\<close>

text \<open>
  Two documented grammars, from just after an opening quote: a SQL literal, where a doubled quote is a
  quote, and a quoted libpq value, where a backslash takes the next character as it is. \<open>read_bare\<close> is a
  libpq value without quotes, which ends at white space.
\<close>

fun read_doubled :: "char \<Rightarrow> string \<Rightarrow> (string \<times> string) option" where
  "read_doubled q [] = None"
| "read_doubled q (c # cs) =
     (if c \<noteq> q then map_option (\<lambda>(s, r). (c # s, r)) (read_doubled q cs)
      else case cs of
        [] \<Rightarrow> Some ([], [])
      | d # ds \<Rightarrow> if d = q then map_option (\<lambda>(s, r). (q # s, r)) (read_doubled q ds) else Some ([], cs))"

fun read_escaped :: "string \<Rightarrow> (string \<times> string) option" where
  "read_escaped [] = None"
| "read_escaped (c # cs) =
     (if c = CHR 0x27 then Some ([], cs)
      else if c \<noteq> CHR 0x5C then map_option (\<lambda>(s, r). (c # s, r)) (read_escaped cs)
      else case cs of
        [] \<Rightarrow> None
      | d # ds \<Rightarrow> map_option (\<lambda>(s, r). (d # s, r)) (read_escaped ds))"

fun read_bare :: "string \<Rightarrow> string \<times> string" where
  "read_bare [] = ([], [])"
| "read_bare (c # cs) =
     (if ascii_space c then ([], c # cs)
      else if c = CHR 0x5C then (case cs of [] \<Rightarrow> ([], []) | d # ds \<Rightarrow> (let (s, r) = read_bare ds in (d # s, r)))
      else (let (s, r) = read_bare cs in (c # s, r)))"

definition read_libpq :: "string \<Rightarrow> (string \<times> string) option" where
  "read_libpq s = (case s of
     c # cs \<Rightarrow> if c = CHR 0x27 then read_escaped cs else Some (read_bare s)
   | [] \<Rightarrow> Some ([], []))"

text \<open>The values of the given keywords, in this order and with one blank between them.\<close>

fun read_connstr :: "string list \<Rightarrow> string \<Rightarrow> string list option" where
  "read_connstr [] s = (if s = [] then Some [] else None)"
| "read_connstr (k # ks) s =
     (if \<not> starts_with (k @ ''='') s then None
      else case read_libpq (drop (length k + 1) s) of
        None \<Rightarrow> None
      | Some (v, rest) \<Rightarrow> map_option (\<lambda>vs. v # vs) (read_connstr ks (if starts_with '' '' rest then tl rest else rest)))"

definition bare_word :: "string \<Rightarrow> bool" where
  "bare_word s \<longleftrightarrow> s \<noteq> [] \<and> hd s \<noteq> CHR 0x27 \<and> (\<forall>c \<in> set s. \<not> ascii_space c) \<and> CHR 0x5C \<notin> set s"

lemma replace_char_simps [simp]:
  "replace_char c r [] = []" "replace_char c r (x # xs) = (if x = c then r else [x]) @ replace_char c r xs"
  by (simp_all add: replace_char_def)

lemma replace_char_append: "replace_char c r (s @ t) = replace_char c r s @ replace_char c r t"
  by (simp add: replace_char_def)

lemma read_doubled_back:
  "rest = [] \<or> hd rest \<noteq> q \<Longrightarrow> read_doubled q (replace_char q [q, q] s @ q # rest) = Some (s, rest)"
  by (induction s) (auto split: list.splits)

lemma read_escaped_back:
  "read_escaped (replace_char (CHR 0x27) [CHR 0x5C, CHR 0x27] (replace_char (CHR 0x5C) [CHR 0x5C, CHR 0x5C] s)
     @ CHR 0x27 # rest) = Some (s, rest)"
  by (induction s) auto

lemma read_libpq_escaped: "read_libpq (escape_libpq x @ rest) = Some (case x of None \<Rightarrow> [] | Some s \<Rightarrow> s, rest)"
  by (simp add: read_libpq_def escape_libpq_def read_escaped_back split: option.split)

lemma blank_is_space: "ascii_space (CHR '' '')"
  by code_simp

lemma read_bare_back:
  "\<forall>c \<in> set s. \<not> ascii_space c \<Longrightarrow> CHR 0x5C \<notin> set s \<Longrightarrow> read_bare (s @ CHR '' '' # rest) = (s, CHR '' '' # rest)"
  by (induction s) (auto simp: blank_is_space)

lemma read_libpq_bare: "bare_word s \<Longrightarrow> read_libpq (s @ CHR '' '' # rest) = Some (s, CHR '' '' # rest)"
  using read_bare_back[of s rest] by (cases s) (auto simp: read_libpq_def bare_word_def)

lemma read_connstr_step:
  assumes "read_libpq (t @ CHR '' '' # u) = Some (v, CHR '' '' # u)"
  shows "read_connstr (k # ks) (k @ ''='' @ t @ '' '' @ u) = map_option (\<lambda>vs. v # vs) (read_connstr ks u)"
  using assms by (simp add: starts_with_def)

lemma read_connstr_last:
  assumes "read_libpq (t @ []) = Some (v, [])"
  shows "read_connstr [k] (k @ ''='' @ t) = Some [v]"
  using assms by (simp add: starts_with_def)

definition value_or_empty :: "string option \<Rightarrow> string" where
  "value_or_empty x = (case x of None \<Rightarrow> [] | Some s \<Rightarrow> s)"

definition ducklake_uri :: string where "ducklake_uri = ''ducklake:postgres:''"

text \<open>The text the ATTACH statement has before each literal.\<close>

definition attach_head :: string where
  "attach_head = [CHR 0x0A] @ ''        ATTACH '' @ [CHR 0x27]"

definition attach_middle :: string where
  "attach_middle = '' AS lake ('' @ [CHR 0x0A] @ ''            DATA_PATH '' @ [CHR 0x27]"

definition attach_tail :: string where
  "attach_tail = [CHR 0x0A] @ ''        )'' @ [CHR 0x0A] @ ''    ''"

lemma connstr_reads_back:
  assumes "rds_host cfg = Some host" "bare_word host" "rds_port cfg = Some port" "bare_word port"
  shows "read_connstr [''host'', ''port'', ''dbname'', ''user'', ''password''] (pg_connstr cfg)
    = Some [host, port, value_or_empty (rds_database cfg), value_or_empty (rds_username cfg),
        value_or_empty (rds_password cfg)]"
proof -
  have "pg_connstr cfg = ''host'' @ ''='' @ host @ '' '' @ ''port'' @ ''='' @ port @ '' '' @ ''dbname'' @ ''=''
    @ escape_libpq (rds_database cfg) @ '' '' @ ''user'' @ ''='' @ escape_libpq (rds_username cfg) @ '' ''
    @ ''password'' @ ''='' @ escape_libpq (rds_password cfg)"
    by (simp add: pg_connstr_def opt_text_def assms)
  then show ?thesis
    by (simp only: read_connstr_step[OF read_libpq_bare[OF assms(2)]] read_connstr_step[OF read_libpq_bare[OF assms(4)]]
        read_connstr_step[OF read_libpq_escaped] read_connstr_last[OF read_libpq_escaped] value_or_empty_def) simp
qed

text \<open>
  C29: the ATTACH statement carries the catalog's credentials through both of its parsers: read as SQL,
  its first literal is the DuckLake URI with a connection string whose keywords have, read by libpq's
  grammar, the configured values (an absent one reads as empty), whatever quotes and backslashes the
  database, user and password hold (host and port, which the code writes without quotes, are read back
  when they are bare words); its second literal is the configured data path, and nothing but the
  fixed text stands outside the two.
\<close>

theorem attach_reads_back:
  assumes "rds_host cfg = Some host" "bare_word host" "rds_port cfg = Some port" "bare_word port"
    and "ducklake_data_path cfg = Some path"
  shows "\<exists>connstr.
      (\<exists>lit. attach_statement cfg = attach_head @ lit
         \<and> read_doubled (CHR 0x27) lit = Some (ducklake_uri @ connstr, attach_middle @ sql_literal path @ CHR 0x27 # attach_tail))
    \<and> read_doubled (CHR 0x27) (sql_literal path @ CHR 0x27 # attach_tail) = Some (path, attach_tail)
    \<and> read_connstr [''host'', ''port'', ''dbname'', ''user'', ''password''] connstr
        = Some [host, port, value_or_empty (rds_database cfg), value_or_empty (rds_username cfg),
            value_or_empty (rds_password cfg)]"
proof (intro exI conjI)
  have uri: "sql_literal ducklake_uri = ducklake_uri"
    by (simp add: sql_literal_def ducklake_uri_def)
  then show "attach_statement cfg = attach_head @ sql_literal (ducklake_uri @ pg_connstr cfg) @ CHR 0x27
      # attach_middle @ sql_literal path @ CHR 0x27 # attach_tail"
    unfolding attach_statement_def attach_head_def attach_middle_def attach_tail_def
    by (simp add: sql_literal_def replace_char_append ducklake_uri_def opt_text_def assms(5))
  show "read_doubled (CHR 0x27) (sql_literal (ducklake_uri @ pg_connstr cfg) @ CHR 0x27
      # attach_middle @ sql_literal path @ CHR 0x27 # attach_tail)
    = Some (ducklake_uri @ pg_connstr cfg, attach_middle @ sql_literal path @ CHR 0x27 # attach_tail)"
    unfolding sql_literal_def by (rule read_doubled_back) (simp add: attach_middle_def)
  show "read_doubled (CHR 0x27) (sql_literal path @ CHR 0x27 # attach_tail) = Some (path, attach_tail)"
    unfolding sql_literal_def by (rule read_doubled_back) (simp add: attach_tail_def)
  show "read_connstr [''host'', ''port'', ''dbname'', ''user'', ''password''] (pg_connstr cfg)
      = Some [host, port, value_or_empty (rds_database cfg), value_or_empty (rds_username cfg),
          value_or_empty (rds_password cfg)]"
    by (rule connstr_reads_back[OF assms(1-4)])
qed

theorem attach_reads_back_witness:
  "\<exists>cfg. rds_password cfg = Some [CHR 0x27, CHR 0x5C, CHR ''a''] \<and> (\<exists>connstr.
      (\<exists>lit. attach_statement cfg = attach_head @ lit
         \<and> read_doubled (CHR 0x27) lit = Some (ducklake_uri @ connstr, attach_middle @ sql_literal ''s3://b'' @ CHR 0x27 # attach_tail))
    \<and> read_doubled (CHR 0x27) (sql_literal ''s3://b'' @ CHR 0x27 # attach_tail) = Some (''s3://b'', attach_tail)
    \<and> read_connstr [''host'', ''port'', ''dbname'', ''user'', ''password''] connstr
        = Some [''db'', ''5432'', value_or_empty (rds_database cfg), value_or_empty (rds_username cfg),
            value_or_empty (rds_password cfg)])"
proof -
  let ?cfg = "demo_cfg\<lparr>rds_host := Some ''db'', rds_port := Some ''5432'', ducklake_data_path := Some ''s3://b'',
    rds_password := Some [CHR 0x27, CHR 0x5C, CHR ''a'']\<rparr>"
  have "bare_word ''db''" "bare_word ''5432''"
    by code_simp+
  then show ?thesis
    using attach_reads_back[of ?cfg "''db''" "''5432''" "''s3://b''"]
    by (intro exI[of _ ?cfg] conjI) simp_all
qed

subsection \<open>What \<open>write\<close> reports\<close>

lemma num_rows_drop [simp]: "num_rows (drop_columns cols t) = num_rows t"
  by (simp add: num_rows_def drop_columns_def)

lemma num_rows_append [simp]: "num_rows (append_column h (map f (column t n)) t) = num_rows t"
  by (simp add: num_rows_def append_column_def column_def)

lemma drop_protected_effect:
  "fst (drop_protected_columns t ps) = drop_columns (filter (\<lambda>n. lower n \<in> set ps) (names t)) t
    \<or> fst (drop_protected_columns t ps) = t"
  by (simp add: drop_protected_columns_def Let_def)

lemma drop_protected_rows [simp]: "num_rows (fst (drop_protected_columns t ps)) = num_rows t"
  using drop_protected_effect[of t ps] by auto

lemma distinct_dropped: "distinct (names t) \<Longrightarrow> distinct (names (drop_columns cols t))"
  by (simp add: names_def drop_columns_def distinct_map_filter)

lemma drop_protected_distinct: "distinct (names t) \<Longrightarrow> distinct (names (fst (drop_protected_columns t ps)))"
  using drop_protected_effect[of t ps] distinct_dropped by metis

lemma drop_companions_keeps:
  assumes "drop_companions L batch variants smo w = (Inr b, rest)" "distinct (names batch)"
  shows "num_rows b = num_rows batch \<and> distinct (names b)"
proof -
  let ?b1 = "fst (drop_variant_companion_columns batch variants)"
  have b1: "num_rows ?b1 = num_rows batch" "distinct (names ?b1)"
    using drop_protected_distinct[OF assms(2)] by (simp_all add: drop_variant_companion_columns_def)
  have "b = ?b1 \<or> (\<exists>live. b = fst (drop_protected_columns ?b1 live))"
    using assms(1) by (auto simp: drop_companions_def split_beta Let_def split: option.splits prod.splits sum.splits)
  then show ?thesis
    using b1 drop_protected_distinct[OF b1(2)] by auto
qed

definition uuid_pins :: "(string \<Rightarrow> bool) \<Rightarrow> (string \<times> atype) list \<Rightarrow> (string \<times> string) list" where
  "uuid_pins P cols = map (\<lambda>(n, ty). (n, ''uuid'')) (filter (\<lambda>(n, ty). P n \<and> is_string_type ty) cols)"

lemma uuid_pins_on_text:
  assumes "distinct (map fst cols)" "(n, ty) \<in> set cols" "map_of (rev (uuid_pins P cols)) n = Some tn"
  shows "\<exists>ty'. map_of COERCERS tn = Some ty' \<and> coerces (coercer A tn) ty ty'"
proof -
  obtain ty' where ty': "(n, ty') \<in> set cols" "is_string_type ty'" "tn = ''uuid''"
    using map_of_SomeD[OF assms(3)] by (auto simp: uuid_pins_def)
  then have "is_string_type ty"
    using assms(1,2) eq_key_imp_eq_value by fast
  then show ?thesis
    using uuid_coerces_text[of ty A] by (auto simp: ty'(3) COERCERS_def is_string_type_def)
qed

lemma uuid_pins_keep_rows:
  assumes "distinct (names b)" "coerce_typed_columns A b (uuid_pins P (tschema b)) = Inr (t', ms)"
  shows "num_rows t' = num_rows b"
proof -
  have "\<forall>(n, ty) \<in> set (tschema b). \<forall>tn. map_of (rev (uuid_pins P (tschema b))) n = Some tn \<longrightarrow>
      (\<exists>ty'. map_of COERCERS tn = Some ty' \<and> coerces (coercer A tn) ty ty')"
    using uuid_pins_on_text[OF assms(1)[unfolded names_def]] by fast
  from coerce_typed_ends[OF this] show ?thesis
    using assms(2) by simp
qed

lemma align_keeps_rows:
  assumes "align_uuid_columns L A b sm w = (Inr b', rest)" "distinct (names b)"
  shows "num_rows b' = num_rows b"
proof -
  consider "b' = b" | live t' ms where "coerce_typed_columns A b (uuid_pins (\<lambda>n. lower n \<in> set live) (tschema b)) = Inr (t', ms)" "b' = t'"
    using assms(1) unfolding align_uuid_columns_def uuid_pins_def Let_def
    by (auto split: prod.splits sum.splits if_splits)
  then show ?thesis
    using uuid_pins_keep_rows[OF assms(2)] by cases auto
qed

lemma evolve_for_keeps_rows:
  assumes "evolve_for L A type_str batch variants smo w = (Inr (b, ready), rest)" "distinct (names batch)"
  shows "num_rows b = num_rows batch"
proof (cases smo)
  case None
  then show ?thesis
    using assms(1) by (simp add: evolve_for_def)
next
  case (Some sm)
  obtain r sm1 w1 ms1 where align: "align_uuid_columns L A batch sm w = (r, sm1, w1, ms1)"
    by (cases "align_uuid_columns L A batch sm w")
  then obtain b1 where r: "r = Inr b1"
    using assms(1) Some by (cases r) (auto simp: evolve_for_def)
  have "b = b1"
    using assms(1) Some align r
    by (auto simp: evolve_for_def Let_def split: prod.splits sum.splits if_splits)
  then show ?thesis
    using align_keeps_rows[of L A batch sm w b1] align r assms(2) by simp
qed

lemma sanitize_source_rows:
  assumes "sanitize_source J by_lower s (b, m) = Inr (out, ms)"
  shows "num_rows (fst out) = num_rows b"
proof -
  have "length cs = length vs" if "coerce_values J vs = Inr cs" for vs cs
    using arg_cong[OF coerce_values_result[OF that, THEN conjunct1], of length] by simp
  then show ?thesis
    using assms by (auto simp: sanitize_source_def Let_def num_rows_def append_column_def column_def
        split: option.splits if_splits sum.splits)
qed

lemma sanitize_sources_rows:
  "sanitize_sources J by_lower srcs st = Inr (out, ms) \<Longrightarrow> num_rows (fst out) = num_rows (fst st)"
proof (induction srcs arbitrary: st ms)
  case (Cons s srcs)
  obtain st1 ms1 ms2 where "sanitize_source J by_lower s st = Inr (st1, ms1)"
      "sanitize_sources J by_lower srcs st1 = Inr (out, ms2)"
    using Cons.prems by (auto simp: map_sum_def split: sum.splits prod.splits)
  then show ?case
    using Cons.IH sanitize_source_rows[of J by_lower s "fst st" "snd st"] by simp
qed simp

lemma sanitize_rows:
  "sanitize_variant_sources J batch sources = Inr ((b, src), ms) \<Longrightarrow> num_rows b = num_rows batch"
  using sanitize_sources_rows[of J _ _ "(batch, [])" "(b, src)" ms]
  by (auto simp: sanitize_variant_sources_def split: option.splits)

text \<open>The INSERTs that took effect.\<close>

fun landed :: "lake_event list \<Rightarrow> (string \<times> table) list" where
  "landed [] = []"
| "landed (LInsert sql b True # evs) = (sql, b) # landed evs"
| "landed (e # evs) = landed evs"

lemma landed_append [simp]: "landed (xs @ ys) = landed xs @ landed ys"
  by (induction xs rule: landed.induct) auto

lemma landed_metrics [simp]: "landed (map LMetric ms) = []"
  by (induction ms) auto

lemma insert_batch_lands:
  assumes "insert_batch L J table_name schema_name batch ready w = (res, w', evs)"
  shows "case res of Inl e \<Rightarrow> landed evs = []
    | Inr n \<Rightarrow> \<exists>sql b. landed evs = [(sql, b)] \<and> num_rows b = num_rows batch \<and> n = int (num_rows batch)"
proof -
  note rows = sanitize_rows[of J batch ready]
  show ?thesis
    using assms rows unfolding insert_batch_def Let_def
    by (auto split: sum.splits option.splits if_splits prod.splits)
qed

text \<open>
  C9: what \<open>write\<close> returns is what landed. When it returns, either exactly one INSERT took effect, of a
  table with every row of the batch, and the number returned is that number of rows; or nothing was
  inserted, the number is 0, the batch had columns and the whole batch is counted as skipped. When it
  raises, no INSERT took effect, so that writing the batch again does not duplicate it.
\<close>

theorem write_is_honest:
  assumes "lake_write L A J type_str table_name part schema_name variants batch st w = (res, st', w', evs)"
    and "distinct (names batch)"
  shows "case res of
      Inl e \<Rightarrow> landed evs = []
    | Inr n \<Rightarrow>
        (\<exists>sql b. landed evs = [(sql, b)] \<and> num_rows b = num_rows batch \<and> n = int (num_rows batch))
        \<or> landed evs = [] \<and> n = 0 \<and> names batch \<noteq> []
          \<and> LMetric (Inc ''records_skipped_total'' ''variant_companion_collision'' (int (num_rows batch))) \<in> set evs"
proof -
  consider (failed) e where "res = Inl e" "landed evs = []"
    | (skipped) b1 rest where "drop_companions L batch variants (manager st) w = (Inr b1, rest)"
        "names batch \<noteq> []" "res = Inr 0" "landed evs = []"
        "LMetric (Inc ''records_skipped_total'' ''variant_companion_collision'' (int (num_rows b1))) \<in> set evs"
    | (inserted) b1 rest smo1 w2 b3 ready rest3 w3 w4 evs2
        where "drop_companions L batch variants (manager st) w = (Inr b1, rest)"
          "evolve_for L A type_str b1 variants smo1 w2 = (Inr (b3, ready), rest3)"
          "insert_batch L J table_name schema_name b3 ready w3 = (res, w4, evs2)"
          "landed evs = landed evs2"
    using assms(1) unfolding lake_write_def Let_def
    by (auto split: sum.splits prod.splits if_splits)
  then show ?thesis
  proof cases
    case failed
    then show ?thesis
      by simp
  next
    case skipped
    then show ?thesis
      using drop_companions_keeps[OF skipped(1) assms(2)] by simp
  next
    case inserted
    have "num_rows b3 = num_rows batch"
      using drop_companions_keeps[OF inserted(1) assms(2)] evolve_for_keeps_rows[OF inserted(2)] by simp
    then show ?thesis
      using insert_batch_lands[OF inserted(3)] inserted(4) by (auto split: sum.splits)
  qed
qed

text \<open>A catalog that has the table and takes every statement.\<close>

definition demo_lake :: "nat lake" where
  "demo_lake = \<lparr>lk_query = (\<lambda>sql ps w. (Inr [(''1'', ''1'')], w)), run_with = (\<lambda>view t sql w. (None, Suc w))\<rparr>"

lemma demo_lake_write:
  "lake_write demo_lake demo_arrow demo_json (\<lambda>ty. ''string'') ''events'' None ''main'' None demo_poison
     \<lparr>tables_ensured = [], manager = None\<rparr> 0
   = (Inr 1, \<lparr>tables_ensured = [''events''], manager = None\<rparr>, 1,
      [LInsert (insert_sql ''main'' ''events'' ''*, NOW() AS _inserted_at'') demo_poison True])"
proof -
  have "names demo_poison = [''properties'']" "num_rows demo_poison = 1"
    by (simp_all add: names_def demo_poison_def num_rows_def)
  moreover have "check_reserved_collision (tschema demo_poison) RESERVED_COLUMNS = Inr ()"
    by (simp add: check_reserved_collision_def demo_poison_def RESERVED_COLUMNS_def)
  moreover have "drop_companions demo_lake demo_poison None None 0 = (Inr demo_poison, None, 0, [])"
    by (simp add: drop_companions_def drop_variant_companion_columns_def drop_protected_columns_def)
  moreover have "table_exists demo_lake ''events'' ''main'' w = (Inr True, w)" for w
    by (simp add: table_exists_def demo_lake_def)
  ultimately show ?thesis
    by (simp add: lake_write_def ensure_table_def evolve_for_def insert_batch_def sanitize_variant_sources_def
        build_insert_select_sql_def demo_lake_def)
qed

theorem write_is_honest_witness:
  "\<exists>sql b. landed [LInsert (insert_sql ''main'' ''events'' ''*, NOW() AS _inserted_at'') demo_poison True] = [(sql, b)]
    \<and> num_rows b = num_rows demo_poison \<and> 1 = int (num_rows demo_poison)"
proof -
  have "distinct (names demo_poison)"
    by (simp add: names_def demo_poison_def)
  from write_is_honest[OF demo_lake_write this] show ?thesis
    by simp
qed

end
