(* ===== verification/HogText.thy ===== *)
theory HogText
  imports DuckLake "HOL-Library.Product_Lexorder" "HOL-Library.Multiset"
begin

text \<open>
  The texts of the hoglake sink (\<open>millpond/hoglake.py\<close>): the commit message and its offsets lines, the
  message of a DDL snapshot, the name an idempotency key is derived from, and the startup probe's marker
  and hint. \<open>uuid5\<close> and a fresh random UUID are parameters. A text of the model is Latin-1, so a
  character takes one or two bytes of UTF-8.
\<close>

subsection \<open>Tokens\<close>

type_synonym kafka_range = "string \<times> int \<times> int \<times> int"

definition codec_token :: "string option \<Rightarrow> int option \<Rightarrow> string" where
  "codec_token compression level =
     (let name = (case compression of None \<Rightarrow> ''default'' | Some c \<Rightarrow> if c = [] then ''default'' else c)
      in case level of None \<Rightarrow> name | Some l \<Rightarrow> name @ ''-'' @ str_int l)"

definition stats_token :: "bool option \<Rightarrow> string" where
  "stats_token deferred_stats = (if deferred_stats = Some True then ''deferred'' else ''shipped'')"

definition message_token :: "string \<Rightarrow> string" where
  "message_token val =
     (let txt = map (\<lambda>c. if is_space c then CHR ''_'' else c) val
      in if txt = [] then ''unknown'' else txt)"

definition MESSAGE_TRIGGERS :: "(string \<times> string) list" where
  "MESSAGE_TRIGGERS = [(''size'', ''size''), (''time'', ''interval''), (''interval'', ''interval''), (''final'', ''final'')]"

definition UNKNOWN_TRIGGER :: string where "UNKNOWN_TRIGGER = ''unknown''"

definition trigger_token :: "string option \<Rightarrow> string" where
  "trigger_token trigger =
     (case Option.bind trigger (map_of MESSAGE_TRIGGERS) of None \<Rightarrow> UNKNOWN_TRIGGER | Some t \<Rightarrow> t)"

subsection \<open>The commit message\<close>

definition utf8_len :: "string \<Rightarrow> nat" where
  "utf8_len s = sum_list (map (\<lambda>c. if code c < 128 then 1 else 2) s)"

definition MESSAGE_OFFSETS_LIMIT :: nat where "MESSAGE_OFFSETS_LIMIT = 16384"

definition range_part :: "int \<times> int \<times> int \<Rightarrow> string" where
  "range_part = (\<lambda>(partition, first, final). ''p'' @ str_int partition @ '':'' @ str_int first @ ''-'' @ str_int final)"

definition more_marker :: "nat \<Rightarrow> string" where
  "more_marker k = '' ... (+'' @ str_int (int k) @ '' more)''"

text \<open>How many of the parts the greedy prefix keeps, \<open>sz\<close> bytes being used already.\<close>

fun kept_parts :: "nat \<Rightarrow> nat \<Rightarrow> string list \<Rightarrow> nat" where
  "kept_parts limit sz [] = 0"
| "kept_parts limit sz (part # parts) =
     (let grown = sz + 1 + utf8_len part in
      if limit < grown + utf8_len (more_marker (length parts)) then 0
      else Suc (kept_parts limit grown parts))"

definition offsets_line :: "string \<Rightarrow> (int \<times> int \<times> int) list \<Rightarrow> nat \<Rightarrow> string" where
  "offsets_line tpc ranges limit =
     (let head = ''offsets '' @ tpc;
          parts = map range_part ranges;
          whole = join '' '' (head # parts) @ '' ('' @ str_int (int (length parts)) @ '')''
      in if utf8_len whole \<le> limit then whole
         else (let kept = kept_parts limit (utf8_len head) parts
               in join '' '' (head # take kept parts) @ more_marker (length parts - kept)))"

fun group_topics :: "kafka_range list \<Rightarrow> (string, (int \<times> int \<times> int) list) dict
     \<Rightarrow> (string, (int \<times> int \<times> int) list) dict" where
  "group_topics [] d = d"
| "group_topics ((t, p, first, final) # rs) d =
     group_topics rs (AList.update t ((case map_of d t of None \<Rightarrow> [] | Some l \<Rightarrow> l) @ [(p, first, final)]) d)"

record flush_summary =
  fs_records :: int
  fs_files :: int
  fs_partitions :: int
  fs_arrow_bytes :: int
  fs_trigger :: "string option"
  fs_version :: string
  fs_table_uuid :: "string option"
  fs_codec :: string
  fs_stats :: string

definition format_commit_message :: "flush_summary \<Rightarrow> kafka_range list \<Rightarrow> nat \<Rightarrow> string" where
  "format_commit_message F kafka_offsets limit =
     (let summary = ''records='' @ str_int (fs_records F) @ '' files='' @ str_int (fs_files F)
            @ '' partitions='' @ str_int (fs_partitions F) @ '' arrow_bytes='' @ str_int (fs_arrow_bytes F)
            @ '' codec='' @ fs_codec F @ '' stats='' @ fs_stats F @ '' trigger='' @ trigger_token (fs_trigger F)
            @ '' millpond='' @ message_token (fs_version F)
            @ '' table='' @ message_token (case fs_table_uuid F of None \<Rightarrow> ''unknown''
                               | Some u \<Rightarrow> if u = [] then ''unknown'' else u);
          by_topic = group_topics kafka_offsets []
      in join [CHR 0x0A] (summary #
           map (\<lambda>t. offsets_line t (sort (case map_of by_topic t of None \<Rightarrow> [] | Some rs \<Rightarrow> rs)) limit)
             (sort (map fst by_topic))))"

subsection \<open>The message of a DDL snapshot\<close>

definition partition_text :: "string \<times> string \<times> int option \<Rightarrow> string" where
  "partition_text = (\<lambda>(c, t, p). t @ ''('' @ c @ (case p of None \<Rightarrow> [] | Some n \<Rightarrow> '', '' @ str_int n) @ '')'')"

definition describe_configured_partition :: "config \<Rightarrow> string" where
  "describe_configured_partition cfg =
     join '', '' (map partition_text (case hoglake_partition_by cfg of None \<Rightarrow> [] | Some l \<Rightarrow> l))"

definition setting_value :: "config \<Rightarrow> string \<Rightarrow> string" where
  "setting_value cfg name =
     (if name = ''HOGLAKE_DATA_PATH'' then (case hoglake_data_path cfg of None \<Rightarrow> [] | Some p \<Rightarrow> p)
      else if name = ''HOGLAKE_PARTITION_BY'' then describe_configured_partition cfg
      else if name = ''MILLPOND_SORT_BY'' then join '','' (case sort_by cfg of None \<Rightarrow> [] | Some l \<Rightarrow> l)
      else join '','' (map (\<lambda>(n, t). n @ '':'' @ t) (case typed_columns cfg of None \<Rightarrow> [] | Some l \<Rightarrow> l)))"

definition ddl_message :: "config \<Rightarrow> string \<Rightarrow> string \<Rightarrow> string list \<Rightarrow> string" where
  "ddl_message cfg why what settings =
     join ''; '' ((why @ '': '' @ what) # map (\<lambda>n. n @ ''='' @
       (if setting_value cfg n = [] then ''unset'' else setting_value cfg n)) settings)"

subsection \<open>The idempotency key\<close>

definition range_line :: "kafka_range \<Rightarrow> string" where
  "range_line = (\<lambda>(t, p, first, final).
     t @ '':'' @ str_int p @ '':'' @ str_int first @ ''-'' @ str_int final)"

definition flush_name :: "config \<Rightarrow> string option \<Rightarrow> kafka_range list \<Rightarrow> string" where
  "flush_name cfg table_uuid offs = join [CHR 0x0A]
     ((opt_text (hoglake_catalog cfg) @ ''/'' @ opt_text (hoglake_namespace cfg) @ ''/''
        @ opt_text (hoglake_table cfg) @ ''/'' @ opt_text table_uuid) # map range_line (sort offs))"

text \<open>\<open>fresh\<close> is the random UUID an anonymous flush draws.\<close>

definition flush_key :: "(string \<Rightarrow> string) \<Rightarrow> string \<Rightarrow> config \<Rightarrow> string option \<Rightarrow> kafka_range list \<Rightarrow> string" where
  "flush_key uuid5 fresh cfg table_uuid offs = (if offs = [] then fresh else uuid5 (flush_name cfg table_uuid offs))"

subsection \<open>The startup probe\<close>

definition PROBE_MARKER :: string where "PROBE_MARKER = ''_millpond/probe''"

definition probe_marker_uri :: "string \<Rightarrow> string" where
  "probe_marker_uri data_path = rev (dropWhile (\<lambda>c. c = CHR ''/'') (rev data_path)) @ ''/'' @ PROBE_MARKER"

text \<open>The sentence of the refusal, named by what it says.\<close>

datatype hint_kind = NoSuchBucketHint | RegionHint | StaticKeysHint | ChainCredentialHint | PutObjectHint

definition probe_hint :: "string \<Rightarrow> bool \<Rightarrow> hint_kind" where
  "probe_hint sdk_error static_keys =
     (if contains ''NoSuchBucket'' sdk_error \<or> contains ''NO_SUCH_BUCKET'' sdk_error then NoSuchBucketHint
      else if contains ''AuthorizationHeaderMalformed'' sdk_error \<or> contains ''PermanentRedirect'' sdk_error
      then RegionHint
      else if contains ''INVALID_ACCESS_KEY_ID'' sdk_error \<or> contains ''SIGNATURE_DOES_NOT_MATCH'' sdk_error
      then (if static_keys then StaticKeysHint else ChainCredentialHint)
      else PutObjectHint)"

subsection \<open>An offsets line fits its limit\<close>

lemma utf8_len_append [simp]: "utf8_len (s @ t) = utf8_len s + utf8_len t"
  by (simp add: utf8_len_def)

lemma utf8_len_Cons: "utf8_len (c # s) = (if code c < 128 then 1 else 2) + utf8_len s"
  by (simp add: utf8_len_def)

lemma utf8_len_join: "utf8_len (join '' '' (h # parts)) = utf8_len h + sum_list (map (\<lambda>p. 1 + utf8_len p) parts)"
proof (induction parts arbitrary: h)
  case (Cons p parts)
  then show ?case
    using Cons[of p] by (simp add: utf8_len_Cons code_def)
qed simp

lemma kept_parts_fit:
  "kept_parts limit sz parts \<le> length parts
   \<and> (kept_parts limit sz parts = 0
      \<or> sz + sum_list (map (\<lambda>p. 1 + utf8_len p) (take (kept_parts limit sz parts) parts))
          + utf8_len (more_marker (length parts - kept_parts limit sz parts)) \<le> limit)"
proof (induction limit sz parts rule: kept_parts.induct)
  case (2 limit sz part parts)
  let ?grown = "sz + 1 + utf8_len part"
  show ?case
  proof (cases "limit < ?grown + utf8_len (more_marker (length parts))")
    case False
    then show ?thesis
      using 2[OF refl] by (cases "kept_parts limit ?grown parts") (auto simp: Let_def)
  qed (simp add: Let_def)
qed simp

text \<open>
  an offsets line names the topic and a prefix of the ranges; it names all of them and their count
  when that fits the limit, and otherwise says how many it left out. It is within the limit unless not
  one range fits.
\<close>

theorem offsets_line_fits:
  "(offsets_line tpc ranges limit
      = join '' '' ((''offsets '' @ tpc) # map range_part ranges) @ '' ('' @ str_int (int (length ranges)) @ '')''
    \<and> utf8_len (offsets_line tpc ranges limit) \<le> limit)
   \<or> (\<exists>k \<le> length ranges. offsets_line tpc ranges limit
        = join '' '' ((''offsets '' @ tpc) # map range_part (take k ranges)) @ more_marker (length ranges - k)
      \<and> (k = 0 \<or> utf8_len (offsets_line tpc ranges limit) \<le> limit))"
proof -
  let ?head = "''offsets '' @ tpc" and ?parts = "map range_part ranges"
  let ?whole = "join '' '' (?head # ?parts) @ '' ('' @ str_int (int (length ranges)) @ '')''"
  show ?thesis
  proof (cases "utf8_len ?whole \<le> limit")
    case True
    then have "offsets_line tpc ranges limit = ?whole"
      by (simp only: offsets_line_def Let_def length_map if_True)
    then show ?thesis
      using True by (simp only:) simp
  next
    case False
    let ?k = "kept_parts limit (utf8_len ?head) ?parts"
    have line: "offsets_line tpc ranges limit
        = join '' '' (?head # map range_part (take ?k ranges)) @ more_marker (length ranges - ?k)"
      using False by (simp only: offsets_line_def Let_def length_map if_False take_map)
    have "utf8_len (offsets_line tpc ranges limit) = utf8_len ?head
        + sum_list (map (\<lambda>p. 1 + utf8_len p) (take ?k ?parts)) + utf8_len (more_marker (length ranges - ?k))"
      by (simp only: line utf8_len_append utf8_len_join take_map)
    then have "?k = 0 \<or> utf8_len (offsets_line tpc ranges limit) \<le> limit" "?k \<le> length ranges"
      using kept_parts_fit[of limit "utf8_len ?head" ?parts] by (simp_all only: length_map)
    then show ?thesis
      using line by blast
  qed
qed

subsection \<open>A key names its rows\<close>

text \<open>A Kafka topic has no colon and no newline in its name; partitions and offsets are not negative.\<close>

definition legal_range :: "kafka_range \<Rightarrow> bool" where
  "legal_range = (\<lambda>(t, p, first, final). CHR '':'' \<notin> set t \<and> CHR 0x0A \<notin> set t \<and> 0 \<le> p \<and> 0 \<le> first \<and> 0 \<le> final)"

lemma sep_inject:
  "c \<notin> set s \<Longrightarrow> c \<notin> set s' \<Longrightarrow> s @ c # t = s' @ c # t' \<longleftrightarrow> s = s' \<and> t = t'"
  by (auto simp: append_eq_append_conv2 append_eq_Cons_conv Cons_eq_append_conv)

lemma digits_no: "\<not> is_digit c \<Longrightarrow> c \<notin> set (digits_of n)"
  using digits_of_digits by blast

lemma str_int_inject: "0 \<le> a \<Longrightarrow> 0 \<le> b \<Longrightarrow> str_int a = str_int b \<longleftrightarrow> a = b"
  by (metis digits_value_digits_of int_nat_eq not_less str_int_def)

lemma range_line_inject:
  assumes "legal_range r" "legal_range r'" "range_line r = range_line r'"
  shows "r = r'"
proof -
  have no: "c \<notin> set (str_int i)" if "0 \<le> i" "c = CHR '':'' \<or> c = CHR ''-''" for c i
    using that digits_no[of c] by (auto simp: str_int_def is_digit_def code_def)
  obtain t p f l t' p' f' l' where r: "r = (t, p, f, l)" "r' = (t', p', f', l')"
    by (metis prod_cases4)
  have "t @ CHR '':'' # str_int p @ CHR '':'' # str_int f @ CHR ''-'' # str_int l
      = t' @ CHR '':'' # str_int p' @ CHR '':'' # str_int f' @ CHR ''-'' # str_int l'"
    using assms(3) by (simp add: r range_line_def)
  then show ?thesis
    using assms(1,2) no by (simp add: r legal_range_def sep_inject str_int_inject)
qed

lemma range_line_one_line: "legal_range r \<Longrightarrow> CHR 0x0A \<notin> set (range_line r)"
  using digits_no[of "CHR 0x0A"] by (auto simp: legal_range_def range_line_def str_int_def is_digit_def code_def)

lemma sort_eq_mset: "sort xs = sort ys \<longleftrightarrow> mset xs = mset ys" for xs :: "'a :: linorder list"
  by (metis mset_sort properties_for_sort sorted_sort)

text \<open>
  C20: two flushes to one destination carry the same idempotency key exactly when they name the same
  incarnation of the table and the same offset ranges, in whatever order, as long as \<open>uuid5\<close> does not
  collide and topics, partitions and offsets are what Kafka makes them.
\<close>

theorem flush_key_names_rows:
  assumes "inj uuid5" "offs \<noteq> []" "offs' \<noteq> []" "\<forall>r \<in> set offs \<union> set offs'. legal_range r"
    and "CHR 0x0A \<notin> set (opt_text (hoglake_catalog cfg) @ opt_text (hoglake_namespace cfg) @ opt_text (hoglake_table cfg) @ u @ u')"
  shows "flush_key uuid5 fresh cfg (Some u) offs = flush_key uuid5 fresh' cfg (Some u') offs'
    \<longleftrightarrow> u = u' \<and> mset offs = mset offs'"
proof -
  let ?pre = "\<lambda>u. opt_text (hoglake_catalog cfg) @ ''/'' @ opt_text (hoglake_namespace cfg) @ ''/''
      @ opt_text (hoglake_table cfg) @ ''/'' @ opt_text (Some u)"
  have lines: "split_on (CHR 0x0A) (flush_name cfg (Some v) os) = ?pre v # map range_line (sort os)"
    if ok: "\<forall>r \<in> set os. legal_range r" and v: "CHR 0x0A \<notin> set v" for v os
    unfolding flush_name_def using ok v assms(5) range_line_one_line by (intro split_on_join) (auto simp: opt_text_def)
  have "inj_on range_line (set (sort offs) \<union> set (sort offs'))"
    using assms(4) by (intro inj_onI range_line_inject) simp_all
  then have "map range_line (sort offs) = map range_line (sort offs') \<longleftrightarrow> sort offs = sort offs'"
    by (rule inj_on_map_eq_map)
  moreover have "flush_name cfg (Some u) offs = flush_name cfg (Some u') offs' \<longleftrightarrow>
      split_on (CHR 0x0A) (flush_name cfg (Some u) offs) = split_on (CHR 0x0A) (flush_name cfg (Some u') offs')"
    by (metis join_split_on)
  moreover have "?pre u = ?pre u' \<longleftrightarrow> u = u'"
    by (simp add: opt_text_def)
  ultimately show ?thesis
    using assms lines[of offs u] lines[of offs' u'] by (simp add: flush_key_def inj_eq sort_eq_mset)
qed

theorem flush_key_names_rows_witness:
  "flush_key id [] demo_cfg (Some ''u1'') [(''t'', 1, 0, 5), (''t'', 0, 3, 4)]
     = flush_key id [] demo_cfg (Some ''u1'') [(''t'', 0, 3, 4), (''t'', 1, 0, 5)]
   \<and> flush_key id [] demo_cfg (Some ''u1'') [(''t'', 0, 3, 4)] \<noteq> flush_key id [] demo_cfg (Some ''u1'') [(''t'', 0, 0, 4)]"
proof -
  have *: "CHR 0x0A \<notin> set (opt_text (hoglake_catalog demo_cfg) @ opt_text (hoglake_namespace demo_cfg)
      @ opt_text (hoglake_table demo_cfg) @ ''u1'' @ ''u1'')"
    by (simp add: demo_cfg_def opt_text_def)
  show ?thesis
    using flush_key_names_rows[OF inj_on_id _ _ _ *, of "[(''t'', 1, 0, 5), (''t'', 0, 3, 4)]" "[(''t'', 0, 3, 4), (''t'', 1, 0, 5)]"]
      flush_key_names_rows[OF inj_on_id _ _ _ *, of "[(''t'', 0, 3, 4)]" "[(''t'', 0, 0, 4)]"]
    by (simp add: legal_range_def)
qed

end
