(* ===== verification/HogTable.thy ===== *)
theory HogTable
  imports HogText
begin

text \<open>
  Tables, layouts and errors of the hoglake sink (\<open>millpond/hoglake.py\<close>): the exceptions and their
  classification, column names the catalog refuses, the partition and sort specs configuration asks for,
  the fanout of a batch into partition groups, and the shaping of a batch to the live columns. The
  functions of pyhoglake and pyarrow these use are the fields of a record.
\<close>

subsection \<open>Errors\<close>

text \<open>The classes of pyhoglake the code tells apart, and what it reads of an error.\<close>

datatype hog_class =
    CommitConflictError | DdlSinceReadSnapshotError | IncarnationChangedError
  | ExpiredError | ReadSnapshotExpiredError | NotFoundError | AlreadyExistsError | ValidationError
  | UnsupportedTypeError | MalformedResponseError | IdlessFilesPresentError | PlainHoglakeError

record hog_error =
  he_class :: hog_class
  he_status :: "int option"
  he_message :: string
  he_detail :: "string option"
  he_text :: string

text \<open>The stops of the sink itself, \<open>HoglakeSinkError\<close>.\<close>

datatype sink_stop =
    RequiresField string | S3KeyPair | CatalogMissing | ControlPlane | NoFilesystem | ProbeFailed hint_kind
  | PartitionSourceMissing int | PartitionMismatch | SortMismatch | PartitionColumnMissing string
  | PartitionUndeclared | SortUndeclared | IdlessFilesLive "string list" | NothingPrepared
  | TableRecreated | SnapshotExpired | DdlSinceSnapshot

datatype hexc =
    SinkError sink_stop
  | HogE hog_error
  | HttpError | OsError
  | ArrowE arrow_error
  | ValueE string
  | OtherE

text \<open>\<open>isinstance\<close>: two of the classes are subclasses.\<close>

definition is_conflict :: "hog_class \<Rightarrow> bool" where
  "is_conflict c \<longleftrightarrow> c = CommitConflictError \<or> c = DdlSinceReadSnapshotError"

definition is_expired :: "hog_class \<Rightarrow> bool" where
  "is_expired c \<longleftrightarrow> c = ExpiredError \<or> c = ReadSnapshotExpiredError"

fun stop_retryable :: "sink_stop \<Rightarrow> bool" where
  "stop_retryable TableRecreated = True"
| "stop_retryable SnapshotExpired = True"
| "stop_retryable DdlSinceSnapshot = True"
| "stop_retryable s = False"

definition RETRYABLE_CLIENT_STATUS :: "int list" where "RETRYABLE_CLIENT_STATUS = [408, 429]"

fun hog_is_retryable :: "hexc \<Rightarrow> bool" where
  "hog_is_retryable (SinkError s) = stop_retryable s"
| "hog_is_retryable (HogE e) =
     (if is_conflict (he_class e) \<or> he_class e = IncarnationChangedError then True
      else if he_class e \<in> {MalformedResponseError, ValidationError, UnsupportedTypeError, AlreadyExistsError}
        \<or> is_expired (he_class e) then False
      else case he_status e of
        None \<Rightarrow> True
      | Some status \<Rightarrow>
          if status \<in> set RETRYABLE_CLIENT_STATUS then True
          else if 400 \<le> status \<and> status < 500 then he_class e = NotFoundError
          else True)"
| "hog_is_retryable HttpError = True"
| "hog_is_retryable OsError = True"
| "hog_is_retryable (ArrowE e) = (e \<notin> {ArrowInvalid, ArrowTypeError, ArrowNotImplemented})"
| "hog_is_retryable (ValueE m) = False"
| "hog_is_retryable OtherE = True"

definition error_text :: "hog_error \<Rightarrow> string" where
  "error_text e = lower (he_message e @ '' '' @ (case he_detail e of None \<Rightarrow> [] | Some d \<Rightarrow> d))"

definition is_answered_refusal :: "hexc \<Rightarrow> bool" where
  "is_answered_refusal x = (case x of HogE e \<Rightarrow> he_status e \<in> {Some 409, Some 410, Some 422} | _ \<Rightarrow> False)"

definition REUSED_KEY_MARKER :: string where "REUSED_KEY_MARKER = ''idempotency_key reused''"

definition reused_key :: "hog_error \<Rightarrow> bool" where
  "reused_key e \<longleftrightarrow> he_class e = ValidationError \<and> contains REUSED_KEY_MARKER (error_text e)"

definition ALIGNMENT_REFUSALS :: "string list" where
  "ALIGNMENT_REFUSALS = [''prepared Parquet schema/field IDs differ from destination'',
     ''prepared Parquet columns differ from destination'']"

definition is_alignment_refusal :: "hog_error \<Rightarrow> bool" where
  "is_alignment_refusal e \<longleftrightarrow> (\<exists>marker \<in> set ALIGNMENT_REFUSALS. contains marker (he_text e))"

definition DESTINATION_MOVED :: "hog_class list" where
  "DESTINATION_MOVED = [DdlSinceReadSnapshotError, IncarnationChangedError, ReadSnapshotExpiredError]"

subsection \<open>Column names and the metadata column\<close>

definition HOG_RESERVED_COLUMNS :: "string list" where "HOG_RESERVED_COLUMNS = [''_inserted_at'']"
definition INSERTED_AT :: string where "INSERTED_AT = ''_inserted_at''"
definition INSERTED_AT_TYPE :: atype where "INSERTED_AT_TYPE = ATimestamp ''us'' (Some ''UTC'')"
definition HOG_RESERVED_PREFIX :: string where "HOG_RESERVED_PREFIX = ''_hog''"
definition MAX_COLUMN_NAME_LEN :: nat where "MAX_COLUMN_NAME_LEN = 128"

definition unwritable_name :: "string \<Rightarrow> bool" where
  "unwritable_name n \<longleftrightarrow> starts_with HOG_RESERVED_PREFIX (lower n) \<or> \<not> SAFE_IDENTIFIER n \<or> MAX_COLUMN_NAME_LEN < length n"

definition drop_unwritable_columns :: "table \<Rightarrow> table \<times> metric list" where
  "drop_unwritable_columns batch =
     (let drp = filter unwritable_name (names batch)
      in (if drp = [] then batch else drop_columns drp batch,
          map (\<lambda>n. Inc ''records_skipped_total'' ''unsafe_field_name'' 1) drp))"

definition append_typed :: "string \<Rightarrow> atype \<Rightarrow> pyval list \<Rightarrow> table \<Rightarrow> table" where
  "append_typed n ty vs t = \<lparr>tschema = tschema t @ [(n, ty)],
     trows = map2 (\<lambda>r v. r @ [(n, v)]) (trows t) vs\<rparr>"

definition table_schema_for_batch :: "(string \<times> atype) list \<Rightarrow> (string \<times> atype) list" where
  "table_schema_for_batch sch =
     (if INSERTED_AT \<in> fst ` set sch then sch else sch @ [(INSERTED_AT, INSERTED_AT_TYPE)])"

definition stamp_inserted_at :: "pyval \<Rightarrow> table \<Rightarrow> table" where
  "stamp_inserted_at now batch =
     append_typed INSERTED_AT INSERTED_AT_TYPE (replicate (num_rows batch) now) batch"

subsection \<open>Columns and specs\<close>

record hcolumn =
  hc_name :: string
  hc_field_id :: int
  hc_type :: string

type_synonym pfield = "int \<times> string \<times> int option"
type_synonym sfield = "int \<times> string \<times> string"

record tinfo =
  ti_columns :: "hcolumn list"
  ti_partition :: "pfield list option"
  ti_sort :: "sfield list option"

datatype alter_op =
    SetPartitionSpec "pfield list" | SetSortOrder "sfield list"
  | AddColumn string atype | PromoteColumn string string

definition partition_tuples :: "pfield list option \<Rightarrow> pfield list" where
  "partition_tuples spec = (case spec of None \<Rightarrow> [] | Some fs \<Rightarrow> fs)"

definition sort_tuples :: "sfield list option \<Rightarrow> sfield list" where
  "sort_tuples spec = (case spec of None \<Rightarrow> [] | Some fs \<Rightarrow> fs)"

definition spec_identity :: "tinfo \<Rightarrow> pfield list \<times> sfield list" where
  "spec_identity info = (partition_tuples (ti_partition info), sort_tuples (ti_sort info))"

type_synonym live = "(string, hcolumn) dict"

definition adopt_columns :: "hcolumn list \<Rightarrow> live" where
  "adopt_columns cols = foldl (\<lambda>d c. AList.update (hc_name c) c d) [] cols"

fun resolve_partition :: "live \<Rightarrow> (string \<times> string \<times> int option) list \<Rightarrow> hexc + pfield list" where
  "resolve_partition lv [] = Inr []"
| "resolve_partition lv ((c, transform, param) # fs) =
     (case map_of lv c of
        None \<Rightarrow> Inl (SinkError (PartitionColumnMissing c))
      | Some col \<Rightarrow>
          and_then (resolve_partition lv fs) (\<lambda>rest. Inr ((hc_field_id col, transform, param) # rest)))"

definition want_partition_fields :: "config \<Rightarrow> live \<Rightarrow> hexc + pfield list" where
  "want_partition_fields cfg lv =
     (case hoglake_partition_by cfg of None \<Rightarrow> Inr [] | Some fs \<Rightarrow> resolve_partition lv fs)"

definition want_sort_fields :: "config \<Rightarrow> live \<Rightarrow> sfield list option" where
  "want_sort_fields cfg lv =
     (case sort_by cfg of
        None \<Rightarrow> Some []
      | Some cs \<Rightarrow>
          if \<exists>c \<in> set cs. map_of lv c = None then None
          else Some (map (\<lambda>c. (hc_field_id (the (map_of lv c)), ''asc'', ''nulls_last'')) cs))"

definition spec_ops :: "config \<Rightarrow> live \<Rightarrow> bool \<Rightarrow> bool \<Rightarrow> hexc + alter_op list" where
  "spec_ops cfg lv part_too sort_too =
     and_then (if part_too then want_partition_fields cfg lv else Inr []) (\<lambda>pf.
       let sf = (if sort_too then (case want_sort_fields cfg lv of None \<Rightarrow> [] | Some fs \<Rightarrow> fs) else [])
       in Inr ((if pf = [] then [] else [SetPartitionSpec pf]) @ (if sf = [] then [] else [SetSortOrder sf])))"

subsection \<open>The library's table functions\<close>

record hog_kernel =
  transform_strings :: "string \<Rightarrow> int option \<Rightarrow> pyval list \<Rightarrow> string \<Rightarrow> hexc + string option list"
  arrow_coltype :: "atype \<Rightarrow> string option"
  column_atype :: "hcolumn \<Rightarrow> atype"
  columns_schema :: "hcolumn list \<Rightarrow> hexc + (string \<times> atype) list"
  cast_table :: "(string \<times> atype) list \<Rightarrow> table \<Rightarrow> hexc + table"

text \<open>\<open>Table.select\<close>, which raises \<open>KeyError\<close> on a name the table does not have.\<close>

definition select_columns :: "string list \<Rightarrow> table \<Rightarrow> hexc + table" where
  "select_columns cols t =
     (if \<forall>c \<in> set cols. column_type t c \<noteq> None
      then Inr \<lparr>tschema = map (\<lambda>c. (c, the (column_type t c))) cols,
                trows = map (\<lambda>r. map (\<lambda>c. (c, cell r c)) cols) (trows t)\<rparr>
      else Inl (ValueE ''KeyError''))"

subsection \<open>Partition groups\<close>

fun partition_keys :: "hog_kernel \<Rightarrow> hcolumn list \<Rightarrow> table \<Rightarrow> pfield list \<Rightarrow> hexc + string option list list" where
  "partition_keys H cols data [] = Inr []"
| "partition_keys H cols data ((fid, transform, param) # fs) =
     (case map_of (rev (map (\<lambda>c. (hc_field_id c, c)) cols)) fid of
        None \<Rightarrow> Inl (SinkError (PartitionSourceMissing fid))
      | Some c \<Rightarrow>
          and_then (transform_strings H transform param (column data (hc_name c)) (hc_type c)) (\<lambda>ks.
          and_then (partition_keys H cols data fs) (\<lambda>rest. Inr (ks # rest))))"

definition first_occurrences :: "'a list \<Rightarrow> 'a list" where
  "first_occurrences xs = rev (remdups (rev xs))"

definition row_key :: "string option list list \<Rightarrow> nat \<Rightarrow> string option list" where
  "row_key keys i = map (\<lambda>a. a ! i) keys"

text \<open>\<open>is_null\<close> for a null value, \<open>fill_null(equal(key, value), False)\<close> otherwise.\<close>

definition field_mask :: "string option \<Rightarrow> string option \<Rightarrow> bool" where
  "field_mask val k = (case val of None \<Rightarrow> k = None | Some s \<Rightarrow> (case k of None \<Rightarrow> False | Some s' \<Rightarrow> s' = s))"

definition group_mask :: "string option list list \<Rightarrow> nat \<Rightarrow> string option list \<Rightarrow> bool list" where
  "group_mask keys n vals = map (\<lambda>i. \<forall>(v, a) \<in> set (zip vals keys). field_mask v (a ! i)) [0..<n]"

definition partition_groups :: "hog_kernel \<Rightarrow> table \<Rightarrow> tinfo \<Rightarrow> hexc + (string option list option \<times> table) list" where
  "partition_groups H data info =
     (if partition_tuples (ti_partition info) = [] then Inr [(None, data)]
      else and_then (partition_keys H (ti_columns info) data (partition_tuples (ti_partition info))) (\<lambda>keys.
        let combos = first_occurrences (map (row_key keys) [0..<num_rows data])
        in Inr (map (\<lambda>vals. (Some vals, filter_rows (group_mask keys (num_rows data) vals) data)) combos)))"

subsection \<open>Shaping a batch to the live columns\<close>

fun null_fill_columns :: "hog_kernel \<Rightarrow> live \<Rightarrow> table \<Rightarrow> table" where
  "null_fill_columns H [] batch = batch"
| "null_fill_columns H ((n, c) # lv) batch =
     null_fill_columns H lv
       (if n \<in> set (names batch) then batch
        else append_typed n (column_atype H c) (replicate (num_rows batch) PNone) batch)"

definition PROMOTIONS :: "((string \<times> string) \<times> string) list" where
  "PROMOTIONS = [((''int'', ''long''), ''long''), ((''float'', ''double''), ''double'')]"

definition UUID_REWRITES :: "(string \<times> string) list" where
  "UUID_REWRITES = [(''string'', ''uuid''), (''uuid'', ''string'')]"

text \<open>\<open>Table.set_column\<close> at the position of \<open>n\<close>.\<close>

definition replace_column :: "string \<Rightarrow> atype \<Rightarrow> pyval list \<Rightarrow> table \<Rightarrow> table" where
  "replace_column n ty vs t = \<lparr>tschema = map (\<lambda>(m, ty'). (m, if m = n then ty else ty')) (tschema t),
     trows = set_column n vs (trows t)\<rparr>"

definition text_of_uuid :: "pyval \<Rightarrow> hexc + pyval" where
  "text_of_uuid raw =
     (case raw of
        PNone \<Rightarrow> Inr PNone
      | PBytes bs \<Rightarrow> (case uuid_text bs of None \<Rightarrow> Inl (ValueE ''not 16 UUID bytes'') | Some s \<Rightarrow> Inr (PStr s))
      | _ \<Rightarrow> Inl (ValueE ''not 16 UUID bytes''))"

fun map_result :: "('a \<Rightarrow> 'e + 'b) \<Rightarrow> 'a list \<Rightarrow> 'e + 'b list" where
  "map_result f [] = Inr []"
| "map_result f (x # xs) = and_then (f x) (\<lambda>y. and_then (map_result f xs) (\<lambda>ys. Inr (y # ys)))"

definition uuid_of_text :: "pyval \<Rightarrow> pyval" where
  "uuid_of_text v = (case uuid_bytes v of None \<Rightarrow> PNone | Some bs \<Rightarrow> PBytes bs)"

definition rewrite_column :: "table \<Rightarrow> string \<Rightarrow> string \<Rightarrow> hexc + table \<times> metric list" where
  "rewrite_column batch n want =
     (if n \<notin> set (names batch) then Inl (ValueE ''column is not in the batch schema'')
      else if want = ''uuid'' then
        and_then (map_result text_of_uuid (column batch n)) (\<lambda>vs.
          Inr (replace_column n AString vs batch, [Inc ''errors_total'' ''schema'' 1]))
      else
        (let vs = map uuid_of_text (column batch n);
             nulled = length (filter (\<lambda>v. v \<noteq> PNone \<and> uuid_bytes v = None) (column batch n))
         in Inr (replace_column n AUuid vs batch, Inc ''errors_total'' ''schema'' 1
              # (if 0 < nulled then [Inc ''errors_total'' ''column_coercion'' 1] else []))))"

subsection \<open>Orphans and fanout\<close>

record registration =
  rg_path :: string
  rg_rows :: "int option"

datatype hog_event =
    HMetric metric
  | HOrphans string int "string list"

definition ORPHAN_URIS_LOGGED :: nat where "ORPHAN_URIS_LOGGED = 20"

text \<open>The warning line with the objects it names for deletion, and the counter.\<close>

definition count_orphans :: "int \<Rightarrow> string list \<Rightarrow> string \<Rightarrow> hog_event list" where
  "count_orphans n uris reason =
     (if n \<le> 0 then []
      else [HOrphans reason n (take ORPHAN_URIS_LOGGED uris), HMetric (Inc ''hoglake_orphaned_files_total'' reason n)])"

definition observe_fanout :: "registration list \<Rightarrow> hog_event list" where
  "observe_fanout files = HMetric (Obs ''flush_files'' (of_nat (length files)))
     # concat (map (\<lambda>f. case rg_rows f of None \<Rightarrow> [] | Some n \<Rightarrow> [HMetric (Obs ''flush_file_rows'' (of_int n))]) files)"

subsection \<open>The fanout splits the batch\<close>

text \<open>A transform works value by value.\<close>

definition pointwise :: "hog_kernel \<Rightarrow> (string \<Rightarrow> int option \<Rightarrow> string \<Rightarrow> pyval \<Rightarrow> string option) \<Rightarrow> bool" where
  "pointwise H g \<longleftrightarrow> (\<forall>tr p vs ty out. transform_strings H tr p vs ty = Inr out \<longrightarrow> out = map (g tr p ty) vs)"

text \<open>The partition tuple of a row under the live spec.\<close>

definition partition_of ::
  "(string \<Rightarrow> int option \<Rightarrow> string \<Rightarrow> pyval \<Rightarrow> string option) \<Rightarrow> hcolumn list \<Rightarrow> pfield list \<Rightarrow> row \<Rightarrow> string option list" where
  "partition_of g cols spec r = map (\<lambda>(fid, tr, p).
     (let c = the (map_of (rev (map (\<lambda>c. (hc_field_id c, c)) cols)) fid) in g tr p (hc_type c) (cell r (hc_name c)))) spec"

lemma partition_keys_rows:
  assumes "pointwise H g" "partition_keys H cols data spec = Inr keys"
  shows "length keys = length spec \<and> (\<forall>a \<in> set keys. length a = num_rows data)
    \<and> (\<forall>i < num_rows data. row_key keys i = partition_of g cols spec (trows data ! i))"
  using assms(2)
proof (induction spec arbitrary: keys)
  case Nil
  then show ?case
    by (simp add: row_key_def partition_of_def)
next
  case (Cons f spec)
  obtain fid tr p where f: "f = (fid, tr, p)"
    by (metis prod_cases3)
  obtain c where c: "map_of (rev (map (\<lambda>c. (hc_field_id c, c)) cols)) fid = Some c"
    using Cons.prems by (auto simp: f split: option.splits)
  then obtain ks rest where "transform_strings H tr p (column data (hc_name c)) (hc_type c) = Inr ks"
      "partition_keys H cols data spec = Inr rest" "keys = ks # rest"
    using Cons.prems by (auto simp: f and_then_Inr)
  moreover from this have "ks = map (g tr p (hc_type c)) (column data (hc_name c))"
    using assms(1) unfolding pointwise_def by blast
  ultimately show ?case
    using Cons.IH[of rest] c by (auto simp: f row_key_def partition_of_def column_def num_rows_def)
qed

lemma field_mask_eq: "field_mask v k \<longleftrightarrow> k = v"
  by (auto simp: field_mask_def split: option.split)

lemma group_mask_key:
  assumes "length vals = length keys"
  shows "group_mask keys n vals = map (\<lambda>i. row_key keys i = vals) [0..<n]"
proof -
  have "(\<forall>(v, a) \<in> set (zip vals keys). field_mask v (a ! i)) \<longleftrightarrow> row_key keys i = vals" for i
    using assms by (induction vals keys rule: list_induct2) (auto simp: row_key_def field_mask_eq)
  then show ?thesis
    by (simp add: group_mask_def)
qed

lemma set_first_occurrences [simp]: "set (first_occurrences xs) = set xs" "distinct (first_occurrences xs)"
  by (simp_all add: first_occurrences_def)

lemma keyed_filter:
  assumes "\<forall>i < length xs. f i = key (xs ! i)"
  shows "mask_select (map (\<lambda>i. f i = k) [0..<length xs]) xs = filter (\<lambda>x. key x = k) xs"
proof -
  have "map (\<lambda>i. f i = k) [0..<length xs] = map (\<lambda>x. key x = k) xs"
    using assms by (intro nth_equalityI) auto
  then show ?thesis
    by (simp add: mask_select_map)
qed

lemma mset_by_key:
  assumes "distinct ks" "key ` set xs \<subseteq> set ks"
  shows "mset (concat (map (\<lambda>k. filter (\<lambda>x. key x = k) xs) ks)) = mset xs"
proof (rule multiset_eqI)
  fix x
  have "count (mset (concat (map (\<lambda>k. filter (\<lambda>x. key x = k) xs) ks))) x
      = (\<Sum>k \<leftarrow> ks. if key x = k then count (mset xs) x else 0)"
    by (induction ks) (simp_all add: mset_concat)
  also have "\<dots> = (if key x \<in> set ks then count (mset xs) x else 0)"
    using assms(1) by (induction ks) auto
  also have "\<dots> = count (mset xs) x"
    using assms(2) by (auto simp: image_subset_iff count_eq_zero_iff)
  finally show "count (mset (concat (map (\<lambda>k. filter (\<lambda>x. key x = k) xs) ks))) x = count (mset xs) x" .
qed

lemma partition_groups_form:
  assumes "pointwise H g" "partition_groups H data info = Inr gs" "partition_tuples (ti_partition info) \<noteq> []"
  defines "key \<equiv> partition_of g (ti_columns info) (partition_tuples (ti_partition info))"
  shows "gs = map (\<lambda>k. (Some k, data\<lparr>trows := filter (\<lambda>r. key r = k) (trows data)\<rparr>))
    (first_occurrences (map key (trows data)))"
proof -
  obtain keys where keys: "partition_keys H (ti_columns info) data (partition_tuples (ti_partition info)) = Inr keys"
      "gs = map (\<lambda>vals. (Some vals, filter_rows (group_mask keys (num_rows data) vals) data))
        (first_occurrences (map (row_key keys) [0..<num_rows data]))"
    using assms(2,3) by (auto simp: partition_groups_def and_then_Inr Let_def)
  have rows: "\<forall>i < num_rows data. row_key keys i = key (trows data ! i)"
    using partition_keys_rows[OF assms(1) keys(1)] by (simp add: key_def)
  have "map (row_key keys) [0..<num_rows data] = map key (trows data)"
    using rows by (intro nth_equalityI) (simp_all add: num_rows_def)
  moreover have "filter_rows (group_mask keys (num_rows data) k) data
      = data\<lparr>trows := filter (\<lambda>r. key r = k) (trows data)\<rparr>" if "k \<in> set (map key (trows data))" for k
  proof -
    have "length k = length keys"
      using that partition_keys_rows[OF assms(1) keys(1)] by (auto simp: key_def partition_of_def)
    then show ?thesis
      using keyed_filter[of "trows data" "row_key keys" key k] rows
      by (simp add: filter_rows_def group_mask_key num_rows_def)
  qed
  ultimately show ?thesis
    using keys(2) by simp
qed

lemma partition_groups_mset:
  assumes "pointwise H g" "partition_groups H data info = Inr gs"
  shows "mset (concat (map (\<lambda>(v, t). trows t) gs)) = mset (trows data)"
proof (cases "partition_tuples (ti_partition info) = []")
  case True
  then show ?thesis
    using assms(2) by (auto simp: partition_groups_def)
next
  case False
  let ?key = "partition_of g (ti_columns info) (partition_tuples (ti_partition info))"
  show ?thesis
    using mset_by_key[of "first_occurrences (map ?key (trows data))" ?key "trows data"]
    by (simp add: partition_groups_form[OF assms False] comp_def)
qed

lemma partition_groups_rows:
  assumes "pointwise H g" "partition_groups H data info = Inr gs"
  shows "sum_list (map (\<lambda>x. num_rows (snd x)) gs) = num_rows data"
proof -
  have "sum_list (map (\<lambda>x. num_rows (snd x)) gs) = length (concat (map (\<lambda>(v, t). trows t) gs))"
    by (simp add: length_concat comp_def num_rows_def split_beta)
  also have "\<dots> = num_rows data"
    using mset_eq_length[OF partition_groups_mset[OF assms]] by (simp add: num_rows_def)
  finally show ?thesis .
qed

text \<open>
  C13: the fanout of a flush partitions its rows. Under a live spec there is one group per distinct
  partition tuple, in the order of first occurrence; each group holds exactly the rows whose own
  transforms give its tuple, and at least one; together the groups hold every row once. Without a spec
  there is one group, the batch.
\<close>

theorem partition_groups_split_rows:
  assumes "pointwise H g" "partition_groups H data info = Inr gs"
  defines "key \<equiv> partition_of g (ti_columns info) (partition_tuples (ti_partition info))"
  shows "mset (concat (map (\<lambda>(v, t). trows t) gs)) = mset (trows data)
    \<and> (\<forall>(v, t) \<in> set gs. tschema t = tschema data)
    \<and> (if partition_tuples (ti_partition info) = [] then gs = [(None, data)]
       else map fst gs = map Some (first_occurrences (map key (trows data)))
         \<and> (\<forall>(v, t) \<in> set gs. trows t = filter (\<lambda>r. v = Some (key r)) (trows data) \<and> trows t \<noteq> []))"
proof (cases "partition_tuples (ti_partition info) = []")
  case True
  then show ?thesis
    using assms(2) by (auto simp: partition_groups_def)
next
  case False
  note gs = partition_groups_form[OF assms(1,2) False, folded key_def]
  have "filter (\<lambda>r. key r = k) (trows data) \<noteq> []" if "k \<in> set (map key (trows data))" for k
    using that by (auto simp: filter_empty_conv)
  then show ?thesis
    using False partition_groups_mset[OF assms(1,2)] by (auto simp: gs comp_def eq_commute)
qed

text \<open>A kernel whose one transform is the text of the value.\<close>

definition demo_transform :: "string \<Rightarrow> int option \<Rightarrow> string \<Rightarrow> pyval \<Rightarrow> string option" where
  "demo_transform tr p ty v = (case v of PInt n \<Rightarrow> Some (str_int n) | PStr s \<Rightarrow> Some s | _ \<Rightarrow> None)"

definition demo_coltype :: "atype \<Rightarrow> string option" where
  "demo_coltype ty = (if ty = AString then Some ''string'' else if ty = AInt True 64 then Some ''long''
     else if ty = AUuid then Some ''uuid'' else if ty = INSERTED_AT_TYPE then Some ''timestamptz'' else None)"

definition demo_column_atype :: "hcolumn \<Rightarrow> atype" where
  "demo_column_atype c = (if hc_type c = ''long'' then AInt True 64 else if hc_type c = ''uuid'' then AUuid
     else if hc_type c = ''timestamptz'' then INSERTED_AT_TYPE else AString)"

definition demo_kernel :: hog_kernel where
  "demo_kernel = \<lparr>transform_strings = (\<lambda>tr p vs ty. Inr (map (demo_transform tr p ty) vs)),
     arrow_coltype = demo_coltype, column_atype = demo_column_atype,
     columns_schema = (\<lambda>cols. Inr (map (\<lambda>c. (hc_name c, demo_column_atype c)) cols)),
     cast_table = (\<lambda>sch t. Inr (t\<lparr>tschema := sch\<rparr>))\<rparr>"

lemma demo_pointwise: "pointwise demo_kernel demo_transform"
  by (auto simp: pointwise_def demo_kernel_def)

definition demo_hog_info :: tinfo where
  "demo_hog_info = \<lparr>ti_columns = [\<lparr>hc_name = ''team_id'', hc_field_id = 1, hc_type = ''long''\<rparr>],
     ti_partition = Some [(1, ''identity'', None)], ti_sort = None\<rparr>"

definition demo_hog_batch :: table where
  "demo_hog_batch = \<lparr>tschema = [(''team_id'', AInt True 64)],
     trows = [[(''team_id'', PInt 2)], [], [(''team_id'', PInt 2)], [(''team_id'', PInt 1)]]\<rparr>"

theorem partition_groups_split_rows_witness:
  "\<exists>gs. partition_groups demo_kernel demo_hog_batch demo_hog_info = Inr gs
    \<and> map fst gs = [Some [Some ''2''], Some [None], Some [Some ''1'']]
    \<and> mset (concat (map (\<lambda>(v, t). trows t) gs)) = mset (trows demo_hog_batch)"
proof -
  have keys: "partition_keys demo_kernel (ti_columns demo_hog_info) demo_hog_batch [(1, ''identity'', None)]
      = Inr [[Some ''2'', None, Some ''2'', Some ''1'']]"
    by (simp add: demo_kernel_def demo_hog_info_def demo_hog_batch_def column_def cell_def demo_transform_def
        str_int_def digits_of.simps char_of_def bit_0)
  obtain gs where gs: "partition_groups demo_kernel demo_hog_batch demo_hog_info = Inr gs"
      "map fst gs = [Some [Some ''2''], Some [None], Some [Some ''1'']]"
    using keys by (simp add: partition_groups_def partition_tuples_def demo_hog_info_def Let_def row_key_def
        demo_hog_batch_def num_rows_def upt_conv_Cons first_occurrences_def)
  show ?thesis
    by (intro exI[of _ gs] conjI gs partition_groups_split_rows[OF demo_pointwise gs(1), THEN conjunct1])
qed

subsection \<open>A shaped batch has the live columns\<close>

lemma names_append_typed [simp]: "names (append_typed n ty vs t) = names t @ [n]"
  by (simp add: names_def append_typed_def)

lemma column_type_iff: "column_type t n \<noteq> None \<longleftrightarrow> n \<in> set (names t)"
  by (simp add: column_type_def names_def map_of_eq_None_iff)

lemma append_nulls:
  fixes ty :: atype
  assumes "n \<notin> set (names t)" "table_ok t"
  defines "t' \<equiv> append_typed n ty (replicate (num_rows t) PNone) t"
  shows "table_ok t'" "num_rows t' = num_rows t" "column t' m = column t m"
    "column_type t' m = (if m = n then Some ty else column_type t m)"
proof -
  have rows: "trows t' = map (\<lambda>r. r @ [(n, PNone)]) (trows t)"
    by (simp add: t'_def append_typed_def num_rows_def map2_map_map[symmetric] zip_replicate2)
  then show "num_rows t' = num_rows t"
    by (simp add: num_rows_def)
  have new: "names t' = names t @ [n]"
    by (simp add: t'_def)
  have "cell (r @ [(n, PNone)]) m = cell r m" for r
    by (simp add: cell_def map_of_append map_add_def split: option.splits)
  then show "column t' m = column t m"
    by (simp add: column_def rows comp_def)
  show "table_ok t'"
    using assms(2) new by (fastforce simp: table_ok_def rows image_subset_iff)
  have "map_of (tschema t) n = None"
    using assms(1) by (simp add: map_of_eq_None_iff names_def)
  then show "column_type t' m = (if m = n then Some ty else column_type t m)"
    by (simp add: t'_def column_type_def append_typed_def map_of_append map_add_def split: option.splits)
qed

lemma null_fill_effect:
  fixes H :: hog_kernel and lv :: live
  assumes "table_ok t"
  defines "t' \<equiv> null_fill_columns H lv t"
  shows "table_ok t'" "num_rows t' = num_rows t" "column t' m = column t m"
    "set (names t') = set (names t) \<union> fst ` set lv"
    "m \<in> set (names t) \<Longrightarrow> column_type t' m = column_type t m"
  using assms(1) unfolding t'_def
proof (induction lv arbitrary: t)
  case (Cons x lv)
  obtain n c where x: "x = (n, c)"
    by (cases x)
  {
    case 1
    then show ?case
      using Cons.IH(1)[of t] Cons.IH(1)[OF append_nulls(1)[of n t]] by (simp add: x)
  next
    case 2
    then show ?case
      using Cons.IH(2)[of t] Cons.IH(2)[OF append_nulls(1)[of n t]] append_nulls(2)[of n t] by (simp add: x)
  next
    case 3
    then show ?case
      using Cons.IH(3)[of t] Cons.IH(3)[OF append_nulls(1)[of n t]] append_nulls(3)[of n t] by (simp add: x)
  next
    case 4
    then show ?case
      using Cons.IH(4)[of t] Cons.IH(4)[OF append_nulls(1)[of n t]] by (auto simp: x)
  next
    case 5
    then show ?case
      using Cons.IH(5)[of t] Cons.IH(5)[OF _ append_nulls(1)[of n t]] append_nulls(4)[of n t] by (auto simp: x)
  }
qed auto

text \<open>
  shaping a batch to a live schema never loses a row and never fails for a missing column: after the
  null fill, selecting the live columns gives a table with exactly those columns in the table's order,
  one row per row of the batch, each value the batch's own, or null where the batch has no such column.
\<close>

theorem shaped_batch_fits:
  assumes "table_ok batch" "set cols \<subseteq> fst ` set lv"
  shows "\<exists>t. select_columns cols (null_fill_columns H lv batch) = Inr t
    \<and> names t = cols \<and> num_rows t = num_rows batch
    \<and> (\<forall>c \<in> set cols. column t c = (if c \<in> set (names batch) then column batch c
                                      else replicate (num_rows batch) PNone)
        \<and> (c \<in> set (names batch) \<longrightarrow> distinct cols \<longrightarrow> column_type t c = column_type batch c))"
proof -
  let ?f = "null_fill_columns H lv batch"
  have present: "column_type ?f c \<noteq> None" if "c \<in> set cols" for c
    unfolding column_type_iff using that assms(2) by (auto simp: null_fill_effect(4)[OF assms(1)])
  then obtain t where t: "select_columns cols ?f = Inr t"
    by (simp add: select_columns_def)
  then have t_def: "t = \<lparr>tschema = map (\<lambda>c. (c, the (column_type ?f c))) cols,
      trows = map (\<lambda>r. map (\<lambda>c. (c, cell r c)) cols) (trows ?f)\<rparr>"
    by (auto simp: select_columns_def split: if_splits)
  have absent: "column batch c = replicate (num_rows batch) PNone" if "c \<notin> set (names batch)" for c
  proof -
    have "cell r c = PNone" if "r \<in> set (trows batch)" for r
    proof -
      have "map_of r c = None"
        using assms(1) that \<open>c \<notin> _\<close> by (auto simp: table_ok_def map_of_eq_None_iff)
      then show ?thesis
        by (simp add: cell_def)
    qed
    then show ?thesis
      by (simp add: column_def num_rows_def map_replicate_const[symmetric] cong: map_cong)
  qed
  have "column t c = column batch c" if "c \<in> set cols" for c
  proof -
    have "cell (map (\<lambda>c. (c, cell r c)) cols) c = cell r c" for r
      using that by (simp add: cell_def map_of_map_restrict restrict_map_def)
    then have "column t c = column ?f c"
      by (simp add: t_def column_def comp_def)
    then show ?thesis
      by (simp add: null_fill_effect(3)[OF assms(1)])
  qed
  moreover have "column_type t c = column_type batch c" if col: "c \<in> set cols" and own: "c \<in> set (names batch)" for c
  proof -
    obtain ty where "column_type batch c = Some ty"
      using own column_type_iff by fast
    then show ?thesis
      using col own null_fill_effect(5)[OF assms(1) own, of H lv]
      by (simp add: t_def column_type_def map_of_map_restrict restrict_map_def)
  qed
  moreover have "names t = cols" "num_rows t = num_rows batch"
    using null_fill_effect(2)[OF assms(1), of H lv] by (simp_all add: t_def names_def num_rows_def comp_def)
  ultimately show ?thesis
    using t absent by auto
qed

theorem shaped_batch_fits_witness:
  "\<exists>t. select_columns [''b'', ''team_id'']
      (null_fill_columns demo_kernel [(''team_id'', \<lparr>hc_name = ''team_id'', hc_field_id = 1, hc_type = ''long''\<rparr>),
         (''b'', \<lparr>hc_name = ''b'', hc_field_id = 2, hc_type = ''string''\<rparr>)] demo_hog_batch) = Inr t
    \<and> column t ''team_id'' = [PInt 2, PNone, PInt 2, PInt 1] \<and> column t ''b'' = [PNone, PNone, PNone, PNone]"
proof -
  have "table_ok demo_hog_batch"
    by (simp add: table_ok_def demo_hog_batch_def names_def)
  from shaped_batch_fits[OF this, of "[''b'', ''team_id'']" "[(''team_id'', \<lparr>hc_name = ''team_id'', hc_field_id = 1, hc_type = ''long''\<rparr>),
         (''b'', \<lparr>hc_name = ''b'', hc_field_id = 2, hc_type = ''string''\<rparr>)]" demo_kernel]
  show ?thesis
    by (auto simp: demo_hog_batch_def names_def column_def cell_def num_rows_def)
qed

end
