(* ===== verification/HogSink.thy ===== *)
theory HogSink
  imports HogTable
begin

text \<open>
  \<open>HoglakeSink\<close> of \<open>millpond/hoglake.py\<close> as a state machine: the resolved table, the cached shape, the
  prepared commit, and the operations that change them. An operation maps a state to a result, which is
  the exception it raised or its value, and the state it leaves; the state carries the world of the
  pyhoglake client and the metric updates and orphan warnings so far. The client, the clock and the
  random UUIDs are the fields of a record.
\<close>

subsection \<open>The client and the state\<close>

record payload =
  pl_key :: string
  pl_uuid :: "string option"
  pl_files :: "registration list"
  pl_groups :: "(string option list option \<times> table) list"
  pl_author :: string
  pl_message :: string

text \<open>What \<open>Catalog._retention_seconds()\<close> answers: nothing usable, no expiry, or a number of seconds.\<close>

datatype retention = Unusable | Forever | Seconds real

record encode_options =
  eo_compression :: "string option"
  eo_level :: "int option"
  eo_deferred :: bool

text \<open>A failed upload says what it had already written: how many objects, and which.\<close>

record 'w hog_client =
  c_catalog :: "string \<Rightarrow> 'w \<Rightarrow> (hexc + string) \<times> 'w"
  c_create_catalog :: "string \<Rightarrow> string \<Rightarrow> string \<Rightarrow> string \<Rightarrow> 'w \<Rightarrow> (hexc + string) \<times> 'w"
  c_probe :: "(string \<Rightarrow> 'w \<Rightarrow> string option \<times> 'w) option"
  c_namespace :: "string \<Rightarrow> 'w \<Rightarrow> (hexc + unit) \<times> 'w"
  c_create_namespace :: "string \<Rightarrow> string \<Rightarrow> string \<Rightarrow> 'w \<Rightarrow> (hexc + unit) \<times> 'w"
  c_table :: "string \<Rightarrow> string \<Rightarrow> 'w \<Rightarrow> (hexc + nat) \<times> 'w"
  c_create_table :: "string \<Rightarrow> string \<Rightarrow> (string \<times> atype) list \<Rightarrow> string \<Rightarrow> string \<Rightarrow> 'w \<Rightarrow> (hexc + nat) \<times> 'w"
  c_columns :: "nat \<Rightarrow> 'w \<Rightarrow> hcolumn list"
  c_table_uuid :: "nat \<Rightarrow> 'w \<Rightarrow> string option"
  c_info :: "nat \<Rightarrow> 'w \<Rightarrow> (hexc + tinfo) \<times> 'w"
  c_alter :: "nat \<Rightarrow> alter_op list \<Rightarrow> string \<Rightarrow> string \<Rightarrow> 'w \<Rightarrow> (hexc + tinfo) \<times> 'w"
  c_prepare :: "nat \<Rightarrow> (string option list option \<times> table) list \<Rightarrow> string \<Rightarrow> string option \<Rightarrow> encode_options
     \<Rightarrow> 'w \<Rightarrow> (hexc \<times> int \<times> string list + payload) \<times> 'w"
  c_commit :: "payload \<Rightarrow> nat option \<Rightarrow> 'w \<Rightarrow> (hexc + unit) \<times> 'w"
  c_retention :: "('w \<Rightarrow> retention \<times> 'w) option"
  c_monotonic :: "'w \<Rightarrow> real \<times> 'w"
  c_now :: "'w \<Rightarrow> pyval \<times> 'w"
  c_uuid4 :: "'w \<Rightarrow> string \<times> 'w"

text \<open>What does not change: the configuration, the library's table functions, Arrow and \<open>uuid5\<close>.\<close>

record hog_env =
  ev_cfg :: config
  ev_kernel :: hog_kernel
  ev_arrow :: arrow
  ev_uuid5 :: "string \<Rightarrow> string"

record 'w hs =
  hs_table :: "nat option"
  hs_uuid :: "string option"
  hs_live :: live
  hs_info :: "tinfo option"
  hs_read_at :: "real option"
  hs_reconciled :: "(pfield list \<times> sfield list) option"
  hs_prepared :: "payload option"
  hs_rows :: nat
  hs_offsets :: "kafka_range list option"
  hs_sends :: nat
  hs_retry_after :: "real option"
  hs_world :: 'w
  hs_out :: "hog_event list"

subsection \<open>Operations that may raise\<close>

type_synonym ('w, 'a) op = "'w hs \<Rightarrow> (hexc + 'a) \<times> 'w hs"

definition h_ret :: "'a \<Rightarrow> ('w, 'a) op" where "h_ret x s = (Inr x, s)"
definition h_fail :: "hexc \<Rightarrow> ('w, 'a) op" where "h_fail e s = (Inl e, s)"
definition h_lift :: "hexc + 'a \<Rightarrow> ('w, 'a) op" where "h_lift r s = (r, s)"

definition h_bind :: "('w, 'a) op \<Rightarrow> ('a \<Rightarrow> ('w, 'b) op) \<Rightarrow> ('w, 'b) op" where
  "h_bind m f s = (case m s of (Inl e, s') \<Rightarrow> (Inl e, s') | (Inr x, s') \<Rightarrow> f x s')"

text \<open>\<open>try: m except: h\<close>, where \<open>h\<close> raises again what it does not handle.\<close>

definition h_catch :: "('w, 'a) op \<Rightarrow> (hexc \<Rightarrow> ('w, 'a) op) \<Rightarrow> ('w, 'a) op" where
  "h_catch m h s = (case m s of (Inl e, s') \<Rightarrow> h e s' | (Inr x, s') \<Rightarrow> (Inr x, s'))"

definition h_gets :: "('w hs \<Rightarrow> 'a) \<Rightarrow> ('w, 'a) op" where "h_gets f s = (Inr (f s), s)"
definition h_mod :: "('w hs \<Rightarrow> 'w hs) \<Rightarrow> ('w, unit) op" where "h_mod f s = (Inr (), f s)"

definition h_emit :: "hog_event list \<Rightarrow> ('w, unit) op" where
  "h_emit evs s = (Inr (), s\<lparr>hs_out := hs_out s @ evs\<rparr>)"

definition h_call :: "('w \<Rightarrow> (hexc + 'a) \<times> 'w) \<Rightarrow> ('w, 'a) op" where
  "h_call f s = (let (r, w) = f (hs_world s) in (r, s\<lparr>hs_world := w\<rparr>))"

definition h_draw :: "('w \<Rightarrow> 'a \<times> 'w) \<Rightarrow> ('w, 'a) op" where
  "h_draw f s = (let (x, w) = f (hs_world s) in (Inr x, s\<lparr>hs_world := w\<rparr>))"

lemmas op_defs = h_ret_def h_fail_def h_lift_def h_bind_def h_catch_def h_gets_def h_mod_def h_emit_def
  h_call_def h_draw_def

definition raises :: "hog_class \<Rightarrow> hexc \<Rightarrow> bool" where
  "raises c x \<longleftrightarrow> (case x of HogE e \<Rightarrow> he_class e = c \<or> c = CommitConflictError \<and> is_conflict (he_class e) | _ \<Rightarrow> False)"

definition schema_error_event :: "hog_event list" where
  "schema_error_event = [HMetric (Inc ''errors_total'' ''schema'' 1)]"

definition author :: "config \<Rightarrow> string" where
  "author cfg = ''millpond/'' @ table_label cfg @ ''/'' @ str_int (ordinal cfg)"

subsection \<open>The cached shape\<close>

definition adopt_info :: "'w hog_client \<Rightarrow> tinfo \<Rightarrow> ('w, tinfo) op" where
  "adopt_info C info =
     h_bind (h_mod (\<lambda>s. s\<lparr>hs_info := Some info\<rparr>)) (\<lambda>_.
     h_bind (h_draw (c_monotonic C)) (\<lambda>t.
     h_bind (h_mod (\<lambda>s. s\<lparr>hs_read_at := Some t, hs_live := HogTable.adopt_columns (ti_columns info)\<rparr>)) (\<lambda>_.
     h_ret info)))"

definition drop_cached_shape :: "('w, unit) op" where
  "drop_cached_shape = h_mod (\<lambda>s. s\<lparr>hs_info := None, hs_read_at := None, hs_reconciled := None\<rparr>)"

definition hog_reset_caches :: "('w, unit) op" where
  "hog_reset_caches =
     h_bind (h_mod (\<lambda>s. s\<lparr>hs_table := None, hs_uuid := None, hs_live := []\<rparr>)) (\<lambda>_. drop_cached_shape)"

definition ASSUMED_RETENTION_S :: real where "ASSUMED_RETENTION_S = 1800"

text \<open>\<open>None\<close> stands for a TTL that never ends.\<close>

definition live_info_ttl_s :: "'w hog_client \<Rightarrow> ('w, real option) op" where
  "live_info_ttl_s C =
     (case c_retention C of
        None \<Rightarrow> h_ret (Some (ASSUMED_RETENTION_S / 4))
      | Some read \<Rightarrow> h_bind (h_draw read) (\<lambda>r. h_ret (case r of
            Unusable \<Rightarrow> Some (ASSUMED_RETENTION_S / 4)
          | Forever \<Rightarrow> None
          | Seconds x \<Rightarrow> if x \<le> 0 then Some (ASSUMED_RETENTION_S / 4) else Some (x / 4))))"

definition live_info_is_fresh :: "'w hog_client \<Rightarrow> ('w, bool) op" where
  "live_info_is_fresh C =
     h_bind (h_gets (\<lambda>s. (hs_info s, hs_read_at s))) (\<lambda>(info, read_at).
       case (info, read_at) of
         (Some i, Some t0) \<Rightarrow>
           h_bind (h_draw (c_monotonic C)) (\<lambda>t.
           h_bind (live_info_ttl_s C) (\<lambda>ttl.
           h_ret (case ttl of None \<Rightarrow> True | Some x \<Rightarrow> t - t0 < x)))
       | _ \<Rightarrow> h_ret False)"

subsection \<open>Declaring and reconciling the layout\<close>

definition verify_specs :: "config \<Rightarrow> tinfo \<Rightarrow> ('w, unit) op" where
  "verify_specs cfg info =
     h_bind (h_gets hs_live) (\<lambda>lv.
     h_bind (h_lift (want_partition_fields cfg lv)) (\<lambda>want.
     if want \<noteq> [] \<and> partition_tuples (ti_partition info) \<noteq> want then h_fail (SinkError PartitionUndeclared)
     else (case want_sort_fields cfg lv of
         None \<Rightarrow> h_ret ()
       | Some ws \<Rightarrow>
           if ws \<noteq> [] \<and> sort_tuples (ti_sort info) \<noteq> ws then h_fail (SinkError SortUndeclared) else h_ret ())))"

definition declared_halves :: "alter_op list \<Rightarrow> (string \<times> string) list" where
  "declared_halves ops =
     (if \<exists>fs. SetPartitionSpec fs \<in> set ops then [(''partition spec'', ''HOGLAKE_PARTITION_BY'')] else [])
     @ (if \<exists>fs. SetSortOrder fs \<in> set ops then [(''sort order'', ''MILLPOND_SORT_BY'')] else [])"

definition declare_specs :: "'w hog_client \<Rightarrow> config \<Rightarrow> nat \<Rightarrow> string \<Rightarrow> bool \<Rightarrow> bool \<Rightarrow> ('w, unit) op" where
  "declare_specs C cfg tbl why part_too sort_too =
     h_bind (h_gets hs_live) (\<lambda>lv.
     h_bind (h_lift (spec_ops cfg lv part_too sort_too)) (\<lambda>ops.
     if ops = [] then h_ret ()
     else
       (let halves = declared_halves ops;
            message = ddl_message cfg why (''declare '' @ join '' and '' (map fst halves)) (map snd halves)
        in h_bind (h_catch (h_call (c_alter C tbl ops (author cfg) message))
                    (\<lambda>e. if raises CommitConflictError e then h_call (c_info C tbl) else h_fail e)) (\<lambda>info.
           h_bind (adopt_info C info) (\<lambda>_.
           verify_specs cfg info)))))"

text \<open>The comparison with the live layout, and the declaration of a missing half; the result is the shape that was
  compared.\<close>

definition check_layout :: "'w hog_client \<Rightarrow> config \<Rightarrow> nat \<Rightarrow> tinfo option \<Rightarrow> ('w, tinfo) op" where
  "check_layout C cfg tbl given =
     h_bind (case given of Some info \<Rightarrow> h_ret info | None \<Rightarrow> h_bind (h_call (c_info C tbl)) (adopt_info C)) (\<lambda>info.
     h_bind (h_gets hs_live) (\<lambda>lv.
     h_bind (h_lift (want_partition_fields cfg lv)) (\<lambda>want.
     let lp = partition_tuples (ti_partition info);
         want_sort = want_sort_fields cfg lv;
         ls = sort_tuples (ti_sort info);
         sort_known = (sort_by cfg = None \<or> want_sort \<noteq> None) in
     if lp \<noteq> [] \<and> lp \<noteq> want then h_fail (SinkError PartitionMismatch)
     else if sort_known \<and> ls \<noteq> [] \<and> ls \<noteq> (case want_sort of None \<Rightarrow> [] | Some ws \<Rightarrow> ws)
       then h_fail (SinkError SortMismatch)
     else
       h_bind (if want \<noteq> [] \<and> lp = [] then
            declare_specs C cfg tbl (''recovery for '' @ topic cfg @ '' (table exists without its partition spec)'') True True
          else if want_sort \<noteq> None \<and> want_sort \<noteq> Some [] \<and> ls = [] then
            declare_specs C cfg tbl (''recovery for '' @ topic cfg @ '' (table exists without its sort order)'') False True
          else h_ret ()) (\<lambda>_.
       h_ret info))))"

definition reconcile_specs :: "'w hog_client \<Rightarrow> config \<Rightarrow> nat \<Rightarrow> tinfo option \<Rightarrow> ('w, unit) op" where
  "reconcile_specs C cfg tbl given =
     h_bind (check_layout C cfg tbl given) (\<lambda>info.
     h_mod (\<lambda>s. s\<lparr>hs_reconciled := Some (spec_identity (case hs_info s of None \<Rightarrow> info | Some i \<Rightarrow> i))\<rparr>))"

definition table_info :: "'w hog_client \<Rightarrow> config \<Rightarrow> nat \<Rightarrow> ('w, tinfo) op" where
  "table_info C cfg tbl =
     h_bind (live_info_is_fresh C) (\<lambda>fresh.
     h_bind (if fresh then
          h_bind (h_gets (\<lambda>s. (the (hs_info s), hs_reconciled s))) (\<lambda>(info, rec).
            if Some (spec_identity info) \<noteq> rec then reconcile_specs C cfg tbl (Some info) else h_ret ())
        else
          h_bind (h_call (c_info C tbl)) (\<lambda>info.
          h_bind (adopt_info C info) (\<lambda>_.
          reconcile_specs C cfg tbl (Some info)))) (\<lambda>_.
     h_gets (\<lambda>s. the (hs_info s))))"

subsection \<open>Resolving the table\<close>

definition adopt_columns_of :: "'w hog_client \<Rightarrow> nat \<Rightarrow> ('w, unit) op" where
  "adopt_columns_of C tbl = h_mod (\<lambda>s. s\<lparr>hs_live := HogTable.adopt_columns (c_columns C tbl (hs_world s))\<rparr>)"

definition create_table :: "'w hog_client \<Rightarrow> config \<Rightarrow> (string \<times> atype) list \<Rightarrow> ('w, nat) op" where
  "create_table C cfg batch_schema =
     (let schema = table_schema_for_batch batch_schema;
          ns = opt_text (hoglake_namespace cfg); tb = opt_text (hoglake_table cfg);
          message = ddl_message cfg (''first flush of '' @ topic cfg)
            (''create table '' @ ns @ ''.'' @ tb @ '' with '' @ str_int (int (length schema)) @ '' columns from the batch'')
            [''HOGLAKE_PARTITION_BY'', ''MILLPOND_SORT_BY'', ''MILLPOND_TYPED_COLUMNS'']
      in h_bind (h_catch (h_bind (h_call (c_create_table C ns tb schema (author cfg) message)) (\<lambda>tbl. h_ret (tbl, True)))
                (\<lambda>e. if raises AlreadyExistsError e
                     then h_bind (h_call (c_table C ns tb)) (\<lambda>tbl. h_ret (tbl, False)) else h_fail e)) (\<lambda>(tbl, created).
         h_bind (adopt_columns_of C tbl) (\<lambda>_.
         h_bind (if created then declare_specs C cfg tbl (''first flush of '' @ topic cfg) True True
                 else reconcile_specs C cfg tbl None) (\<lambda>_.
         h_ret tbl))))"

definition ensure_namespace :: "'w hog_client \<Rightarrow> config \<Rightarrow> ('w, unit) op" where
  "ensure_namespace C cfg =
     (let ns = opt_text (hoglake_namespace cfg) in
      h_catch (h_call (c_namespace C ns)) (\<lambda>e.
        if \<not> raises NotFoundError e then h_fail e
        else h_catch (h_call (c_create_namespace C ns (author cfg)
               (ddl_message cfg (''first flush of '' @ topic cfg) (''create namespace '' @ ns) [])))
             (\<lambda>e. if raises AlreadyExistsError e then h_call (c_namespace C ns) else h_fail e)))"

definition hog_ensure_table :: "'w hog_client \<Rightarrow> config \<Rightarrow> (string \<times> atype) list \<Rightarrow> ('w, nat) op" where
  "hog_ensure_table C cfg batch_schema =
     h_bind (h_gets hs_table) (\<lambda>cached.
     case cached of
       Some tbl \<Rightarrow> h_ret tbl
     | None \<Rightarrow>
         h_bind (ensure_namespace C cfg) (\<lambda>_.
         h_bind (h_catch
              (h_bind (h_call (c_table C (opt_text (hoglake_namespace cfg)) (opt_text (hoglake_table cfg)))) (\<lambda>tbl.
               h_bind (adopt_columns_of C tbl) (\<lambda>_.
               h_bind (reconcile_specs C cfg tbl None) (\<lambda>_.
               h_ret tbl))))
              (\<lambda>e. if raises NotFoundError e then create_table C cfg batch_schema else h_fail e)) (\<lambda>tbl.
         h_bind (h_mod (\<lambda>s. s\<lparr>hs_table := Some tbl, hs_uuid := c_table_uuid C tbl (hs_world s)\<rparr>)) (\<lambda>_.
         h_ret tbl))))"

subsection \<open>Schema evolution and alignment\<close>

definition add_column_op :: "'w hog_client \<Rightarrow> hog_env \<Rightarrow> nat \<Rightarrow> string \<times> atype \<Rightarrow> ('w, bool) op" where
  "add_column_op C E tbl = (\<lambda>(n, ty).
     case arrow_coltype (ev_kernel E) ty of
       None \<Rightarrow> h_bind (h_emit schema_error_event) (\<lambda>_. h_ret False)
     | Some type_name \<Rightarrow>
         h_catch
           (h_bind (h_call (c_alter C tbl [AddColumn n ty] (author (ev_cfg E))
              (ddl_message (ev_cfg E) (''schema evolution from '' @ topic (ev_cfg E))
                 (''add column '' @ n @ '' ('' @ type_name @ '')'') []))) (\<lambda>info.
            h_bind (adopt_info C info) (\<lambda>_.
            h_bind (h_emit [HMetric (Inc ''schema_columns_added_total'' [] 1)]) (\<lambda>_.
            h_ret True))))
           (\<lambda>e. if raises IdlessFilesPresentError e then h_fail (SinkError (IdlessFilesLive [n]))
                else if raises CommitConflictError e then
                  h_bind (h_call (c_info C tbl)) (\<lambda>info.
                  h_bind (adopt_info C info) (\<lambda>_.
                  h_bind (h_gets hs_live) (\<lambda>lv.
                  if map_of lv n \<noteq> None then h_ret True
                  else h_bind (h_emit schema_error_event) (\<lambda>_. h_ret False))))
                else (case e of
                    HogE x \<Rightarrow> h_bind (h_emit schema_error_event) (\<lambda>_. h_ret False)
                  | _ \<Rightarrow> h_fail e)))"

text \<open>One column at a time; the result is the columns that are still not live.\<close>

fun add_each :: "'w hog_client \<Rightarrow> hog_env \<Rightarrow> nat \<Rightarrow> (string \<times> atype) list \<Rightarrow> ('w, string list) op" where
  "add_each C E tbl [] = h_ret []"
| "add_each C E tbl (f # fs) =
     h_bind (add_column_op C E tbl f) (\<lambda>live.
     h_bind (add_each C E tbl fs) (\<lambda>failed.
     h_ret (if live then failed else fst f # failed)))"

definition addable :: "hog_env \<Rightarrow> (string \<times> atype) list \<Rightarrow> (string \<times> atype) list" where
  "addable E flds = filter (\<lambda>(n, ty). arrow_coltype (ev_kernel E) ty \<noteq> None) flds"

definition unmapped :: "hog_env \<Rightarrow> (string \<times> atype) list \<Rightarrow> string list" where
  "unmapped E flds = map fst (filter (\<lambda>(n, ty). arrow_coltype (ev_kernel E) ty = None) flds)"

definition add_columns :: "'w hog_client \<Rightarrow> hog_env \<Rightarrow> nat \<Rightarrow> (string \<times> atype) list \<Rightarrow> ('w, string list) op" where
  "add_columns C E tbl flds =
     (let failed = unmapped E flds; ok = addable E flds;
          added = map (\<lambda>(n, ty). n @ '' ('' @ the (arrow_coltype (ev_kernel E) ty) @ '')'') ok;
          one_by_one = h_bind (add_each C E tbl ok) (\<lambda>more. h_ret (failed @ more))
      in h_bind (h_emit (concat (map (\<lambda>n. schema_error_event) failed))) (\<lambda>_.
         if ok = [] then h_ret failed
         else if 1 < length ok then
           h_catch
             (h_bind (h_call (c_alter C tbl (map (\<lambda>(n, ty). AddColumn n ty) ok) (author (ev_cfg E))
                (ddl_message (ev_cfg E) (''schema evolution from '' @ topic (ev_cfg E))
                   (''add columns '' @ join '', '' added) []))) (\<lambda>info.
              h_bind (adopt_info C info) (\<lambda>_.
              h_bind (h_emit [HMetric (Inc ''schema_columns_added_total'' [] (int (length ok)))]) (\<lambda>_.
              h_ret failed))))
             (\<lambda>e. if raises IdlessFilesPresentError e then h_fail (SinkError (IdlessFilesLive (map fst ok)))
                  else (case e of HogE x \<Rightarrow> one_by_one | _ \<Rightarrow> h_fail e))
         else one_by_one))"

definition promote_column :: "'w hog_client \<Rightarrow> hog_env \<Rightarrow> nat \<Rightarrow> string \<Rightarrow> string \<Rightarrow> string \<Rightarrow> ('w, unit) op" where
  "promote_column C E tbl n from_type to_type =
     h_catch
       (h_bind (h_call (c_alter C tbl [PromoteColumn n to_type] (author (ev_cfg E))
          (ddl_message (ev_cfg E) (''schema evolution from '' @ topic (ev_cfg E))
             (''promote column '' @ n @ '' from '' @ from_type @ '' to '' @ to_type) []))) (\<lambda>info.
        h_bind (adopt_info C info) (\<lambda>_.
        h_emit [HMetric (Inc ''schema_columns_widened_total'' [] 1)])))
       (\<lambda>e. if raises CommitConflictError e then
              h_bind (h_call (c_info C tbl)) (\<lambda>info.
              h_bind (adopt_info C info) (\<lambda>_.
              h_bind (h_gets hs_live) (\<lambda>lv.
              if (case map_of lv n of None \<Rightarrow> False | Some c \<Rightarrow> hc_type c = to_type)
              then h_emit [HMetric (Inc ''schema_columns_widened_total'' [] 1)]
              else h_emit schema_error_event)))
            else (case e of HogE x \<Rightarrow> h_emit schema_error_event | _ \<Rightarrow> h_fail e))"

text \<open>The loop over the fields of the batch: the columns to drop, and the uuid rewrites.\<close>

fun evolve_loop :: "'w hog_client \<Rightarrow> hog_env \<Rightarrow> nat \<Rightarrow> (string \<times> atype) list
     \<Rightarrow> ('w, string list \<times> (string \<times> string) list) op" where
  "evolve_loop C E tbl [] = h_ret ([], [])"
| "evolve_loop C E tbl ((n, ty) # fs) =
     h_bind (h_gets hs_live) (\<lambda>lv.
     case map_of lv n of
       None \<Rightarrow> evolve_loop C E tbl fs
     | Some c \<Rightarrow>
         (case arrow_coltype (ev_kernel E) ty of
            None \<Rightarrow>
              h_bind (h_emit schema_error_event) (\<lambda>_.
              h_bind (evolve_loop C E tbl fs) (\<lambda>(failed, rewrites).
              h_ret (n # failed, rewrites)))
          | Some want \<Rightarrow>
              if hc_type c = want then evolve_loop C E tbl fs
              else (case map_of PROMOTIONS (hc_type c, want) of
                  Some promoted \<Rightarrow>
                    h_bind (promote_column C E tbl n (hc_type c) promoted) (\<lambda>_. evolve_loop C E tbl fs)
                | None \<Rightarrow>
                    h_bind (evolve_loop C E tbl fs) (\<lambda>(failed, rewrites).
                    h_ret (failed, if (hc_type c, want) \<in> set UUID_REWRITES then (n, want) # rewrites else rewrites)))))"

fun rewrite_columns :: "(string \<times> string) list \<Rightarrow> table \<Rightarrow> ('w, table) op" where
  "rewrite_columns [] batch = h_ret batch"
| "rewrite_columns ((n, want) # rs) batch =
     h_bind (h_lift (rewrite_column batch n want)) (\<lambda>(b, ms).
     h_bind (h_emit (map HMetric ms)) (\<lambda>_. rewrite_columns rs b))"

definition null_fill_missing :: "hog_env \<Rightarrow> table \<Rightarrow> ('w, table) op" where
  "null_fill_missing E batch = h_gets (\<lambda>s. null_fill_columns (ev_kernel E) (hs_live s) batch)"

definition evolve_and_align :: "'w hog_client \<Rightarrow> hog_env \<Rightarrow> nat \<Rightarrow> table \<Rightarrow> ('w, table) op" where
  "evolve_and_align C E tbl batch =
     h_bind (h_gets hs_live) (\<lambda>lv.
     h_bind (let new = filter (\<lambda>(n, ty). map_of lv n = None) (tschema batch)
             in if new = [] then h_ret [] else add_columns C E tbl new) (\<lambda>failed1.
     h_bind (evolve_loop C E tbl (tschema batch)) (\<lambda>(failed2, rewrites).
     h_bind (rewrite_columns rewrites
        (if failed1 @ failed2 = [] then batch else drop_columns (failed1 @ failed2) batch)) (\<lambda>b.
     null_fill_missing E b))))"

subsection \<open>Preparing and committing\<close>

record flush_facts =
  ff_offsets :: "kafka_range list"
  ff_bytes :: int
  ff_trigger :: "string option"

definition flush_message :: "config \<Rightarrow> string option \<Rightarrow> nat \<Rightarrow> (string option list option \<times> table) list \<Rightarrow> flush_facts \<Rightarrow> string" where
  "flush_message cfg table_uuid rows groups F =
     format_commit_message
       \<lparr>fs_records = int rows, fs_files = int (length groups),
        fs_partitions = int (length (filter (\<lambda>g. fst g \<noteq> None) groups)), fs_arrow_bytes = ff_bytes F,
        fs_trigger = ff_trigger F,
        fs_version = message_token (if service_version cfg = [] then ''unknown'' else service_version cfg),
        fs_table_uuid = table_uuid, fs_codec = codec_token (hoglake_compression cfg) (hoglake_compression_level cfg),
        fs_stats = stats_token (hoglake_deferred_stats cfg)\<rparr>
       (ff_offsets F) MESSAGE_OFFSETS_LIMIT"

definition prepare :: "'w hog_client \<Rightarrow> hog_env \<Rightarrow> nat \<Rightarrow> table \<Rightarrow> string \<Rightarrow> flush_facts \<Rightarrow> ('w, payload) op" where
  "prepare C E tbl batch key F =
     (let cfg = ev_cfg E in
     h_bind (table_info C cfg tbl) (\<lambda>info.
     h_bind (h_lift (columns_schema (ev_kernel E) (ti_columns info))) (\<lambda>target.
     h_bind (null_fill_missing E batch) (\<lambda>b.
     h_bind (h_lift (and_then (select_columns (map fst target) b) (cast_table (ev_kernel E) target))) (\<lambda>aligned.
     h_bind (h_lift (partition_groups (ev_kernel E) aligned info)) (\<lambda>groups.
     h_bind (h_gets hs_uuid) (\<lambda>uuid.
     h_bind (h_draw (c_prepare C tbl groups key uuid
        \<lparr>eo_compression = hoglake_compression cfg, eo_level = hoglake_compression_level cfg,
         eo_deferred = (hoglake_deferred_stats cfg = Some True)\<rparr>)) (\<lambda>r.
     case r of
       Inl (e, n, uris) \<Rightarrow> h_bind (h_emit (count_orphans n uris ''prepare_failed'')) (\<lambda>_. h_fail e)
     | Inr p \<Rightarrow> h_ret (p\<lparr>pl_author := author cfg,
         pl_message := flush_message cfg uuid (num_rows aligned) groups F\<rparr>)))))))))"

definition clear_prepared :: "('w, unit) op" where
  "clear_prepared = h_mod (\<lambda>s. s\<lparr>hs_prepared := None, hs_rows := 0, hs_offsets := None, hs_sends := 0\<rparr>)"

definition discard_prepared :: "string \<Rightarrow> ('w, unit) op" where
  "discard_prepared reason =
     h_bind (h_gets hs_prepared) (\<lambda>held.
     case held of
       None \<Rightarrow> h_ret ()
     | Some p \<Rightarrow>
         h_bind (h_emit (count_orphans (int (length (pl_files p))) (map rg_path (pl_files p)) reason)) (\<lambda>_.
         clear_prepared))"

definition accept_already_published :: "payload \<Rightarrow> ('w, int) op" where
  "accept_already_published p =
     h_bind (h_emit (HMetric (Inc ''hoglake_commit_replays_total'' ''already_published'' 1)
        # count_orphans (int (length (pl_files p))) (map rg_path (pl_files p)) ''already_published'')) (\<lambda>_.
     h_bind clear_prepared (\<lambda>_. h_ret 0))"

definition destination_moved :: "hog_error \<Rightarrow> ('w, 'a) op" where
  "destination_moved refused =
     (let (stop, reason) =
        (if he_class refused = IncarnationChangedError then (TableRecreated, ''table_recreated'')
         else if he_class refused = ReadSnapshotExpiredError then (SnapshotExpired, ''read_snapshot_expired'')
         else (DdlSinceSnapshot, ''ddl_since_read_snapshot''))
      in h_bind (discard_prepared reason) (\<lambda>_.
         h_bind (if he_class refused = IncarnationChangedError then hog_reset_caches else drop_cached_shape) (\<lambda>_.
         h_fail (SinkError stop))))"

definition refused_commit :: "payload \<Rightarrow> hexc \<Rightarrow> ('w, int) op" where
  "refused_commit p x =
     (case x of
        HogE e \<Rightarrow>
          h_bind drop_cached_shape (\<lambda>_.
          if reused_key e then accept_already_published p
          else if he_class e \<in> set DESTINATION_MOVED then destination_moved e
          else h_bind (if is_answered_refusal x then discard_prepared ''commit_refused'' else h_ret ()) (\<lambda>_.
            h_fail x))
      | _ \<Rightarrow> h_fail x)"

definition commit_prepared :: "'w hog_client \<Rightarrow> ('w, int) op" where
  "commit_prepared C =
     h_bind (h_gets hs_prepared) (\<lambda>held.
     case held of
       None \<Rightarrow> h_fail (SinkError NothingPrepared)
     | Some p \<Rightarrow>
         h_bind (h_mod (\<lambda>s. s\<lparr>hs_sends := Suc (hs_sends s)\<rparr>)) (\<lambda>_.
         h_bind (h_gets (\<lambda>s. (1 < hs_sends s, hs_table s))) (\<lambda>(replayed, tbl).
         h_bind (h_draw (c_commit C p tbl)) (\<lambda>r.
         case r of
           Inl x \<Rightarrow> refused_commit p x
         | Inr _ \<Rightarrow>
             h_bind (h_emit (HMetric (Inc ''hoglake_files_written_total'' [] (int (length (pl_files p))))
                # observe_fanout (pl_files p)
                @ (if replayed then [HMetric (Inc ''hoglake_commit_replays_total'' ''replayed'' 1)] else []))) (\<lambda>_.
             h_bind (h_gets (\<lambda>s. int (hs_rows s))) (\<lambda>rows.
             h_bind clear_prepared (\<lambda>_.
             h_ret rows)))))))"

subsection \<open>The sink protocol\<close>

definition reserved_collision :: "(string \<times> atype) list \<Rightarrow> hexc + unit" where
  "reserved_collision sch =
     (case check_reserved_collision sch HOG_RESERVED_COLUMNS of
        Inl e \<Rightarrow> Inl (ValueE ''reserved metadata columns'')
      | Inr u \<Rightarrow> Inr u)"

text \<open>Preparing, with the one retry after a refusal to align; the result is the payload and its rows.\<close>

definition prepare_once_more :: "'w hog_client \<Rightarrow> hog_env \<Rightarrow> nat \<Rightarrow> table \<Rightarrow> string \<Rightarrow> flush_facts \<Rightarrow> ('w, payload) op" where
  "prepare_once_more C E tbl b key facts =
     h_catch (prepare C E tbl b key facts)
       (\<lambda>x. case x of
           HogE e \<Rightarrow>
             if he_class e = ValidationError \<and> is_alignment_refusal e then
               h_bind (h_call (c_info C tbl)) (\<lambda>info.
               h_bind (adopt_info C info) (\<lambda>_.
               h_bind (null_fill_missing E b) (\<lambda>b'. prepare C E tbl b' key facts)))
             else h_fail x
         | _ \<Rightarrow> h_fail x)"

definition prepare_flush :: "'w hog_client \<Rightarrow> hog_env \<Rightarrow> table \<Rightarrow> kafka_range list option \<Rightarrow> int \<Rightarrow> string option
     \<Rightarrow> ('w, payload \<times> nat) op" where
  "prepare_flush C E batch identity arrow_bytes trigger =
     h_bind (h_draw (c_now C)) (\<lambda>now.
     let stamped = stamp_inserted_at now batch in
     h_bind (hog_ensure_table C (ev_cfg E) (tschema stamped)) (\<lambda>tbl.
     h_bind (case identity of None \<Rightarrow> h_draw (c_uuid4 C)
             | Some offs \<Rightarrow> h_gets (\<lambda>s. flush_key (ev_uuid5 E) [] (ev_cfg E) (hs_uuid s) offs)) (\<lambda>key.
     h_bind (evolve_and_align C E tbl stamped) (\<lambda>b.
     h_bind (prepare_once_more C E tbl b key
        \<lparr>ff_offsets = (case identity of None \<Rightarrow> [] | Some offs \<Rightarrow> offs), ff_bytes = arrow_bytes,
         ff_trigger = trigger\<rparr>) (\<lambda>p.
     h_ret (p, num_rows b))))))"

text \<open>A flush that has not been prepared yet.\<close>

definition fresh_flush :: "'w hog_client \<Rightarrow> hog_env \<Rightarrow> table \<Rightarrow> kafka_range list option \<Rightarrow> int \<Rightarrow> string option \<Rightarrow> ('w, int) op" where
  "fresh_flush C E batch identity arrow_bytes trigger =
     h_bind (discard_prepared ''superseded'') (\<lambda>_.
     h_bind (prepare_flush C E batch identity arrow_bytes trigger) (\<lambda>(p, rows).
     h_bind (h_mod (\<lambda>s. s\<lparr>hs_prepared := Some p, hs_rows := rows, hs_offsets := identity, hs_sends := 0\<rparr>)) (\<lambda>_.
     commit_prepared C)))"

definition hog_write :: "'w hog_client \<Rightarrow> hog_env \<Rightarrow> table \<Rightarrow> kafka_range list option \<Rightarrow> string option \<Rightarrow> ('w, int) op" where
  "hog_write C E batch kafka_offsets trigger =
     h_bind (h_lift (reserved_collision (tschema batch))) (\<lambda>_.
     let arrow_bytes = nbytes (ev_arrow E) batch; (b, ms) = drop_unwritable_columns batch in
     h_bind (h_emit (map HMetric ms)) (\<lambda>_.
     if names batch \<noteq> [] \<and> names b = [] then
       h_bind (h_emit [HMetric (Inc ''records_skipped_total'' ''unsafe_field_name'' (int (num_rows b)))]) (\<lambda>_. h_ret 0)
     else if num_rows b = 0 then h_ret 0
     else
       (let identity = (case kafka_offsets of None \<Rightarrow> None | Some offs \<Rightarrow> if offs = [] then None else Some offs)
        in h_bind (h_gets (\<lambda>s. identity \<noteq> None \<and> hs_prepared s \<noteq> None \<and> hs_offsets s = identity)) (\<lambda>replay.
           if replay then commit_prepared C
           else fresh_flush C E b identity arrow_bytes trigger))))"

definition hog_close :: "('w, unit) op" where
  "hog_close = discard_prepared ''shutdown''"

subsection \<open>The retry hints\<close>

definition RETRY_AFTER_STATUS :: "int list" where "RETRY_AFTER_STATUS = [429, 503]"

text \<open>\<open>pf\<close> is \<open>float\<close> of a text.\<close>

definition note_response :: "(string \<Rightarrow> real option) \<Rightarrow> int \<Rightarrow> string option \<Rightarrow> ('w, unit) op" where
  "note_response pf status retry_header =
     (if status \<notin> set RETRY_AFTER_STATUS then h_ret ()
      else case Option.bind retry_header (\<lambda>raw. pf (strip raw)) of
          None \<Rightarrow> h_ret ()
        | Some x \<Rightarrow> h_mod (\<lambda>s. s\<lparr>hs_retry_after := Some x\<rparr>))"

definition hog_retry_after_hint :: "('w, real option) op" where
  "hog_retry_after_hint =
     h_bind (h_gets hs_retry_after) (\<lambda>hint.
     h_bind (h_mod (\<lambda>s. s\<lparr>hs_retry_after := None\<rparr>)) (\<lambda>_. h_ret hint))"

definition hog_retry_budget :: "config \<Rightarrow> int \<times> real" where
  "hog_retry_budget cfg = (the (hoglake_max_retry_count cfg), 1)"

definition hog_flush_deadline :: "config \<Rightarrow> real \<times> real" where
  "hog_flush_deadline cfg = hoglake_flush_deadline (the (hoglake_request_timeout_s cfg))"

subsection \<open>Startup\<close>

definition hog_requirements :: "config \<Rightarrow> hexc + unit" where
  "hog_requirements cfg =
     (case filter (\<lambda>(n, v). v = None)
        [(''hoglake_url'', hoglake_url cfg), (''hoglake_catalog'', hoglake_catalog cfg),
         (''hoglake_namespace'', hoglake_namespace cfg), (''hoglake_table'', hoglake_table cfg)] of
        (n, v) # _ \<Rightarrow> Inl (SinkError (RequiresField n))
      | [] \<Rightarrow>
          if (hoglake_s3_access_key cfg = None) \<noteq> (hoglake_s3_secret_key cfg = None) then Inl (SinkError S3KeyPair)
          else Inr ())"

definition resolve_catalog :: "'w hog_client \<Rightarrow> config \<Rightarrow> ('w, string) op" where
  "resolve_catalog C cfg =
     (let name = opt_text (hoglake_catalog cfg) in
      h_catch (h_call (c_catalog C name)) (\<lambda>x.
        if raises NotFoundError x then
          (case hoglake_data_path cfg of
             None \<Rightarrow> h_fail (SinkError CatalogMissing)
           | Some path \<Rightarrow>
               h_catch (h_call (c_create_catalog C name path (author cfg)
                  (ddl_message cfg (''startup for '' @ topic cfg) (''create catalog '' @ name) [''HOGLAKE_DATA_PATH''])))
                 (\<lambda>x. if raises AlreadyExistsError x then h_call (c_catalog C name) else h_fail x))
        else (case x of
            HogE e \<Rightarrow> h_fail (SinkError ControlPlane)
          | HttpError \<Rightarrow> h_fail (SinkError ControlPlane)
          | OsError \<Rightarrow> h_fail (SinkError ControlPlane)
          | _ \<Rightarrow> h_fail x)))"

definition probe_object_store :: "'w hog_client \<Rightarrow> config \<Rightarrow> string \<Rightarrow> ('w, unit) op" where
  "probe_object_store C cfg data_path =
     (case c_probe C of
        None \<Rightarrow> h_fail (SinkError NoFilesystem)
      | Some put \<Rightarrow>
          h_bind (h_draw (put (probe_marker_uri data_path))) (\<lambda>r.
          case r of
            None \<Rightarrow> h_ret ()
          | Some sdk_error \<Rightarrow>
              h_fail (SinkError (ProbeFailed (probe_hint sdk_error (hoglake_s3_access_key cfg \<noteq> None))))))"

definition hog_init :: "'w hog_client \<Rightarrow> config \<Rightarrow> ('w, unit) op" where
  "hog_init C cfg =
     h_bind (h_lift (hog_requirements cfg)) (\<lambda>_.
     h_bind (resolve_catalog C cfg) (\<lambda>data_path.
     probe_object_store C cfg data_path))"

definition hog_start :: "'w \<Rightarrow> 'w hs" where
  "hog_start w = \<lparr>hs_table = None, hs_uuid = None, hs_live = [], hs_info = None, hs_read_at = None,
     hs_reconciled = None, hs_prepared = None, hs_rows = 0, hs_offsets = None, hs_sends = 0,
     hs_retry_after = None, hs_world = w, hs_out = []\<rparr>"

end
