(* ===== verification/HogFrame.thy ===== *)
theory HogFrame
  imports HogSink
begin

text \<open>
  What the operations of the hoglake sink leave alone. A frame is a reflexive and transitive relation on
  the states of the sink; the locales say which primitive steps have to respect it, and prove that then
  every operation up to the preparation of a flush does. The frames themselves are given, by interpretation,
  in the theories about publication and about the layout.
\<close>

subsection \<open>Frames\<close>

text \<open>Every run of the operation goes from a state to a related one.\<close>

definition framed :: "('w hs \<Rightarrow> 'w hs \<Rightarrow> bool) \<Rightarrow> ('w, 'a) op \<Rightarrow> bool" where
  "framed R m \<longleftrightarrow> (\<forall>s. R s (snd (m s)))"

lemma framed_run: "framed R m \<Longrightarrow> m s = (r, s') \<Longrightarrow> R s s'"
  by (metis framed_def snd_conv)

locale op_frame =
  fixes R :: "'w hs \<Rightarrow> 'w hs \<Rightarrow> bool"
  assumes stay: "R s s"
    and chain: "R s t \<Longrightarrow> R t u \<Longrightarrow> R s u"
begin

lemma ret: "framed R (h_ret x)" and fails: "framed R (h_fail e)" and lifted: "framed R (h_lift r)"
  and reads: "framed R (h_gets f)"
  by (simp_all add: framed_def op_defs stay)

lemma bind:
  assumes "framed R m" "\<And>x. framed R (f x)"
  shows "framed R (h_bind m f)"
  using assms by (auto simp: framed_def h_bind_def split: prod.split sum.split) (metis chain snd_conv)+

lemma try_except:
  assumes "framed R m" "\<And>e. framed R (h e)"
  shows "framed R (h_catch m h)"
  using assms by (auto simp: framed_def h_catch_def split: prod.split sum.split) (metis chain snd_conv)+

lemma branch: "framed R m \<Longrightarrow> framed R m' \<Longrightarrow> framed R (if b then m else m')"
  by simp

lemma on_option: "framed R m \<Longrightarrow> (\<And>x. framed R (f x)) \<Longrightarrow> framed R (case y of None \<Rightarrow> m | Some x \<Rightarrow> f x)"
  by (simp split: option.split)

lemma on_pair: "(\<And>x y. framed R (f x y)) \<Longrightarrow> framed R (case p of (x, y) \<Rightarrow> f x y)"
  by (simp split: prod.split)

lemma on_error: "(\<And>x. framed R (f x)) \<Longrightarrow> framed R g \<Longrightarrow>
    framed R (case e of HogE x \<Rightarrow> f x | _ \<Rightarrow> g)"
  by (simp split: hexc.split)

lemmas steps = ret fails lifted reads bind try_except branch on_option on_pair

end

subsection \<open>The steps of the client\<close>

text \<open>What a call of the client other than the commit may make of its world.\<close>

inductive client_step :: "'w hog_client \<Rightarrow> 'w \<Rightarrow> 'w \<Rightarrow> bool" for C where
  namespace_step: "client_step C w (snd (c_namespace C n w))"
| create_namespace_step: "client_step C w (snd (c_create_namespace C n a m w))"
| table_step: "client_step C w (snd (c_table C n t w))"
| create_table_step: "client_step C w (snd (c_create_table C n t sch a m w))"
| info_step: "client_step C w (snd (c_info C h w))"
| alter_step: "client_step C w (snd (c_alter C h ops a m w))"
| retention_step: "c_retention C = Some f \<Longrightarrow> client_step C w (snd (f w))"
| monotonic_step: "client_step C w (snd (c_monotonic C w))"
| now_step: "client_step C w (snd (c_now C w))"
| uuid_step: "client_step C w (snd (c_uuid4 C w))"
| prepare_step: "client_step C w (snd (c_prepare C h groups key uuid opts w))"

text \<open>The fields a frame may look at: the world, the held payload and the verdict on the layout.\<close>

definition same_held :: "'w hs \<Rightarrow> 'w hs \<Rightarrow> bool" where
  "same_held s s' \<longleftrightarrow> hs_world s' = hs_world s \<and> hs_prepared s' = hs_prepared s \<and> hs_rows s' = hs_rows s
     \<and> hs_offsets s' = hs_offsets s \<and> hs_sends s' = hs_sends s \<and> hs_reconciled s' = hs_reconciled s"

locale client_frame = op_frame R for R :: "'w hs \<Rightarrow> 'w hs \<Rightarrow> bool" +
  fixes C :: "'w hog_client"
  assumes untouched: "same_held s s' \<Longrightarrow> R s s'"
    and call_step: "client_step C (hs_world s) w' \<Longrightarrow> R s (s\<lparr>hs_world := w'\<rparr>)"
    and forget: "R s (s\<lparr>hs_reconciled := None\<rparr>)"
begin

lemma modified: "(\<And>s. same_held s (f s)) \<Longrightarrow> framed R (h_mod f)"
  by (simp add: framed_def h_mod_def untouched)

lemma emitted: "framed R (h_emit evs)"
  by (simp add: framed_def h_emit_def untouched same_held_def)

lemma called: "(\<And>w. client_step C w (snd (f w))) \<Longrightarrow> framed R (h_call f)"
  by (simp add: framed_def h_call_def split_beta call_step)

lemma drawn: "(\<And>w. client_step C w (snd (f w))) \<Longrightarrow> framed R (h_draw f)"
  by (simp add: framed_def h_draw_def split_beta call_step)

lemmas calls = called[OF namespace_step] called[OF create_namespace_step] called[OF table_step]
  called[OF create_table_step] called[OF info_step] called[OF alter_step] drawn[OF monotonic_step]
  drawn[OF now_step] drawn[OF uuid_step] drawn[OF prepare_step] drawn[OF retention_step]

lemmas parts = steps emitted calls

lemma adopt: "framed R (adopt_info C info)"
  unfolding adopt_info_def by (intro parts modified) (simp_all add: same_held_def)

lemma ttl: "framed R (live_info_ttl_s C)"
  unfolding live_info_ttl_s_def by (cases "c_retention C") (auto intro!: parts)

lemma freshness: "framed R (live_info_is_fresh C)"
  unfolding live_info_is_fresh_def by (intro parts ttl)

lemma verify: "framed R (verify_specs cfg info)"
  unfolding verify_specs_def by (intro parts)

lemma declare_op: "framed R (declare_specs C cfg tbl why p t)"
  unfolding declare_specs_def Let_def by (intro parts adopt verify)

lemma layout_checked: "framed R (check_layout C cfg tbl given)"
  unfolding check_layout_def Let_def by (intro parts adopt declare_op)

lemma columns_of: "framed R (adopt_columns_of C tbl)"
  unfolding adopt_columns_of_def by (intro modified) (simp add: same_held_def)

lemma drop_shape: "framed R drop_cached_shape"
proof -
  have "R s (s\<lparr>hs_info := None, hs_read_at := None, hs_reconciled := None\<rparr>)" for s
    using chain[OF untouched forget, of s "s\<lparr>hs_info := None, hs_read_at := None\<rparr>"] by (simp add: same_held_def)
  then show ?thesis
    by (simp add: framed_def drop_cached_shape_def h_mod_def)
qed

lemma reset: "framed R hog_reset_caches"
  unfolding hog_reset_caches_def by (intro parts drop_shape modified) (simp add: same_held_def)

end

text \<open>Every operation up to the preparation, given that checking the layout keeps the frame.\<close>

locale flush_frame = client_frame R C for R :: "'w hs \<Rightarrow> 'w hs \<Rightarrow> bool" and C +
  fixes E :: hog_env
  assumes reconcile: "framed R (reconcile_specs C (ev_cfg E) tbl None)"
    and info_of_table: "framed R (table_info C (ev_cfg E) tbl)"
begin

lemma create: "framed R (create_table C (ev_cfg E) sch)"
  unfolding create_table_def Let_def by (intro parts columns_of declare_op reconcile)

lemma ensure: "framed R (hog_ensure_table C (ev_cfg E) sch)"
  unfolding hog_ensure_table_def ensure_namespace_def Let_def
  by (intro parts columns_of create reconcile modified) (simp add: same_held_def)

lemma add_one: "framed R (add_column_op C E tbl f)"
  unfolding add_column_op_def by (intro parts adopt on_error)

lemma add_all: "framed R (add_each C E tbl fs)"
  by (induction fs) (auto intro!: parts add_one)

lemma add_many: "framed R (add_columns C E tbl fs)"
  unfolding add_columns_def Let_def by (intro parts adopt add_all on_error)

lemma promote: "framed R (promote_column C E tbl n a b)"
  unfolding promote_column_def by (intro parts adopt on_error)

lemma evolve_fields: "framed R (evolve_loop C E tbl fs)"
proof (induction fs)
  case (Cons f fs)
  obtain n ty where f: "f = (n, ty)"
    by (cases f)
  show ?case
    unfolding f evolve_loop.simps by (intro parts promote Cons)
qed (simp add: parts)

lemma rewrite: "framed R (rewrite_columns rs b)"
  by (induction rs b rule: rewrite_columns.induct) (auto intro!: parts)

lemma evolve: "framed R (evolve_and_align C E tbl b)"
  unfolding evolve_and_align_def null_fill_missing_def Let_def
  by (intro parts add_many evolve_fields rewrite)

lemma prepare_one: "framed R (prepare C E tbl b key F)"
  unfolding prepare_def null_fill_missing_def Let_def
  by (intro parts info_of_table) (auto split: sum.split intro!: parts)

lemma once_more: "framed R (prepare_once_more C E tbl b key F)"
  unfolding prepare_once_more_def null_fill_missing_def
  by (intro parts prepare_one adopt on_error)

lemma prepare_all: "framed R (prepare_flush C E batch identity bytes trigger)"
  unfolding prepare_flush_def Let_def by (intro parts ensure evolve once_more)

end

subsection \<open>What a run went through\<close>

lemma bind_Inr: "h_bind m f s = (Inr y, s') \<longleftrightarrow> (\<exists>x t. m s = (Inr x, t) \<and> f x t = (Inr y, s'))"
  by (auto simp: h_bind_def split: prod.split sum.split)

lemma lift_Inr: "h_lift r s = (Inr x, s') \<longleftrightarrow> r = Inr x \<and> s' = s"
  by (auto simp: h_lift_def)

lemma gets_Inr: "h_gets f s = (Inr x, s') \<longleftrightarrow> x = f s \<and> s' = s"
  by (auto simp: h_gets_def)

lemma ret_Inr: "h_ret y s = (Inr x, s') \<longleftrightarrow> x = y \<and> s' = s"
  by (auto simp: h_ret_def)

lemma fail_Inr: "h_fail e s \<noteq> (Inr x, s')"
  by (simp add: h_fail_def)

lemma draw_Inr: "h_draw f s = (Inr x, s') \<longleftrightarrow> (\<exists>w. f (hs_world s) = (x, w) \<and> s' = s\<lparr>hs_world := w\<rparr>)"
  by (auto simp: h_draw_def split: prod.split)

lemmas run_inverts = bind_Inr lift_Inr gets_Inr ret_Inr fail_Inr draw_Inr

text \<open>A payload was built over groups of the shape \<open>table_info\<close> returned.\<close>

lemma prepare_inverts:
  assumes "prepare C E tbl b key F s = (Inr p, s')"
  obtains info s1 target aligned groups q w2 opts where "table_info C (ev_cfg E) tbl s = (Inr info, s1)"
    "and_then (select_columns (map fst target) (null_fill_columns (ev_kernel E) (hs_live s1) b))
       (cast_table (ev_kernel E) target) = Inr aligned"
    "partition_groups (ev_kernel E) aligned info = Inr groups"
    "c_prepare C tbl groups key (hs_uuid s1) opts (hs_world s1) = (Inr q, w2)"
    "pl_key p = pl_key q" "pl_files p = pl_files q" "hs_world s' = w2"
  using assms unfolding prepare_def null_fill_missing_def Let_def run_inverts
  apply (elim exE conjE)
  subgoal for info s1 target s2 b1 s3 aligned s4 groups s5 uuid s6 r
    by (cases r) (auto simp: run_inverts)
  done

end
