(* ===== verification/HogPublish.thy ===== *)
theory HogPublish
  imports HogFrame
begin

text \<open>
  What the hoglake sink publishes: the laws of the client and the server it relies on, the frame each
  operation keeps, and the theorems that a flush is published at most once in a process, that what
  \<open>write\<close> returns is what was published, and what is left after a refusal.
\<close>

subsection \<open>The server\<close>

text \<open>
  What a world says of the catalog: the registrations this client's commits made the server publish, the
  receipt of each key, and the file lists this client has uploaded. A registration is a key with its
  files.
\<close>

record 'w ghost =
  g_mine :: "'w \<Rightarrow> (string \<times> registration list) list"
  g_receipt :: "'w \<Rightarrow> string \<Rightarrow> registration list option"
  g_ours :: "'w \<Rightarrow> registration list set"

text \<open>A receipt over files of this client is for a publication of this client.\<close>

definition honest :: "'w ghost \<Rightarrow> 'w \<Rightarrow> bool" where
  "honest G w \<longleftrightarrow> (\<forall>k fs. g_receipt G w k = Some fs \<longrightarrow> fs \<in> g_ours G w \<longrightarrow> (k, fs) \<in> set (g_mine G w))"

text \<open>Receipts and uploads are never forgotten, and nobody else registers this client's files.\<close>

definition grows :: "'w ghost \<Rightarrow> 'w \<Rightarrow> 'w \<Rightarrow> bool" where
  "grows G w w' \<longleftrightarrow> (\<forall>k fs. g_receipt G w k = Some fs \<longrightarrow> g_receipt G w' k = Some fs)
     \<and> g_ours G w \<subseteq> g_ours G w' \<and> (honest G w \<longrightarrow> honest G w')"

definition quiet :: "'w ghost \<Rightarrow> 'w \<Rightarrow> 'w \<Rightarrow> bool" where
  "quiet G w w' \<longleftrightarrow> grows G w w' \<and> g_mine G w' = g_mine G w"

text \<open>The server judged the commit and wrote nothing.\<close>

definition judged :: "hexc \<Rightarrow> bool" where
  "judged x \<longleftrightarrow> is_answered_refusal x
     \<or> (case x of HogE e \<Rightarrow> he_class e \<in> set DESTINATION_MOVED \<or> reused_key e | _ \<Rightarrow> False)"

text \<open>
  The commit is one transaction under a receipt per key: it publishes only under a key without a
  receipt, it answers success only when the receipt of the key is for these files, a judged refusal
  published nothing and there is no receipt for these files, and a reused key has a receipt.
\<close>

definition commit_law :: "'w ghost \<Rightarrow> 'w hog_client \<Rightarrow> bool" where
  "commit_law G C \<longleftrightarrow> (\<forall>p tbl w r w'. c_commit C p tbl w = (r, w') \<longrightarrow>
     grows G w w'
     \<and> (g_mine G w' = g_mine G w
        \<or> g_mine G w' = g_mine G w @ [(pl_key p, pl_files p)] \<and> g_receipt G w (pl_key p) = None
          \<and> g_receipt G w' (pl_key p) = Some (pl_files p))
     \<and> (r = Inr () \<longrightarrow> g_receipt G w' (pl_key p) = Some (pl_files p))
     \<and> (\<forall>x. r = Inl x \<longrightarrow> judged x \<longrightarrow>
          g_mine G w' = g_mine G w \<and> g_receipt G w' (pl_key p) \<noteq> Some (pl_files p))
     \<and> (\<forall>e. r = Inl (HogE e) \<longrightarrow> reused_key e \<longrightarrow> g_receipt G w' (pl_key p) \<noteq> None))"

text \<open>An upload writes one new object per group, under the key and the incarnation it was given.\<close>

definition prepare_law :: "'w ghost \<Rightarrow> 'w hog_client \<Rightarrow> bool" where
  "prepare_law G C \<longleftrightarrow> (\<forall>tbl groups key uuid opts w r w'. c_prepare C tbl groups key uuid opts w = (r, w') \<longrightarrow>
     quiet G w w'
     \<and> (\<forall>p. r = Inr p \<longrightarrow> pl_key p = key \<and> pl_uuid p = uuid \<and> pl_files p \<in> g_ours G w'
          \<and> (groups \<noteq> [] \<longrightarrow> (\<forall>k. (k, pl_files p) \<notin> set (g_mine G w)))
          \<and> map rg_rows (pl_files p) = map (\<lambda>g. Some (int (num_rows (snd g)))) groups))"

text \<open>No other request publishes for this client.\<close>

definition quiet_law :: "'w ghost \<Rightarrow> 'w hog_client \<Rightarrow> bool" where
  "quiet_law G C \<longleftrightarrow> (\<forall>w w'. client_step C w w' \<longrightarrow> quiet G w w')"

definition server_law :: "'w ghost \<Rightarrow> 'w hog_client \<Rightarrow> bool" where
  "server_law G C \<longleftrightarrow> commit_law G C \<and> prepare_law G C \<and> quiet_law G C"

lemma quiet_refl: "quiet G w w"
  by (simp add: quiet_def grows_def)

lemma grows_trans: "grows G w w' \<Longrightarrow> grows G w' w'' \<Longrightarrow> grows G w w''"
  by (auto simp: grows_def)

lemma quiet_trans: "quiet G w w' \<Longrightarrow> quiet G w' w'' \<Longrightarrow> quiet G w w''"
  by (auto simp: quiet_def intro: grows_trans)

subsection \<open>Everything but the commit leaves the held payload\<close>

definition holds_same :: "'w ghost \<Rightarrow> 'w hs \<Rightarrow> 'w hs \<Rightarrow> bool" where
  "holds_same G s s' \<longleftrightarrow> quiet G (hs_world s) (hs_world s') \<and> hs_prepared s' = hs_prepared s
     \<and> hs_rows s' = hs_rows s \<and> hs_offsets s' = hs_offsets s \<and> hs_sends s' = hs_sends s"

definition kept_by :: "'w ghost \<Rightarrow> 'w hog_client \<Rightarrow> 'w hs \<Rightarrow> 'w hs \<Rightarrow> bool" where
  "kept_by G C s s' \<longleftrightarrow> (server_law G C \<longrightarrow> holds_same G s s')"

lemma same_refl: "holds_same G s s"
  by (simp add: holds_same_def quiet_refl)

lemma same_trans: "holds_same G s t \<Longrightarrow> holds_same G t u \<Longrightarrow> holds_same G s u"
  by (auto simp: holds_same_def intro: quiet_trans)

interpretation pub: client_frame "kept_by G C" C for G :: "'w ghost" and C
  by unfold_locales
    (auto simp: kept_by_def same_refl server_law_def quiet_law_def holds_same_def same_held_def quiet_refl
      intro: quiet_trans)

lemma reconcile_kept: "framed (kept_by G C) (reconcile_specs C cfg tbl given)"
  unfolding reconcile_specs_def
  by (intro pub.parts pub.layout_checked)
    (simp add: framed_def h_mod_def kept_by_def holds_same_def quiet_refl)

interpretation pub: flush_frame "kept_by G C" C E for G :: "'w ghost" and C E
  by unfold_locales
    (auto simp: reconcile_kept table_info_def intro!: pub.parts pub.adopt pub.freshness reconcile_kept)

lemma framed_kept: "framed (kept_by G C) m \<Longrightarrow> server_law G C \<Longrightarrow> framed (holds_same G) m"
  by (simp add: framed_def kept_by_def)

lemmas held_table_info = framed_kept[OF pub.info_of_table]
lemmas held_ensure_table = framed_kept[OF pub.ensure]
lemmas held_evolve = framed_kept[OF pub.evolve]
lemmas held_prepare = framed_kept[OF pub.prepare_one]
lemmas held_prepare_flush = framed_kept[OF pub.prepare_all]
lemmas held_now = framed_kept[OF pub.calls(8)]

lemma held_refresh:
  assumes "server_law G C"
  shows "framed (holds_same G) (h_bind (h_call (c_info C tbl)) (\<lambda>info. h_bind (adopt_info C info) (\<lambda>_. h_gets f)))"
  by (rule framed_kept[OF _ assms]) (intro pub.parts pub.adopt)

lemma held_reset: "framed (holds_same G) hog_reset_caches"
  by (simp add: framed_def hog_reset_caches_def drop_cached_shape_def op_defs holds_same_def quiet_refl)

subsection \<open>The outcomes of a commit\<close>

text \<open>The commit published this payload, or it did not publish.\<close>

definition commits :: "'w ghost \<Rightarrow> payload \<Rightarrow> 'w \<Rightarrow> 'w \<Rightarrow> bool" where
  "commits G p w w' \<longleftrightarrow> g_mine G w' = g_mine G w
     \<or> g_mine G w' = g_mine G w @ [(pl_key p, pl_files p)] \<and> g_receipt G w (pl_key p) = None
       \<and> g_receipt G w' (pl_key p) = Some (pl_files p)"

text \<open>Nothing is held: what \<open>clear_prepared\<close> leaves.\<close>

definition nothing_held :: "'w hs \<Rightarrow> bool" where
  "nothing_held s \<longleftrightarrow> hs_prepared s = None \<and> hs_rows s = 0 \<and> hs_offsets s = None \<and> hs_sends s = 0"

lemma clear_effect: "clear_prepared s = (Inr (), s\<lparr>hs_prepared := None, hs_rows := 0, hs_offsets := None, hs_sends := 0\<rparr>)"
  by (simp add: clear_prepared_def h_mod_def)

lemma discard_effect:
  "discard_prepared reason s = (Inr (), case hs_prepared s of None \<Rightarrow> s
     | Some p \<Rightarrow> s\<lparr>hs_prepared := None, hs_rows := 0, hs_offsets := None, hs_sends := 0,
         hs_out := hs_out s @ count_orphans (int (length (pl_files p))) (map rg_path (pl_files p)) reason\<rparr>)"
  by (simp add: discard_prepared_def op_defs clear_effect split: option.split)

lemma drop_shape_effect: "drop_cached_shape s = (Inr (), s\<lparr>hs_info := None, hs_read_at := None, hs_reconciled := None\<rparr>)"
  by (simp add: drop_cached_shape_def h_mod_def)

lemma reset_effect: "hog_reset_caches s = (Inr (), s\<lparr>hs_table := None, hs_uuid := None, hs_live := [],
    hs_info := None, hs_read_at := None, hs_reconciled := None\<rparr>)"
  by (simp add: hog_reset_caches_def drop_shape_effect op_defs)

lemma moved_effect:
  assumes "hs_prepared s = Some p" "destination_moved e s = (r, s')"
  shows "\<exists>stop. r = Inl (SinkError stop) \<and> stop_retryable stop \<and> nothing_held s' \<and> hs_info s' = None
    \<and> hs_world s' = hs_world s
    \<and> (he_class e = IncarnationChangedError \<longrightarrow> hs_table s' = None \<and> hs_uuid s' = None)"
  using assms by (auto simp: destination_moved_def discard_effect op_defs reset_effect drop_shape_effect nothing_held_def
      split: if_splits)

lemma refused_effect:
  assumes "hs_prepared s = Some p" "refused_commit p x s = (r, s')"
  obtains (already) e where "x = HogE e" "reused_key e" "r = Inr 0" "nothing_held s'" "hs_info s' = None"
      "hs_world s' = hs_world s"
  | (dropped) y where "judged x" "r = Inl y" "nothing_held s'" "hs_info s' = None" "hs_world s' = hs_world s"
      "y = x \<or> (\<exists>stop. y = SinkError stop \<and> stop_retryable stop)"
  | (kept) "\<not> judged x" "r = Inl x" "hs_prepared s' = Some p" "hs_rows s' = hs_rows s" "hs_offsets s' = hs_offsets s"
      "hs_world s' = hs_world s"
proof (cases "\<exists>e. x = HogE e")
  case False
  then have "\<not> judged x" "r = Inl x" "s' = s"
    using assms by (cases x; simp add: refused_commit_def judged_def is_answered_refusal_def h_fail_def)+
  then show ?thesis
    using assms(1) by (intro kept) simp_all
next
  case True
  then obtain e where e: "x = HogE e"
    by blast
  let ?s = "s\<lparr>hs_info := None, hs_read_at := None, hs_reconciled := None\<rparr>"
  show ?thesis
  proof (cases "reused_key e")
    case True
    then show ?thesis
      using assms e by (intro already[of e])
        (auto simp: refused_commit_def accept_already_published_def op_defs drop_shape_effect
          clear_effect nothing_held_def)
  next
    case not_reused: False
    show ?thesis
    proof (cases "he_class e \<in> set DESTINATION_MOVED")
      case True
      then have "destination_moved e ?s = (r, s')"
        using assms e not_reused by (simp add: refused_commit_def op_defs drop_shape_effect)
      then obtain stop where "r = Inl (SinkError stop)" "stop_retryable stop" "nothing_held s'" "hs_info s' = None"
          "hs_world s' = hs_world s"
        using moved_effect[of ?s p e] assms(1) by auto
      then show ?thesis
        using dropped[of "SinkError stop"] True by (simp add: judged_def e)
    next
      case False
      then show ?thesis
        using assms e not_reused
        by (cases "is_answered_refusal x")
          (auto simp: refused_commit_def op_defs drop_shape_effect discard_effect nothing_held_def
            judged_def intro: dropped kept split: if_splits)
    qed
  qed
qed

lemma commit_outcome:
  assumes "commit_law G C" "hs_prepared s = Some p" "commit_prepared C s = (r, s')"
  obtains (published) "r = Inr (int (hs_rows s))" "nothing_held s'" "commits G p (hs_world s) (hs_world s')"
      "g_receipt G (hs_world s') (pl_key p) = Some (pl_files p)" "grows G (hs_world s) (hs_world s')"
  | (already) "r = Inr 0" "nothing_held s'" "g_mine G (hs_world s') = g_mine G (hs_world s)" "hs_info s' = None"
      "g_receipt G (hs_world s') (pl_key p) \<notin> {None, Some (pl_files p)}" "grows G (hs_world s) (hs_world s')"
  | (dropped) x where "r = Inl x" "nothing_held s'" "g_mine G (hs_world s') = g_mine G (hs_world s)" "hs_info s' = None"
      "g_receipt G (hs_world s') (pl_key p) \<noteq> Some (pl_files p)" "grows G (hs_world s) (hs_world s')"
      "judged x \<or> (\<exists>stop. x = SinkError stop \<and> stop_retryable stop)"
  | (kept) x where "r = Inl x" "\<not> judged x" "hs_prepared s' = Some p" "hs_rows s' = hs_rows s" "hs_offsets s' = hs_offsets s"
      "commits G p (hs_world s) (hs_world s')" "grows G (hs_world s) (hs_world s')"
proof -
  let ?s = "s\<lparr>hs_sends := Suc (hs_sends s)\<rparr>"
  obtain c w' where call: "c_commit C p (hs_table s) (hs_world s) = (c, w')"
    by fastforce
  then have law: "grows G (hs_world s) w'" "commits G p (hs_world s) w'"
      "c = Inr () \<Longrightarrow> g_receipt G w' (pl_key p) = Some (pl_files p)"
      "\<And>x. c = Inl x \<Longrightarrow> judged x \<Longrightarrow>
         g_mine G w' = g_mine G (hs_world s) \<and> g_receipt G w' (pl_key p) \<noteq> Some (pl_files p)"
      "\<And>e. c = Inl (HogE e) \<Longrightarrow> reused_key e \<Longrightarrow> g_receipt G w' (pl_key p) \<noteq> None"
    using assms(1) unfolding commit_law_def commits_def by blast+
  show ?thesis
  proof (cases c)
    case (Inr u)
    then have "r = Inr (int (hs_rows s)) \<and> nothing_held s' \<and> hs_world s' = w'"
      using assms(2,3) call by (auto simp: commit_prepared_def op_defs clear_effect nothing_held_def)
    then show ?thesis
      using law Inr by (intro published) auto
  next
    case (Inl x)
    then have run: "refused_commit p x (?s\<lparr>hs_world := w'\<rparr>) = (r, s')"
      using assms(2,3) call by (simp add: commit_prepared_def op_defs)
    show ?thesis
    proof (rule refused_effect[OF _ run])
      show "hs_prepared (?s\<lparr>hs_world := w'\<rparr>) = Some p"
        using assms(2) by simp
    next
      fix e
      assume "x = HogE e" "reused_key e" "r = Inr 0" "nothing_held s'" "hs_info s' = None"
        "hs_world s' = hs_world (?s\<lparr>hs_world := w'\<rparr>)"
      moreover from this have "judged x"
        by (simp add: judged_def)
      ultimately show ?thesis
        using law Inl by (intro already) auto
    next
      fix y
      assume "judged x" "r = Inl y" "nothing_held s'" "hs_info s' = None" "hs_world s' = hs_world (?s\<lparr>hs_world := w'\<rparr>)"
        "y = x \<or> (\<exists>stop. y = SinkError stop \<and> stop_retryable stop)"
      then show ?thesis
        using law Inl by (intro dropped[of y]) auto
    next
      assume "\<not> judged x" "r = Inl x" "hs_prepared s' = Some p" "hs_rows s' = hs_rows (?s\<lparr>hs_world := w'\<rparr>)"
        "hs_offsets s' = hs_offsets (?s\<lparr>hs_world := w'\<rparr>)" "hs_world s' = hs_world (?s\<lparr>hs_world := w'\<rparr>)"
      then show ?thesis
        using law Inl by (intro kept[of x]) auto
    qed
  qed
qed

subsection \<open>What an upload holds\<close>

definition kernel_law :: "hog_kernel \<Rightarrow> (string \<Rightarrow> int option \<Rightarrow> string \<Rightarrow> pyval \<Rightarrow> string option) \<Rightarrow> bool" where
  "kernel_law H g \<longleftrightarrow> pointwise H g \<and> (\<forall>sch t t'. cast_table H sch t = Inr t' \<longrightarrow> num_rows t' = num_rows t)"

definition rows_of :: "registration list \<Rightarrow> int" where
  "rows_of fs = sum_list (map (\<lambda>f. case rg_rows f of None \<Rightarrow> 0 | Some n \<Rightarrow> n) fs)"

lemma rows_of_groups:
  "map rg_rows fs = map (\<lambda>g. Some (int (num_rows (snd g)))) gs \<Longrightarrow>
   rows_of fs = int (sum_list (map (\<lambda>g. num_rows (snd g)) gs))"
proof (induction fs arbitrary: gs)
  case (Cons f fs)
  then show ?case
    by (cases gs) (auto simp: rows_of_def)
qed (simp add: rows_of_def)

lemma num_rows_append_nulls [simp]: "num_rows (append_typed n ty (replicate (num_rows t) v) t) = num_rows t"
  by (simp add: append_typed_def num_rows_def)

lemma num_rows_null_fill [simp]: "num_rows (null_fill_columns H lv t) = num_rows t"
  by (induction lv arbitrary: t) auto

lemma num_rows_select: "select_columns cols t = Inr t' \<Longrightarrow> num_rows t' = num_rows t"
  by (auto simp: select_columns_def num_rows_def split: if_splits)

lemma prepared_payload:
  assumes "server_law G C" "kernel_law (ev_kernel E) g" "prepare C E tbl b key F s = (Inr p, s')"
  shows "pl_key p = key" "pl_files p \<in> g_ours G (hs_world s')"
    "num_rows b \<noteq> 0 \<longrightarrow> (\<forall>k. (k, pl_files p) \<notin> set (g_mine G (hs_world s)))"
    "rows_of (pl_files p) = int (num_rows b)"
proof -
  obtain info s1 target aligned groups q w2 opts where info: "table_info C (ev_cfg E) tbl s = (Inr info, s1)"
    and parts: "and_then (select_columns (map fst target) (null_fill_columns (ev_kernel E) (hs_live s1) b))
         (cast_table (ev_kernel E) target) = Inr aligned"
      "partition_groups (ev_kernel E) aligned info = Inr groups"
      "c_prepare C tbl groups key (hs_uuid s1) opts (hs_world s1) = (Inr q, w2)"
      "pl_key p = pl_key q" "pl_files p = pl_files q" "hs_world s' = w2"
    using assms(3) by (rule prepare_inverts)
  have "holds_same G s s1"
    using framed_run[OF held_table_info[OF assms(1)] info] .
  then have mine: "g_mine G (hs_world s1) = g_mine G (hs_world s)"
    by (simp add: holds_same_def quiet_def)
  have "num_rows aligned = num_rows b"
    using parts(1) assms(2) num_rows_select by (fastforce simp: and_then_Inr kernel_law_def)
  moreover have q: "pl_key q = key" "pl_files q \<in> g_ours G w2"
      "groups \<noteq> [] \<longrightarrow> (\<forall>k. (k, pl_files q) \<notin> set (g_mine G (hs_world s1)))"
      "map rg_rows (pl_files q) = map (\<lambda>g. Some (int (num_rows (snd g)))) groups"
    using assms(1) parts(3) unfolding server_law_def prepare_law_def by blast+
  moreover have "sum_list (map (\<lambda>x. num_rows (snd x)) groups) = num_rows aligned"
    using partition_groups_rows[OF _ parts(2), of g] assms(2) by (simp add: kernel_law_def)
  moreover from this have "groups \<noteq> []" if "num_rows aligned \<noteq> 0"
    using that by auto
  ultimately show "pl_key p = key" "pl_files p \<in> g_ours G (hs_world s')"
      "num_rows b \<noteq> 0 \<longrightarrow> (\<forall>k. (k, pl_files p) \<notin> set (g_mine G (hs_world s)))" "rows_of (pl_files p) = int (num_rows b)"
    using parts mine rows_of_groups[OF q(4)] by auto
qed

lemma length_map_result: "map_result f xs = Inr ys \<Longrightarrow> length ys = length xs"
  by (induction xs arbitrary: ys) (auto simp: and_then_Inr)

lemma num_rows_replace: "length vs = num_rows t \<Longrightarrow> num_rows (replace_column n ty vs t) = num_rows t"
  by (simp add: replace_column_def set_column_def num_rows_def)

lemma rewrite_column_rows: "rewrite_column b n want = Inr (b', ms) \<Longrightarrow> num_rows b' = num_rows b"
  by (auto simp: rewrite_column_def and_then_Inr Let_def num_rows_replace dest: length_map_result split: if_splits)

lemma rewrite_columns_rows: "rewrite_columns rs b s = (Inr b', s') \<Longrightarrow> num_rows b' = num_rows b"
proof (induction rs b arbitrary: s rule: rewrite_columns.induct)
  case (2 n want rs batch)
  then obtain b1 ms t where "rewrite_column batch n want = Inr (b1, ms)" "rewrite_columns rs b1 t = (Inr b', s')"
    by (auto simp: run_inverts h_emit_def)
  then show ?case
    using 2(1) rewrite_column_rows by fastforce
qed (simp add: run_inverts)

lemma evolve_rows: "evolve_and_align C E tbl b s = (Inr b', s') \<Longrightarrow> num_rows b' = num_rows b"
  unfolding evolve_and_align_def null_fill_missing_def run_inverts
  by (auto simp: run_inverts dest!: rewrite_columns_rows split: if_splits)

lemma num_rows_stamped [simp]: "num_rows (stamp_inserted_at now b) = num_rows b"
  by (simp add: stamp_inserted_at_def)

lemma once_more_payload:
  assumes "server_law G C" "kernel_law (ev_kernel E) g" "prepare_once_more C E tbl b key F s = (Inr p, s')"
  shows "pl_key p = key \<and> pl_files p \<in> g_ours G (hs_world s')
    \<and> (num_rows b \<noteq> 0 \<longrightarrow> (\<forall>k. (k, pl_files p) \<notin> set (g_mine G (hs_world s))))
    \<and> rows_of (pl_files p) = int (num_rows b)"
proof (cases "prepare C E tbl b key F s")
  case (Pair r s1)
  show ?thesis
  proof (cases r)
    case (Inr q)
    then show ?thesis
      using prepared_payload[OF assms(1,2), of tbl b key F s q s1] assms(3) Pair
      by (simp add: prepare_once_more_def h_catch_def)
  next
    case (Inl x)
    have "holds_same G s s1"
      using framed_run[OF held_prepare[OF assms(1)] Pair] .
    obtain b' s2 where again: "prepare C E tbl b' key F s2 = (Inr p, s')" "num_rows b' = num_rows b" "holds_same G s1 s2"
    proof -
      let ?refresh = "h_bind (h_call (c_info C tbl)) (\<lambda>info. h_bind (adopt_info C info) (\<lambda>_. null_fill_missing E b))"
      have "framed (holds_same G) ?refresh"
        using held_refresh[OF assms(1)] unfolding null_fill_missing_def .
      moreover obtain b' s2 where "?refresh s1 = (Inr b', s2)" "prepare C E tbl b' key F s2 = (Inr p, s')"
        using assms(3) Pair Inl
        by (auto simp: prepare_once_more_def h_catch_def run_inverts split: hexc.splits if_splits)
      moreover from this(1) have "num_rows b' = num_rows b"
        by (auto simp: run_inverts null_fill_missing_def)
      ultimately show ?thesis
        using framed_run that by metis
    qed
    then have "g_mine G (hs_world s2) = g_mine G (hs_world s)"
      using \<open>holds_same G s s1\<close> by (simp add: holds_same_def quiet_def)
    then show ?thesis
      using prepared_payload[OF assms(1,2) again(1)] again(2) by simp
  qed
qed

lemma flush_payload:
  assumes "server_law G C" "kernel_law (ev_kernel E) g"
    and "prepare_flush C E batch (Some offs) bytes trigger s = (Inr (p, rows), s')"
  shows "rows = num_rows batch \<and> (\<exists>u. pl_key p = flush_key (ev_uuid5 E) [] (ev_cfg E) u offs)
    \<and> pl_files p \<in> g_ours G (hs_world s')
    \<and> (rows \<noteq> 0 \<longrightarrow> (\<forall>k. (k, pl_files p) \<notin> set (g_mine G (hs_world s))))
    \<and> rows_of (pl_files p) = int rows"
proof -
  let ?key = "\<lambda>s. flush_key (ev_uuid5 E) [] (ev_cfg E) (hs_uuid s) offs"
  obtain now t0 tbl t1 b t2 F where steps: "h_draw (c_now C) s = (Inr now, t0)"
      "hog_ensure_table C (ev_cfg E) (tschema (stamp_inserted_at now batch)) t0 = (Inr tbl, t1)"
      "evolve_and_align C E tbl (stamp_inserted_at now batch) t1 = (Inr b, t2)"
      "prepare_once_more C E tbl b (?key t1) F t2 = (Inr p, s')" "rows = num_rows b"
    using assms(3) unfolding prepare_flush_def Let_def option.case bind_Inr gets_Inr ret_Inr by blast
  have "holds_same G s t0" "holds_same G t0 t1" "holds_same G t1 t2"
    using steps(1-3) framed_run held_now held_ensure_table held_evolve assms(1) by metis+
  then have "g_mine G (hs_world t2) = g_mine G (hs_world s)"
    by (simp add: holds_same_def quiet_def)
  then show ?thesis
    using once_more_payload[OF assms(1,2) steps(4)] evolve_rows[OF steps(3)] steps(5) by auto
qed

subsection \<open>A flush is published once\<close>

text \<open>The publications of this client since \<open>M\<close> while it flushes \<open>n\<close> rows under the offsets \<open>offs\<close>.\<close>

definition payload_of :: "hog_env \<Rightarrow> kafka_range list \<Rightarrow> nat \<Rightarrow> payload \<Rightarrow> bool" where
  "payload_of E offs n p \<longleftrightarrow> rows_of (pl_files p) = int n
     \<and> (\<exists>u. pl_key p = flush_key (ev_uuid5 E) [] (ev_cfg E) u offs)"

definition holding :: "kafka_range list \<Rightarrow> 'w hs \<Rightarrow> bool" where
  "holding offs s \<longleftrightarrow> hs_prepared s \<noteq> None \<and> hs_offsets s = Some offs"

definition published_at_most ::
  "'w ghost \<Rightarrow> payload \<Rightarrow> (string \<times> registration list) list \<Rightarrow> 'w \<Rightarrow> bool" where
  "published_at_most G p M w \<longleftrightarrow> g_mine G w = M
     \<or> g_mine G w = M @ [(pl_key p, pl_files p)] \<and> g_receipt G w (pl_key p) = Some (pl_files p)"

definition one_flush ::
  "'w ghost \<Rightarrow> hog_env \<Rightarrow> kafka_range list \<Rightarrow> nat \<Rightarrow> (string \<times> registration list) list \<Rightarrow> 'w hs \<Rightarrow> bool" where
  "one_flush G E offs n M s \<longleftrightarrow> honest G (hs_world s)
     \<and> (\<not> holding offs s \<longrightarrow> g_mine G (hs_world s) = M)
     \<and> (\<forall>p. hs_prepared s = Some p \<longrightarrow> hs_offsets s = Some offs \<longrightarrow>
          hs_rows s = n \<and> payload_of E offs n p \<and> pl_files p \<in> g_ours G (hs_world s)
          \<and> (\<forall>k. (k, pl_files p) \<notin> set M) \<and> published_at_most G p M (hs_world s))"

text \<open>What a returning \<open>write\<close> has established.\<close>

definition flush_done ::
  "'w ghost \<Rightarrow> hog_env \<Rightarrow> kafka_range list \<Rightarrow> nat \<Rightarrow> (string \<times> registration list) list \<Rightarrow> int \<Rightarrow> 'w \<Rightarrow> bool" where
  "flush_done G E offs n M r w \<longleftrightarrow>
     r = 0 \<and> g_mine G w = M \<and> (\<exists>u. g_receipt G w (flush_key (ev_uuid5 E) [] (ev_cfg E) u offs) \<noteq> None)
   \<or> r = int n \<and> (\<exists>u fs. let k = flush_key (ev_uuid5 E) [] (ev_cfg E) u offs in
        g_mine G w = M @ [(k, fs)] \<and> g_receipt G w k = Some fs \<and> rows_of fs = r)"

lemma commit_one_flush:
  assumes "commit_law G C" "one_flush G E offs n M s" "holding offs s" "commit_prepared C s = (r, s')"
  shows "case r of Inl x \<Rightarrow> one_flush G E offs n M s' | Inr m \<Rightarrow> flush_done G E offs n M m (hs_world s')"
proof -
  obtain p where p: "hs_prepared s = Some p" "hs_offsets s = Some offs" "hs_rows s = n"
      "payload_of E offs n p" "pl_files p \<in> g_ours G (hs_world s)" "\<forall>k. (k, pl_files p) \<notin> set M"
      "published_at_most G p M (hs_world s)" "honest G (hs_world s)"
    using assms(2,3) by (auto simp: one_flush_def holding_def)
  obtain u where u: "pl_key p = flush_key (ev_uuid5 E) [] (ev_cfg E) u offs"
    using p(4) by (auto simp: payload_of_def)
  have receipt: "g_receipt G w' (pl_key p) = Some (pl_files p)"
    if "g_mine G (hs_world s) \<noteq> M" "grows G (hs_world s) w'" for w'
    using p(7) that by (auto simp: published_at_most_def grows_def)
  from assms(1) p(1) assms(4) show ?thesis
  proof (cases rule: commit_outcome)
    case published
    let ?w = "hs_world s'"
    have "honest G ?w" "pl_files p \<in> g_ours G ?w"
      using published(5) p(5,8) by (auto simp: grows_def)
    then have "(pl_key p, pl_files p) \<in> set (g_mine G ?w)"
      using published(4) by (simp add: honest_def)
    then have "g_mine G ?w = M @ [(pl_key p, pl_files p)]"
      using published(3) p(6,7) by (auto simp: commits_def published_at_most_def)
    then have "flush_done G E offs n M (int n) ?w"
      using published(4) p(4) u unfolding flush_done_def Let_def payload_of_def by auto
    then show ?thesis
      using published(1) p(3) by simp
  next
    case already
    then show ?thesis
      using receipt u by (auto simp: flush_done_def)
  next
    case (dropped x)
    then have "honest G (hs_world s')" "g_mine G (hs_world s') = M"
      using p(8) receipt by (auto simp: grows_def)
    then show ?thesis
      using dropped(1,2) by (simp add: one_flush_def nothing_held_def)
  next
    case (kept x)
    have "published_at_most G p M (hs_world s')"
      using kept(6,7) p(7) receipt by (auto simp: published_at_most_def commits_def grows_def)
    moreover have "honest G (hs_world s')" "pl_files p \<in> g_ours G (hs_world s')"
      using kept(7) p(5,8) by (auto simp: grows_def)
    ultimately show ?thesis
      using kept p by (simp add: one_flush_def holding_def)
  qed
qed

lemma fresh_one_flush:
  assumes "server_law G C" "kernel_law (ev_kernel E) g" "one_flush G E offs (num_rows batch) M s" "\<not> holding offs s"
    and "num_rows batch \<noteq> 0" "fresh_flush C E batch (Some offs) bytes trigger s = (r, s')"
  shows "case r of Inl x \<Rightarrow> one_flush G E offs (num_rows batch) M s'
    | Inr m \<Rightarrow> flush_done G E offs (num_rows batch) M m (hs_world s')"
proof -
  define s1 where "s1 = snd (discard_prepared ''superseded'' s)"
  have s1: "discard_prepared ''superseded'' s = (Inr (), s1)" "hs_prepared s1 = None" "hs_world s1 = hs_world s"
    by (auto simp: s1_def discard_effect split: option.split)
  have M: "g_mine G (hs_world s1) = M" "honest G (hs_world s1)"
    using assms(3,4) s1(3) by (auto simp: one_flush_def)
  obtain q s2 where q: "prepare_flush C E batch (Some offs) bytes trigger s1 = (q, s2)"
    by fastforce
  then have "holds_same G s1 s2"
    using framed_run[OF held_prepare_flush[OF assms(1)]] by blast
  then have s2: "g_mine G (hs_world s2) = M" "honest G (hs_world s2)" "hs_prepared s2 = None"
    using M s1(2) by (auto simp: holds_same_def quiet_def grows_def)
  show ?thesis
  proof (cases q)
    case (Inl x)
    then have "r = Inl x" "s' = s2"
      using assms(6) s1(1) q by (auto simp: fresh_flush_def h_bind_def)
    then show ?thesis
      using s2 by (simp add: one_flush_def)
  next
    case (Inr pr)
    obtain p rows where pr: "pr = (p, rows)"
      by (cases pr)
    let ?s3 = "s2\<lparr>hs_prepared := Some p, hs_rows := rows, hs_offsets := Some offs, hs_sends := 0\<rparr>"
    have "commit_prepared C ?s3 = (r, s')"
      using assms(6) s1(1) q Inr pr by (simp add: fresh_flush_def h_bind_def h_mod_def)
    moreover have "one_flush G E offs (num_rows batch) M ?s3"
      using flush_payload[OF assms(1,2), of batch offs bytes trigger s1 p rows s2] q Inr pr s2 M assms(5)
      by (simp add: one_flush_def holding_def payload_of_def published_at_most_def)
    moreover have "holding offs ?s3"
      by (simp add: holding_def)
    ultimately show ?thesis
      using commit_one_flush assms(1) unfolding server_law_def by blast
  qed
qed

text \<open>A batch that \<open>write\<close> drops without preparing anything.\<close>

definition skipped :: "table \<Rightarrow> bool" where
  "skipped batch \<longleftrightarrow> num_rows batch = 0
     \<or> names batch \<noteq> [] \<and> names (fst (drop_unwritable_columns batch)) = []"

lemma unwritable_rows [simp]: "num_rows (fst (drop_unwritable_columns batch)) = num_rows batch"
  by (simp add: drop_unwritable_columns_def num_rows_drop Let_def)

lemma one_flush_same:
  assumes "one_flush G E offs n M s" "holds_same G s s'"
  shows "one_flush G E offs n M s'"
  using assms by (auto simp: one_flush_def holds_same_def quiet_def grows_def holding_def published_at_most_def)

lemma holding_same: "holds_same G s s' \<Longrightarrow> holding offs s' \<longleftrightarrow> holding offs s"
  by (simp add: holds_same_def holding_def)

text \<open>The emissions before the flush change nothing of what is held.\<close>

lemma write_cases:
  assumes "hog_write C E batch (Some offs) trigger s = (r, s')" "offs \<noteq> []"
  obtains (collision) x where "r = Inl x" "s' = s"
  | (skip) "skipped batch" "r = Inr 0" "holds_same G s s'"
  | (replay) s1 where "holds_same G s s1" "holding offs s1" "\<not> skipped batch" "commit_prepared C s1 = (r, s')"
  | (fresh) s1 where "holds_same G s s1" "\<not> holding offs s1" "\<not> skipped batch"
      "fresh_flush C E (fst (drop_unwritable_columns batch)) (Some offs) (nbytes (ev_arrow E) batch) trigger s1 = (r, s')"
proof (cases "reserved_collision (tschema batch)")
  case (Inl x)
  then show ?thesis
    using assms(1) collision[of x] by (simp add: hog_write_def op_defs)
next
  case (Inr u)
  obtain b ms where b: "drop_unwritable_columns batch = (b, ms)"
    by fastforce
  define s1 where "s1 = s\<lparr>hs_out := hs_out s @ map HMetric ms\<rparr>"
  have s1: "holds_same G s s1"
    by (simp add: s1_def holds_same_def quiet_refl)
  note run = assms(1)[unfolded hog_write_def b Let_def]
  show ?thesis
  proof (cases "skipped batch")
    case True
    then have "r = Inr 0 \<and> holds_same G s1 s'"
      using run Inr b unwritable_rows[of batch]
      by (auto simp: op_defs s1_def skipped_def holds_same_def quiet_refl split: if_splits)
    then show ?thesis
      using skip True s1 same_trans by blast
  next
    case False
    then have "(if holding offs s1 then commit_prepared C s1
        else fresh_flush C E b (Some offs) (nbytes (ev_arrow E) batch) trigger s1) = (r, s')"
      using run Inr b assms(2) unwritable_rows[of batch]
      by (auto simp: op_defs s1_def skipped_def holding_def split: if_splits)
    then show ?thesis
      using replay[OF s1] fresh[OF s1] b False by (auto split: if_splits)
  qed
qed

text \<open>A held payload of these offsets is sent again.\<close>

lemma replay_write:
  assumes "holding offs s" "hs_prepared s = Some p" "offs \<noteq> []" "\<not> skipped batch"
    and "reserved_collision (tschema batch) = Inr ()"
  shows "\<exists>t. hog_write C E batch (Some offs) trigger s = commit_prepared C t
    \<and> hs_prepared t = Some p \<and> hs_rows t = hs_rows s \<and> hs_world t = hs_world s"
proof -
  obtain b ms where b: "drop_unwritable_columns batch = (b, ms)"
    by fastforce
  have "num_rows b = num_rows batch"
    using unwritable_rows[of batch] b by simp
  then have "hog_write C E batch (Some offs) trigger s = commit_prepared C (s\<lparr>hs_out := hs_out s @ map HMetric ms\<rparr>)"
    using assms b by (auto simp: hog_write_def op_defs skipped_def holding_def Let_def)
  then show ?thesis
    using assms(2) by fastforce
qed

text \<open>What one \<open>write\<close> leaves: its flush is done, or skipped, or still published at most once.\<close>

definition write_outcome :: "'w ghost \<Rightarrow> hog_env \<Rightarrow> kafka_range list \<Rightarrow> table \<Rightarrow> (string \<times> registration list) list
     \<Rightarrow> int \<Rightarrow> 'w \<Rightarrow> bool" where
  "write_outcome G E offs batch M r w \<longleftrightarrow> (if skipped batch then r = 0 \<and> g_mine G w = M
     else flush_done G E offs (num_rows batch) M r w)"

definition flushing ::
  "'w ghost \<Rightarrow> hog_env \<Rightarrow> kafka_range list \<Rightarrow> table \<Rightarrow> (string \<times> registration list) list \<Rightarrow> 'w hs \<Rightarrow> bool" where
  "flushing G E offs batch M s \<longleftrightarrow> one_flush G E offs (num_rows batch) M s \<and> (skipped batch \<longrightarrow> \<not> holding offs s)"

lemma flushing_same: "flushing G E offs batch M s \<Longrightarrow> holds_same G s s' \<Longrightarrow> flushing G E offs batch M s'"
  by (auto simp: flushing_def holding_same dest: one_flush_same)

lemma write_one_flush:
  assumes "server_law G C" "kernel_law (ev_kernel E) g" "offs \<noteq> []" "flushing G E offs batch M s"
    and "hog_write C E batch (Some offs) trigger s = (r, s')"
  shows "case r of Inl x \<Rightarrow> flushing G E offs batch M s' | Inr m \<Rightarrow> write_outcome G E offs batch M m (hs_world s')"
  using assms(5,3)
proof (cases rule: write_cases[where G = G])
  case skip
  then have "flushing G E offs batch M s'"
    using flushing_same assms(4) by blast
  then show ?thesis
    using skip by (simp add: write_outcome_def flushing_def one_flush_def)
next
  case (replay s1)
  then have "one_flush G E offs (num_rows batch) M s1"
    using assms(4) one_flush_same by (auto simp: flushing_def)
  then show ?thesis
    using commit_one_flush[OF _ _ replay(2,4), of G E "num_rows batch" M] assms(1) replay(3)
    by (cases r) (simp_all add: server_law_def write_outcome_def flushing_def)
next
  case (fresh s1)
  then have "one_flush G E offs (num_rows batch) M s1"
    using assms(4) one_flush_same by (auto simp: flushing_def)
  moreover have rows: "num_rows batch \<noteq> 0"
    using fresh(3) by (simp add: skipped_def)
  ultimately show ?thesis
    using fresh_one_flush[OF assms(1,2) _ fresh(2) _ fresh(4)] fresh(3) rows
    by (cases r) (simp_all add: write_outcome_def flushing_def)
qed (use assms(4) in simp)

subsection \<open>After a refusal\<close>

text \<open>The files of the payload are counted as orphans, and named.\<close>

definition orphaned :: "string \<Rightarrow> payload \<Rightarrow> hog_event list \<Rightarrow> bool" where
  "orphaned reason p evs \<longleftrightarrow> set (count_orphans (int (length (pl_files p))) (map rg_path (pl_files p)) reason) \<subseteq> set evs"

lemma refused_accounts:
  assumes "hs_prepared s = Some p" "refused_commit p x s = (r, s')" "judged x"
  shows "nothing_held s' \<and> hs_info s' = None \<and> hs_reconciled s' = None \<and> hs_world s' = hs_world s
    \<and> (\<exists>reason. orphaned reason p (hs_out s'))
    \<and> (case r of Inr n \<Rightarrow> n = 0 \<and> (\<exists>e. x = HogE e \<and> reused_key e)
       | Inl y \<Rightarrow> y = x \<and> is_answered_refusal x \<or> (\<exists>stop. y = SinkError stop \<and> stop_retryable stop))"
proof -
  let ?s = "s\<lparr>hs_info := None, hs_read_at := None, hs_reconciled := None\<rparr>"
  obtain e where e: "x = HogE e"
    using assms(3) by (cases x) (auto simp: judged_def is_answered_refusal_def)
  show ?thesis
  proof (cases "reused_key e")
    case True
    then show ?thesis
      using assms(1,2) e
      by (auto simp: refused_commit_def accept_already_published_def op_defs drop_shape_effect clear_effect nothing_held_def
          orphaned_def)
  next
    case not_reused: False
    show ?thesis
    proof (cases "he_class e \<in> set DESTINATION_MOVED")
      case True
      have "destination_moved e ?s = (r, s')"
        using assms(2) e not_reused True by (simp add: refused_commit_def op_defs drop_shape_effect)
      then show ?thesis
        using assms(1)
        by (auto simp: destination_moved_def discard_effect op_defs reset_effect drop_shape_effect nothing_held_def
            orphaned_def split: if_splits)
    next
      case False
      then have "is_answered_refusal x"
        using assms(3) e not_reused by (simp add: judged_def)
      then show ?thesis
        using assms(1,2) e not_reused False
        by (auto simp: refused_commit_def op_defs drop_shape_effect discard_effect nothing_held_def orphaned_def)
    qed
  qed
qed

lemma refused_keeps:
  assumes "hs_prepared s = Some p" "refused_commit p x s = (r, s')" "\<not> judged x"
  shows "r = Inl x \<and> hs_prepared s' = Some p \<and> hs_rows s' = hs_rows s \<and> hs_offsets s' = hs_offsets s
    \<and> hs_out s' = hs_out s \<and> hs_world s' = hs_world s"
  using assms
  by (cases x) (auto simp: refused_commit_def judged_def op_defs drop_shape_effect is_answered_refusal_def split: if_splits)

lemma commit_refused:
  assumes "hs_prepared s = Some p" "c_commit C p (hs_table s) (hs_world s) = (Inl x, w')" "commit_prepared C s = (r, s')"
  shows "refused_commit p x (s\<lparr>hs_sends := Suc (hs_sends s), hs_world := w'\<rparr>) = (r, s')"
  using assms by (simp add: commit_prepared_def op_defs)

text \<open>
  C11: what a refused commit leaves. When the server judged the request (a 409, a 410 or a 422, a moved
  destination, a reused key), nothing is held, the cached shape and its verdict are gone, every uploaded
  file is counted as an orphan and named, and the call returns 0 exactly for a reused key and otherwise
  raises the refusal itself or a stop the retry loop may retry. When the outcome is uncertain, the
  exception is raised unchanged, nothing is reported as an orphan, and the next write of the same
  offsets sends the same payload again, whatever was reset in between.
\<close>

theorem refused_commit_settles:
  assumes "hs_prepared s = Some p" "c_commit C p (hs_table s) (hs_world s) = (Inl x, w')" "commit_prepared C s = (r, s')"
  shows "if judged x then
      nothing_held s' \<and> hs_info s' = None \<and> hs_reconciled s' = None \<and> (\<exists>reason. orphaned reason p (hs_out s'))
      \<and> (case r of Inr n \<Rightarrow> n = 0 \<and> (\<exists>e. x = HogE e \<and> reused_key e)
         | Inl y \<Rightarrow> y = x \<and> is_answered_refusal x \<or> (\<exists>stop. y = SinkError stop \<and> stop_retryable stop))
    else r = Inl x \<and> hs_prepared s' = Some p \<and> hs_rows s' = hs_rows s \<and> hs_out s' = hs_out s
      \<and> (\<forall>offs batch trigger. hs_offsets s = Some offs \<longrightarrow> offs \<noteq> [] \<longrightarrow> \<not> skipped batch \<longrightarrow>
           reserved_collision (tschema batch) = Inr () \<longrightarrow>
           (\<exists>t. hog_write C E batch (Some offs) trigger (snd (hog_reset_caches s')) = commit_prepared C t
             \<and> hs_prepared t = Some p \<and> hs_rows t = hs_rows s \<and> hs_world t = w'))"
proof (cases "judged x")
  case True
  then show ?thesis
    using refused_accounts[OF _ commit_refused[OF assms]] assms(1) by simp
next
  case False
  have kept: "r = Inl x \<and> hs_prepared s' = Some p \<and> hs_rows s' = hs_rows s \<and> hs_offsets s' = hs_offsets s
      \<and> hs_out s' = hs_out s \<and> hs_world s' = w'"
    using refused_keeps[OF _ commit_refused[OF assms] False] assms(1) by simp
  have "\<exists>t. hog_write C E batch (Some offs) trigger (snd (hog_reset_caches s')) = commit_prepared C t
      \<and> hs_prepared t = Some p \<and> hs_rows t = hs_rows s \<and> hs_world t = w'"
    if "hs_offsets s = Some offs" "offs \<noteq> []" "\<not> skipped batch" "reserved_collision (tschema batch) = Inr ()"
    for offs batch trigger
    using kept that replay_write[of offs "snd (hog_reset_caches s')" p batch C E trigger]
    by (auto simp: reset_effect holding_def)
  then show ?thesis
    using False kept by simp
qed

text \<open>
  C12: closing the sink may name live files. When the answer to a commit was lost but the commit was
  applied, a shutdown before the replay reports the files that the receipt registers as orphans to be
  deleted.
\<close>

theorem close_names_published_files:
  assumes "hs_prepared s = Some p" "pl_files p \<noteq> []" "\<not> judged x"
    and "c_commit C p (hs_table s) (hs_world s) = (Inl x, w')" "commit_prepared C s = (r, s')"
    and "g_receipt G w' (pl_key p) = Some (pl_files p)"
  defines "final \<equiv> snd (hog_close s')"
  shows "g_receipt G (hs_world final) (pl_key p) = Some (pl_files p)
    \<and> HOrphans ''shutdown'' (int (length (pl_files p))) (take ORPHAN_URIS_LOGGED (map rg_path (pl_files p)))
        \<in> set (hs_out final)"
proof -
  have "hs_prepared s' = Some p" "hs_world s' = w'"
    using refused_keeps[OF _ commit_refused[OF assms(1,4,5)] assms(3)] assms(1) by simp_all
  then show ?thesis
    using assms(2,6) by (simp add: final_def hog_close_def discard_effect count_orphans_def)
qed

subsection \<open>An example client\<close>

text \<open>
  The world is the number of answers that will still be lost, and what is published. A lost answer is a
  transport error after the commit was applied.
\<close>

type_synonym demo_world = "nat \<times> (string \<times> registration list) list"

definition demo_table_info :: tinfo where
  "demo_table_info = \<lparr>ti_columns = [\<lparr>hc_name = ''team_id'', hc_field_id = 1, hc_type = ''long''\<rparr>,
       \<lparr>hc_name = INSERTED_AT, hc_field_id = 2, hc_type = ''timestamptz''\<rparr>],
     ti_partition = Some [(1, ''identity'', None)], ti_sort = None\<rparr>"

definition unused_path :: "(string \<times> registration list) list \<Rightarrow> string" where
  "unused_path pub = replicate (Suc (sum_list (map (\<lambda>(k, fs). sum_list (map (\<lambda>f. length (rg_path f)) fs)) pub))) (CHR ''f'')"

definition demo_prepare :: "nat \<Rightarrow> (string option list option \<times> table) list \<Rightarrow> string \<Rightarrow> string option \<Rightarrow> encode_options
    \<Rightarrow> demo_world \<Rightarrow> (hexc \<times> int \<times> string list + payload) \<times> demo_world" where
  "demo_prepare h groups key uuid opts w = (Inr \<lparr>pl_key = key, pl_uuid = uuid,
     pl_files = map (\<lambda>g. \<lparr>rg_path = unused_path (snd w), rg_rows = Some (int (num_rows (snd g)))\<rparr>) groups,
     pl_groups = groups, pl_author = [], pl_message = []\<rparr>, w)"

definition demo_commit_call :: "payload \<Rightarrow> nat option \<Rightarrow> demo_world \<Rightarrow> (hexc + unit) \<times> demo_world" where
  "demo_commit_call p tbl w =
     (case map_of (snd w) (pl_key p) of
        None \<Rightarrow> (if fst w = 0 then Inr () else Inl HttpError, fst w - 1, snd w @ [(pl_key p, pl_files p)])
      | Some fs \<Rightarrow> (if fs = pl_files p then Inr () else
          Inl (HogE \<lparr>he_class = ValidationError, he_status = Some 422, he_message = REUSED_KEY_MARKER,
            he_detail = None, he_text = REUSED_KEY_MARKER\<rparr>), w))"

definition demo_hog_client :: "demo_world hog_client" where
  "demo_hog_client = \<lparr>c_catalog = (\<lambda>n w. (Inr ''s3://b/'', w)), c_create_catalog = (\<lambda>n d a m w. (Inr ''s3://b/'', w)),
     c_probe = Some (\<lambda>u w. (None, w)), c_namespace = (\<lambda>n w. (Inr (), w)),
     c_create_namespace = (\<lambda>n a m w. (Inr (), w)), c_table = (\<lambda>n t w. (Inr 0, w)),
     c_create_table = (\<lambda>n t sch a m w. (Inr 0, w)), c_columns = (\<lambda>h w. ti_columns demo_table_info),
     c_table_uuid = (\<lambda>h w. Some ''u''), c_info = (\<lambda>h w. (Inr demo_table_info, w)),
     c_alter = (\<lambda>h ops a m w. (Inr demo_table_info, w)), c_prepare = demo_prepare, c_commit = demo_commit_call,
     c_retention = None, c_monotonic = (\<lambda>w. (0, w)), c_now = (\<lambda>w. (PStr ''t'', w)), c_uuid4 = (\<lambda>w. (''r'', w))\<rparr>"

definition demo_ghost :: "demo_world ghost" where
  "demo_ghost = \<lparr>g_mine = snd, g_receipt = (\<lambda>w. map_of (snd w)), g_ours = (\<lambda>w. UNIV)\<rparr>"

lemma demo_honest: "honest demo_ghost w"
  by (auto simp: honest_def demo_ghost_def dest: map_of_SomeD)

lemma unused_path_unused: "(k, fs) \<in> set pub \<Longrightarrow> f \<in> set fs \<Longrightarrow> rg_path f \<noteq> unused_path pub"
proof -
  assume a: "(k, fs) \<in> set pub" "f \<in> set fs"
  have member: "x \<le> sum_list xs" if "x \<in> set xs" for x :: nat and xs
    using that by (induction xs) auto
  have "length (rg_path f) \<le> sum_list (map (\<lambda>f. length (rg_path f)) fs)"
    using a(2) by (intro member) auto
  also have "\<dots> \<le> sum_list (map (\<lambda>(k, fs). sum_list (map (\<lambda>f. length (rg_path f)) fs)) pub)"
    using a(1) by (intro member) force
  finally have "length (rg_path f) < length (unused_path pub)"
    by (simp add: unused_path_def)
  then show ?thesis
    by auto
qed

lemma demo_server: "server_law demo_ghost demo_hog_client"
proof -
  have grows: "grows demo_ghost w w'" if "\<And>k fs. map_of (snd w) k = Some fs \<Longrightarrow> map_of (snd w') k = Some fs" for w w'
    using that by (simp add: grows_def demo_honest) (simp add: demo_ghost_def)
  have "commit_law demo_ghost demo_hog_client"
    unfolding commit_law_def
  proof (intro allI impI)
    fix p tbl w r w'
    assume "c_commit demo_hog_client p tbl w = (r, w')"
    then have call: "demo_commit_call p tbl w = (r, w')"
      by (simp add: demo_hog_client_def)
    show "grows demo_ghost w w' \<and>
      (g_mine demo_ghost w' = g_mine demo_ghost w
       \<or> g_mine demo_ghost w' = g_mine demo_ghost w @ [(pl_key p, pl_files p)] \<and> g_receipt demo_ghost w (pl_key p) = None
         \<and> g_receipt demo_ghost w' (pl_key p) = Some (pl_files p)) \<and>
      (r = Inr () \<longrightarrow> g_receipt demo_ghost w' (pl_key p) = Some (pl_files p)) \<and>
      (\<forall>x. r = Inl x \<longrightarrow> judged x \<longrightarrow>
         g_mine demo_ghost w' = g_mine demo_ghost w \<and> g_receipt demo_ghost w' (pl_key p) \<noteq> Some (pl_files p)) \<and>
      (\<forall>e. r = Inl (HogE e) \<longrightarrow> reused_key e \<longrightarrow> g_receipt demo_ghost w' (pl_key p) \<noteq> None)"
      using call
      by (intro conjI grows)
        (auto simp: demo_commit_call_def demo_ghost_def map_add_def judged_def is_answered_refusal_def
          split: option.splits if_splits)
  qed
  moreover have "prepare_law demo_ghost demo_hog_client"
  proof -
    have "unused_path pub = rg_path f \<longrightarrow> (k, f # fs) \<notin> set pub" for pub k f fs
      using unused_path_unused[of k "f # fs" pub f] by auto
    then show ?thesis
      unfolding prepare_law_def demo_hog_client_def
      by (auto simp: demo_prepare_def demo_ghost_def quiet_refl neq_Nil_conv)
  qed
  moreover have "quiet_law demo_ghost demo_hog_client"
    by (auto simp: quiet_law_def quiet_refl demo_hog_client_def demo_prepare_def elim: client_step.cases)
  ultimately show ?thesis
    by (simp add: server_law_def)
qed

definition demo_hog_cfg :: config where
  "demo_hog_cfg = demo_cfg\<lparr>destination := ''hoglake'', hoglake_namespace := Some ''n'', hoglake_table := Some ''t'',
     hoglake_partition_by := Some [(''team_id'', ''identity'', None)], hoglake_max_retry_count := Some 5,
     hoglake_request_timeout_s := Some 10\<rparr>"

definition demo_env :: hog_env where
  "demo_env = \<lparr>ev_cfg = demo_hog_cfg, ev_kernel = demo_kernel, ev_arrow = demo_arrow, ev_uuid5 = (\<lambda>s. s)\<rparr>"

lemma demo_kernel_law: "kernel_law demo_kernel demo_transform"
proof -
  have "cast_table demo_kernel sch t = Inr (t\<lparr>tschema := sch\<rparr>)" for sch t
    by (simp add: demo_kernel_def)
  then show ?thesis
    by (auto simp: kernel_law_def demo_pointwise num_rows_def)
qed

lemma demo_env_simps [simp]:
  "ev_cfg demo_env = demo_hog_cfg" "ev_kernel demo_env = demo_kernel" "ev_arrow demo_env = demo_arrow"
  "destination demo_hog_cfg = ''hoglake''" "sort_by demo_hog_cfg = None"
  "hoglake_partition_by demo_hog_cfg = Some [(''team_id'', ''identity'', None)]"
  by (simp_all add: demo_env_def demo_hog_cfg_def demo_cfg_def)

lemma demo_hog_client_simps [simp]:
  "c_namespace demo_hog_client n w = (Inr (), w)" "c_table demo_hog_client n t w = (Inr 0, w)"
  "c_columns demo_hog_client h w = ti_columns demo_table_info" "c_table_uuid demo_hog_client h w = Some ''u''"
  "c_info demo_hog_client h w = (Inr demo_table_info, w)" "c_prepare demo_hog_client = demo_prepare"
  "c_commit demo_hog_client = demo_commit_call" "c_retention demo_hog_client = None" "c_monotonic demo_hog_client w = (0, w)"
  "c_now demo_hog_client w = (PStr ''t'', w)"
  by (simp_all add: demo_hog_client_def)

text \<open>The state once the table is resolved.\<close>

definition demo_settled :: "demo_world \<Rightarrow> demo_world hs" where
  "demo_settled w = (hog_start w)\<lparr>hs_table := Some 0, hs_uuid := Some ''u'',
     hs_live := HogTable.adopt_columns (ti_columns demo_table_info), hs_info := Some demo_table_info,
     hs_read_at := Some 0, hs_reconciled := Some (spec_identity demo_table_info)\<rparr>"

lemma demo_live: "HogTable.adopt_columns (ti_columns demo_table_info) =
    [(''team_id'', \<lparr>hc_name = ''team_id'', hc_field_id = 1, hc_type = ''long''\<rparr>),
     (INSERTED_AT, \<lparr>hc_name = INSERTED_AT, hc_field_id = 2, hc_type = ''timestamptz''\<rparr>)]"
  by (simp add: adopt_columns_def demo_table_info_def INSERTED_AT_def)

lemma demo_specs [simp]: "partition_tuples (ti_partition demo_table_info) = [(1, ''identity'', None)]"
    "sort_tuples (ti_sort demo_table_info) = []"
  by (simp_all add: demo_table_info_def partition_tuples_def sort_tuples_def)

lemma demo_reconcile:
  "reconcile_specs demo_hog_client demo_hog_cfg 0 None s =
     (Inr (), s\<lparr>hs_info := Some demo_table_info, hs_read_at := Some 0,
        hs_live := HogTable.adopt_columns (ti_columns demo_table_info),
        hs_reconciled := Some (spec_identity demo_table_info)\<rparr>)"
  by (simp add: reconcile_specs_def check_layout_def op_defs adopt_info_def want_partition_fields_def demo_live
      want_sort_fields_def Let_def)

lemma demo_ensure:
  "hog_ensure_table demo_hog_client demo_hog_cfg sch (hog_start w) = (Inr 0, demo_settled w)"
  by (simp add: hog_ensure_table_def ensure_namespace_def op_defs demo_reconcile adopt_columns_of_def Let_def
      hog_start_def demo_settled_def)

lemma demo_info: "table_info demo_hog_client demo_hog_cfg 0 (demo_settled w) = (Inr demo_table_info, demo_settled w)"
  by (simp add: table_info_def live_info_is_fresh_def live_info_ttl_s_def op_defs demo_settled_def hog_start_def
      ASSUMED_RETENTION_S_def)

lemma demo_hog_evolve:
  "evolve_and_align demo_hog_client demo_env 0 (stamp_inserted_at (PStr ''t'') demo_hog_batch) (demo_settled w)
     = (Inr (stamp_inserted_at (PStr ''t'') demo_hog_batch), demo_settled w)"
  by (simp add: evolve_and_align_def op_defs demo_settled_def demo_live stamp_inserted_at_def append_typed_def
      demo_hog_batch_def INSERTED_AT_def null_fill_missing_def names_def demo_kernel_def demo_coltype_def
      INSERTED_AT_TYPE_def num_rows_def)

lemma demo_columns_schema:
  "columns_schema demo_kernel (ti_columns demo_table_info) = Inr [(''team_id'', AInt True 64), (INSERTED_AT, INSERTED_AT_TYPE)]"
  by (simp add: demo_kernel_def demo_table_info_def demo_column_atype_def)

definition demo_stamped :: table where
  "demo_stamped = stamp_inserted_at (PStr ''t'') demo_hog_batch"

lemma demo_stamped_rows: "num_rows demo_stamped = 4"
  by (simp add: demo_stamped_def demo_hog_batch_def num_rows_def stamp_inserted_at_def append_typed_def)

definition demo_aligned :: table where
  "demo_aligned = \<lparr>tschema = [(''team_id'', AInt True 64), (INSERTED_AT, INSERTED_AT_TYPE)],
     trows = map (\<lambda>v. [(''team_id'', v), (INSERTED_AT, PStr ''t'')]) [PInt 2, PNone, PInt 2, PInt 1]\<rparr>"

lemma demo_align:
  "and_then (select_columns [''team_id'', INSERTED_AT] (null_fill_columns demo_kernel (hs_live (demo_settled w)) demo_stamped))
     (cast_table demo_kernel [(''team_id'', AInt True 64), (INSERTED_AT, INSERTED_AT_TYPE)])
   = Inr demo_aligned"
  by (simp add: demo_settled_def demo_live demo_stamped_def demo_aligned_def stamp_inserted_at_def append_typed_def
      demo_hog_batch_def names_def select_columns_def INSERTED_AT_def demo_kernel_def num_rows_def cell_def
      column_type_def)

lemma demo_groups:
  "\<exists>gs. partition_groups demo_kernel demo_aligned demo_table_info = Inr gs
    \<and> map (\<lambda>g. num_rows (snd g)) gs = [2, 1, 1]"
proof -
  have keys: "partition_keys demo_kernel (ti_columns demo_table_info) demo_aligned [(1, ''identity'', None)]
      = Inr [[Some ''2'', None, Some ''2'', Some ''1'']]"
    by (simp add: demo_kernel_def demo_table_info_def demo_aligned_def
        column_def cell_def demo_transform_def str_int_def digits_of.simps char_of_def bit_0 INSERTED_AT_def)
  have combos: "first_occurrences (map (row_key [[Some ''2'', None, Some ''2'', Some ''1'']]) [0..<num_rows demo_aligned])
      = [[Some ''2''], [None], [Some ''1'']]"
    by (simp add: num_rows_def demo_aligned_def row_key_def upt_conv_Cons first_occurrences_def)
  show ?thesis
    by (simp add: partition_groups_def Let_def keys combos del: partition_keys.simps)
      (simp add: demo_aligned_def group_mask_def filter_rows_def field_mask_def num_rows_def upt_conv_Cons)
qed

text \<open>Preparing the example batch succeeds, and the commit of what was prepared publishes it.\<close>

definition demo_offs :: "kafka_range list" where
  "demo_offs = [(''events'', 0, 0, 3)]"

lemma demo_prepare_run:
  "\<exists>p. prepare_flush demo_hog_client demo_env demo_hog_batch (Some demo_offs) bytes trigger (hog_start w)
      = (Inr (p, 4), demo_settled w)
    \<and> pl_key p = flush_key (\<lambda>s. s) [] demo_hog_cfg (Some ''u'') demo_offs
    \<and> map rg_rows (pl_files p) = [Some 2, Some 1, Some 1]"
proof -
  obtain gs where gs: "partition_groups demo_kernel demo_aligned demo_table_info = Inr gs"
      "map (\<lambda>g. num_rows (snd g)) gs = [2, 1, 1]"
    using demo_groups by (elim exE conjE)
  have rows: "map (\<lambda>g. Some (int (num_rows (snd g)))) gs = [Some 2, Some 1, Some 1]"
  proof -
    have "map (\<lambda>g. Some (int (num_rows (snd g)))) gs = map (\<lambda>n. Some (int n)) (map (\<lambda>g. num_rows (snd g)) gs)"
      by simp
    then show ?thesis
      unfolding gs(2) by simp
  qed
  let ?key = "flush_key (\<lambda>s. s) [] demo_hog_cfg (Some ''u'') demo_offs"
  have settled: "hs_uuid (demo_settled w) = Some ''u''" "hs_world (demo_settled w) = w"
      "demo_settled w\<lparr>hs_world := w\<rparr> = demo_settled w"
    by (simp_all add: demo_settled_def hog_start_def)
  have prep: "\<exists>p. prepare demo_hog_client demo_env 0 demo_stamped ?key F (demo_settled w) = (Inr p, demo_settled w)
      \<and> pl_key p = ?key \<and> map rg_rows (pl_files p) = [Some 2, Some 1, Some 1]" for F
    unfolding prepare_def Let_def demo_env_simps h_bind_def demo_info prod.case sum.case h_lift_def demo_columns_schema
      null_fill_missing_def h_gets_def list.map fst_conv demo_align gs(1) h_draw_def demo_hog_client_simps demo_prepare_def
      settled h_ret_def
    using rows by (simp add: comp_def)
  obtain p where p: "prepare demo_hog_client demo_env 0 demo_stamped ?key
        \<lparr>ff_offsets = demo_offs, ff_bytes = bytes, ff_trigger = trigger\<rparr> (demo_settled w) = (Inr p, demo_settled w)"
      "pl_key p = ?key" "map rg_rows (pl_files p) = [Some 2, Some 1, Some 1]"
    using prep[of "\<lparr>ff_offsets = demo_offs, ff_bytes = bytes, ff_trigger = trigger\<rparr>"] by (elim exE conjE)
  have once: "prepare_once_more demo_hog_client demo_env 0 demo_stamped ?key
      \<lparr>ff_offsets = demo_offs, ff_bytes = bytes, ff_trigger = trigger\<rparr> (demo_settled w) = (Inr p, demo_settled w)"
    using p(1) by (simp add: prepare_once_more_def h_catch_def)
  have draw: "h_draw (c_now demo_hog_client) (hog_start w) = (Inr (PStr ''t''), hog_start w)"
    by (simp add: h_draw_def hog_start_def)
  have key: "hs_uuid (demo_settled w) = Some ''u''" "ev_uuid5 demo_env = (\<lambda>s. s)"
    by (simp_all add: demo_settled_def demo_env_def)
  have "prepare_flush demo_hog_client demo_env demo_hog_batch (Some demo_offs) bytes trigger (hog_start w)
      = (Inr (p, 4), demo_settled w)"
    unfolding prepare_flush_def h_bind_def draw Let_def prod.case sum.case option.case
    by (simp add: demo_ensure h_gets_def key demo_hog_evolve[folded demo_stamped_def] demo_stamped_def[symmetric] once
        h_ret_def demo_stamped_rows)
  then show ?thesis
    using p(2,3) by (intro exI[of _ p] conjI)
qed

text \<open>The answer to the first commit is lost; the payload is held, and its replay is answered.\<close>

definition demo_unsure :: "payload \<Rightarrow> nat \<Rightarrow> demo_world \<Rightarrow> demo_world hs" where
  "demo_unsure p n w = (demo_settled w)\<lparr>hs_prepared := Some p, hs_rows := 4, hs_offsets := Some demo_offs, hs_sends := n\<rparr>"

lemma demo_batch_facts:
  "drop_unwritable_columns demo_hog_batch = (demo_hog_batch, [])" "reserved_collision (tschema demo_hog_batch) = Inr ()"
  "num_rows demo_hog_batch = 4" "names demo_hog_batch = [''team_id'']" "demo_offs \<noteq> []"
proof -
  have "\<not> unwritable_name ''team_id''"
    by code_simp
  then show "drop_unwritable_columns demo_hog_batch = (demo_hog_batch, [])"
      "reserved_collision (tschema demo_hog_batch) = Inr ()"
      "num_rows demo_hog_batch = 4" "names demo_hog_batch = [''team_id'']" "demo_offs \<noteq> []"
    by (simp_all add: drop_unwritable_columns_def demo_hog_batch_def names_def reserved_collision_def
        check_reserved_collision_def HOG_RESERVED_COLUMNS_def num_rows_def demo_offs_def)
qed

lemma demo_first_write:
  "\<exists>p. hog_write demo_hog_client demo_env demo_hog_batch (Some demo_offs) trigger (hog_start (Suc n, []))
      = (Inl HttpError, demo_unsure p 1 (n, [(pl_key p, pl_files p)]))
    \<and> pl_key p = flush_key (\<lambda>s. s) [] demo_hog_cfg (Some ''u'') demo_offs
    \<and> map rg_rows (pl_files p) = [Some 2, Some 1, Some 1]"
proof -
  note drp = demo_batch_facts
  obtain p where p: "prepare_flush demo_hog_client demo_env demo_hog_batch (Some demo_offs) (nbytes demo_arrow demo_hog_batch) trigger
        (hog_start (Suc n, [])) = (Inr (p, 4), demo_settled (Suc n, []))"
      "pl_key p = flush_key (\<lambda>s. s) [] demo_hog_cfg (Some ''u'') demo_offs"
      "map rg_rows (pl_files p) = [Some 2, Some 1, Some 1]"
    using demo_prepare_run[of "nbytes demo_arrow demo_hog_batch" trigger "(Suc n, [])"] by (elim exE conjE)
  have start: "hs_prepared (hog_start w) = None" "hog_start w\<lparr>hs_out := hs_out (hog_start w) @ []\<rparr> = hog_start w"
      "hs_table (demo_settled w) = Some 0" "hs_world (demo_settled w) = w" for w :: demo_world
    by (simp_all add: hog_start_def demo_settled_def)
  have commit: "commit_prepared demo_hog_client (demo_unsure p 0 (Suc n, []))
      = (Inl HttpError, demo_unsure p 1 (n, [(pl_key p, pl_files p)]))"
    by (simp add: commit_prepared_def op_defs demo_unsure_def demo_commit_call_def refused_commit_def demo_settled_def
        hog_start_def)
  have "fresh_flush demo_hog_client demo_env demo_hog_batch (Some demo_offs) (nbytes demo_arrow demo_hog_batch) trigger
      (hog_start (Suc n, [])) = (Inl HttpError, demo_unsure p 1 (n, [(pl_key p, pl_files p)]))"
    unfolding fresh_flush_def h_bind_def discard_effect start p(1) prod.case sum.case option.case
    using commit by (simp add: h_mod_def demo_unsure_def)
  then have "hog_write demo_hog_client demo_env demo_hog_batch (Some demo_offs) trigger (hog_start (Suc n, []))
      = (Inl HttpError, demo_unsure p 1 (n, [(pl_key p, pl_files p)]))"
    by (simp add: hog_write_def h_bind_def h_lift_def h_emit_def h_gets_def drp start Let_def)
  then show ?thesis
    using p(2,3) by (intro exI[of _ p] conjI)
qed

definition demo_payload :: payload where
  "demo_payload = \<lparr>pl_key = ''k'', pl_uuid = None, pl_files = [\<lparr>rg_path = ''k/0.parquet'', rg_rows = Some 4\<rparr>],
     pl_groups = [], pl_author = [], pl_message = []\<rparr>"

lemma demo_commit_lost:
  "c_commit demo_hog_client demo_payload (hs_table (demo_unsure demo_payload 0 (1, []))) (hs_world (demo_unsure demo_payload 0 (1, [])))
     = (Inl HttpError, (0, [(''k'', pl_files demo_payload)]))"
  by (simp add: demo_commit_call_def demo_unsure_def demo_settled_def hog_start_def demo_payload_def)

lemma demo_unsure_holds: "hs_prepared (demo_unsure p n w) = Some p"
  by (simp add: demo_unsure_def)

lemma not_judged_http: "\<not> judged HttpError"
  by (simp add: judged_def is_answered_refusal_def)

theorem refused_commit_settles_witness:
  "\<exists>r s'. commit_prepared demo_hog_client (demo_unsure demo_payload 0 (1, [])) = (r, s') \<and> r = Inl HttpError
     \<and> hs_prepared s' = Some demo_payload \<and> hs_rows s' = 4"
proof -
  obtain r s' where run: "commit_prepared demo_hog_client (demo_unsure demo_payload 0 (1, [])) = (r, s')"
    by fastforce
  show ?thesis
    using refused_commit_settles[OF demo_unsure_holds demo_commit_lost run] run
    by (simp add: not_judged_http) (simp add: demo_unsure_def)
qed

theorem close_names_published_files_witness:
  "\<exists>r s'. commit_prepared demo_hog_client (demo_unsure demo_payload 0 (1, [])) = (r, s')
     \<and> g_receipt demo_ghost (hs_world (snd (hog_close s'))) ''k'' = Some (pl_files demo_payload)
     \<and> HOrphans ''shutdown'' 1 [''k/0.parquet''] \<in> set (hs_out (snd (hog_close s')))"
proof -
  obtain r s' where run: "commit_prepared demo_hog_client (demo_unsure demo_payload 0 (1, [])) = (r, s')"
    by fastforce
  have "g_receipt demo_ghost (0, [(''k'', pl_files demo_payload)]) (pl_key demo_payload) = Some (pl_files demo_payload)"
    by (simp add: demo_ghost_def demo_payload_def)
  from close_names_published_files[OF demo_unsure_holds _ not_judged_http demo_commit_lost run this] run show ?thesis
    by (simp add: demo_payload_def ORPHAN_URIS_LOGGED_def)
qed

end
