(* ===== verification/HogLayout.thy ===== *)
theory HogLayout
  imports HogPublish
begin

text \<open>
  The layout the hoglake sink writes under: the verdict recorded by \<open>reconcile_specs\<close> is kept true by
  every operation, so a flush is only ever grouped by the partition spec the configuration asks for.
\<close>

subsection \<open>The verdict on the layout\<close>

text \<open>The configuration names a partition spec.\<close>

definition partitioned :: "config \<Rightarrow> bool" where
  "partitioned cfg \<longleftrightarrow> (\<exists>f fs. hoglake_partition_by cfg = Some (f # fs))"

text \<open>These are the configured columns and transforms, by the field ids of some columns read from the table.\<close>

definition configured :: "config \<Rightarrow> pfield list \<Rightarrow> bool" where
  "configured cfg pt \<longleftrightarrow> (\<exists>lv. want_partition_fields cfg lv = Inr pt)"

definition layout_known :: "config \<Rightarrow> 'w hs \<Rightarrow> bool" where
  "layout_known cfg s \<longleftrightarrow> (\<forall>pt so. hs_reconciled s = Some (pt, so) \<longrightarrow> configured cfg pt)"

definition keeps_layout :: "config \<Rightarrow> 'w hs \<Rightarrow> 'w hs \<Rightarrow> bool" where
  "keeps_layout cfg s s' \<longleftrightarrow> (partitioned cfg \<longrightarrow> layout_known cfg s \<longrightarrow> layout_known cfg s')"

interpretation lay: client_frame "keeps_layout cfg" C for cfg and C :: "'w hog_client"
proof unfold_locales
  fix s t u :: "'w hs"
  show "keeps_layout cfg s s" "keeps_layout cfg s (s\<lparr>hs_reconciled := None\<rparr>)"
    by (simp_all add: keeps_layout_def layout_known_def)
  show "keeps_layout cfg s u" if "keeps_layout cfg s t" "keeps_layout cfg t u"
    using that by (simp add: keeps_layout_def)
  show "keeps_layout cfg s t" if "same_held s t"
    using that by (simp add: keeps_layout_def layout_known_def same_held_def)
  show "keeps_layout cfg s (s\<lparr>hs_world := w'\<rparr>)" for w'
    by (simp add: keeps_layout_def layout_known_def)
qed

lemma want_nonempty: "partitioned cfg \<Longrightarrow> want_partition_fields cfg lv = Inr want \<Longrightarrow> want \<noteq> []"
  by (auto simp: partitioned_def want_partition_fields_def and_then_Inr split: option.splits)

lemma catch_call: "h_catch m h s = (Inr x, t) \<Longrightarrow> m s = (Inr x, t) \<or> (\<exists>e u. m s = (Inl e, u) \<and> h e u = (Inr x, t))"
  by (auto simp: h_catch_def split: prod.splits sum.splits)

lemma adopt_run: "adopt_info C info s = (Inr x, t) \<Longrightarrow> x = info \<and> hs_info t = Some info"
  by (auto simp: adopt_info_def op_defs split: prod.splits)

lemma verify_run:
  "verify_specs cfg info s = (Inr u, t) \<Longrightarrow> partitioned cfg \<Longrightarrow>
     t = s \<and> configured cfg (partition_tuples (ti_partition info))"
  unfolding verify_specs_def run_inverts
  by (auto simp: run_inverts configured_def dest: want_nonempty split: if_splits option.splits)

text \<open>A declaration that returned changed nothing, or left a verified shape.\<close>

lemma declare_run:
  assumes "declare_specs C cfg tbl why p t s = (Inr u, s')" "partitioned cfg"
  shows "spec_ops cfg (hs_live s) p t = Inr [] \<and> s' = s
    \<or> (\<exists>i. hs_info s' = Some i \<and> configured cfg (partition_tuples (ti_partition i)))"
proof -
  obtain ops where ops: "spec_ops cfg (hs_live s) p t = Inr ops"
    using assms(1) by (auto simp: declare_specs_def run_inverts)
  show ?thesis
  proof (cases "ops = []")
    case True
    then show ?thesis
      using assms(1) ops by (auto simp: declare_specs_def run_inverts)
  next
    case False
    obtain m where "h_bind m (\<lambda>info. h_bind (adopt_info C info) (\<lambda>_. verify_specs cfg info)) s = (Inr u, s')"
      using assms(1) ops False by (auto simp: declare_specs_def bind_Inr gets_Inr lift_Inr Let_def)
    then obtain info t1 x t2 where "adopt_info C info t1 = (Inr x, t2)" "verify_specs cfg info t2 = (Inr u, s')"
      unfolding bind_Inr by blast
    then show ?thesis
      using adopt_run verify_run assms(2) by metis
  qed
qed

lemma spec_ops_nonempty: "want_partition_fields cfg lv = Inr (f # fs) \<Longrightarrow> spec_ops cfg lv True t \<noteq> Inr []"
  by (simp add: spec_ops_def Let_def)

lemma checks_run:
  "(if a then h_fail e1 else if b then h_fail e2
    else h_bind (if c then d1 else if d then d2 else h_ret ()) (\<lambda>_. h_ret x)) s = (Inr y, s') \<Longrightarrow>
   y = x \<and> \<not> a \<and> (c \<and> d1 s = (Inr (), s') \<or> \<not> c \<and> (d2 s = (Inr (), s') \<or> s' = s))"
  by (auto simp: run_inverts split: if_splits)

text \<open>A shape that passed is under the configured spec, or one that was declared and verified is.\<close>

lemma check_run:
  assumes "check_layout C cfg tbl given s = (Inr info, s')" "partitioned cfg"
    and "\<And>i. given = Some i \<Longrightarrow> hs_info s = Some i"
  shows "\<exists>i. hs_info s' = Some i \<and> configured cfg (partition_tuples (ti_partition i))"
proof -
  obtain x t where x: "(case given of Some info \<Rightarrow> h_ret info | None \<Rightarrow> h_bind (h_call (c_info C tbl)) (adopt_info C)) s
      = (Inr x, t)"
    using assms(1) unfolding check_layout_def bind_Inr by blast
  then have t: "hs_info t = Some x"
    using assms(3) by (auto simp: run_inverts dest: adopt_run split: option.splits)
  note run = assms(1)[unfolded check_layout_def h_bind_def[of _ _ s] x prod.case sum.case, unfolded bind_Inr gets_Inr lift_Inr]
  then obtain want where want0: "want_partition_fields cfg (hs_live t) = Inr want"
    by blast
  let ?lp = "partition_tuples (ti_partition x)"
  have rest: "info = x \<and> (?lp = [] \<or> ?lp = want)
      \<and> ((\<exists>why. want \<noteq> [] \<and> ?lp = [] \<and> declare_specs C cfg tbl why True True t = (Inr (), s'))
         \<or> \<not> (want \<noteq> [] \<and> ?lp = []) \<and> ((\<exists>why. declare_specs C cfg tbl why False True t = (Inr (), s')) \<or> s' = t))"
    using run unfolding Let_def
    apply (elim exE conjE)
    apply (drule checks_run)
    subgoal for lv t1 w t2
      using want0 by (elim conjE disjE) (simp; blast)+
    done
  have want: "want \<noteq> []" "configured cfg want"
    using want0 want_nonempty[OF assms(2)] by (auto simp: configured_def)
  show ?thesis
  proof (cases "?lp = []")
    case True
    then obtain why where "declare_specs C cfg tbl why True True t = (Inr (), s')"
      using rest want by blast
    moreover have "spec_ops cfg (hs_live t) True True \<noteq> Inr []"
      using want0 want(1) spec_ops_nonempty by (cases want) auto
    ultimately show ?thesis
      using declare_run[OF _ assms(2)] by blast
  next
    case False
    then have "configured cfg ?lp" and
        "s' = t \<or> (\<exists>why. declare_specs C cfg tbl why False True t = (Inr (), s'))"
      using rest want by auto
    then show ?thesis
      using t declare_run[OF _ assms(2)] by blast
  qed
qed

text \<open>Reconciling records a verdict that is true of the adopted shape.\<close>

lemma reconcile_run:
  assumes "reconcile_specs C cfg tbl given s = (r, s')" "\<And>i. given = Some i \<Longrightarrow> hs_info s = Some i"
  shows "keeps_layout cfg s s'"
    and "r = Inr u \<Longrightarrow> partitioned cfg \<Longrightarrow>
      \<exists>i. hs_info s' = Some i \<and> configured cfg (partition_tuples (ti_partition i))"
proof -
  obtain c s1 where c: "check_layout C cfg tbl given s = (c, s1)"
    by fastforce
  have frame: "keeps_layout cfg s s1"
    using framed_run[OF lay.layout_checked c] .
  have run: "r = Inr u \<Longrightarrow> \<exists>x. c = Inr x" "\<And>x. c = Inl x \<Longrightarrow> s' = s1"
    "\<And>x. c = Inr x \<Longrightarrow>
       s' = s1\<lparr>hs_reconciled := Some (spec_identity (case hs_info s1 of None \<Rightarrow> x | Some i \<Rightarrow> i))\<rparr>"
    using assms(1) c by (auto simp: reconcile_specs_def op_defs split: sum.splits)
  show "keeps_layout cfg s s'"
  proof (cases c)
    case (Inl x)
    then show ?thesis
      using frame run(2) by simp
  next
    case (Inr x)
    show ?thesis
      using check_run[of C cfg tbl given s x s1] assms(2) c Inr run(3)[OF Inr]
      by (auto simp: keeps_layout_def layout_known_def spec_identity_def)
  qed
  show "\<exists>i. hs_info s' = Some i \<and> configured cfg (partition_tuples (ti_partition i))"
    if "r = Inr u" "partitioned cfg"
    using check_run[OF _ that(2) assms(2)] c run(1)[OF that(1)] run(3) by fastforce
qed

lemma fresh_run:
  assumes "live_info_is_fresh C s = (r, t)"
  obtains b where "r = Inr b" "hs_info t = hs_info s" "hs_reconciled t = hs_reconciled s" "b \<Longrightarrow> hs_info s \<noteq> None"
proof (cases "\<exists>i t0. hs_info s = Some i \<and> hs_read_at s = Some t0")
  case True
  then show ?thesis
    using assms that by (auto simp: live_info_is_fresh_def live_info_ttl_s_def op_defs split: prod.splits option.splits)
next
  case False
  then show ?thesis
    using assms that by (cases "hs_info s"; cases "hs_read_at s") (auto simp: live_info_is_fresh_def op_defs)
qed

text \<open>The shape a flush is built on: a cached one with its verdict, or one that was just reconciled.\<close>

lemma table_info_run:
  assumes "table_info C cfg tbl s = (r, s')"
  shows "keeps_layout cfg s s'"
    and "r = Inr info \<Longrightarrow> partitioned cfg \<Longrightarrow> layout_known cfg s \<Longrightarrow>
      configured cfg (partition_tuples (ti_partition info))"
proof -
  obtain b t where t: "live_info_is_fresh C s = (Inr b, t)" "hs_info t = hs_info s"
      "hs_reconciled t = hs_reconciled s" "b \<Longrightarrow> hs_info s \<noteq> None"
    using fresh_run prod.collapse by metis
  have known: "keeps_layout cfg s t"
    using t(3) by (simp add: keeps_layout_def layout_known_def)
  have "keeps_layout cfg s s' \<and> (r = Inr info \<longrightarrow> partitioned cfg \<longrightarrow> layout_known cfg s \<longrightarrow>
      configured cfg (partition_tuples (ti_partition info)))"
  proof (cases b)
    case b: True
    then obtain i where i: "hs_info t = Some i"
      using t by auto
    show ?thesis
    proof (cases "Some (spec_identity i) = hs_reconciled t")
      case True
      then have "s' = t" "r = Inr i"
        using assms t(1) i b by (simp_all add: table_info_def op_defs)
      then show ?thesis
        using known True[symmetric] t(3) by (auto simp: layout_known_def spec_identity_def)
    next
      case False
      obtain q s1 where q: "reconcile_specs C cfg tbl (Some i) t = (q, s1)"
        by fastforce
      then have "s' = s1" "\<forall>x. r = Inr x \<longrightarrow> (\<exists>u. q = Inr u) \<and> x = the (hs_info s1)"
        using assms t(1) i b False by (auto simp: table_info_def op_defs split: sum.splits)
      then show ?thesis
        using reconcile_run[OF q] i lay.chain[OF known] by fastforce
    qed
  next
    case b: False
    obtain c w where c: "c_info C tbl (hs_world t) = (c, w)"
      by fastforce
    let ?t1 = "t\<lparr>hs_world := w\<rparr>"
    have "keeps_layout cfg t ?t1"
      by (simp add: keeps_layout_def layout_known_def)
    then have t1: "keeps_layout cfg s ?t1"
      using lay.chain[OF known] by blast
    show ?thesis
    proof (cases c)
      case (Inl e)
      then show ?thesis
        using assms t(1) b c t1 by (auto simp: table_info_def op_defs)
    next
      case (Inr i)
      obtain x t2 where a: "adopt_info C i ?t1 = (x, t2)"
        by fastforce
      then have x: "x = Inr i" "hs_info t2 = Some i"
        by (auto simp: adopt_info_def op_defs split: prod.splits)
      have t2: "keeps_layout cfg s t2"
        using lay.chain[OF t1 framed_run[OF lay.adopt a]] .
      obtain q s1 where q: "reconcile_specs C cfg tbl (Some i) t2 = (q, s1)"
        by fastforce
      then have "s' = s1" "\<forall>x. r = Inr x \<longrightarrow> (\<exists>u. q = Inr u) \<and> x = the (hs_info s1)"
        using assms t(1) b c Inr a x q by (auto simp: table_info_def op_defs split: sum.splits)
      then show ?thesis
        using reconcile_run[OF q] x lay.chain[OF t2] by fastforce
    qed
  qed
  then show "keeps_layout cfg s s'"
    and "r = Inr info \<Longrightarrow> partitioned cfg \<Longrightarrow> layout_known cfg s \<Longrightarrow>
      configured cfg (partition_tuples (ti_partition info))"
    by blast+
qed

interpretation lay: flush_frame "keeps_layout (ev_cfg E)" C E for C :: "'w hog_client" and E
proof unfold_locales
  show "framed (keeps_layout (ev_cfg E)) (reconcile_specs C (ev_cfg E) tbl None)" for tbl
    unfolding framed_def using reconcile_run(1) prod.collapse by (metis option.distinct(1))
  show "framed (keeps_layout (ev_cfg E)) (table_info C (ev_cfg E) tbl)" for tbl
    unfolding framed_def using table_info_run(1) prod.collapse by metis
qed

subsection \<open>Every reachable state\<close>

text \<open>The states a process goes through: the sink's public methods, in any order and with any outcome.\<close>

inductive hog_reach :: "'w hog_client \<Rightarrow> hog_env \<Rightarrow> 'w hs \<Rightarrow> bool" for C E where
  starting: "hog_reach C E (hog_start w)"
| writing: "hog_reach C E s \<Longrightarrow> hog_write C E batch offs trigger s = (r, s') \<Longrightarrow> hog_reach C E s'"
| resetting: "hog_reach C E s \<Longrightarrow> hog_reset_caches s = (r, s') \<Longrightarrow> hog_reach C E s'"
| noting: "hog_reach C E s \<Longrightarrow> note_response pf status header s = (r, s') \<Longrightarrow> hog_reach C E s'"
| hinting: "hog_reach C E s \<Longrightarrow> hog_retry_after_hint s = (r, s') \<Longrightarrow> hog_reach C E s'"
| discarding: "hog_reach C E s \<Longrightarrow> discard_prepared reason s = (r, s') \<Longrightarrow> hog_reach C E s'"
| outside: "hog_reach C E s \<Longrightarrow> hog_reach C E (s\<lparr>hs_world := w\<rparr>)"

lemma lay_draw: "framed (keeps_layout cfg) (h_draw f)"
  by (simp add: framed_def h_draw_def split_beta keeps_layout_def layout_known_def)

lemma lay_mod: "(\<And>s. hs_reconciled (f s) = hs_reconciled s) \<Longrightarrow> framed (keeps_layout cfg) (h_mod f)"
  by (simp add: framed_def h_mod_def keeps_layout_def layout_known_def)

lemma lay_clear: "framed (keeps_layout cfg) clear_prepared"
  unfolding clear_prepared_def by (intro lay_mod) simp

lemma lay_discard: "framed (keeps_layout cfg) (discard_prepared reason)"
  unfolding discard_prepared_def by (intro lay.parts lay_clear)

lemma lay_moved: "framed (keeps_layout cfg) (destination_moved e)"
  unfolding destination_moved_def Let_def by (intro lay.parts lay_discard lay.reset lay.drop_shape)

lemma lay_refused: "framed (keeps_layout cfg) (refused_commit p x)"
  unfolding refused_commit_def accept_already_published_def
  by (intro lay.parts lay.on_error lay.drop_shape lay_clear lay_moved lay_discard)

lemma lay_commit: "framed (keeps_layout cfg) (commit_prepared C)"
  unfolding commit_prepared_def
  by (intro lay.parts lay_draw lay_mod lay_clear) (auto split: sum.split intro!: lay.parts lay_refused lay_clear)

lemma lay_write: "framed (keeps_layout (ev_cfg E)) (hog_write C E batch offs trigger)"
  unfolding hog_write_def fresh_flush_def Let_def
  by (intro lay.parts lay_commit lay_discard lay.prepare_all lay_mod) simp_all

lemma reached_layout:
  assumes "hog_reach C E s" "partitioned (ev_cfg E)"
  shows "layout_known (ev_cfg E) s"
  using assms
proof (induction rule: hog_reach.induct)
  case (starting w)
  then show ?case
    by (simp add: layout_known_def hog_start_def)
next
  case (writing s batch offs trigger r s')
  then show ?case
    using framed_run[OF lay_write writing(2)] by (simp add: keeps_layout_def)
next
  case (resetting s r s')
  then show ?case
    using framed_run[OF lay.reset resetting(2), of "ev_cfg E"] by (simp add: keeps_layout_def)
next
  case (discarding s reason r s')
  then show ?case
    using framed_run[OF lay_discard discarding(2), of "ev_cfg E"] by (simp add: keeps_layout_def)
qed (auto simp: layout_known_def note_response_def hog_retry_after_hint_def op_defs split: if_splits option.splits)

text \<open>Where the payload of a flush came from.\<close>

lemma once_more_from:
  assumes "prepare_once_more C E tbl b key F s = (Inr p, s')"
  obtains b' s1 where "prepare C E tbl b' key F s1 = (Inr p, s')" "keeps_layout (ev_cfg E) s s1"
proof (cases "prepare C E tbl b key F s")
  case (Pair r t)
  show ?thesis
  proof (cases r)
    case (Inr q)
    then show ?thesis
      using assms Pair that[of b s, OF _ lay.stay] by (simp add: prepare_once_more_def h_catch_def)
  next
    case (Inl x)
    let ?refresh = "\<lambda>i. h_bind (adopt_info C i) (\<lambda>_. null_fill_missing E b)"
    obtain i t1 b' s1 where run: "h_call (c_info C tbl) t = (Inr i, t1)" "?refresh i t1 = (Inr b', s1)"
        "prepare C E tbl b' key F s1 = (Inr p, s')"
      using assms Pair Inl
      by (auto simp: prepare_once_more_def h_catch_def bind_Inr fail_Inr split: hexc.splits if_splits)
    have refresh: "framed (keeps_layout (ev_cfg E)) (?refresh i)"
      unfolding null_fill_missing_def by (intro lay.parts lay.adopt)
    have "keeps_layout (ev_cfg E) s s1"
      using framed_run[OF lay.prepare_one Pair] framed_run[OF lay.calls(5) run(1), of "ev_cfg E"]
        framed_run[OF refresh run(2)] lay.chain by blast
    then show ?thesis
      using that run(3) by blast
  qed
qed

lemma flush_from:
  assumes "prepare_flush C E batch identity bytes trigger s = (Inr (p, rows), s')"
  obtains tbl b key F s1 where "prepare C E tbl b key F s1 = (Inr p, s')" "keeps_layout (ev_cfg E) s s1"
proof -
  obtain now t0 tbl t1 key t2 b t3 F where run: "h_draw (c_now C) s = (Inr now, t0)"
      "hog_ensure_table C (ev_cfg E) (tschema (stamp_inserted_at now batch)) t0 = (Inr tbl, t1)"
      "(case identity of None \<Rightarrow> h_draw (c_uuid4 C)
        | Some offs \<Rightarrow> h_gets (\<lambda>s. flush_key (ev_uuid5 E) [] (ev_cfg E) (hs_uuid s) offs)) t1 = (Inr key, t2)"
      "evolve_and_align C E tbl (stamp_inserted_at now batch) t2 = (Inr b, t3)"
      "prepare_once_more C E tbl b key F t3 = (Inr p, s')"
    using assms unfolding prepare_flush_def Let_def bind_Inr ret_Inr by blast
  have key: "framed (keeps_layout (ev_cfg E)) (case identity of None \<Rightarrow> h_draw (c_uuid4 C)
        | Some offs \<Rightarrow> h_gets (\<lambda>s. flush_key (ev_uuid5 E) [] (ev_cfg E) (hs_uuid s) offs))"
    by (intro lay.parts)
  have t3: "keeps_layout (ev_cfg E) s t3"
    using framed_run[OF lay.calls(8) run(1), of "ev_cfg E"] framed_run[OF lay.ensure run(2)]
      framed_run[OF key run(3)] framed_run[OF lay.evolve run(4)] lay.chain by blast
  obtain b' s1 where "prepare C E tbl b' key F s1 = (Inr p, s')" "keeps_layout (ev_cfg E) t3 s1"
    using run(5) by (rule once_more_from)
  then show ?thesis
    using that lay.chain[OF t3] by blast
qed

text \<open>
  C10: a flush is only ever laid out as the configuration asks. In every state a process can reach, when
  HOGLAKE_PARTITION_BY is set and a flush is prepared, the groups that were uploaded are those of a
  partition spec whose fields are the configured columns with the configured transforms, in order;
  whatever the server answered about the live spec, and however often the caches were dropped.
\<close>

theorem flush_layout_is_configured:
  assumes "hog_reach C E s" "hoglake_partition_by (ev_cfg E) = Some spec" "spec \<noteq> []"
    and "prepare_flush C E batch identity bytes trigger s = (Inr (p, rows), s')"
  shows "\<exists>tbl key info aligned groups opts uuid w q w2 lv.
    partition_groups (ev_kernel E) aligned info = Inr groups
    \<and> c_prepare C tbl groups key uuid opts w = (Inr q, w2) \<and> pl_files p = pl_files q
    \<and> resolve_partition lv spec = Inr (partition_tuples (ti_partition info))"
proof -
  obtain tbl b key F s1 where s1: "prepare C E tbl b key F s1 = (Inr p, s')" "keeps_layout (ev_cfg E) s s1"
    using assms(4) by (rule flush_from)
  obtain info s2 aligned groups q w2 opts where run: "table_info C (ev_cfg E) tbl s1 = (Inr info, s2)"
    "partition_groups (ev_kernel E) aligned info = Inr groups"
    "c_prepare C tbl groups key (hs_uuid s2) opts (hs_world s2) = (Inr q, w2)" "pl_files p = pl_files q"
    using s1(1) by (rule prepare_inverts)
  have part: "partitioned (ev_cfg E)"
    using assms(2,3) by (cases spec) (auto simp: partitioned_def)
  then have "layout_known (ev_cfg E) s1"
    using reached_layout[OF assms(1)] s1(2) by (simp add: keeps_layout_def)
  then obtain lv where "resolve_partition lv spec = Inr (partition_tuples (ti_partition info))"
    using table_info_run(2)[OF run(1)] part assms(2) unfolding configured_def want_partition_fields_def by auto
  then show ?thesis
    using run by blast
qed

theorem flush_layout_is_configured_witness:
  "\<exists>p tbl key info aligned groups opts uuid w q w2 lv.
    prepare_flush demo_hog_client demo_env demo_hog_batch (Some demo_offs) 0 None (hog_start (0, []))
      = (Inr (p, 4), demo_settled (0, []))
    \<and> partition_groups demo_kernel aligned info = Inr groups
    \<and> c_prepare demo_hog_client tbl groups key uuid opts w = (Inr q, w2) \<and> pl_files p = pl_files q
    \<and> resolve_partition lv [(''team_id'', ''identity'', None)] = Inr (partition_tuples (ti_partition info))"
proof -
  obtain p where p: "prepare_flush demo_hog_client demo_env demo_hog_batch (Some demo_offs) 0 None (hog_start (0, []))
      = (Inr (p, 4), demo_settled (0, []))"
    using demo_prepare_run[of 0 None "(0, [])"] by (elim exE conjE)
  have "hoglake_partition_by (ev_cfg demo_env) = Some [(''team_id'', ''identity'', None)]"
    by simp
  from flush_layout_is_configured[OF starting this _ p] show ?thesis
    unfolding demo_env_simps using p by (intro exI[of _ p]) simp
qed

end
