(* ===== verification/HogRun.thy ===== *)
theory HogRun
  imports HogLayout MainLoop
begin

text \<open>
  The hoglake sink under the retry loop of \<open>millpond/main.py\<close>: the hooks \<open>_write_with_retry\<close> looks up
  are the sink's methods, and a flush with its retries is published at most once. The world of the
  retry layer is the state of the sink, whose own world is that of the client.
\<close>

subsection \<open>The sink as the retry loop sees it\<close>

text \<open>
  \<open>as_exc\<close> is what the loop reads of an exception of the sink, \<open>as_hexc\<close> what the sink reads of the
  exception it is handed back.
\<close>

definition hog_sink :: "'w hog_client \<Rightarrow> hog_env \<Rightarrow> (hexc \<Rightarrow> exc) \<Rightarrow> (exc \<Rightarrow> hexc) \<Rightarrow> 'w hs sink" where
  "hog_sink C E as_exc as_hexc = \<lparr>
     sink_write = (\<lambda>batch kw s.
       case hog_write C E batch (map_option fst kw) (map_option snd kw) s of
         (Inl x, s') \<Rightarrow> (Inl (as_exc x), s')
       | (Inr n, s') \<Rightarrow> (Inr n, s')),
     write_retry_budget = Some (nat (fst (hog_retry_budget (ev_cfg E))), snd (hog_retry_budget (ev_cfg E))),
     retry_after_hint = Some (\<lambda>s. (hs_retry_after s, snd (hog_retry_after_hint s))),
     is_retryable = Some (\<lambda>e. hog_is_retryable (as_hexc e)),
     write_flush_deadline = Some (hog_flush_deadline (ev_cfg E)),
     reset_caches = (\<lambda>s. snd (hog_reset_caches s))\<rparr>"

text \<open>A clock of the client's world.\<close>

definition on_world :: "'w clock \<Rightarrow> 'w hs clock" where
  "on_world K = \<lparr>
     monotonic = (\<lambda>s. let (t, w) = monotonic K (hs_world s) in (t, s\<lparr>hs_world := w\<rparr>)),
     sleep = (\<lambda>d s. s\<lparr>hs_world := sleep K d (hs_world s)\<rparr>),
     random01 = (\<lambda>s. let (u, w) = random01 K (hs_world s) in (u, s\<lparr>hs_world := w\<rparr>))\<rparr>"

definition quiet_clock :: "'w ghost \<Rightarrow> 'w clock \<Rightarrow> bool" where
  "quiet_clock G K \<longleftrightarrow> (\<forall>w. quiet G w (snd (monotonic K w))) \<and> (\<forall>d w. quiet G w (sleep K d w))
     \<and> (\<forall>w. quiet G w (snd (random01 K w)))"

lemma hint_effect: "hog_retry_after_hint s = (Inr (hs_retry_after s), s\<lparr>hs_retry_after := None\<rparr>)"
  by (simp add: hog_retry_after_hint_def op_defs)

lemma sink_write_outcome:
  assumes "server_law G C" "kernel_law (ev_kernel E) g" "offs \<noteq> []" "flushing G E offs batch M s"
    and "sink_write (hog_sink C E as_exc as_hexc) batch (Some (offs, trigger)) s = (r, s')"
  shows "case r of Inl x \<Rightarrow> flushing G E offs batch M s' | Inr m \<Rightarrow> write_outcome G E offs batch M m (hs_world s')"
proof -
  obtain q s1 where q: "hog_write C E batch (Some offs) (Some trigger) s = (q, s1)"
    by fastforce
  then show ?thesis
    using write_one_flush[OF assms(1-4) q] assms(5) by (cases q) (auto simp: hog_sink_def)
qed

lemma flushing_between:
  assumes "quiet_clock G K" "flushing G E offs batch M s"
  shows "flushing G E offs batch M (reset_caches (hog_sink C E as_exc as_hexc) s)"
    and "flushing G E offs batch M (sleep (on_world K) d s)"
    and "monotonic (on_world K) s = (t, s') \<Longrightarrow> flushing G E offs batch M s'"
    and "retry_delay (hog_sink C E as_exc as_hexc) (on_world K) attempt base s = (d, s') \<Longrightarrow> flushing G E offs batch M s'"
proof -
  show "flushing G E offs batch M (reset_caches (hog_sink C E as_exc as_hexc) s)"
    using flushing_same[OF assms(2)] held_reset[of G] by (simp add: hog_sink_def framed_def)
  show "flushing G E offs batch M (sleep (on_world K) d s)"
    using flushing_same[OF assms(2)] assms(1) by (simp add: on_world_def quiet_clock_def holds_same_def)
  show "flushing G E offs batch M s'" if "monotonic (on_world K) s = (t, s')"
    using that flushing_same[OF assms(2)] assms(1)
    by (auto simp: on_world_def quiet_clock_def holds_same_def split_beta)
  show "flushing G E offs batch M s'"
    if "retry_delay (hog_sink C E as_exc as_hexc) (on_world K) attempt base s = (d, s')"
  proof -
    have "s' = s\<lparr>hs_retry_after := None, hs_world := snd (random01 K (hs_world s))\<rparr>"
      using that by (auto simp: retry_delay_def take_hint_def on_world_def hog_sink_def hint_effect Let_def split_beta)
    then show ?thesis
      using flushing_same[OF assms(2), of s'] assms(1) by (simp add: holds_same_def quiet_clock_def)
  qed
qed

lemma write_loop_flushing:
  fixes as_exc :: "hexc \<Rightarrow> exc" and as_hexc :: "exc \<Rightarrow> hexc"
  assumes "server_law G C" "kernel_law (ev_kernel E) g" "quiet_clock G K" "offs \<noteq> []"
  defines "S \<equiv> hog_sink C E as_exc as_hexc"
  shows "write_loop S (on_world K) dest batch (Some (offs, trigger)) base t0 attempt left s = (res, s', evs) \<Longrightarrow>
    flushing G E offs batch M s \<Longrightarrow>
    (case res of Wrote m \<Rightarrow> write_outcome G E offs batch M m (hs_world s') | _ \<Rightarrow> flushing G E offs batch M s')"
proof (induction left arbitrary: attempt s res s' evs)
  case (Suc left)
  obtain out s1 where wr: "sink_write S batch (Some (offs, trigger)) s = (out, s1)"
    by fastforce
  note out = sink_write_outcome[OF assms(1,2,4) Suc.prems(2) wr[unfolded S_def]]
  note between = flushing_between(1)[OF assms(3), where C = C and E = E and as_exc = as_exc and as_hexc = as_hexc, folded S_def]
    flushing_between(2,3)[OF assms(3)]
    flushing_between(4)[OF assms(3), where C = C and E = E and as_exc = as_exc and as_hexc = as_hexc, folded S_def]
  show ?case
  proof (cases out)
    case (Inr n)
    then show ?thesis
      using Suc.prems(1) wr out by auto
  next
    case (Inl e)
    obtain d s2 t s3 where d: "retry_delay S (on_world K) attempt base s1 = (d, s2)" "monotonic (on_world K) s2 = (t, s3)"
      by fastforce
    have s1: "flushing G E offs batch M s1"
      using out Inl by simp
    then have s2: "flushing G E offs batch M s2"
      using between(4)[OF _ d(1)] by blast
    then have s3: "flushing G E offs batch M s3"
      using between(3)[OF _ d(2)] by blast
    obtain budget cost where dl: "flush_deadline S = Some (budget, cost)"
      by (cases "hog_flush_deadline (ev_cfg E)") (simp add: S_def flush_deadline_def hog_sink_def)
    show ?thesis
    proof (cases "permanent_failure S e \<or> left = 0 \<or> budget < t - t0 + d + cost")
      case True
      then show ?thesis
        using Suc.prems wr Inl d dl s1 s3 by (auto simp: Let_def split: if_splits)
    next
      case False
      then obtain evs2 where
        "write_loop S (on_world K) dest batch (Some (offs, trigger)) base t0 (Suc attempt) left
           (sleep (on_world K) d (reset_caches S s3)) = (res, s', evs2)"
        using Suc.prems(1) wr Inl d dl by (auto simp: Let_def split: prod.splits)
      then show ?thesis
        using Suc.IH between(1,2) s3 by blast
    qed
  qed
qed simp

lemma write_with_retry_flushing:
  assumes "server_law G C" "kernel_law (ev_kernel E) g" "quiet_clock G K" "offs \<noteq> []" "flushing G E offs batch M s"
    and "write_with_retry (hog_sink C E as_exc as_hexc) (on_world K) dest batch (Some (offs, trigger)) s = (res, s', evs)"
  shows "case res of Wrote m \<Rightarrow> write_outcome G E offs batch M m (hs_world s') | _ \<Rightarrow> flushing G E offs batch M s'"
proof -
  let ?S = "hog_sink C E as_exc as_hexc"
  obtain n base where rb: "retry_budget ?S = (n, base)"
    by fastforce
  obtain t0 s1 where m: "monotonic (on_world K) s = (t0, s1)"
    by fastforce
  have "write_loop ?S (on_world K) dest batch (Some (offs, trigger)) base t0 0 n s1 = (res, s', evs)"
    using assms(6) rb m by (simp add: write_with_retry_def)
  then show ?thesis
    using write_loop_flushing[OF assms(1-4)] flushing_between(3)[OF assms(3,5) m] by blast
qed

subsection \<open>A flush is published at most once\<close>

text \<open>
  The flush of a batch and, after it failed, the final flush of the same batch: one call per trigger
  until one returns.
\<close>

fun write_calls ::
  "'w sink \<Rightarrow> 'w clock \<Rightarrow> table \<Rightarrow> kafka_range list \<Rightarrow> string list \<Rightarrow> 'w \<Rightarrow> write_result \<times> 'w" where
  "write_calls S K batch offs [] w = (NoAttempt, w)"
| "write_calls S K batch offs (t # ts) w =
     (case write_with_retry S K ''hoglake'' batch (Some (offs, t)) w of
        (Wrote n, w', evs) \<Rightarrow> (Wrote n, w')
      | (r, w', evs) \<Rightarrow> if ts = [] then (r, w') else write_calls S K batch offs ts w')"

lemma write_calls_flushing:
  assumes "server_law G C" "kernel_law (ev_kernel E) g" "quiet_clock G K" "offs \<noteq> []" "flushing G E offs batch M s"
    and "write_calls (hog_sink C E as_exc as_hexc) (on_world K) batch offs ts s = (res, s')"
  shows "case res of Wrote m \<Rightarrow> write_outcome G E offs batch M m (hs_world s') | _ \<Rightarrow> flushing G E offs batch M s'"
  using assms(5,6)
proof (induction ts arbitrary: s)
  case (Cons t ts)
  obtain r s1 evs where call:
      "write_with_retry (hog_sink C E as_exc as_hexc) (on_world K) ''hoglake'' batch (Some (offs, t)) s = (r, s1, evs)"
    by (metis prod_cases3)
  then show ?case
    using write_with_retry_flushing[OF assms(1-4) Cons.prems(1) call] Cons.IH[of s1] Cons.prems(2)
    by (cases r) (auto split: if_splits)
qed simp

lemma flushing_start:
  "honest G (hs_world s) \<Longrightarrow> \<not> holding offs s \<Longrightarrow> flushing G E offs batch (g_mine G (hs_world s)) s"
  by (auto simp: flushing_def one_flush_def holding_def)

lemma flushing_at_most_once:
  assumes "flushing G E offs batch M s"
  shows "g_mine G (hs_world s) = M \<or> (\<exists>p. hs_prepared s = Some p \<and> hs_offsets s = Some offs
    \<and> payload_of E offs (num_rows batch) p \<and> g_mine G (hs_world s) = M @ [(pl_key p, pl_files p)])"
  using assms by (auto simp: flushing_def one_flush_def holding_def published_at_most_def)

text \<open>
  C2: a flush is published at most once in a process. Through every retry, whatever was refused, lost
  on the way or answered twice, and through the final flush after a failed one, the client's commits
  register at most one set of files for the batch, under the key its offsets name; when the write
  returns n rows, exactly that registration was added and its files hold these rows; when it returns 0 the
  key already has a receipt (or nothing of the batch can be written) and nothing was added; and while
  it has not returned, a registration that may have landed is still held for the replay.
\<close>

theorem flush_published_once:
  assumes "server_law G C" "kernel_law (ev_kernel E) g" "quiet_clock G K"
    and "honest G (hs_world s)" "\<not> holding offs s" "offs \<noteq> []"
    and "write_calls (hog_sink C E as_exc as_hexc) (on_world K) batch offs ts s = (res, s')"
  defines "M \<equiv> g_mine G (hs_world s)" and "M' \<equiv> g_mine G (hs_world s')"
    and "key \<equiv> \<lambda>u. flush_key (ev_uuid5 E) [] (ev_cfg E) u offs"
  shows "case res of
      Wrote r \<Rightarrow>
        (if skipped batch then r = 0 \<and> M' = M
         else r = 0 \<and> M' = M \<and> (\<exists>u. g_receipt G (hs_world s') (key u) \<noteq> None)
           \<or> r = int (num_rows batch) \<and> (\<exists>u fs. M' = M @ [(key u, fs)] \<and> rows_of fs = r))
    | _ \<Rightarrow> M' = M \<or> (\<exists>p. hs_prepared s' = Some p \<and> hs_offsets s' = Some offs
        \<and> payload_of E offs (num_rows batch) p \<and> M' = M @ [(pl_key p, pl_files p)])"
proof -
  note out = write_calls_flushing[OF assms(1-3,6) flushing_start[OF assms(4,5)] assms(7), folded M_def]
  show ?thesis
  proof (cases res)
    case (Wrote r)
    then show ?thesis
      using out unfolding write_outcome_def flush_done_def M'_def key_def Let_def by (auto split: if_splits)
  qed (use out flushing_at_most_once[of G E offs batch M s'] in \<open>auto simp: M'_def\<close>)
qed

subsection \<open>Offsets are committed after the publication\<close>

text \<open>The consumer's commit, as seen from the sink: it changes nothing of what is held or published.\<close>

definition commit_apart :: "'w ghost \<Rightarrow> 'w hs deps \<Rightarrow> bool" where
  "commit_apart G D \<longleftrightarrow> (\<forall>tps s. holds_same G s (snd (commit (d_kafka D) tps s)))"

lemma clock_same:
  assumes "quiet_clock G K"
  shows "holds_same G s (snd (monotonic (on_world K) s))" "holds_same G s (sleep (on_world K) d s)"
  using assms by (auto simp: on_world_def quiet_clock_def holds_same_def split_beta)

lemma commit_loop_same:
  assumes "commit_apart G D" "quiet_clock G K" "d_clock D = on_world K"
  shows "commit_loop D tps attempt left s = (res, s', evs) \<Longrightarrow> holds_same G s s'"
proof (induction left arbitrary: attempt s res s' evs)
  case 0
  then show ?case
    by (simp add: same_refl)
next
  case (Suc left)
  obtain c s1 where c: "commit (d_kafka D) tps s = (c, s1)"
    by fastforce
  then have s1: "holds_same G s s1"
    using assms(1) unfolding commit_apart_def by (metis snd_conv)
  let ?s2 = "sleep (on_world K) (COMMIT_BASE_DELAY_S * 2 ^ attempt) s1"
  have s2: "holds_same G s ?s2"
    using same_trans[OF s1 clock_same(2)[OF assms(2)]] .
  obtain res2 s3 evs2 where rest: "commit_loop D tps (Suc attempt) left ?s2 = (res2, s3, evs2)"
    by (metis prod_cases3)
  show ?case
    using Suc.prems c assms(3) s1 rest same_trans[OF s2 Suc.IH[OF rest]]
    by (auto simp: Let_def split: option.splits if_splits)
qed

lemma flush_done_same:
  "write_outcome G E offs batch M r (hs_world s) \<Longrightarrow> holds_same G s s' \<Longrightarrow>
   write_outcome G E offs batch M r (hs_world s')"
  unfolding write_outcome_def flush_done_def holds_same_def quiet_def grows_def Let_def
  by (auto split: if_splits) metis+

lemma flush_ends:
  assumes "flush D cfg t trigger st s = (res, st', s', evs)" "ECommit tps b \<in> set evs"
    and "commit_apart G D" "quiet_clock G K" "d_clock D = on_world K" "0 < fst (retry_budget (d_sink D))"
  obtains batch ms ss n s1 s2 wevs where
    "apply_sort (d_arrow D) cfg (sorts st) t = (Inr (batch, ms), ss)" "holds_same G s s1"
    "write_with_retry (d_sink D) (on_world K) (destination cfg) batch (sink_write_kwargs cfg (offsets st) trigger) s1
       = (Wrote n, s2, wevs)" "holds_same G s2 s'"
proof -
  obtain sres ss where sort: "apply_sort (d_arrow D) cfg (sorts st) t = (sres, ss)"
    by fastforce
  then obtain batch ms where bm: "sres = Inr (batch, ms)"
    using assms(1,2) by (cases sres) (auto simp: flush_def)
  obtain t0 s1 where m: "monotonic (on_world K) s = (t0, s1)"
    by fastforce
  obtain wres s2 wevs where wr: "write_with_retry (d_sink D) (on_world K) (destination cfg) batch
      (sink_write_kwargs cfg (offsets st) trigger) s1 = (wres, s2, wevs)"
    by (metis prod_cases3)
  obtain t1 s3 where m2: "monotonic (on_world K) s2 = (t1, s3)"
    by fastforce
  obtain cres s4 cevs where cl: "commit_loop D (tp_offsets (offsets st)) 0 COMMIT_MAX_RETRIES s3 = (cres, s4, cevs)"
    by (metis prod_cases3)
  obtain t2 s5 where m3: "monotonic (on_world K) s4 = (t2, s5)"
    by fastforce
  have same: "holds_same G s s1" "holds_same G s2 s4" "holds_same G s2 s5"
  proof -
    show "holds_same G s s1"
      using clock_same(1)[OF assms(4), of s] m by simp
    have "holds_same G s2 s3" "holds_same G s4 s5"
      using clock_same(1)[OF assms(4), of s2] clock_same(1)[OF assms(4), of s4] m2 m3 by simp_all
    then show "holds_same G s2 s4" "holds_same G s2 s5"
      using commit_loop_same[OF assms(3-5) cl] same_trans by blast+
  qed
  have "wres \<noteq> NoAttempt"
    using write_with_retry_wrote(2)[OF wr assms(6)] .
  moreover have "wres \<noteq> Raised e" for e
    using assms(1,2) sort bm m wr assms(5) by (auto simp: flush_def)
  ultimately obtain n where n: "wres = Wrote n"
    by (cases wres) auto
  then have "s' = s4 \<or> s' = s5"
    using assms(1) sort bm m wr m2 cl m3 assms(5) by (auto simp: flush_def Let_def split: option.splits)
  then show ?thesis
    using that[OF sort[unfolded bm] same(1) wr[unfolded n]] same(2,3) by blast
qed

text \<open>\<open>flushing\<close> reads the names and the number of rows of the batch only, so sorting does not disturb it.\<close>

lemma skipped_cong: "tschema b = tschema b' \<Longrightarrow> num_rows b = num_rows b' \<Longrightarrow> skipped b = skipped b'"
  by (simp add: skipped_def drop_unwritable_columns_def names_def drop_columns_def Let_def)

lemma flushing_cong:
  "tschema b = tschema b' \<Longrightarrow> num_rows b = num_rows b' \<Longrightarrow> flushing G E offs b M s = flushing G E offs b' M s"
  using skipped_cong[of b b'] by (simp add: flushing_def)

lemma write_outcome_cong:
  "tschema b = tschema b' \<Longrightarrow> num_rows b = num_rows b' \<Longrightarrow> write_outcome G E offs b M r w = write_outcome G E offs b' M r w"
  using skipped_cong[of b b'] by (simp add: write_outcome_def)

lemma sorted_alike:
  assumes "sort_indices_law A" "apply_sort A cfg st t = (Inr (b, ms), st')"
  shows "tschema t = tschema b" "num_rows t = num_rows b"
  using sort_permutes_rows[OF assms] by (auto simp: num_rows_def dest: mset_eq_length)

text \<open>The ranges the loop hands to the sink with a flush.\<close>

definition flush_ranges :: "config \<Rightarrow> loop_state \<Rightarrow> kafka_range list" where
  "flush_ranges cfg st = fst (the (sink_write_kwargs cfg (offsets st) ''final''))"

lemma flush_ranges:
  assumes "destination cfg = ''hoglake''"
  shows "sink_write_kwargs cfg (offsets st) trigger = Some (flush_ranges cfg st, trigger)"
    and "length (flush_ranges cfg st) = length (offsets st)"
  by (simp_all only: flush_ranges_def sink_write_kwargs_def assms simp_thms if_False option.sel fst_conv length_sort length_map)

definition sends :: "event list \<Rightarrow> bool" where
  "sends evs \<longleftrightarrow> (\<exists>tps b. ECommit tps b \<in> set evs)"

lemma commit_loop_sends: "commit_loop D tps a (Suc left) w = (res, w', evs) \<Longrightarrow> sends evs"
  unfolding sends_def by (fastforce simp: Let_def split: option.splits prod.splits if_splits)

lemma flush_unsent:
  assumes "flush D cfg t trigger st s = (res, st', s', evs)" "\<not> sends evs"
  obtains "s' = s" "pending st' = pending st" "offsets st' = offsets st"
  | batch ms ss t0 s1 e wevs where "pending st' = pending st" "offsets st' = offsets st"
      "apply_sort (d_arrow D) cfg (sorts st) t = (Inr (batch, ms), ss)" "monotonic (d_clock D) s = (t0, s1)"
      "write_with_retry (d_sink D) (d_clock D) (destination cfg) batch (sink_write_kwargs cfg (offsets st) trigger) s1
         = (Raised e, s', wevs)"
proof (cases "apply_sort (d_arrow D) cfg (sorts st) t")
  case (Pair sres ss)
  show ?thesis
  proof (cases sres)
    case (Inl e)
    then show ?thesis
      using assms(1) Pair by (intro that(1)) (auto simp: flush_def)
  next
    case (Inr bm)
    obtain batch ms where bm: "bm = (batch, ms)" by fastforce
    obtain t0 s1 where m: "monotonic (d_clock D) s = (t0, s1)" by fastforce
    obtain wres s2 wevs where wr: "write_with_retry (d_sink D) (d_clock D) (destination cfg) batch
        (sink_write_kwargs cfg (offsets st) trigger) s1 = (wres, s2, wevs)"
      by (metis prod_cases3)
    obtain t1 s3 where m2: "monotonic (d_clock D) s2 = (t1, s3)" by fastforce
    obtain cres s4 cevs where cl: "commit_loop D (tp_offsets (offsets st)) 0 COMMIT_MAX_RETRIES s3 = (cres, s4, cevs)"
      by (metis prod_cases3)
    have "sends cevs"
      using commit_loop_sends[of D _ 0 2] cl by (simp add: COMMIT_MAX_RETRIES_def)
    then obtain e where "wres = Raised e"
      using assms Pair Inr bm m wr m2 cl
      by (cases wres) (auto simp: flush_def sends_def Let_def split: option.splits prod.splits)
    then show ?thesis
      using that(2)[of batch ms ss t0 s1 e wevs] assms(1) Pair Inr bm m wr by (auto simp: flush_def)
  qed
qed

text \<open>One flush, from a state where the sink holds nothing for its ranges or what an earlier flush of them left.\<close>

lemma flush_from_flushing:
  assumes laws: "server_law G C" "kernel_law (ev_kernel E) g" "quiet_clock G K" "commit_apart G D" "delivery_laws D"
    and wired: "d_sink D = hog_sink C E as_exc as_hexc" "d_clock D = on_world K" "destination cfg = ''hoglake''"
    and "offsets st \<noteq> []" "flushing G E (flush_ranges cfg st) t M s" "flush D cfg t trigger st s = (res, st', s', evs)"
  shows "if sends evs then \<exists>n. write_outcome G E (flush_ranges cfg st) t M n (hs_world s')
    else flushing G E (flush_ranges cfg st) t M s' \<and> pending st' = pending st \<and> offsets st' = offsets st"
proof -
  note kw = flush_ranges(1)[OF wired(3)] and ne = flush_ranges(2)[OF wired(3), of st]
  have ranges: "flush_ranges cfg st \<noteq> []"
    using ne assms(9) by force
  note sorted = sorted_alike[of "d_arrow D" cfg "sorts st" t]
  have srt: "sort_indices_law (d_arrow D)" and bud: "0 < fst (retry_budget (d_sink D))"
    using assms(5) by (simp_all add: delivery_laws_def)
  show ?thesis
  proof (cases "sends evs")
    case True
    then obtain tps b where c: "ECommit tps b \<in> set evs"
      by (auto simp: sends_def)
    obtain batch ms ss n s1 s2 wevs where fl: "apply_sort (d_arrow D) cfg (sorts st) t = (Inr (batch, ms), ss)"
        "holds_same G s s1" "write_with_retry (d_sink D) (on_world K) (destination cfg) batch
           (sink_write_kwargs cfg (offsets st) trigger) s1 = (Wrote n, s2, wevs)" "holds_same G s2 s'"
      by (rule flush_ends[OF assms(11) c laws(4,3) wired(2) bud])
    note alike = sorted[OF srt fl(1)]
    have "flushing G E (flush_ranges cfg st) batch M s1"
      using flushing_same[OF assms(10) fl(2)] by (simp add: flushing_cong[OF alike, symmetric])
    from write_with_retry_flushing[OF laws(1-3) ranges this fl(3)[unfolded kw wired(1)]]
    have "write_outcome G E (flush_ranges cfg st) batch M n (hs_world s')"
      using flush_done_same[OF _ fl(4)] by simp
    then show ?thesis
      using True by (auto simp: write_outcome_cong[OF alike])
  next
    case False
    from assms(11) False have "flushing G E (flush_ranges cfg st) t M s' \<and> pending st' = pending st \<and> offsets st' = offsets st"
    proof (cases rule: flush_unsent)
      case 1
      then show ?thesis using assms(10) by simp
    next
      case (2 batch ms ss t0 s1 e wevs)
      note alike = sorted[OF srt 2(3)]
      have "flushing G E (flush_ranges cfg st) batch M s"
        using assms(10) by (simp add: flushing_cong[OF alike, symmetric])
      then have "flushing G E (flush_ranges cfg st) batch M s1"
        using flushing_between(3)[OF laws(3)] 2(4) wired(2) by simp
      from write_with_retry_flushing[OF laws(1-3) ranges this 2(5)[unfolded kw wired(1,2)]]
      show ?thesis
        using 2(1,2) by (simp add: flushing_cong[OF alike])
    qed
    then show ?thesis
      using False by simp
  qed
qed

text \<open>
  The flushes of one buffer: the one the loop triggers and, when it raised before any offset was sent,
  the final flush of the shutdown path, which finds the buffer and the offsets as they were.
\<close>

fun flush_calls ::
  "'w deps \<Rightarrow> config \<Rightarrow> string list \<Rightarrow> loop_state \<Rightarrow> 'w \<Rightarrow> loop_state \<times> 'w \<times> event list" where
  "flush_calls D cfg [] st w = (st, w, [])"
| "flush_calls D cfg (trigger # triggers) st w =
     (let (res, st1, w1, evs) = flush_pending D cfg trigger st w in
      if sends evs then (st1, w1, evs)
      else let (st2, w2, evs2) = flush_calls D cfg triggers st1 w1 in (st2, w2, evs @ evs2))"

lemma sends_append: "sends (xs @ ys) \<longleftrightarrow> sends xs \<or> sends ys"
  by (auto simp: sends_def)

lemma flush_calls_from_flushing:
  assumes laws: "server_law G C" "kernel_law (ev_kernel E) g" "quiet_clock G K" "commit_apart G D" "delivery_laws D"
    and wired: "d_sink D = hog_sink C E as_exc as_hexc" "d_clock D = on_world K" "destination cfg = ''hoglake''"
    and t: "concat_tables (d_arrow D) (pending st) = Inr t"
  shows "flush_calls D cfg triggers st s = (st', s', evs) \<Longrightarrow> offsets st \<noteq> [] \<Longrightarrow>
    flushing G E (flush_ranges cfg st) t M s \<Longrightarrow>
    (\<forall>tps b. ECommit tps b \<in> set evs \<longrightarrow> tps = tp_offsets (offsets st))
    \<and> (if sends evs then \<exists>n. write_outcome G E (flush_ranges cfg st) t M n (hs_world s')
       else flushing G E (flush_ranges cfg st) t M s')"
  using t
proof (induction triggers arbitrary: st s evs)
  case (Cons trigger triggers)
  obtain res st1 s1 evs1 where f: "flush_pending D cfg trigger st s = (res, st1, s1, evs1)"
    by (metis prod_cases4)
  then have fl: "flush D cfg t trigger st s = (res, st1, s1, evs1)"
    using Cons.prems(4) by (simp add: flush_pending_def)
  note one = flush_from_flushing[OF laws wired Cons.prems(2,3) fl]
  note tps = flush_commits[OF fl]
  show ?case
  proof (cases "sends evs1")
    case True
    then show ?thesis
      using Cons.prems(1) f one tps by auto
  next
    case False
    then obtain evs2 where rest: "flush_calls D cfg triggers st1 s1 = (st', s', evs2)" "evs = evs1 @ evs2"
      using Cons.prems(1) f by (auto split: prod.splits)
    have st1: "pending st1 = pending st" "offsets st1 = offsets st" "flushing G E (flush_ranges cfg st) t M s1"
      using one False by auto
    then have ranges: "flush_ranges cfg st1 = flush_ranges cfg st"
      by (simp add: flush_ranges_def)
    have "(\<forall>tps b. ECommit tps b \<in> set evs2 \<longrightarrow> tps = tp_offsets (offsets st))
      \<and> (if sends evs2 then \<exists>n. write_outcome G E (flush_ranges cfg st) t M n (hs_world s')
         else flushing G E (flush_ranges cfg st) t M s')"
      using Cons.IH[OF rest(1), unfolded ranges st1(1,2)] Cons.prems(2,4) st1(3) by blast
    then show ?thesis
      using tps rest(2) False by (auto simp: sends_append)
  qed
qed (simp add: sends_def)

text \<open>
  C3: what the offsets the main loop sends to Kafka rest on, when the sink is hoglake. Take the flush
  of a buffer and, when it raised before any offset was sent, the final flush of that buffer. The
  offsets sent, if any, are those of the buffer; and when any are sent, one of three things is true of
  the commits \<open>M\<close> this client has had registered before: exactly one was added, under the key
  naming these offsets, and its files hold as many rows as the buffer; or none was added and
  the server already had a receipt for that key; or none was added because no column (or no row) of
  the batch can be written. When none are sent, at most one registration was added, it is under that
  key, and its payload is still held for a replay.
\<close>

theorem offsets_follow_publication:
  assumes "server_law G C" "kernel_law (ev_kernel E) g" "quiet_clock G K" "commit_apart G D" "delivery_laws D"
    and "d_sink D = hog_sink C E as_exc as_hexc" "d_clock D = on_world K" "destination cfg = ''hoglake''"
    and "honest G (hs_world s)" "\<not> holding (flush_ranges cfg st) s" "offsets st \<noteq> []"
    and "concat_tables (d_arrow D) (pending st) = Inr t"
    and "flush_calls D cfg triggers st s = (st', s', evs)"
  defines "M \<equiv> g_mine G (hs_world s)" and "M' \<equiv> g_mine G (hs_world s')"
    and "key \<equiv> \<lambda>u. flush_key (ev_uuid5 E) [] (ev_cfg E) u (flush_ranges cfg st)"
  shows "(\<forall>tps b. ECommit tps b \<in> set evs \<longrightarrow> tps = tp_offsets (offsets st))
    \<and> (if sends evs then
         (\<exists>u fs. M' = M @ [(key u, fs)] \<and> rows_of fs = int (length (buffered st)))
         \<or> M' = M \<and> (\<exists>u. g_receipt G (hs_world s') (key u) \<noteq> None)
         \<or> M' = M \<and> skipped t
       else M' = M \<or> (\<exists>p. hs_prepared s' = Some p \<and> hs_offsets s' = Some (flush_ranges cfg st)
         \<and> payload_of E (flush_ranges cfg st) (length (buffered st)) p \<and> M' = M @ [(pl_key p, pl_files p)]))"
proof -
  have rows: "num_rows t = length (buffered st)"
    using assms(5,12) by (simp add: delivery_laws_def concat_law_def buffered_def num_rows_def)
  note run = flush_calls_from_flushing[OF assms(1-8,12,13,11) flushing_start[OF assms(9,10)], folded M_def]
  show ?thesis
  proof (cases "sends evs")
    case True
    then have "\<exists>n. write_outcome G E (flush_ranges cfg st) t M n (hs_world s')"
      using run by simp
    then have "(\<exists>u fs. M' = M @ [(key u, fs)] \<and> rows_of fs = int (length (buffered st)))
         \<or> M' = M \<and> (\<exists>u. g_receipt G (hs_world s') (key u) \<noteq> None) \<or> M' = M \<and> skipped t"
      unfolding write_outcome_def flush_done_def M'_def key_def Let_def rows by (auto split: if_splits)
    then show ?thesis
      using run True by simp
  next
    case False
    then show ?thesis
      using run flushing_at_most_once[of G E "flush_ranges cfg st" t M s'] by (simp add: M'_def rows)
  qed
qed

subsection \<open>An example run\<close>

text \<open>The answer to the first commit is lost; the retry replays the held payload and is answered.\<close>

definition demo_still :: "demo_world clock" where
  "demo_still = \<lparr>monotonic = (\<lambda>w. (0, w)), sleep = (\<lambda>d w. w), random01 = (\<lambda>w. (0, w))\<rparr>"

definition demo_hog_lake :: "demo_world hs sink" where
  "demo_hog_lake = hog_sink demo_hog_client demo_env (\<lambda>x. demo_exc) (\<lambda>e. HttpError)"

lemma demo_quiet_clock: "quiet_clock demo_ghost demo_still"
  by (simp add: quiet_clock_def demo_still_def quiet_refl)

lemma demo_replay:
  assumes "hs_prepared s = Some p" "hs_rows s = 4" "hs_offsets s = Some demo_offs"
    and "hs_world s = (n, [(pl_key p, pl_files p)])"
  shows "\<exists>s'. hog_write demo_hog_client demo_env demo_hog_batch (Some demo_offs) trigger s = (Inr 4, s')
    \<and> hs_world s' = hs_world s"
proof -
  note drp = demo_batch_facts
  show ?thesis
    using assms by (simp add: hog_write_def op_defs drp Let_def commit_prepared_def demo_commit_call_def clear_effect)
qed

lemma demo_lost_answer:
  "\<exists>s' evs k fs. write_with_retry demo_hog_lake (on_world demo_still) ''hoglake'' demo_hog_batch (Some (demo_offs, trigger))
       (hog_start (1, [])) = (Wrote 4, s', evs)
     \<and> hs_world s' = (0, [(k, fs)]) \<and> map rg_rows fs = [Some 2, Some 1, Some 1]"
proof -
  obtain p where p: "hog_write demo_hog_client demo_env demo_hog_batch (Some demo_offs) (Some trigger) (hog_start (Suc 0, []))
        = (Inl HttpError, demo_unsure p 1 (0, [(pl_key p, pl_files p)]))"
      "map rg_rows (pl_files p) = [Some 2, Some 1, Some 1]"
    using demo_first_write[of "Some trigger" 0] by (elim exE conjE)
  define s1 where "s1 = demo_unsure p 1 (0, [(pl_key p, pl_files p)])"
  define s2 where "s2 = snd (hog_reset_caches (s1\<lparr>hs_retry_after := None\<rparr>))"
  obtain s' where s': "hog_write demo_hog_client demo_env demo_hog_batch (Some demo_offs) (Some trigger) s2 = (Inr 4, s')"
      "hs_world s' = (0, [(pl_key p, pl_files p)])"
    using demo_replay[of s2 p 0 "Some trigger"]
    by (auto simp: s1_def s2_def reset_effect demo_unsure_def demo_settled_def hog_start_def)
  have first: "sink_write demo_hog_lake demo_hog_batch (Some (demo_offs, trigger)) (hog_start (Suc 0, [])) = (Inl demo_exc, s1)"
    and second: "sink_write demo_hog_lake demo_hog_batch (Some (demo_offs, trigger)) s2 = (Inr 4, s')"
    using p(1) s'(1) by (simp_all add: demo_hog_lake_def hog_sink_def s1_def)
  have clock: "monotonic (on_world demo_still) s = (0, s)" "sleep (on_world demo_still) d s = s"
      "random01 (on_world demo_still) s = (0, s)" for s d
    by (simp_all add: on_world_def demo_still_def)
  have hooks: "retry_budget demo_hog_lake = (5, 1)" "flush_deadline demo_hog_lake = Some (450, 30)"
      "\<not> permanent_failure demo_hog_lake demo_exc" "reset_caches demo_hog_lake s = snd (hog_reset_caches s)"
      "take_hint demo_hog_lake s = (hs_retry_after s, s\<lparr>hs_retry_after := None\<rparr>)" for s
    by (simp_all add: demo_hog_lake_def hog_sink_def retry_budget_def hog_retry_budget_def demo_hog_cfg_def flush_deadline_def
        hog_flush_deadline_def hoglake_flush_deadline_def budget_defs permanent_failure_def hog_is_retryable.simps
        take_hint_def hint_effect)
  have delay: "retry_delay demo_hog_lake (on_world demo_still) 0 1 s1 = (1, s1\<lparr>hs_retry_after := None\<rparr>)"
    by (simp add: retry_delay_def delay_floor_def hooks clock RETRY_AFTER_MAX_S_def s1_def demo_unsure_def
        demo_settled_def hog_start_def Let_def)
  have "fst (snd (write_with_retry demo_hog_lake (on_world demo_still) ''hoglake'' demo_hog_batch (Some (demo_offs, trigger))
      (hog_start (1, [])))) = s'" and
    "fst (write_with_retry demo_hog_lake (on_world demo_still) ''hoglake'' demo_hog_batch (Some (demo_offs, trigger))
      (hog_start (1, []))) = Wrote 4"
    by (simp_all add: write_with_retry_def hooks clock eval_nat_numeral first second delay s2_def[symmetric] Let_def)
  then show ?thesis
    using s'(2) p(2) by (metis prod.collapse)
qed

theorem flush_published_once_witness:
  "\<exists>s' k fs. write_calls (hog_sink demo_hog_client demo_env (\<lambda>x. demo_exc) (\<lambda>e. HttpError)) (on_world demo_still)
       demo_hog_batch demo_offs [''size'', ''final''] (hog_start (1, [])) = (Wrote 4, s')
     \<and> g_mine demo_ghost (hs_world s') = [(k, fs)] \<and> rows_of fs = 4"
proof -
  have rows: "num_rows demo_hog_batch = 4" "demo_offs \<noteq> []"
    by (rule demo_batch_facts)+
  have "\<not> skipped demo_hog_batch"
    by (simp add: skipped_def demo_batch_facts)
  moreover obtain s' where run: "write_calls (hog_sink demo_hog_client demo_env (\<lambda>x. demo_exc) (\<lambda>e. HttpError)) (on_world demo_still)
      demo_hog_batch demo_offs [''size'', ''final''] (hog_start (1, [])) = (Wrote 4, s')" "length (snd (hs_world s')) = 1"
    using demo_lost_answer[of "''size''"] unfolding demo_hog_lake_def by auto
  moreover have "\<not> holding demo_offs (hog_start (1, []) :: demo_world hs)"
    by (simp add: holding_def hog_start_def)
  ultimately show ?thesis
    using flush_published_once[OF demo_server demo_kernel_law[folded demo_env_simps(2)] demo_quiet_clock demo_honest _ rows(2) run(1)]
    by (auto simp: rows demo_ghost_def hog_start_def)
qed

definition demo_hog_deps :: "demo_world hs deps" where
  "demo_hog_deps = \<lparr>
     d_sink = hog_sink demo_hog_client demo_env (\<lambda>x. demo_exc) (\<lambda>e. HttpError),
     d_clock = on_world demo_still,
     d_kafka = \<lparr>consume = (\<lambda>k timeout s. (Inr [], s)),
       commit = (\<lambda>tps s. (None, s)), assignment = (\<lambda>s. None), position = (\<lambda>s tps. None),
       committed = (\<lambda>s tps. None), lag_admin = (\<lambda>s. None)\<rparr>,
     d_arrow = demo_arrow, d_codec = demo_codec, d_include = (\<lambda>s. None), d_shutdown = (\<lambda>s. False)\<rparr>"

definition demo_hog_loop :: loop_state where
  "demo_hog_loop = (initial_state 0 health_default)\<lparr>pending := [demo_hog_batch], offsets := [((''events'', 0), (0, 3))]\<rparr>"

lemma demo_hog_deps_simps:
  "d_sink demo_hog_deps = hog_sink demo_hog_client demo_env (\<lambda>x. demo_exc) (\<lambda>e. HttpError)"
  "d_clock demo_hog_deps = on_world demo_still" "d_arrow demo_hog_deps = demo_arrow"
  "commit (d_kafka demo_hog_deps) tps s = (None, s)" "monotonic (on_world demo_still) s = (0, s)"
  by (simp_all add: demo_hog_deps_def on_world_def demo_still_def)

lemma demo_hog_flush:
  "\<exists>res st' s' evs. flush demo_hog_deps demo_hog_cfg demo_hog_batch ''size'' demo_hog_loop (hog_start (1, []))
       = (res, st', s', evs) \<and> ECommit [TopicPartition ''events'' 0 4] True \<in> set evs
     \<and> length (snd (hs_world s')) = 1"
proof -
  have kw: "sink_write_kwargs demo_hog_cfg (offsets demo_hog_loop) ''size'' = Some (demo_offs, ''size'')"
    by (simp add: sink_write_kwargs_def demo_hog_loop_def demo_offs_def)
  have tps: "tp_offsets (offsets demo_hog_loop) = [TopicPartition ''events'' 0 4]"
    by (simp add: tp_offsets_def demo_hog_loop_def)
  obtain s1 wevs where wr: "write_with_retry (hog_sink demo_hog_client demo_env (\<lambda>x. demo_exc) (\<lambda>e. HttpError)) (on_world demo_still)
      ''hoglake'' demo_hog_batch (Some (demo_offs, ''size'')) (hog_start (1, [])) = (Wrote 4, s1, wevs)"
      "length (snd (hs_world s1)) = 1"
    using demo_lost_answer[of "''size''"] unfolding demo_hog_lake_def by auto
  have cl: "commit_loop demo_hog_deps tps 0 COMMIT_MAX_RETRIES s = (None, s, [ECommit tps True])" for tps s
    by (simp add: COMMIT_MAX_RETRIES_def eval_nat_numeral demo_hog_deps_simps)
  show ?thesis
    using wr(2) by (simp add: flush_def apply_sort_def demo_hog_deps_simps kw wr(1)[unfolded One_nat_def] tps cl Let_def)
qed

theorem offsets_follow_publication_witness:
  "\<exists>st' s' evs k fs. flush_calls demo_hog_deps demo_hog_cfg [''size'', ''final''] demo_hog_loop (hog_start (1, []))
       = (st', s', evs)
     \<and> ECommit [TopicPartition ''events'' 0 4] True \<in> set evs
     \<and> g_mine demo_ghost (hs_world s') = [(k, fs)] \<and> rows_of fs = 4"
proof -
  have pend: "concat_tables (d_arrow demo_hog_deps) (pending demo_hog_loop) = Inr demo_hog_batch"
    by (simp add: demo_hog_deps_simps demo_arrow_def demo_hog_loop_def demo_hog_batch_def)
  obtain res st' s' evs where fl: "flush demo_hog_deps demo_hog_cfg demo_hog_batch ''size'' demo_hog_loop (hog_start (1, []))
      = (res, st', s', evs)" "ECommit [TopicPartition ''events'' 0 4] True \<in> set evs" "length (snd (hs_world s')) = 1"
    using demo_hog_flush by blast
  then have sends: "sends evs"
    by (auto simp: sends_def)
  have run: "flush_calls demo_hog_deps demo_hog_cfg [''size'', ''final''] demo_hog_loop (hog_start (1, [])) = (st', s', evs)"
    using fl(1) pend sends by (simp add: flush_pending_def)
  have laws: "delivery_laws demo_hog_deps" "commit_apart demo_ghost demo_hog_deps"
    using demo_arrow_laws
    by (simp_all add: delivery_laws_def demo_hog_deps_simps commit_apart_def same_refl hog_sink_def retry_budget_def
        hog_retry_budget_def demo_hog_cfg_def)
  have start: "\<not> holding (flush_ranges demo_hog_cfg demo_hog_loop) (hog_start (1, []) :: demo_world hs)"
      "offsets demo_hog_loop \<noteq> []" "length (buffered demo_hog_loop) = 4"
    by (simp_all add: holding_def hog_start_def demo_hog_loop_def buffered_def demo_hog_batch_def)
  show ?thesis
    using offsets_follow_publication[OF demo_server demo_kernel_law[folded demo_env_simps(2)] demo_quiet_clock laws(2,1)
        demo_hog_deps_simps(1,2) demo_env_simps(4) demo_honest start(1,2) pend run] run fl(2,3) sends
    by (auto simp: start(3) demo_ghost_def hog_start_def)
qed

end
