(* ===== verification/DropSpec.thy ===== *)
theory DropSpec
  imports ConfigLoad "HOL-Library.List_Lexorder" "HOL-Library.Char_ord" "HOL-Library.Product_Lexorder"
begin

text \<open>
  The pure part of partition retention (\<open>tools/ducklake_maintenance.py\<close>, \<open>drop-partitions\<close> and
  \<open>list-droppable-partitions\<close>): the partition spec of a table and the names of its keys, the tuples that
  name one leaf, the instant a leaf starts at, the cutoff, and the classification of a table's files into
  leaves. An instant is the number of microseconds since the start of year 1 in UTC, as in Python's proleptic
  calendar. The ISO 8601 parser and the clock are parameters.
\<close>

subsection \<open>Errors\<close>

text \<open>The reasons of \<open>_DropAbort\<close>, one constructor per \<open>raise\<close>; its sentence is not modelled.\<close>

datatype abort_reason =
    BadTableName | TableRows nat | NoLiveSpec | ManyLiveSpecs nat | KeyIndexGap | UnsupportedTransform string
  | NamelessKey int | NoTimeKey string | AmbiguousAddress string
  | ForeignKey string | NotStringOrInt string | NotAnInteger string | IllegalValue string
  | MissingKeys "string list" | MalformedPart string | RepeatedKey string
  | MisalignedCutoff | YoungCutoff | BothCutoffs | NotIso string | NoCutoff
  | EmptyCatalog | UnsafeState string | Unguarded | CursorLag nat
  | OldSpecFiles nat | TooMuchRot int | UnageableFiles nat | OldSpecLeaf nat
  | NotReadCommitted | VersionPin | LiveDeleteVectors nat | UpdateMissed nat | StatsRefused nat
  | AttemptsExceeded | OutOfTime | LockExceeded
  | BadManifest | OneLeafSource | ManifestCutoff | OtherTable | OtherSpec | NotBelowCutoff

text \<open>Why a leaf is skipped inside its transaction (\<open>_LeafSkip\<close>).\<close>

datatype skip_reason = CursorAdvanced | BecameIneligible nat | LeafVanished | CursorRewound nat

text \<open>
  An error of psycopg: its SQLSTATE, whether its class is \<open>OperationalError\<close> or \<open>InterfaceError\<close>, and
  whether the session is gone after it.
\<close>

record pg_error =
  sqlstate :: "string option"
  connection_class :: bool
  session_lost :: bool

text \<open>The exceptions that leave a function; \<open>PyError\<close> names a class of Python's own.\<close>

datatype drop_exn =
    DropAbort abort_reason
  | LeafOversized nat
  | LeafSkip skip_reason
  | LockContended
  | PgError pg_error
  | PyError string

text \<open>\<open>except _DropAbort\<close> also catches \<open>_LeafOversized\<close>, its subclass.\<close>

fun is_abort :: "drop_exn \<Rightarrow> bool" where
  "is_abort (DropAbort r) = True"
| "is_abort (LeafOversized n) = True"
| "is_abort (LeafSkip r) = False"
| "is_abort LockContended = False"
| "is_abort (PgError e) = False"
| "is_abort (PyError c) = False"

subsection \<open>Partition specs\<close>

definition TIME_TRANSFORMS :: "string list" where
  "TIME_TRANSFORMS = [''year'', ''month'', ''day'', ''hour'']"

definition SUPPORTED_TRANSFORMS :: "string list" where
  "SUPPORTED_TRANSFORMS = ''identity'' # TIME_TRANSFORMS"

record partition_key =
  key_index :: int
  key_column_id :: int
  key_transform :: string
  key_column :: "string option"

record partition_spec =
  spec_partition_id :: int
  spec_keys :: "partition_key list"

definition grain :: "partition_spec \<Rightarrow> string" where
  "grain spec = (if \<exists>k \<in> set (spec_keys spec). key_transform k = ''hour'' then ''hour'' else ''day'')"

text \<open>\<open>str(None)\<close> is the text \<open>None\<close>.\<close>

definition address :: "partition_key \<Rightarrow> string" where
  "address k =
     (if key_transform k = ''identity'' then (case key_column k of None \<Rightarrow> ''None'' | Some c \<Rightarrow> c)
      else key_transform k)"

text \<open>The checks of \<open>_resolve_live_spec\<close> on the rows of the spec's keys, in the order of the code.\<close>

definition nameless :: "partition_key \<Rightarrow> bool" where
  "nameless k \<longleftrightarrow> key_transform k = ''identity'' \<and> (key_column k = None \<or> key_column k = Some [])"

fun check_keys :: "partition_key list \<Rightarrow> drop_exn + unit" where
  "check_keys [] = Inr ()"
| "check_keys (k # ks) =
     (if key_transform k \<notin> set SUPPORTED_TRANSFORMS then Inl (DropAbort (UnsupportedTransform (key_transform k)))
      else if nameless k then Inl (DropAbort (NamelessKey (key_index k)))
      else check_keys ks)"

fun check_times :: "partition_key list \<Rightarrow> string list \<Rightarrow> drop_exn + unit" where
  "check_times ks [] = Inr ()"
| "check_times ks (t # ts) =
     (if t \<in> key_transform ` set ks then check_times ks ts else Inl (DropAbort (NoTimeKey t)))"

fun check_addresses :: "partition_key list \<Rightarrow> string set \<Rightarrow> drop_exn + unit" where
  "check_addresses [] seen = Inr ()"
| "check_addresses (k # ks) seen =
     (if address k \<in> seen then Inl (DropAbort (AmbiguousAddress (address k)))
      else check_addresses ks (insert (address k) seen))"

definition check_spec :: "int \<Rightarrow> partition_key list \<Rightarrow> drop_exn + partition_spec" where
  "check_spec pid ks =
     and_then (guard (set (map key_index ks) = set (map int [0..<length ks])) (DropAbort KeyIndexGap)) (\<lambda>_.
     and_then (check_keys ks) (\<lambda>_.
     and_then (check_times ks [''year'', ''month'', ''day'']) (\<lambda>_.
     and_then (check_addresses ks {}) (\<lambda>_.
     Inr \<lparr> spec_partition_id = pid, spec_keys = ks \<rparr>))))"

text \<open>What an accepted spec satisfies.\<close>

definition spec_ok :: "partition_spec \<Rightarrow> bool" where
  "spec_ok spec \<longleftrightarrow>
     distinct (map key_index (spec_keys spec))
   \<and> set (map key_index (spec_keys spec)) = {0..<int (length (spec_keys spec))}
   \<and> distinct (map address (spec_keys spec))
   \<and> {''year'', ''month'', ''day''} \<subseteq> key_transform ` set (spec_keys spec)
   \<and> (\<forall>k \<in> set (spec_keys spec). key_transform k \<in> set SUPPORTED_TRANSFORMS \<and> \<not> nameless k)"

lemma check_keys_Inr:
  "check_keys ks = Inr u \<longleftrightarrow> (\<forall>k \<in> set ks. key_transform k \<in> set SUPPORTED_TRANSFORMS \<and> \<not> nameless k)"
  by (induction ks) auto

lemma check_times_Inr: "check_times ks ts = Inr u \<longleftrightarrow> set ts \<subseteq> key_transform ` set ks"
  by (induction ts) auto

lemma check_addresses_Inr:
  "check_addresses ks seen = Inr u \<longleftrightarrow> distinct (map address ks) \<and> address ` set ks \<inter> seen = {}"
  by (induction ks arbitrary: seen) auto

lemma check_spec_ok:
  assumes "check_spec pid ks = Inr spec"
  shows "spec_ok spec" and "spec_partition_id spec = pid" and "spec_keys spec = ks"
proof -
  from assms have s: "spec = \<lparr> spec_partition_id = pid, spec_keys = ks \<rparr>"
    and idx: "set (map key_index ks) = set (map int [0..<length ks])"
    and rest: "check_keys ks = Inr ()" "check_times ks [''year'', ''month'', ''day''] = Inr ()"
      "check_addresses ks {} = Inr ()"
    by (auto simp: check_spec_def and_then_Inr)
  have "card (set (map key_index ks)) = length ks"
    unfolding idx by (subst distinct_card) (auto simp: distinct_map)
  then have "distinct (map key_index ks)" by (intro card_distinct) simp
  moreover have "set (map key_index ks) = {0..<int (length ks)}"
    unfolding idx by (simp add: image_int_atLeastLessThan)
  ultimately show "spec_ok spec"
    using rest(1,3) rest(2) [unfolded check_times_Inr]
    by (simp add: s spec_ok_def check_keys_Inr check_addresses_Inr)
  show "spec_partition_id spec = pid" "spec_keys spec = ks" by (simp_all add: s)
qed

subsection \<open>Leaf tuples\<close>

text \<open>\<open>by_name\<close>, a dict comprehension: a later key of the same address would replace an earlier one.\<close>

definition by_name :: "partition_spec \<Rightarrow> (string, partition_key) dict" where
  "by_name spec = fold (\<lambda>k d. AList.update (address k) k d) (spec_keys spec) []"

text \<open>\<open>re.fullmatch(r"-?[0-9]{1,9}", value)\<close> and \<open>re.search(r"[,\\s=]", value)\<close>.\<close>

definition time_text :: "string \<Rightarrow> bool" where
  "time_text v =
     (let ds = (if v \<noteq> [] \<and> hd v = CHR ''-'' then tl v else v)
      in ds \<noteq> [] \<and> length ds \<le> 9 \<and> (\<forall>c \<in> set ds. is_digit c))"

definition unsafe_text :: "string \<Rightarrow> bool" where
  "unsafe_text v \<longleftrightarrow> (\<exists>c \<in> set v. c = CHR '','' \<or> c = CHR ''='' \<or> is_space c)"

text \<open>One value of the mapping: an \<open>int\<close> that is no \<open>bool\<close> is rendered, anything else but a \<open>str\<close> is refused.\<close>

definition tuple_value :: "partition_key \<Rightarrow> string \<Rightarrow> pyval \<Rightarrow> drop_exn + string" where
  "tuple_value k name v =
     (case (case v of PInt i \<Rightarrow> PStr (str_int i) | w \<Rightarrow> w) of
        PStr s \<Rightarrow>
          if key_transform k \<in> set TIME_TRANSFORMS then
            (if time_text s then Inr s else Inl (DropAbort (NotAnInteger name)))
          else if s = [] \<or> unsafe_text s then Inl (DropAbort (IllegalValue name))
          else Inr s
      | _ \<Rightarrow> Inl (DropAbort (NotStringOrInt name)))"

fun tuple_items ::
  "partition_spec \<Rightarrow> (string, pyval) dict \<Rightarrow> (int, string) dict \<Rightarrow> drop_exn + (int, string) dict" where
  "tuple_items spec [] out = Inr out"
| "tuple_items spec ((name, v) # rest) out =
     (case map_of (by_name spec) name of
        None \<Rightarrow> Inl (DropAbort (ForeignKey name))
      | Some k \<Rightarrow>
          and_then (tuple_value k name v) (\<lambda>s. tuple_items spec rest (AList.update (key_index k) s out)))"

definition tuple_from_values :: "partition_spec \<Rightarrow> (string, pyval) dict \<Rightarrow> drop_exn + (int, string) dict" where
  "tuple_from_values spec vs =
     and_then (tuple_items spec vs []) (\<lambda>out.
       let missing = map fst (filter (\<lambda>(name, k). key_index k \<notin> fst ` set out) (by_name spec))
       in if missing \<noteq> [] then Inl (DropAbort (MissingKeys missing)) else Inr out)"

fun tuple_parts :: "string list \<Rightarrow> (string, pyval) dict \<Rightarrow> drop_exn + (string, pyval) dict" where
  "tuple_parts [] d = Inr d"
| "tuple_parts (part_text # rest) d =
     (let name = strip (fst (partition_on (CHR ''='') part_text)) in
      if CHR ''='' \<notin> set part_text \<or> name = [] then Inl (DropAbort (MalformedPart part_text))
      else if name \<in> fst ` set d then Inl (DropAbort (RepeatedKey name))
      else tuple_parts rest (AList.update name (PStr (snd (partition_on (CHR ''='') part_text))) d))"

definition parse_partition_tuple :: "partition_spec \<Rightarrow> string \<Rightarrow> drop_exn + (int, string) dict" where
  "parse_partition_tuple spec s =
     and_then (tuple_parts (split_on (CHR '','') s) []) (tuple_from_values spec)"

text \<open>\<open>_canonical_leaf_str\<close>; \<open>get\<close> looks a key index up, and every key of the spec has a value where it is called.\<close>

definition canonical_leaf_str :: "partition_spec \<Rightarrow> (int \<Rightarrow> string) \<Rightarrow> string" where
  "canonical_leaf_str spec get =
     join '','' (map (\<lambda>k. address k @ ''='' @ get (key_index k)) (spec_keys spec))"

subsection \<open>Reading a tuple back\<close>

text \<open>A value the tuple syntax can carry for a key.\<close>

definition value_ok :: "partition_key \<Rightarrow> string \<Rightarrow> bool" where
  "value_ok k s \<longleftrightarrow>
     (if key_transform k \<in> set TIME_TRANSFORMS then time_text s else s \<noteq> [] \<and> \<not> unsafe_text s)"

lemma tuple_value_str: "tuple_value k name (PStr s) = Inr t \<longleftrightarrow> value_ok k s \<and> t = s"
  by (auto simp: tuple_value_def value_ok_def)

lemma tuple_value_ok: "tuple_value k name v = Inr s \<Longrightarrow> value_ok k s"
  by (auto simp: tuple_value_def value_ok_def split: pyval.splits if_splits)

lemma fold_update_keys:
  "fst ` set (fold (\<lambda>k d. AList.update (f k) (g k) d) ks d) = fst ` set d \<union> f ` set ks"
  by (induction ks arbitrary: d) auto

lemma fold_update_fresh:
  assumes "distinct (map f ks)" and "f ` set ks \<inter> fst ` set d = {}"
  shows "fold (\<lambda>k d. AList.update (f k) (g k) d) ks d = d @ map (\<lambda>k. (f k, g k)) ks"
  using assms
proof (induction ks arbitrary: d)
  case (Cons k ks)
  have upd: "AList.update (f k) (g k) d = d @ [(f k, g k)]"
    using Cons.prems(2) by (induction d) auto
  have "fold (\<lambda>k d. AList.update (f k) (g k) d) ks (d @ [(f k, g k)])
      = (d @ [(f k, g k)]) @ map (\<lambda>k. (f k, g k)) ks"
    by (rule Cons.IH) (use Cons.prems in auto)
  then show ?case by (simp add: upd)
qed simp

lemma by_name_list:
  "distinct (map address (spec_keys spec)) \<Longrightarrow> by_name spec = map (\<lambda>k. (address k, k)) (spec_keys spec)"
  unfolding by_name_def by (subst fold_update_fresh) auto

lemma map_of_by_name:
  assumes "distinct (map address (spec_keys spec))"
  shows "map_of (by_name spec) name = Some k \<longleftrightarrow> k \<in> set (spec_keys spec) \<and> address k = name"
  using assms by (auto simp: by_name_list map_of_eq_Some_iff distinct_map comp_def)

lemma tuple_items_out:
  assumes "spec_ok spec" and "tuple_items spec vs out = Inr res"
    and "\<forall>k \<in> set (spec_keys spec). \<forall>s. map_of out (key_index k) = Some s \<longrightarrow> value_ok k s"
    and "fst ` set out \<subseteq> key_index ` set (spec_keys spec)" and "distinct (map fst out)"
  shows "(\<forall>k \<in> set (spec_keys spec). \<forall>s. map_of res (key_index k) = Some s \<longrightarrow> value_ok k s)
    \<and> fst ` set res \<subseteq> key_index ` set (spec_keys spec) \<and> distinct (map fst res)"
  using assms(2-5)
proof (induction vs arbitrary: out)
  case (Cons entry rest)
  obtain name v where entry: "entry = (name, v)" by (cases entry)
  from Cons.prems(1) obtain k where k: "map_of (by_name spec) name = Some k"
    by (simp add: entry split: option.splits)
  from Cons.prems(1) obtain s where s: "tuple_value k name v = Inr s"
    and rest: "tuple_items spec rest (AList.update (key_index k) s out) = Inr res"
    by (auto simp: entry k and_then_Inr)
  have keys: "k \<in> set (spec_keys spec)"
    using k \<open>spec_ok spec\<close> by (simp add: spec_ok_def map_of_by_name)
  have same: "k' = k" if "k' \<in> set (spec_keys spec)" "key_index k' = key_index k" for k'
    using that keys \<open>spec_ok spec\<close> by (auto simp: spec_ok_def distinct_map dest: inj_onD)
  show ?case
  proof (rule Cons.IH [OF rest])
    show "\<forall>k' \<in> set (spec_keys spec). \<forall>t. map_of (AList.update (key_index k) s out) (key_index k') = Some t
        \<longrightarrow> value_ok k' t"
      using Cons.prems(2) tuple_value_ok [OF s] by (auto dest: same)
    show "fst ` set (AList.update (key_index k) s out) \<subseteq> key_index ` set (spec_keys spec)"
      using Cons.prems(3) keys by auto
    show "distinct (map fst (AList.update (key_index k) s out))"
      using Cons.prems(4) by (rule distinct_update)
  qed
qed simp

text \<open>An accepted tuple has exactly one admissible value for every key of the spec.\<close>

lemma tuple_from_values_ok:
  assumes "spec_ok spec" and "tuple_from_values spec vs = Inr out"
  shows "fst ` set out = key_index ` set (spec_keys spec)" and "distinct (map fst out)"
    and "k \<in> set (spec_keys spec) \<Longrightarrow> \<exists>s. map_of out (key_index k) = Some s \<and> value_ok k s"
proof -
  from assms(2) have items: "tuple_items spec vs [] = Inr out"
    and none: "filter (\<lambda>(name, k). key_index k \<notin> fst ` set out) (by_name spec) = []"
    by (auto simp: tuple_from_values_def and_then_Inr Let_def split: if_splits)
  have all: "key_index k \<in> fst ` set out" if "k \<in> set (spec_keys spec)" for k
  proof -
    have "(address k, k) \<in> set (by_name spec)"
      using that assms(1) by (simp add: spec_ok_def by_name_list)
    with none show ?thesis by (auto simp: filter_empty_conv)
  qed
  have "(\<forall>k \<in> set (spec_keys spec). \<forall>s. map_of out (key_index k) = Some s \<longrightarrow> value_ok k s)
    \<and> fst ` set out \<subseteq> key_index ` set (spec_keys spec) \<and> distinct (map fst out)"
    by (rule tuple_items_out [OF assms(1) items]) simp_all
  then have vals: "\<And>k s. k \<in> set (spec_keys spec) \<Longrightarrow> map_of out (key_index k) = Some s \<Longrightarrow> value_ok k s"
    and sub: "fst ` set out \<subseteq> key_index ` set (spec_keys spec)" and dist: "distinct (map fst out)"
    by blast+
  show keys: "fst ` set out = key_index ` set (spec_keys spec)"
    using sub all by (intro equalityI subsetI) auto
  show "distinct (map fst out)" by (rule dist)
  show "\<exists>s. map_of out (key_index k) = Some s \<and> value_ok k s" if "k \<in> set (spec_keys spec)"
  proof -
    have "map_of out (key_index k) \<noteq> None" using all [OF that] by (simp add: map_of_eq_None_iff)
    then obtain s where "map_of out (key_index k) = Some s" by blast
    with vals [OF that this] show ?thesis by blast
  qed
qed

text \<open>An address the tuple syntax can carry: the code splits at commas and the first \<open>=\<close>, and strips names.\<close>

definition address_ok :: "string \<Rightarrow> bool" where
  "address_ok a \<longleftrightarrow> a \<noteq> [] \<and> strip a = a \<and> CHR '','' \<notin> set a \<and> CHR ''='' \<notin> set a"

lemma time_text_plain: "time_text s \<Longrightarrow> s \<noteq> [] \<and> \<not> unsafe_text s"
proof -
  assume t: "time_text s"
  have "is_digit c \<or> c = CHR ''-''" if "c \<in> set s" for c
    using t that by (cases s) (auto simp: time_text_def split: if_splits)
  then have "c \<noteq> CHR '','' \<and> c \<noteq> CHR ''='' \<and> \<not> is_space c" if "c \<in> set s" for c
    using that by (auto simp: is_digit_def is_space_def code_def Let_def) fastforce+
  then show ?thesis using t by (auto simp: unsafe_text_def time_text_def)
qed

lemma value_ok_plain: "value_ok k s \<Longrightarrow> s \<noteq> [] \<and> \<not> unsafe_text s"
  by (auto simp: value_ok_def dest: time_text_plain split: if_splits)

lemma partition_on_first:
  "c \<notin> set a \<Longrightarrow> partition_on c (a @ c # v) = (a, v)"
  by (induction a) (auto simp: partition_on_def)

lemma tuple_parts_named:
  assumes "\<forall>k \<in> set ks. address_ok (address k)" and "distinct (map address ks)"
    and "address ` set ks \<inter> fst ` set d = {}"
  shows "tuple_parts (map (\<lambda>k. address k @ ''='' @ get (key_index k)) ks) d
    = Inr (d @ map (\<lambda>k. (address k, PStr (get (key_index k)))) ks)"
  using assms
proof (induction ks arbitrary: d)
  case (Cons k ks)
  have part: "partition_on (CHR ''='') (address k @ ''='' @ get (key_index k)) = (address k, get (key_index k))"
    using Cons.prems(1) by (simp add: address_ok_def partition_on_first)
  have upd: "AList.update (address k) v d = d @ [(address k, v)]" for v :: pyval
    using Cons.prems(3) by (induction d) auto
  have "tuple_parts (map (\<lambda>k. address k @ ''='' @ get (key_index k)) ks) (d @ [(address k, PStr (get (key_index k)))])
      = Inr ((d @ [(address k, PStr (get (key_index k)))]) @ map (\<lambda>k. (address k, PStr (get (key_index k)))) ks)"
    by (rule Cons.IH) (use Cons.prems in auto)
  with part upd Cons.prems show ?case
    by (auto simp: Let_def address_ok_def)
qed simp

lemma tuple_items_named:
  assumes "spec_ok spec" and "set ks \<subseteq> set (spec_keys spec)" and "distinct (map key_index ks)"
    and "\<forall>k \<in> set ks. value_ok k (get (key_index k))" and "key_index ` set ks \<inter> fst ` set out = {}"
  shows "tuple_items spec (map (\<lambda>k. (address k, PStr (get (key_index k)))) ks) out
    = Inr (out @ map (\<lambda>k. (key_index k, get (key_index k))) ks)"
  using assms(2-5)
proof (induction ks arbitrary: out)
  case (Cons k ks)
  have k: "map_of (by_name spec) (address k) = Some k"
    using Cons.prems(1) assms(1) by (simp add: spec_ok_def map_of_by_name)
  have v: "tuple_value k (address k) (PStr (get (key_index k))) = Inr (get (key_index k))"
    using Cons.prems(3) by (simp add: tuple_value_str)
  have upd: "AList.update (key_index k) v out = out @ [(key_index k, v)]" for v
    using Cons.prems(4) by (induction out) auto
  have "tuple_items spec (map (\<lambda>k. (address k, PStr (get (key_index k)))) ks) (out @ [(key_index k, get (key_index k))])
      = Inr ((out @ [(key_index k, get (key_index k))]) @ map (\<lambda>k. (key_index k, get (key_index k))) ks)"
    by (rule Cons.IH) (use Cons.prems in auto)
  with k v upd show ?case by simp
qed simp

lemma tuple_from_named:
  assumes "spec_ok spec" and "\<forall>k \<in> set (spec_keys spec). value_ok k (get (key_index k))"
  shows "tuple_from_values spec (map (\<lambda>k. (address k, PStr (get (key_index k)))) (spec_keys spec))
    = Inr (map (\<lambda>k. (key_index k, get (key_index k))) (spec_keys spec))"
proof -
  have "tuple_items spec (map (\<lambda>k. (address k, PStr (get (key_index k)))) (spec_keys spec)) []
      = Inr ([] @ map (\<lambda>k. (key_index k, get (key_index k))) (spec_keys spec))"
    by (rule tuple_items_named) (use assms in \<open>auto simp: spec_ok_def\<close>)
  moreover have "distinct (map address (spec_keys spec))" using assms(1) by (simp add: spec_ok_def)
  ultimately show ?thesis
    by (simp add: tuple_from_values_def by_name_list filter_empty_conv comp_def image_image)
qed

text \<open>
  C0: The text of a leaf reads back to the leaf. For a spec the code accepts, whose column names hold no comma,
  no \<open>=\<close> and no surrounding white space, and any admissible values, parsing the canonical text gives exactly
  the value of every key; and whatever text is accepted gives one admissible value to every key and nothing else.
\<close>

lemma canonical_reads_back:
  assumes spec: "spec_ok spec"
    and plain: "\<forall>k \<in> set (spec_keys spec). address_ok (address k)"
    and ok: "\<forall>k \<in> set (spec_keys spec). value_ok k (get (key_index k))"
  shows "parse_partition_tuple spec (canonical_leaf_str spec get)
    = Inr (map (\<lambda>k. (key_index k, get (key_index k))) (spec_keys spec))"
proof -
  have "spec_keys spec \<noteq> []" using spec by (auto simp: spec_ok_def)
  moreover have "CHR '','' \<notin> set (address k @ ''='' @ get (key_index k))" if "k \<in> set (spec_keys spec)" for k
    using plain that value_ok_plain [OF ok [rule_format, OF that]] by (auto simp: address_ok_def unsafe_text_def)
  ultimately have split: "split_on (CHR '','') (canonical_leaf_str spec get)
      = map (\<lambda>k. address k @ ''='' @ get (key_index k)) (spec_keys spec)"
    unfolding canonical_leaf_str_def by (intro split_on_join) auto
  have "tuple_parts (map (\<lambda>k. address k @ ''='' @ get (key_index k)) (spec_keys spec)) []
      = Inr ([] @ map (\<lambda>k. (address k, PStr (get (key_index k)))) (spec_keys spec))"
    by (rule tuple_parts_named) (use plain spec in \<open>auto simp: spec_ok_def\<close>)
  then show ?thesis
    using tuple_from_named [OF spec, of get] ok by (simp add: parse_partition_tuple_def split)
qed

text \<open>
  C19: The text of a leaf reads back to the leaf. For a spec the code accepts, whose column names hold no comma,
  no \<open>=\<close> and no surrounding white space, and any admissible values, parsing the canonical text gives exactly
  the value of every key; and whatever text is accepted gives one admissible value to every key and nothing else.
\<close>

theorem leaf_text_reads_back:
  assumes "check_spec pid ks = Inr spec"
    and "\<forall>k \<in> set ks. address_ok (address k)"
  shows "((\<forall>k \<in> set ks. value_ok k (get (key_index k))) \<longrightarrow>
      parse_partition_tuple spec (canonical_leaf_str spec get) = Inr (map (\<lambda>k. (key_index k, get (key_index k))) ks))
    \<and> (parse_partition_tuple spec s = Inr out \<longrightarrow>
      distinct (map fst out) \<and> fst ` set out = key_index ` set ks
      \<and> (\<forall>k \<in> set ks. \<exists>t. map_of out (key_index k) = Some t \<and> value_ok k t))"
proof (intro conjI impI)
  note spec = check_spec_ok [OF assms(1)]
  show "parse_partition_tuple spec (canonical_leaf_str spec get) = Inr (map (\<lambda>k. (key_index k, get (key_index k))) ks)"
    if "\<forall>k \<in> set ks. value_ok k (get (key_index k))"
    using canonical_reads_back [OF spec(1), of get] assms(2) that by (simp add: spec(3))
  assume "parse_partition_tuple spec s = Inr out"
  then obtain vs where "tuple_from_values spec vs = Inr out"
    by (auto simp: parse_partition_tuple_def and_then_Inr)
  from tuple_from_values_ok [OF spec(1) this]
  show "distinct (map fst out)" "fst ` set out = key_index ` set ks"
    "\<forall>k \<in> set ks. \<exists>t. map_of out (key_index k) = Some t \<and> value_ok k t"
    by (simp_all add: spec(3))
qed

definition demo_keys :: "partition_key list" where
  "demo_keys =
     [\<lparr> key_index = 0, key_column_id = 1, key_transform = ''identity'', key_column = Some ''team_id'' \<rparr>,
      \<lparr> key_index = 1, key_column_id = 2, key_transform = ''year'', key_column = Some ''ts'' \<rparr>,
      \<lparr> key_index = 2, key_column_id = 2, key_transform = ''month'', key_column = Some ''ts'' \<rparr>,
      \<lparr> key_index = 3, key_column_id = 2, key_transform = ''day'', key_column = Some ''ts'' \<rparr>]"

definition demo_spec :: partition_spec where
  "demo_spec = \<lparr> spec_partition_id = 5, spec_keys = demo_keys \<rparr>"

definition demo_leaf :: "int \<Rightarrow> string" where
  "demo_leaf i = (if i = 0 then ''2'' else if i = 1 then ''2026'' else if i = 2 then ''8'' else ''1'')"

lemma demo_spec_checks: "check_spec 5 demo_keys = Inr demo_spec"
  by code_simp

theorem leaf_text_reads_back_witness:
  "parse_partition_tuple demo_spec (canonical_leaf_str demo_spec demo_leaf)
     = Inr (map (\<lambda>k. (key_index k, demo_leaf (key_index k))) demo_keys)"
proof -
  have plain: "\<forall>k \<in> set demo_keys. address_ok (address k)" by code_simp
  have vals: "\<forall>k \<in> set demo_keys. value_ok k (demo_leaf (key_index k))" by code_simp
  show ?thesis
    using leaf_text_reads_back [OF demo_spec_checks plain, of demo_leaf] vals by blast
qed

subsection \<open>Instants\<close>

definition SECOND :: int where
  "SECOND = 1000000"

definition HOUR :: int where
  "HOUR = 3600 * SECOND"

definition DAY :: int where
  "DAY = 24 * HOUR"

text \<open>The calendar arithmetic of the standard library's \<open>datetime\<close>.\<close>

definition is_leap :: "int \<Rightarrow> bool" where
  "is_leap y \<longleftrightarrow> y mod 4 = 0 \<and> (y mod 100 \<noteq> 0 \<or> y mod 400 = 0)"

definition days_before_year :: "int \<Rightarrow> int" where
  "days_before_year y = (y - 1) * 365 + (y - 1) div 4 - (y - 1) div 100 + (y - 1) div 400"

definition month_lengths :: "int \<Rightarrow> int list" where
  "month_lengths y = [31, if is_leap y then 29 else 28, 31, 30, 31, 30, 31, 31, 30, 31, 30, 31]"

definition days_in_month :: "int \<Rightarrow> int \<Rightarrow> int" where
  "days_in_month y m = month_lengths y ! nat (m - 1)"

definition days_before_month :: "int \<Rightarrow> int \<Rightarrow> int" where
  "days_before_month y m = sum_list (take (nat (m - 1)) (month_lengths y))"

definition instant_of :: "int \<Rightarrow> int \<Rightarrow> int \<Rightarrow> int \<Rightarrow> int" where
  "instant_of y m d h = (days_before_year y + days_before_month y m + d - 1) * DAY + h * HOUR"

definition MAX_INSTANT :: int where
  "MAX_INSTANT = days_before_year 10000 * DAY"

text \<open>Arithmetic that leaves the years 1 to 9999 raises.\<close>

definition in_calendar :: "int \<Rightarrow> drop_exn + int" where
  "in_calendar t = (if 0 \<le> t \<and> t < MAX_INSTANT then Inr t else Inl (PyError ''OverflowError''))"

definition fits_c_int :: "int \<Rightarrow> bool" where
  "fits_c_int i \<longleftrightarrow> - (2 ^ 31) \<le> i \<and> i < 2 ^ 31"

definition in_range :: "int \<Rightarrow> int \<Rightarrow> int \<Rightarrow> int \<Rightarrow> bool" where
  "in_range y m d h \<longleftrightarrow> 1 \<le> y \<and> y \<le> 9999 \<and> 1 \<le> m \<and> m \<le> 12
     \<and> 1 \<le> d \<and> d \<le> days_in_month y m \<and> 0 \<le> h \<and> h \<le> 23"

text \<open>
  \<open>datetime(year, month, day, hour, tzinfo=UTC)\<close>: the arguments are converted to C ints first, which raises
  \<open>OverflowError\<close>; a field out of range raises \<open>ValueError\<close>, \<open>None\<close> here.
\<close>

definition datetime_utc :: "int \<Rightarrow> int \<Rightarrow> int \<Rightarrow> int \<Rightarrow> drop_exn + int option" where
  "datetime_utc y m d h =
     (if \<not> (fits_c_int y \<and> fits_c_int m \<and> fits_c_int d \<and> fits_c_int h) then Inl (PyError ''OverflowError'')
      else if in_range y m d h then Inr (Some (instant_of y m d h))
      else Inr None)"

text \<open>\<open>int(v)\<close> of a text; more than 4300 digits raise \<open>ValueError\<close> too.\<close>

definition int_text :: "string \<Rightarrow> int option" where
  "int_text v = (if length (filter is_digit v) > 4300 then None else parse_int v)"

text \<open>The loop of \<open>_compose_part_ts\<close>; \<open>get\<close> is \<open>values.get\<close>, and \<open>None\<close> is the early return.\<close>

fun raw_times ::
  "partition_spec \<Rightarrow> (int \<Rightarrow> string option) \<Rightarrow> string list \<Rightarrow> (string, int) dict \<Rightarrow> (string, int) dict option" where
  "raw_times spec get [] raw = Some raw"
| "raw_times spec get (t # ts) raw =
     (case find (\<lambda>k. key_transform k = t) (spec_keys spec) of
        None \<Rightarrow> raw_times spec get ts raw
      | Some k \<Rightarrow>
          (case Option.bind (get (key_index k)) int_text of
             None \<Rightarrow> None
           | Some i \<Rightarrow> raw_times spec get ts (AList.update t i raw)))"

definition compose_part_ts :: "partition_spec \<Rightarrow> (int \<Rightarrow> string option) \<Rightarrow> drop_exn + int option" where
  "compose_part_ts spec get =
     (case raw_times spec get TIME_TRANSFORMS [] of
        None \<Rightarrow> Inr None
      | Some raw \<Rightarrow>
          (case (map_of raw ''year'', map_of raw ''month'', map_of raw ''day'') of
             (Some y, Some m, Some d) \<Rightarrow>
               datetime_utc y m d (case map_of raw ''hour'' of None \<Rightarrow> 0 | Some h \<Rightarrow> h)
           | _ \<Rightarrow> Inl (PyError ''KeyError'')))"

subsection \<open>The cutoff\<close>

text \<open>\<open>replace(minute=0, second=0, microsecond=0)\<close>, and \<open>replace(hour=0)\<close> at the grain of days.\<close>

definition truncate_to :: "string \<Rightarrow> int \<Rightarrow> int" where
  "truncate_to g t =
     (let hours = t - t mod HOUR in if g = ''day'' then hours - hours mod DAY else hours)"

definition DROP_MIN_CUTOFF_AGE_DAYS :: int where
  "DROP_MIN_CUTOFF_AGE_DAYS = 7"

definition DROP_FLOOR_HOURS :: int where
  "DROP_FLOOR_HOURS = 48"

text \<open>\<open>now\<close> is \<open>datetime.now(UTC)\<close>.\<close>

definition check_cutoff :: "int \<Rightarrow> int \<Rightarrow> string \<Rightarrow> bool \<Rightarrow> drop_exn + unit" where
  "check_cutoff now cutoff g force_young =
     and_then (guard (truncate_to g cutoff = cutoff) (DropAbort MisalignedCutoff)) (\<lambda>_.
     guard (\<not> (now - cutoff < DROP_MIN_CUTOFF_AGE_DAYS * DAY \<and> \<not> force_young)) (DropAbort YoungCutoff))"

text \<open>
  \<open>datetime.fromisoformat\<close> is a parameter: the local time and the offset of an aware result, \<open>None\<close> for its
  \<open>ValueError\<close>. A naive time means UTC.
\<close>

type_synonym iso_parser = "string \<Rightarrow> (int \<times> int option) option"

definition as_utc :: "int \<times> int option \<Rightarrow> drop_exn + int" where
  "as_utc t = (case snd t of None \<Rightarrow> Inr (fst t) | Some off \<Rightarrow> in_calendar (fst t - off))"

definition resolve_cutoff ::
  "iso_parser \<Rightarrow> int \<Rightarrow> string \<Rightarrow> int option \<Rightarrow> bool \<Rightarrow> string \<Rightarrow> drop_exn + int" where
  "resolve_cutoff parse_iso now cutoff_arg retention_days force_young g =
     and_then (guard (\<not> (cutoff_arg \<noteq> [] \<and> retention_days \<noteq> None)) (DropAbort BothCutoffs)) (\<lambda>_.
     and_then
       (if cutoff_arg \<noteq> [] then
          (case parse_iso cutoff_arg of None \<Rightarrow> Inl (DropAbort (NotIso cutoff_arg)) | Some t \<Rightarrow> as_utc t)
        else
          (case retention_days of
             Some n \<Rightarrow>
               if \<bar>n\<bar> > 999999999 then Inl (PyError ''OverflowError'')
               else and_then (in_calendar (now - n * DAY)) (\<lambda>t. Inr (truncate_to g t))
           | None \<Rightarrow> Inl (DropAbort NoCutoff))) (\<lambda>cutoff.
     and_then (check_cutoff now cutoff g force_young) (\<lambda>_. Inr cutoff)))"

subsection \<open>The order of instants\<close>

lemma pred_div:
  fixes y k :: int
  assumes "0 < k"
  shows "y div k = (y - 1) div k + (if y mod k = 0 then 1 else 0)"
proof (cases "y mod k = 0")
  case True
  then have "y - 1 = k * (y div k - 1) + (k - 1)"
    using mult_div_mod_eq [of k y] by (simp add: right_diff_distrib)
  then have "(y - 1) div k = y div k - 1"
    by (rule int_div_pos_eq) (use assms in auto)
  then show ?thesis using True by simp
next
  case False
  have "0 \<le> y mod k" "y mod k < k" using assms by auto
  with False have r: "0 \<le> y mod k - 1" "y mod k - 1 < k" by auto
  have "y - 1 = k * (y div k) + (y mod k - 1)"
    using mult_div_mod_eq [of k y] by simp
  then have "(y - 1) div k = y div k"
    by (rule int_div_pos_eq) (use r in auto)
  then show ?thesis using False by simp
qed

lemma leap_count:
  fixes y q4 q100 q400 p4 p100 p400 :: int
  assumes "q4 = p4 + (if a then 1 else 0)" and "q100 = p100 + (if b then 1 else 0)"
    and "q400 = p400 + (if c then 1 else 0)" and "c \<Longrightarrow> b" and "b \<Longrightarrow> a"
  shows "y * 365 + q4 - q100 + q400
    = (y - 1) * 365 + p4 - p100 + p400 + 365 + (if a \<and> (\<not> b \<or> c) then 1 else 0)"
  using assms by (cases a; cases b; cases c) (simp_all add: left_diff_distrib)

lemma next_year: "days_before_year (y + 1) = days_before_year y + 365 + (if is_leap y then 1 else 0)"
proof -
  have "100 dvd y" if "400 dvd y" by (rule dvd_trans [OF _ that]) simp
  then have m100: "y mod 400 = 0 \<Longrightarrow> y mod 100 = 0" by (simp add: mod_eq_0_iff_dvd)
  have "4 dvd y" if "100 dvd y" by (rule dvd_trans [OF _ that]) simp
  then have m4: "y mod 100 = 0 \<Longrightarrow> y mod 4 = 0" by (simp add: mod_eq_0_iff_dvd)
  have k: "(0::int) < 4" "(0::int) < 100" "(0::int) < 400" by simp_all
  have "days_before_year (y + 1) = y * 365 + y div 4 - y div 100 + y div 400"
    by (simp add: days_before_year_def)
  also note leap_count [OF pred_div [OF k(1)] pred_div [OF k(2)] pred_div [OF k(3)] m100 m4, of y]
  finally show ?thesis unfolding days_before_year_def [of y] is_leap_def .
qed

lemma years_grow: "y \<le> z \<Longrightarrow> days_before_year y + 365 * (z - y) \<le> days_before_year z"
proof (induction z rule: int_ge_induct)
  case (step z)
  then show ?case using next_year [of z] by (auto split: if_splits simp: algebra_simps)
qed simp

lemma length_month_lengths [simp]: "length (month_lengths y) = 12"
  by (simp add: month_lengths_def)

lemma next_month:
  assumes "1 \<le> m" and "m \<le> 12"
  shows "days_before_month y (m + 1) = days_before_month y m + days_in_month y m"
proof -
  have "nat m = Suc (nat (m - 1))" "nat (m - 1) < length (month_lengths y)" using assms by auto
  then show ?thesis
    by (simp add: days_before_month_def days_in_month_def take_Suc_conv_app_nth)
qed

lemma month_length_pos: "1 \<le> m \<Longrightarrow> m \<le> 12 \<Longrightarrow> 0 < days_in_month y m"
proof -
  assume "1 \<le> m" "m \<le> 12"
  then have "days_in_month y m \<in> set (month_lengths y)"
    unfolding days_in_month_def by (intro nth_mem) simp
  then show ?thesis by (auto simp: month_lengths_def split: if_splits)
qed

lemma months_grow:
  assumes "m < n" and "1 \<le> m" and "n \<le> 13"
  shows "days_before_month y m + days_in_month y m \<le> days_before_month y n"
  using assms(1,3)
proof (induction n rule: int_gr_induct)
  case base
  then show ?case using next_month [of m y] assms(2) by simp
next
  case (step n)
  then show ?case using next_month [of n y] month_length_pos [of n y] assms(2) by auto
qed

lemma whole_year: "days_before_month y 13 = 365 + (if is_leap y then 1 else 0)"
  by (simp add: days_before_month_def month_lengths_def)

lemma january [simp]: "days_before_month y 1 = 0"
  by (simp add: days_before_month_def)

definition day_number :: "int \<Rightarrow> int \<Rightarrow> int \<Rightarrow> int" where
  "day_number y m d = days_before_year y + days_before_month y m + d - 1"

lemma instant_day: "instant_of y m d h = day_number y m d * DAY + h * HOUR"
  by (simp add: instant_of_def day_number_def)

lemma day_of_year:
  assumes "in_range y m d h"
  shows "0 \<le> days_before_month y m" and "days_before_month y m + d \<le> 365 + (if is_leap y then 1 else 0)"
proof -
  show "0 \<le> days_before_month y m"
  proof (cases "m = 1")
    case False
    then have "1 < m" using assms by (simp add: in_range_def)
    then have "days_before_month y 1 + days_in_month y 1 \<le> days_before_month y m"
      using assms by (intro months_grow) (auto simp: in_range_def)
    then show ?thesis using month_length_pos [of 1 y] by simp
  qed simp
  have "days_before_month y m + days_in_month y m \<le> days_before_month y 13"
    using assms by (intro months_grow) (auto simp: in_range_def)
  then show "days_before_month y m + d \<le> 365 + (if is_leap y then 1 else 0)"
    using assms by (simp add: whole_year in_range_def split: if_splits)
qed

lemma earlier_day:
  assumes "in_range y m d h" and "in_range y' m' d' h'" and "(y, m, d) < (y', m', d')"
  shows "day_number y m d < day_number y' m' d'"
proof -
  from assms(3) consider "y < y'" | "y = y'" "m < m'" | "y = y'" "m = m'" "d < d'"
    by (auto simp: less_prod_simp le_less)
  then show ?thesis
  proof cases
    case 1
    have "days_before_year (y + 1) \<le> days_before_year y'"
      using years_grow [of "y + 1" y'] 1 by simp
    moreover have "1 \<le> d'" using assms(2) by (simp add: in_range_def)
    ultimately show ?thesis
      using day_of_year(2) [OF assms(1)] day_of_year(1) [OF assms(2)] next_year [of y]
      by (simp add: day_number_def)
  next
    case 2
    then have "days_before_month y m + days_in_month y m \<le> days_before_month y m'"
      using assms(1,2) by (intro months_grow) (auto simp: in_range_def)
    then show ?thesis using assms(1,2) 2 by (simp add: day_number_def in_range_def)
  next
    case 3
    then show ?thesis by (simp add: day_number_def)
  qed
qed

lemma hour_in_day: "0 \<le> h \<Longrightarrow> h \<le> 23 \<Longrightarrow> 0 \<le> h * HOUR \<and> h * HOUR < DAY"
  by (simp add: DAY_def HOUR_def SECOND_def)

lemma earlier_instant:
  assumes "in_range y m d h" and "in_range y' m' d' h'" and "(y, m, d, h) < (y', m', d', h')"
  shows "instant_of y m d h < instant_of y' m' d' h'"
proof -
  have hours: "h * HOUR < DAY" "0 \<le> h' * HOUR"
    using assms(1,2) hour_in_day [of h] hour_in_day [of h'] by (auto simp: in_range_def)
  from assms(3) consider "(y, m, d) < (y', m', d')" | "y = y'" "m = m'" "d = d'" "h < h'"
    by (auto simp: less_prod_simp le_less)
  then show ?thesis
  proof cases
    case 1
    have "(day_number y m d + 1) * DAY \<le> day_number y' m' d' * DAY"
      using earlier_day [OF assms(1,2) 1] by (intro mult_right_mono) (auto simp: DAY_def HOUR_def SECOND_def)
    then show ?thesis using hours by (simp add: instant_day distrib_right)
  next
    case 2
    then show ?thesis by (simp add: instant_day HOUR_def SECOND_def)
  qed
qed

lemma instant_order:
  assumes "in_range y m d h" and "in_range y' m' d' h'"
  shows "instant_of y m d h < instant_of y' m' d' h' \<longleftrightarrow> (y, m, d, h) < (y', m', d', h')"
  by (cases rule: linorder_cases [of "(y, m, d, h)" "(y', m', d', h')"])
    (use earlier_instant [OF assms] earlier_instant [OF assms(2,1)] in auto)

lemma instant_in_calendar:
  assumes "in_range y m d h"
  shows "0 \<le> instant_of y m d h" and "instant_of y m d h < MAX_INSTANT"
proof -
  have y: "1 \<le> y" "y + 1 \<le> 10000" "1 \<le> d" using assms by (auto simp: in_range_def)
  have hours: "0 \<le> h * HOUR" "h * HOUR < DAY"
    using assms hour_in_day [of h] by (auto simp: in_range_def)
  have "days_before_year 1 \<le> days_before_year y" using years_grow [OF y(1)] y(1) by simp
  moreover have "days_before_year 1 = 0" by (simp add: days_before_year_def)
  ultimately have low: "0 \<le> day_number y m d"
    using day_of_year(1) [OF assms] y by (simp add: day_number_def)
  then show "0 \<le> instant_of y m d h"
    using hours by (simp add: instant_day DAY_def HOUR_def SECOND_def)
  have "days_before_year (y + 1) \<le> days_before_year 10000" using years_grow [OF y(2)] y by simp
  then have "day_number y m d + 1 \<le> days_before_year 10000"
    using day_of_year(2) [OF assms] next_year [of y] by (simp add: day_number_def)
  then have "(day_number y m d + 1) * DAY \<le> days_before_year 10000 * DAY"
    by (intro mult_right_mono) (auto simp: DAY_def HOUR_def SECOND_def)
  then show "instant_of y m d h < MAX_INSTANT"
    using hours by (simp add: instant_day MAX_INSTANT_def distrib_right)
qed

lemma truncate_mono: "s \<le> t \<Longrightarrow> truncate_to g s \<le> truncate_to g t"
proof -
  assume "s \<le> t"
  have floor_mono: "k * (a div k) \<le> k * (b div k)" if "a \<le> b" "0 < k" for a b k :: int
    using that by (intro mult_left_mono zdiv_mono1) auto
  have pos: "0 < HOUR" "0 < DAY" by (simp_all add: DAY_def HOUR_def SECOND_def)
  have hours: "HOUR * (s div HOUR) \<le> HOUR * (t div HOUR)"
    by (rule floor_mono [OF \<open>s \<le> t\<close> pos(1)])
  from floor_mono [OF this pos(2)] hours show ?thesis by (simp add: truncate_to_def minus_mod_eq_mult_div Let_def)
qed

lemma raw_times_keys:
  "raw_times spec get ts raw = Some r \<Longrightarrow>
     fst ` set r \<subseteq> fst ` set raw \<union> key_transform ` set (spec_keys spec)"
proof (induction ts arbitrary: raw)
  case (Cons t ts)
  show ?case
  proof (cases "find (\<lambda>k. key_transform k = t) (spec_keys spec)")
    case None
    with Cons.prems have "raw_times spec get ts raw = Some r" by simp
    then show ?thesis by (rule Cons.IH)
  next
    case (Some k)
    with Cons.prems obtain i where "raw_times spec get ts (AList.update t i raw) = Some r"
      by (auto split: option.splits)
    from Cons.IH [OF this] have "fst ` set r \<subseteq> insert t (fst ` set raw) \<union> key_transform ` set (spec_keys spec)"
      by simp
    moreover have "t \<in> key_transform ` set (spec_keys spec)"
      using Some by (auto simp: find_Some_iff)
    ultimately show ?thesis by blast
  qed
qed simp

text \<open>A composed instant is a valid one at the spec's grain.\<close>

lemma compose_some:
  assumes "compose_part_ts spec get = Inr (Some t)"
  obtains y m d h where "in_range y m d h" and "t = instant_of y m d h" and "grain spec = ''day'' \<longrightarrow> h = 0"
proof -
  from assms obtain raw where raw: "raw_times spec get TIME_TRANSFORMS [] = Some raw"
    by (cases "raw_times spec get TIME_TRANSFORMS []") (simp_all add: compose_part_ts_def)
  from assms obtain y m d where
    dt: "datetime_utc y m d (case map_of raw ''hour'' of None \<Rightarrow> 0 | Some h \<Rightarrow> h) = Inr (Some t)"
    unfolding compose_part_ts_def raw
    by (cases "map_of raw ''year''"; cases "map_of raw ''month''"; cases "map_of raw ''day''") simp_all
  define h where "h = (case map_of raw ''hour'' of None \<Rightarrow> 0 | Some h \<Rightarrow> h)"
  from dt have "in_range y m d h" "t = instant_of y m d h"
    by (auto simp: datetime_utc_def h_def split: if_splits)
  moreover have "h = 0" if "grain spec = ''day''"
  proof -
    from that have "''hour'' \<notin> key_transform ` set (spec_keys spec)"
      by (auto simp: grain_def split: if_splits)
    then have "''hour'' \<notin> fst ` set raw" using raw_times_keys [OF raw] by auto
    then have "map_of raw ''hour'' = None" by (simp add: map_of_eq_None_iff)
    then show ?thesis by (simp add: h_def)
  qed
  ultimately show ?thesis by (intro that [of y m d h]) simp_all
qed

lemma composed_is_aligned:
  assumes "compose_part_ts spec get = Inr (Some t)"
  shows "truncate_to (grain spec) t = t"
proof -
  obtain y m d h where "in_range y m d h" and t: "t = instant_of y m d h" and h: "grain spec = ''day'' \<longrightarrow> h = 0"
    by (rule compose_some [OF assms])
  have "t = HOUR * (24 * day_number y m d + h)"
    by (simp add: t instant_day DAY_def algebra_simps)
  then have "t mod HOUR = 0" by simp
  moreover have "t mod DAY = 0" if "grain spec = ''day''"
    using h that by (simp add: t instant_day)
  ultimately show ?thesis by (simp add: truncate_to_def Let_def)
qed

lemma check_cutoff_Inr:
  "check_cutoff now cutoff g force = Inr u \<longleftrightarrow>
     truncate_to g cutoff = cutoff \<and> (force \<or> DROP_MIN_CUTOFF_AGE_DAYS * DAY \<le> now - cutoff)"
  by (auto simp: check_cutoff_def and_then_Inr)

lemma resolve_cutoff_checked:
  assumes "resolve_cutoff parse_iso now arg days force g = Inr cutoff"
  shows "check_cutoff now cutoff g force = Inr ()"
proof -
  obtain c u where "check_cutoff now c g force = Inr u" and "c = cutoff"
    using assms unfolding resolve_cutoff_def and_then_Inr sum.inject by (elim exE conjE) (rule that, assumption+)
  then show ?thesis by simp
qed

text \<open>
  C18: A leaf below the cutoff holds nothing younger than the cutoff. When the cutoff was accepted for the grain
  of the spec and the instant composed from the time keys of a leaf is before it, then every instant of the
  leaf's period is before it too, and, unless young cutoffs are forced, more than seven days old.
\<close>

theorem old_leaf_is_wholly_old:
  assumes "resolve_cutoff parse_iso now arg days force (grain spec) = Inr cutoff"
    and "compose_part_ts spec get = Inr (Some t)" and "t < cutoff"
  shows "truncate_to (grain spec) t = t
    \<and> (\<forall>u. truncate_to (grain spec) u = t \<longrightarrow> u < cutoff \<and> (\<not> force \<longrightarrow> u + 7 * DAY < now))"
proof (intro conjI allI impI)
  show "truncate_to (grain spec) t = t" by (rule composed_is_aligned [OF assms(2)])
  note checked = resolve_cutoff_checked [OF assms(1), unfolded check_cutoff_Inr DROP_MIN_CUTOFF_AGE_DAYS_def]
  fix u assume u: "truncate_to (grain spec) u = t"
  show below: "u < cutoff"
  proof (rule ccontr)
    assume "\<not> u < cutoff"
    then have "truncate_to (grain spec) cutoff \<le> truncate_to (grain spec) u" by (intro truncate_mono) simp
    with u checked assms(3) show False by simp
  qed
  show "u + 7 * DAY < now" if "\<not> force" using below checked that by simp
qed

definition demo_now :: int where
  "demo_now = instant_of 2026 9 1 12"

definition demo_iso :: iso_parser where
  "demo_iso s = (if s = ''2026-08-10'' then Some (instant_of 2026 8 10 0, None) else None)"

theorem old_leaf_is_wholly_old_witness:
  "compose_part_ts demo_spec (Some \<circ> demo_leaf) = Inr (Some (instant_of 2026 8 1 0))
   \<and> truncate_to ''day'' (instant_of 2026 8 1 23) = instant_of 2026 8 1 0
   \<and> instant_of 2026 8 1 23 < instant_of 2026 8 10 0 \<and> instant_of 2026 8 1 23 + 7 * DAY < demo_now"
proof -
  have cut: "resolve_cutoff demo_iso demo_now ''2026-08-10'' None False (grain demo_spec) = Inr (instant_of 2026 8 10 0)"
    by code_simp
  have ts: "compose_part_ts demo_spec (Some \<circ> demo_leaf) = Inr (Some (instant_of 2026 8 1 0))"
    by code_simp
  have less: "instant_of 2026 8 1 0 < instant_of 2026 8 10 0" by code_simp
  have g: "grain demo_spec = ''day''" by code_simp
  have late: "truncate_to ''day'' (instant_of 2026 8 1 23) = instant_of 2026 8 1 0" by code_simp
  show ?thesis
    using old_leaf_is_wholly_old [OF cut ts less, unfolded g] late ts by blast
qed

end
