(* ===== verification/DropLeaves.thy ===== *)
theory DropLeaves
  imports DropSpec
begin

text \<open>
  \<open>_classify_enumeration\<close> of \<open>tools/ducklake_maintenance.py\<close>: from one row per file of a table to the leaves
  that may be dropped, the files set aside, and the reasons to abort. The theorem at the end says that the
  leaves hold exactly the droppable files, each under the values of its own keys.
\<close>

subsection \<open>Rows and leaves\<close>

record leaf_file =
  lf_id :: int
  lf_rows :: int
  lf_bytes :: int
  lf_begin :: int

record leaf =
  leaf_name :: string
  leaf_values :: "(string, string) dict"
  leaf_ts :: int
  leaf_files :: "leaf_file list"
  leaf_oversized :: bool

definition leaf_rows :: "leaf \<Rightarrow> int" where
  "leaf_rows lf = sum_list (map lf_rows (leaf_files lf))"

definition leaf_bytes :: "leaf \<Rightarrow> int" where
  "leaf_bytes lf = sum_list (map lf_bytes (leaf_files lf))"

text \<open>\<open>max\<close> of no files raises; a leaf the code builds has one.\<close>

definition max_begin_snapshot :: "leaf \<Rightarrow> int" where
  "max_begin_snapshot lf = Max (lf_begin ` set (leaf_files lf))"

text \<open>One row of the enumeration; \<open>er_values\<close> are the pivoted columns in the order of the spec's keys.\<close>

record enum_row =
  er_file :: int
  er_values :: "string option list"
  er_fpv_rows :: int
  er_fpv_keys :: int
  er_rows :: "int option"
  er_bytes :: "int option"
  er_begin :: int
  er_spec :: "int option"

definition row_get :: "partition_spec \<Rightarrow> enum_row \<Rightarrow> int \<Rightarrow> string option" where
  "row_get spec r i =
     (case map_of (zip (map key_index (spec_keys spec)) (er_values r)) i of None \<Rightarrow> None | Some v \<Rightarrow> v)"

definition sane :: "partition_spec \<Rightarrow> enum_row \<Rightarrow> bool" where
  "sane spec r \<longleftrightarrow> (let n = int (length (spec_keys spec))
     in er_fpv_rows r = n \<and> er_fpv_keys r = n \<and> (\<forall>v \<in> set (er_values r). v \<noteq> None))"

definition row_instant :: "partition_spec \<Rightarrow> enum_row \<Rightarrow> drop_exn + int option" where
  "row_instant spec r = (if sane spec r then compose_part_ts spec (row_get spec r) else Inr None)"

text \<open>\<open>str(values[k.index])\<close>.\<close>

definition row_text :: "partition_spec \<Rightarrow> enum_row \<Rightarrow> int \<Rightarrow> string" where
  "row_text spec r i = (case row_get spec r i of None \<Rightarrow> ''None'' | Some v \<Rightarrow> v)"

definition bucket_key :: "partition_spec \<Rightarrow> enum_row \<Rightarrow> string list" where
  "bucket_key spec r = map (\<lambda>k. row_text spec r (key_index k)) (spec_keys spec)"

definition or_zero :: "int option \<Rightarrow> int" where
  "or_zero x = (case x of None \<Rightarrow> 0 | Some i \<Rightarrow> i)"

definition file_of :: "enum_row \<Rightarrow> leaf_file" where
  "file_of r = \<lparr> lf_id = er_file r, lf_rows = or_zero (er_rows r), lf_bytes = or_zero (er_bytes r),
     lf_begin = er_begin r \<rparr>"

definition new_leaf :: "partition_spec \<Rightarrow> enum_row \<Rightarrow> int \<Rightarrow> leaf" where
  "new_leaf spec r t =
     \<lparr> leaf_name = canonical_leaf_str spec (row_text spec r),
       leaf_values = fold (\<lambda>k. AList.update (address k) (row_text spec r (key_index k))) (spec_keys spec) [],
       leaf_ts = t, leaf_files = [], leaf_oversized = False \<rparr>"

subsection \<open>The loop\<close>

record sift =
  rot :: int
  rot_samples :: "int list"
  floored :: int
  blocking :: "(int \<times> int option) list"
  buckets :: "(string list, leaf) dict"

definition add_file :: "partition_spec \<Rightarrow> enum_row \<Rightarrow> int \<Rightarrow> sift \<Rightarrow> sift" where
  "add_file spec r t st =
     (let lf = (case map_of (buckets st) (bucket_key spec r) of None \<Rightarrow> new_leaf spec r t | Some lf \<Rightarrow> lf)
      in st\<lparr> buckets := AList.update (bucket_key spec r) (lf\<lparr> leaf_files := leaf_files lf @ [file_of r] \<rparr>) (buckets st) \<rparr>)"

definition classify_row :: "partition_spec \<Rightarrow> int \<Rightarrow> int \<Rightarrow> enum_row \<Rightarrow> sift \<Rightarrow> drop_exn + sift" where
  "classify_row spec cutoff floor_snap r st =
     and_then (row_instant spec r) (\<lambda>ts.
       if er_spec r \<noteq> Some (spec_partition_id spec) then
         Inr (if (case ts of None \<Rightarrow> True | Some t \<Rightarrow> t < cutoff)
              then st\<lparr> blocking := blocking st @ [(er_file r, ts)] \<rparr> else st)
       else
         (case ts of
            None \<Rightarrow>
              Inr (st\<lparr> rot := rot st + 1,
                rot_samples := (if length (rot_samples st) < 10 then rot_samples st @ [er_file r] else rot_samples st) \<rparr>)
          | Some t \<Rightarrow>
              if t \<ge> cutoff then Inr st
              else if er_begin r > floor_snap then Inr (st\<lparr> floored := floored st + 1 \<rparr>)
              else Inr (add_file spec r t st)))"

fun classify_rows :: "partition_spec \<Rightarrow> int \<Rightarrow> int \<Rightarrow> enum_row list \<Rightarrow> sift \<Rightarrow> drop_exn + sift" where
  "classify_rows spec cutoff floor_snap [] st = Inr st"
| "classify_rows spec cutoff floor_snap (r # rs) st =
     and_then (classify_row spec cutoff floor_snap r st) (classify_rows spec cutoff floor_snap rs)"

definition no_sift :: sift where
  "no_sift = \<lparr> rot = 0, rot_samples = [], floored = 0, blocking = [], buckets = [] \<rparr>"

record diagnostics =
  rot_files :: int
  rot_sample_ids :: "int list"
  floored_files :: int

definition classify_enumeration ::
  "enum_row list \<Rightarrow> partition_spec \<Rightarrow> int \<Rightarrow> int \<Rightarrow> int \<Rightarrow> int \<Rightarrow> drop_exn + leaf list \<times> diagnostics" where
  "classify_enumeration rows spec cutoff floor_snap max_files max_rot =
     and_then (classify_rows spec cutoff floor_snap rows no_sift) (\<lambda>st.
     and_then (guard (blocking st = []) (DropAbort (OldSpecFiles (length (blocking st))))) (\<lambda>_.
     and_then (guard (\<not> rot st > max_rot) (DropAbort (TooMuchRot (rot st)))) (\<lambda>_.
     Inr (map (\<lambda>lf. if int (length (leaf_files lf)) > max_files then lf\<lparr> leaf_oversized := True \<rparr> else lf)
            (sort_key (\<lambda>lf. (leaf_ts lf, leaf_name lf)) (map snd (buckets st))),
          \<lparr> rot_files = rot st, rot_sample_ids = rot_samples st, floored_files = floored st \<rparr>))))"

subsection \<open>What a row is\<close>

text \<open>A specification of the loop, row by row.\<close>

definition live_spec :: "partition_spec \<Rightarrow> enum_row \<Rightarrow> bool" where
  "live_spec spec r \<longleftrightarrow> er_spec r = Some (spec_partition_id spec)"

definition rotten :: "partition_spec \<Rightarrow> enum_row \<Rightarrow> bool" where
  "rotten spec r \<longleftrightarrow> live_spec spec r \<and> row_instant spec r = Inr None"

definition young_file :: "partition_spec \<Rightarrow> int \<Rightarrow> int \<Rightarrow> enum_row \<Rightarrow> bool" where
  "young_file spec cutoff floor_snap r \<longleftrightarrow> live_spec spec r
     \<and> (\<exists>t. row_instant spec r = Inr (Some t) \<and> t < cutoff) \<and> floor_snap < er_begin r"

definition droppable :: "partition_spec \<Rightarrow> int \<Rightarrow> int \<Rightarrow> enum_row \<Rightarrow> bool" where
  "droppable spec cutoff floor_snap r \<longleftrightarrow> live_spec spec r
     \<and> (\<exists>t. row_instant spec r = Inr (Some t) \<and> t < cutoff) \<and> er_begin r \<le> floor_snap"

definition blocks :: "partition_spec \<Rightarrow> int \<Rightarrow> enum_row \<Rightarrow> bool" where
  "blocks spec cutoff r \<longleftrightarrow> \<not> live_spec spec r \<and> \<not> (\<exists>t. row_instant spec r = Inr (Some t) \<and> cutoff \<le> t)"

definition sifted :: "partition_spec \<Rightarrow> int \<Rightarrow> int \<Rightarrow> enum_row list \<Rightarrow> sift \<Rightarrow> bool" where
  "sifted spec cutoff floor_snap rows st \<longleftrightarrow>
     map fst (blocking st) = map er_file (filter (blocks spec cutoff) rows)
   \<and> rot st = int (length (filter (rotten spec) rows))
   \<and> floored st = int (length (filter (young_file spec cutoff floor_snap) rows))
   \<and> distinct (map fst (buckets st))
   \<and> fst ` set (buckets st) = bucket_key spec ` {r \<in> set rows. droppable spec cutoff floor_snap r}
   \<and> (\<forall>(key, lf) \<in> set (buckets st).
        leaf_files lf = map file_of (filter (\<lambda>r. droppable spec cutoff floor_snap r \<and> bucket_key spec r = key) rows)
      \<and> (\<exists>r \<in> set rows. droppable spec cutoff floor_snap r \<and> bucket_key spec r = key
           \<and> lf = (new_leaf spec r (leaf_ts lf))\<lparr> leaf_files := leaf_files lf \<rparr>
           \<and> row_instant spec r = Inr (Some (leaf_ts lf))))"

lemma sifted_none: "sifted spec cutoff floor_snap [] no_sift"
  by (simp add: sifted_def no_sift_def)

lemma sifted_other:
  assumes "sifted spec cutoff floor_snap rows st" and "\<not> droppable spec cutoff floor_snap r"
    and "buckets st' = buckets st"
    and "map fst (blocking st') = map fst (blocking st) @ (if blocks spec cutoff r then [er_file r] else [])"
    and "rot st' = rot st + (if rotten spec r then 1 else 0)"
    and "floored st' = floored st + (if young_file spec cutoff floor_snap r then 1 else 0)"
  shows "sifted spec cutoff floor_snap (rows @ [r]) st'"
proof -
  let ?d = "droppable spec cutoff floor_snap"
  have keys: "{r' \<in> set (rows @ [r]). ?d r'} = {r' \<in> set rows. ?d r'}"
    using assms(2) by auto
  have files: "filter (\<lambda>r'. ?d r' \<and> bucket_key spec r' = key) (rows @ [r])
      = filter (\<lambda>r'. ?d r' \<and> bucket_key spec r' = key) rows" for key
    using assms(2) by simp
  have bex: "(\<exists>r' \<in> set (rows @ [r]). ?d r' \<and> Q r') \<longleftrightarrow> (\<exists>r' \<in> set rows. ?d r' \<and> Q r')" for Q
    using assms(2) by auto
  show ?thesis
    using assms(1) unfolding sifted_def keys files bex assms(3)
    by (simp add: assms(4-6))
qed

lemma new_leaf_same_key:
  "bucket_key spec r = bucket_key spec r' \<Longrightarrow> new_leaf spec r t = new_leaf spec r' t"
proof -
  assume "bucket_key spec r = bucket_key spec r'"
  then have same: "row_text spec r (key_index k) = row_text spec r' (key_index k)" if "k \<in> set (spec_keys spec)" for k
    using that by (simp add: bucket_key_def)
  have "canonical_leaf_str spec (row_text spec r) = canonical_leaf_str spec (row_text spec r')"
    by (simp add: canonical_leaf_str_def same cong: map_cong)
  moreover have "fold (\<lambda>k. AList.update (address k) (row_text spec r (key_index k))) (spec_keys spec) []
      = fold (\<lambda>k. AList.update (address k) (row_text spec r' (key_index k))) (spec_keys spec) []"
    by (rule fold_cong) (simp_all add: same)
  ultimately show ?thesis by (simp add: new_leaf_def)
qed

lemma new_leaf_ts [simp]: "leaf_ts (new_leaf spec r t) = t"
  by (simp add: new_leaf_def)

lemma sifted_file:
  assumes st: "sifted spec cutoff floor_snap rows st" and d: "droppable spec cutoff floor_snap r"
    and t: "row_instant spec r = Inr (Some t)"
  shows "sifted spec cutoff floor_snap (rows @ [r]) (add_file spec r t st)"
proof -
  let ?d = "droppable spec cutoff floor_snap"
  let ?k = "bucket_key spec r"
  define old where "old = (case map_of (buckets st) ?k of None \<Rightarrow> new_leaf spec r t | Some lf \<Rightarrow> lf)"
  define new where "new = old\<lparr> leaf_files := leaf_files old @ [file_of r] \<rparr>"
  have b: "buckets (add_file spec r t st) = AList.update ?k new (buckets st)"
    by (simp add: add_file_def new_def old_def Let_def)
  have rest: "blocking (add_file spec r t st) = blocking st" "rot (add_file spec r t st) = rot st"
    "floored (add_file spec r t st) = floored st"
    by (simp_all add: add_file_def Let_def)
  have none: "\<not> blocks spec cutoff r" "\<not> rotten spec r" "\<not> young_file spec cutoff floor_snap r"
    using d by (auto simp: droppable_def blocks_def rotten_def young_file_def)
  have dist: "distinct (map fst (buckets st))"
    and keys: "fst ` set (buckets st) = bucket_key spec ` {r' \<in> set rows. ?d r'}"
    using st by (simp_all add: sifted_def)
  have entry: "leaf_files lf = map file_of (filter (\<lambda>r'. ?d r' \<and> bucket_key spec r' = key) rows)
      \<and> (\<exists>r' \<in> set rows. ?d r' \<and> bucket_key spec r' = key
           \<and> lf = (new_leaf spec r' (leaf_ts lf))\<lparr> leaf_files := leaf_files lf \<rparr>
           \<and> row_instant spec r' = Inr (Some (leaf_ts lf)))" if "(key, lf) \<in> set (buckets st)" for key lf
    using st that unfolding sifted_def by blast
  have old_files: "leaf_files old = map file_of (filter (\<lambda>r'. ?d r' \<and> bucket_key spec r' = ?k) rows)"
  proof (cases "map_of (buckets st) ?k")
    case None
    then have "?k \<notin> fst ` set (buckets st)" by (simp add: map_of_eq_None_iff)
    then have "filter (\<lambda>r'. ?d r' \<and> bucket_key spec r' = ?k) rows = []"
      unfolding keys by (fastforce simp: filter_empty_conv image_iff)
    with None show ?thesis by (simp add: old_def new_leaf_def)
  next
    case (Some lf)
    with entry [of ?k lf] show ?thesis by (simp add: old_def map_of_SomeD)
  qed
  have "\<exists>r' \<in> set (rows @ [r]). ?d r' \<and> bucket_key spec r' = ?k
      \<and> old = (new_leaf spec r' (leaf_ts old))\<lparr> leaf_files := leaf_files old \<rparr>
      \<and> row_instant spec r' = Inr (Some (leaf_ts old))"
  proof (cases "map_of (buckets st) ?k")
    case None
    then have "old = new_leaf spec r t" by (simp add: old_def)
    moreover have "new_leaf spec r t = (new_leaf spec r t)\<lparr> leaf_files := leaf_files (new_leaf spec r t) \<rparr>" by simp
    moreover have "leaf_ts (new_leaf spec r t) = t" by (simp add: new_leaf_def)
    ultimately show ?thesis using d t by (intro bexI [of _ r]) auto
  next
    case (Some lf)
    then have "(?k, lf) \<in> set (buckets st)" by (rule map_of_SomeD)
    from entry [OF this] Some show ?thesis by (auto simp: old_def)
  qed
  then obtain r' where r': "r' \<in> set (rows @ [r])" "?d r'" "bucket_key spec r' = ?k"
    and old: "old = (new_leaf spec r' (leaf_ts old))\<lparr> leaf_files := leaf_files old \<rparr>"
    and ts: "row_instant spec r' = Inr (Some (leaf_ts old))"
    by blast
  have "new = (new_leaf spec r' (leaf_ts new))\<lparr> leaf_files := leaf_files new \<rparr>"
    unfolding new_def by (subst old) simp
  with r' ts have new_leaf: "\<exists>r' \<in> set (rows @ [r]). ?d r' \<and> bucket_key spec r' = ?k
           \<and> new = (new_leaf spec r' (leaf_ts new))\<lparr> leaf_files := leaf_files new \<rparr>
           \<and> row_instant spec r' = Inr (Some (leaf_ts new))"
    by (intro bexI [of _ r']) (simp_all add: new_def)
  have new_files: "leaf_files new = map file_of (filter (\<lambda>r'. ?d r' \<and> bucket_key spec r' = ?k) (rows @ [r]))"
    using old_files d by (simp add: new_def)
  have upd: "key = ?k \<and> lf = new \<or> key \<noteq> ?k \<and> (key, lf) \<in> set (buckets st)"
    if "(key, lf) \<in> set (AList.update ?k new (buckets st))" for key lf
  proof -
    have "map_of (AList.update ?k new (buckets st)) key = Some lf"
      using that dist by (intro map_of_is_SomeI) auto
    then show ?thesis by (auto split: if_splits dest: map_of_SomeD)
  qed
  have each: "leaf_files lf = map file_of (filter (\<lambda>r'. ?d r' \<and> bucket_key spec r' = key) (rows @ [r]))
      \<and> (\<exists>r' \<in> set (rows @ [r]). ?d r' \<and> bucket_key spec r' = key
           \<and> lf = (new_leaf spec r' (leaf_ts lf))\<lparr> leaf_files := leaf_files lf \<rparr>
           \<and> row_instant spec r' = Inr (Some (leaf_ts lf)))"
    if "(key, lf) \<in> set (AList.update ?k new (buckets st))" for key lf
    using upd [OF that]
  proof (elim disjE conjE)
    assume "key = ?k" "lf = new"
    with new_files new_leaf show ?thesis by simp
  next
    assume other: "key \<noteq> ?k" and "(key, lf) \<in> set (buckets st)"
    from entry [OF this(2)] other show ?thesis by auto
  qed
  have new_keys: "insert ?k (fst ` set (buckets st)) = bucket_key spec ` {r' \<in> set (rows @ [r]). ?d r'}"
    using d unfolding keys by auto
  have "map fst (blocking st) = map er_file (filter (blocks spec cutoff) (rows @ [r]))"
    "rot st = int (length (filter (rotten spec) (rows @ [r])))"
    "floored st = int (length (filter (young_file spec cutoff floor_snap) (rows @ [r])))"
    using st none by (simp_all add: sifted_def)
  then show ?thesis
    unfolding sifted_def b rest using dist new_keys each by (auto simp del: set_append)
qed

lemma sifted_row:
  assumes st: "sifted spec cutoff floor_snap rows st"
    and step: "classify_row spec cutoff floor_snap r st = Inr st'"
  shows "sifted spec cutoff floor_snap (rows @ [r]) st'"
proof -
  from step obtain ts where ts: "row_instant spec r = Inr ts"
    by (auto simp: classify_row_def and_then_Inr)
  show ?thesis
  proof (cases "live_spec spec r")
    case False
    then have nd: "\<not> droppable spec cutoff floor_snap r" by (simp add: droppable_def)
    show ?thesis
      by (rule sifted_other [OF st nd])
        (use step ts False in \<open>auto simp: classify_row_def live_spec_def blocks_def rotten_def young_file_def
          split: option.splits if_splits\<close>)
  next
    case live: True
    then have spec: "er_spec r = Some (spec_partition_id spec)" by (simp add: live_spec_def)
    show ?thesis
    proof (cases "droppable spec cutoff floor_snap r")
      case True
      then obtain t where t: "ts = Some t" "t < cutoff" "er_begin r \<le> floor_snap"
        using ts by (auto simp: droppable_def)
      then have "st' = add_file spec r t st"
        using step ts spec by (simp add: classify_row_def)
      then show ?thesis using sifted_file [OF st True] ts t by simp
    next
      case False
      show ?thesis
        by (rule sifted_other [OF st False])
          (use step ts live False spec in \<open>auto simp: classify_row_def droppable_def live_spec_def blocks_def
            rotten_def young_file_def split: option.splits if_splits\<close>)
    qed
  qed
qed

lemma sifted_rows:
  "sifted spec cutoff floor_snap rows st \<Longrightarrow> classify_rows spec cutoff floor_snap rest st = Inr st' \<Longrightarrow>
     sifted spec cutoff floor_snap (rows @ rest) st'"
proof (induction rest arbitrary: rows st)
  case (Cons r rest)
  then obtain st1 where st1: "classify_row spec cutoff floor_snap r st = Inr st1"
    and rest: "classify_rows spec cutoff floor_snap rest st1 = Inr st'"
    by (auto simp: and_then_Inr)
  from Cons.IH [OF sifted_row [OF Cons.prems(1) st1] rest] show ?case by simp
qed simp

subsection \<open>The manifest is exact\<close>

text \<open>The values of a row by the addresses of the keys, as a leaf shows them.\<close>

definition named_values :: "partition_spec \<Rightarrow> enum_row \<Rightarrow> (string, string) dict" where
  "named_values spec r = map (\<lambda>k. (address k, row_text spec r (key_index k))) (spec_keys spec)"

lemma named_bucket: "named_values spec r = zip (map address (spec_keys spec)) (bucket_key spec r)"
  by (simp add: named_values_def bucket_key_def zip_map_map zip_same_conv_map)

lemma named_values_eq: "named_values spec r = named_values spec r' \<longleftrightarrow> bucket_key spec r = bucket_key spec r'"
  by (simp add: named_values_def bucket_key_def)

lemma new_leaf_values:
  "distinct (map address (spec_keys spec)) \<Longrightarrow> leaf_values (new_leaf spec r t) = named_values spec r"
  by (simp add: new_leaf_def named_values_def fold_update_fresh)

lemma raw_times_cong:
  "(\<And>k. k \<in> set (spec_keys spec) \<Longrightarrow> get (key_index k) = get' (key_index k)) \<Longrightarrow>
     raw_times spec get ts raw = raw_times spec get' ts raw"
proof (induction ts arbitrary: raw)
  case (Cons t ts)
  note rest = Cons.IH [OF Cons.prems]
  show ?case
  proof (cases "find (\<lambda>k. key_transform k = t) (spec_keys spec)")
    case (Some k)
    then have "k \<in> set (spec_keys spec)" by (auto simp: find_Some_iff)
    with Some rest show ?thesis by (simp add: Cons.prems split: option.split)
  qed (simp add: rest)
qed simp

lemma compose_cong:
  "(\<And>k. k \<in> set (spec_keys spec) \<Longrightarrow> get (key_index k) = get' (key_index k)) \<Longrightarrow>
     compose_part_ts spec get = compose_part_ts spec get'"
  unfolding compose_part_ts_def using raw_times_cong [of spec get get'] by presburger

lemma row_get_text:
  assumes "sane spec r" and "length (er_values r) = length (spec_keys spec)" and "k \<in> set (spec_keys spec)"
  shows "row_get spec r (key_index k) = Some (row_text spec r (key_index k))"
proof -
  have "fst ` set (zip (map key_index (spec_keys spec)) (er_values r)) = set (map key_index (spec_keys spec))"
    using assms(2) by (metis length_map list.set_map map_fst_zip)
  with assms(3) have "key_index k \<in> fst ` set (zip (map key_index (spec_keys spec)) (er_values r))" by simp
  then obtain v where v: "map_of (zip (map key_index (spec_keys spec)) (er_values r)) (key_index k) = Some v"
    by (metis map_of_eq_None_iff not_Some_eq)
  then have "v \<in> set (er_values r)" by (meson map_of_SomeD set_zip_rightD)
  then have "v \<noteq> None" using assms(1) by (auto simp: sane_def Let_def)
  with v show ?thesis by (auto simp: row_get_def row_text_def)
qed

lemma same_values_same_instant:
  assumes "sane spec r" and "sane spec r'" and "bucket_key spec r = bucket_key spec r'"
    and "length (er_values r) = length (spec_keys spec)" and "length (er_values r') = length (spec_keys spec)"
  shows "row_instant spec r = row_instant spec r'"
proof -
  have "row_get spec r (key_index k) = row_get spec r' (key_index k)" if "k \<in> set (spec_keys spec)" for k
    using assms(3) that
    by (simp add: row_get_text [OF assms(1,4) that] row_get_text [OF assms(2,5) that] bucket_key_def)
  then have "compose_part_ts spec (row_get spec r) = compose_part_ts spec (row_get spec r')"
    by (rule compose_cong)
  then show ?thesis using assms(1,2) by (simp add: row_instant_def)
qed

lemma droppable_sane: "droppable spec cutoff floor_snap r \<Longrightarrow> sane spec r"
  by (auto simp: droppable_def row_instant_def split: if_splits)

lemma bucket_leaf:
  assumes st: "sifted spec cutoff floor_snap rows st" and lf: "(key, lf) \<in> set (buckets st)"
    and spec: "distinct (map address (spec_keys spec))"
    and shape: "\<forall>r \<in> set rows. length (er_values r) = length (spec_keys spec)"
  shows "leaf_values lf = zip (map address (spec_keys spec)) key" and "length key = length (spec_keys spec)"
    and "leaf_files lf = map file_of
      (filter (\<lambda>r. droppable spec cutoff floor_snap r \<and> named_values spec r = leaf_values lf) rows)"
    and "leaf_files lf \<noteq> []" and "leaf_ts lf < cutoff" and "\<not> leaf_oversized lf"
    and "r \<in> set rows \<Longrightarrow> droppable spec cutoff floor_snap r \<Longrightarrow> named_values spec r = leaf_values lf
      \<Longrightarrow> row_instant spec r = Inr (Some (leaf_ts lf))"
proof -
  let ?d = "droppable spec cutoff floor_snap"
  from st lf have files: "leaf_files lf = map file_of (filter (\<lambda>r. ?d r \<and> bucket_key spec r = key) rows)"
    and "\<exists>r \<in> set rows. ?d r \<and> bucket_key spec r = key
           \<and> lf = (new_leaf spec r (leaf_ts lf))\<lparr> leaf_files := leaf_files lf \<rparr>
           \<and> row_instant spec r = Inr (Some (leaf_ts lf))"
    unfolding sifted_def by blast+
  then obtain r0 where r0: "r0 \<in> set rows" "?d r0" "bucket_key spec r0 = key"
    and eq: "lf = (new_leaf spec r0 (leaf_ts lf))\<lparr> leaf_files := leaf_files lf \<rparr>"
    and ts: "row_instant spec r0 = Inr (Some (leaf_ts lf))"
    by blast
  have "leaf_values lf = leaf_values (new_leaf spec r0 (leaf_ts lf))" by (subst eq) simp
  then have vals: "leaf_values lf = named_values spec r0" by (simp add: new_leaf_values spec)
  then show "leaf_values lf = zip (map address (spec_keys spec)) key" by (simp add: named_bucket r0(3))
  show "length key = length (spec_keys spec)" by (simp add: r0(3) [symmetric] bucket_key_def)
  show "leaf_files lf = map file_of (filter (\<lambda>r. ?d r \<and> named_values spec r = leaf_values lf) rows)"
    using files by (simp add: vals named_values_eq r0(3))
  show "leaf_files lf \<noteq> []" using files r0 by (auto simp: filter_empty_conv)
  show "leaf_ts lf < cutoff" using r0(2) ts by (auto simp: droppable_def)
  have "leaf_oversized lf = leaf_oversized (new_leaf spec r0 (leaf_ts lf))" by (subst eq) simp
  then show "\<not> leaf_oversized lf" by (simp add: new_leaf_def)
  assume r: "r \<in> set rows" "?d r" "named_values spec r = leaf_values lf"
  then have "bucket_key spec r = bucket_key spec r0" by (simp add: vals named_values_eq)
  then have "row_instant spec r = row_instant spec r0"
    using shape r(1,2) r0(1,2) by (intro same_values_same_instant) (auto dest: droppable_sane)
  then show "row_instant spec r = Inr (Some (leaf_ts lf))" by (simp add: ts)
qed

lemma distinct_zip_keys:
  "distinct (map fst xs) \<Longrightarrow> (\<And>key lf. (key, lf) \<in> set xs \<Longrightarrow> f lf = zip as key \<and> length key = length as) \<Longrightarrow>
     distinct (map (\<lambda>(key, lf). f lf) xs)"
proof (induction xs)
  case (Cons x xs)
  obtain key lf where x: "x = (key, lf)" by (cases x)
  have "f lf \<noteq> f lf'" if "(key', lf') \<in> set xs" for key' lf'
  proof
    assume "f lf = f lf'"
    moreover have "f lf = zip as key \<and> length key = length as" "f lf' = zip as key' \<and> length key' = length as"
      using Cons.prems(2) [of key lf] Cons.prems(2) [of key' lf'] that by (auto simp: x)
    ultimately have "key = key'" by (metis map_snd_zip)
    with Cons.prems(1) that show False by (force simp: x)
  qed
  with Cons show ?case by (auto simp: x)
qed simp

text \<open>
  C17: The manifest lists exactly the files that may be dropped, under their own values. Whenever the
  enumeration is accepted, every leaf holds precisely the files of the live spec that carry its values, compose
  to its instant, before the cutoff, and are not newer than the floor; every such file is in a leaf; no two
  leaves have the same values; leaves come oldest first and are marked oversized by their size. No file of
  another spec lies in the window or could; the excluded files are counted and within the tolerance.
\<close>

theorem manifest_is_exact:
  assumes spec: "check_spec pid ks = Inr spec"
    and shape: "\<forall>r \<in> set rows. length (er_values r) = length ks"
    and run: "classify_enumeration rows spec cutoff floor_snap max_files max_rot = Inr (leaves, diag)"
  shows "(\<forall>lf \<in> set leaves.
        leaf_files lf = map file_of
          (filter (\<lambda>r. droppable spec cutoff floor_snap r \<and> named_values spec r = leaf_values lf) rows)
      \<and> leaf_files lf \<noteq> [] \<and> leaf_ts lf < cutoff
      \<and> (\<forall>r \<in> set rows. droppable spec cutoff floor_snap r \<and> named_values spec r = leaf_values lf
           \<longrightarrow> row_instant spec r = Inr (Some (leaf_ts lf)))
      \<and> (leaf_oversized lf \<longleftrightarrow> max_files < int (length (leaf_files lf))))
    \<and> leaf_values ` set leaves = named_values spec ` {r \<in> set rows. droppable spec cutoff floor_snap r}
    \<and> distinct (map leaf_values leaves) \<and> sorted (map leaf_ts leaves)
    \<and> (\<forall>r \<in> set rows. er_spec r \<noteq> Some pid \<longrightarrow> (\<exists>t. row_instant spec r = Inr (Some t) \<and> cutoff \<le> t))
    \<and> rot_files diag = int (length (filter (rotten spec) rows)) \<and> rot_files diag \<le> max_rot
    \<and> floored_files diag = int (length (filter (young_file spec cutoff floor_snap) rows))"
proof -
  let ?d = "droppable spec cutoff floor_snap"
  let ?mark = "\<lambda>lf. if int (length (leaf_files lf)) > max_files then lf\<lparr> leaf_oversized := True \<rparr> else lf"
  note ok = check_spec_ok [OF spec]
  have dist_a: "distinct (map address (spec_keys spec))" using ok(1) by (simp add: spec_ok_def)
  have shape': "\<forall>r \<in> set rows. length (er_values r) = length (spec_keys spec)" using shape by (simp add: ok(3))
  from run obtain st where rows: "classify_rows spec cutoff floor_snap rows no_sift = Inr st"
    and none: "blocking st = []" and tol: "rot st \<le> max_rot"
    and leaves: "leaves = map ?mark (sort_key (\<lambda>lf. (leaf_ts lf, leaf_name lf)) (map snd (buckets st)))"
    and diag: "diag = \<lparr> rot_files = rot st, rot_sample_ids = rot_samples st, floored_files = floored st \<rparr>"
    by (auto simp: classify_enumeration_def and_then_Inr)
  have st: "sifted spec cutoff floor_snap rows st"
    using sifted_rows [OF sifted_none rows] by simp
  note leaf = bucket_leaf [OF st _ dist_a shape']
  have marked: "\<exists>key lf0. (key, lf0) \<in> set (buckets st) \<and> lf = ?mark lf0" if "lf \<in> set leaves" for lf
  proof -
    from that have "lf \<in> ?mark ` snd ` set (buckets st)" by (simp add: leaves)
    then obtain x where "x \<in> set (buckets st)" "lf = ?mark (snd x)" by blast
    then show ?thesis by (intro exI [of _ "fst x"] exI [of _ "snd x"]) simp
  qed
  have each: "leaf_files lf = map file_of (filter (\<lambda>r. ?d r \<and> named_values spec r = leaf_values lf) rows)
      \<and> leaf_files lf \<noteq> [] \<and> leaf_ts lf < cutoff
      \<and> (\<forall>r \<in> set rows. ?d r \<and> named_values spec r = leaf_values lf
           \<longrightarrow> row_instant spec r = Inr (Some (leaf_ts lf)))
      \<and> (leaf_oversized lf \<longleftrightarrow> max_files < int (length (leaf_files lf)))" if "lf \<in> set leaves" for lf
  proof -
    from marked [OF that] obtain key lf0 where lf0: "(key, lf0) \<in> set (buckets st)" and lf: "lf = ?mark lf0"
      by blast
    have same: "leaf_files lf = leaf_files lf0" "leaf_values lf = leaf_values lf0" "leaf_ts lf = leaf_ts lf0"
      "leaf_oversized lf \<longleftrightarrow> max_files < int (length (leaf_files lf0))"
      using leaf(6) [OF lf0] by (simp_all add: lf)
    show ?thesis
      unfolding same using leaf(3-5) [OF lf0] leaf(7) [OF lf0] by blast
  qed
  have vals: "map leaf_values leaves = map leaf_values (sort_key (\<lambda>lf. (leaf_ts lf, leaf_name lf)) (map snd (buckets st)))"
    by (simp add: leaves)
  have "leaf_values ` set leaves = leaf_values ` set (map snd (buckets st))"
    using arg_cong [OF vals, of set] by simp
  also have "\<dots> = zip (map address (spec_keys spec)) ` fst ` set (buckets st)"
    using leaf(1) by (force simp: image_iff)
  also have "\<dots> = named_values spec ` {r \<in> set rows. ?d r}"
    using st by (simp add: sifted_def image_image named_bucket)
  finally have all: "leaf_values ` set leaves = named_values spec ` {r \<in> set rows. ?d r}" .
  have "distinct (map (\<lambda>(key, lf). leaf_values lf) (buckets st))"
    by (rule distinct_zip_keys [where as = "map address (spec_keys spec)"])
      (use st leaf(1,2) in \<open>auto simp: sifted_def\<close>)
  then have "distinct (map leaf_values (map snd (buckets st)))" by (simp add: case_prod_unfold comp_def)
  then have dist: "distinct (map leaf_values leaves)"
    unfolding vals distinct_map [of leaf_values] distinct_sort set_sort .
  have "sorted (map (\<lambda>lf. (leaf_ts lf, leaf_name lf)) (sort_key (\<lambda>lf. (leaf_ts lf, leaf_name lf)) (map snd (buckets st))))"
    by simp
  then have "sorted (map leaf_ts (sort_key (\<lambda>lf. (leaf_ts lf, leaf_name lf)) (map snd (buckets st))))"
    unfolding sorted_map by (rule sorted_wrt_mono_rel [rotated]) (auto simp: less_eq_prod_simp)
  moreover have "map leaf_ts leaves = map leaf_ts (sort_key (\<lambda>lf. (leaf_ts lf, leaf_name lf)) (map snd (buckets st)))"
    by (simp add: leaves)
  ultimately have order: "sorted (map leaf_ts leaves)" by simp
  have "filter (blocks spec cutoff) rows = []" using st none by (simp add: sifted_def)
  then have old: "\<forall>r \<in> set rows. er_spec r \<noteq> Some pid \<longrightarrow> (\<exists>t. row_instant spec r = Inr (Some t) \<and> cutoff \<le> t)"
    using ok(2) by (auto simp: filter_empty_conv blocks_def live_spec_def)
  have counts: "rot_files diag = int (length (filter (rotten spec) rows))" "rot_files diag \<le> max_rot"
    "floored_files diag = int (length (filter (young_file spec cutoff floor_snap) rows))"
    using st tol by (simp_all add: diag sifted_def)
  show ?thesis
    by (intro conjI ballI [OF each] all dist order old counts)
qed

text \<open>Two files of one day, a file of a later day, a young file, and a file of an older spec above the cutoff.\<close>

definition demo_enum_row :: "int \<Rightarrow> string \<Rightarrow> string \<Rightarrow> int \<Rightarrow> int \<Rightarrow> enum_row" where
  "demo_enum_row i m d begin_snap pid =
     \<lparr> er_file = i, er_values = [Some ''2'', Some ''2026'', Some m, Some d], er_fpv_rows = 4, er_fpv_keys = 4,
       er_rows = Some 10, er_bytes = Some 100, er_begin = begin_snap, er_spec = Some pid \<rparr>"

definition demo_rows :: "enum_row list" where
  "demo_rows = [demo_enum_row 12 ''8'' ''2'' 7 5, demo_enum_row 10 ''8'' ''1'' 7 5, demo_enum_row 11 ''8'' ''1'' 8 5,
     demo_enum_row 13 ''8'' ''1'' 900 5, demo_enum_row 14 ''8'' ''20'' 8 4]"

definition demo_cutoff :: int where
  "demo_cutoff = instant_of 2026 8 10 0"

definition demo_leaves :: "leaf list" where
  "demo_leaves =
     [\<lparr> leaf_name = ''team_id=2,year=2026,month=8,day=1'',
        leaf_values = [(''team_id'', ''2''), (''year'', ''2026''), (''month'', ''8''), (''day'', ''1'')],
        leaf_ts = instant_of 2026 8 1 0,
        leaf_files = [\<lparr> lf_id = 10, lf_rows = 10, lf_bytes = 100, lf_begin = 7 \<rparr>,
          \<lparr> lf_id = 11, lf_rows = 10, lf_bytes = 100, lf_begin = 8 \<rparr>], leaf_oversized = True \<rparr>,
      \<lparr> leaf_name = ''team_id=2,year=2026,month=8,day=2'',
        leaf_values = [(''team_id'', ''2''), (''year'', ''2026''), (''month'', ''8''), (''day'', ''2'')],
        leaf_ts = instant_of 2026 8 2 0,
        leaf_files = [\<lparr> lf_id = 12, lf_rows = 10, lf_bytes = 100, lf_begin = 7 \<rparr>], leaf_oversized = False \<rparr>]"

theorem manifest_is_exact_witness:
  "classify_enumeration demo_rows demo_spec demo_cutoff 500 1 0
     = Inr (demo_leaves, \<lparr> rot_files = 0, rot_sample_ids = [], floored_files = 1 \<rparr>)
   \<and> distinct (map leaf_values demo_leaves)
   \<and> leaf_values ` set demo_leaves = named_values demo_spec ` {r \<in> set demo_rows. droppable demo_spec demo_cutoff 500 r}"
proof -
  have run: "classify_enumeration demo_rows demo_spec demo_cutoff 500 1 0
     = Inr (demo_leaves, \<lparr> rot_files = 0, rot_sample_ids = [], floored_files = 1 \<rparr>)"
    by code_simp
  have shape: "\<forall>r \<in> set demo_rows. length (er_values r) = length demo_keys"
    by code_simp
  show ?thesis
    using manifest_is_exact [OF demo_spec_checks shape run] run by blast
qed

end
