(* ===== verification/DropCat.thy ===== *)
theory DropCat
  imports DropLeaves
begin

text \<open>
  The catalog database the partition tools read and write, table by table, and what each of their SELECT
  statements returns on it. A column the code tests for NULL is an \<open>option\<close>; a BIGINT is an \<open>int\<close>. Row order
  is given only by ORDER BY; where the code takes rows unordered, they come in the order of the table.
\<close>

subsection \<open>Tables\<close>

record table_row =
  tb_id :: int
  tb_schema :: int
  tb_name :: string
  tb_end :: "int option"

record schema_row =
  sc_id :: int
  sc_name :: string
  sc_end :: "int option"

record spec_row =
  sp_id :: int
  sp_table :: int
  sp_end :: "int option"

record spec_column =
  sk_table :: int
  sk_spec :: int
  sk_index :: int
  sk_column :: int
  sk_transform :: string

record column_row =
  cl_table :: int
  cl_id :: int
  cl_name :: string
  cl_end :: "int option"

record snapshot_row =
  sn_id :: int
  sn_time :: "int option"
  sn_schema_version :: int
  sn_next_catalog :: int
  sn_next_file :: int

record data_file =
  df_id :: int
  df_table :: int
  df_spec :: "int option"
  df_begin :: int
  df_end :: "int option"
  df_rows :: "int option"
  df_bytes :: "int option"

record fpv_row =
  fv_file :: int
  fv_table :: int
  fv_index :: int
  fv_value :: "string option"

record delete_row =
  dl_table :: int
  dl_file :: int
  dl_end :: "int option"

record stats_row =
  ts_table :: int
  ts_rows :: int
  ts_bytes :: int

record change_row =
  ch_snapshot :: int
  ch_changes :: string
  ch_author :: string
  ch_message :: string

record cursor_row =
  cu_destination :: string
  cu_instance :: string
  cu_snapshot :: "int option"

text \<open>\<open>cat_cursors\<close> holds the tables of viaduck's state by qualified name; a name that is absent does not exist.\<close>

record catalog =
  cat_tables :: "table_row list"
  cat_schemas :: "schema_row list"
  cat_specs :: "spec_row list"
  cat_spec_columns :: "spec_column list"
  cat_columns :: "column_row list"
  cat_snapshots :: "snapshot_row list"
  cat_files :: "data_file list"
  cat_fpv :: "fpv_row list"
  cat_deletes :: "delete_row list"
  cat_stats :: "stats_row list"
  cat_changes :: "change_row list"
  cat_metadata :: "(string \<times> string) list"
  cat_cursors :: "(string \<times> cursor_row list) list"

subsection \<open>Reads before a run\<close>

text \<open>The query of \<open>_resolve_table_id\<close>.\<close>

definition live_table_ids :: "string \<Rightarrow> string \<Rightarrow> catalog \<Rightarrow> int list" where
  "live_table_ids schema_name table_name c =
     concat (map (\<lambda>t. map (\<lambda>s. tb_id t)
         (filter (\<lambda>s. sc_id s = tb_schema t \<and> sc_end s = None \<and> sc_name s = schema_name) (cat_schemas c)))
       (filter (\<lambda>t. tb_name t = table_name \<and> tb_end t = None) (cat_tables c)))"

text \<open>The two queries of \<open>_resolve_live_spec\<close>; the second is a LEFT JOIN ordered by key index.\<close>

definition live_spec_ids :: "int \<Rightarrow> catalog \<Rightarrow> int list" where
  "live_spec_ids table_id c =
     map sp_id (filter (\<lambda>p. sp_table p = table_id \<and> sp_end p = None) (cat_specs c))"

definition column_names :: "int \<Rightarrow> int \<Rightarrow> catalog \<Rightarrow> string option list" where
  "column_names table_id column_id c =
     (let ns = map cl_name
        (filter (\<lambda>x. cl_table x = table_id \<and> cl_id x = column_id \<and> cl_end x = None) (cat_columns c))
      in if ns = [] then [None] else map Some ns)"

definition spec_key_rows :: "int \<Rightarrow> int \<Rightarrow> catalog \<Rightarrow> partition_key list" where
  "spec_key_rows table_id pid c =
     sort_key key_index (concat (map (\<lambda>p. map (\<lambda>name. \<lparr> key_index = sk_index p, key_column_id = sk_column p,
           key_transform = sk_transform p, key_column = name \<rparr>) (column_names table_id (sk_column p) c))
       (filter (\<lambda>p. sk_table p = table_id \<and> sk_spec p = pid) (cat_spec_columns c))))"

text \<open>The two queries of \<open>_floor_snapshot\<close>: aggregates are NULL on no rows.\<close>

definition sql_max :: "int list \<Rightarrow> int option" where
  "sql_max xs = (if xs = [] then None else Some (Max (set xs)))"

definition sql_min :: "int list \<Rightarrow> int option" where
  "sql_min xs = (if xs = [] then None else Some (Min (set xs)))"

definition newest_before :: "int \<Rightarrow> catalog \<Rightarrow> int option" where
  "newest_before t c =
     sql_max (map sn_id (filter (\<lambda>s. case sn_time s of None \<Rightarrow> False | Some u \<Rightarrow> u < t) (cat_snapshots c)))"

definition oldest_snapshot :: "catalog \<Rightarrow> int option" where
  "oldest_snapshot c = sql_min (map sn_id (cat_snapshots c))"

text \<open>The LEFT JOIN of \<open>_cursor_guard\<close>: each cursor with the time of its snapshot, NULL when the snapshot is gone.\<close>

definition cursor_times :: "cursor_row \<Rightarrow> catalog \<Rightarrow> int option list" where
  "cursor_times v c =
     (let ts = map sn_time (filter (\<lambda>s. cu_snapshot v = Some (sn_id s)) (cat_snapshots c))
      in if ts = [] then [None] else ts)"

definition joined_cursors :: "cursor_row list \<Rightarrow> catalog \<Rightarrow> (cursor_row \<times> int option) list" where
  "joined_cursors vs c = concat (map (\<lambda>v. map (Pair v) (cursor_times v c)) vs)"

subsection \<open>The files of a table\<close>

definition fpv_of :: "int \<Rightarrow> catalog \<Rightarrow> fpv_row list" where
  "fpv_of file c = filter (\<lambda>v. fv_file v = file) (cat_fpv c)"

text \<open>
  \<open>_enumeration_sql\<close>: one row per file that has partition values in this table, pivoted by key index, joined
  to its live data file. \<open>tmax\<close> is the database's maximum of texts, which depends on its collation.
\<close>

definition pivot :: "(string list \<Rightarrow> string) \<Rightarrow> fpv_row list \<Rightarrow> int \<Rightarrow> string option" where
  "pivot tmax vs i =
     (let xs = List.map_filter fv_value (filter (\<lambda>v. fv_index v = i) vs)
      in if xs = [] then None else Some (tmax xs))"

definition enumerate_files ::
  "(string list \<Rightarrow> string) \<Rightarrow> partition_spec \<Rightarrow> int \<Rightarrow> catalog \<Rightarrow> enum_row list" where
  "enumerate_files tmax spec table_id c =
     concat (map (\<lambda>file.
       let vs = filter (\<lambda>v. fv_table v = table_id) (fpv_of file c)
       in map (\<lambda>df. \<lparr> er_file = file, er_values = map (\<lambda>k. pivot tmax vs (key_index k)) (spec_keys spec),
              er_fpv_rows = int (length vs), er_fpv_keys = int (card (fv_index ` set vs)),
              er_rows = df_rows df, er_bytes = df_bytes df, er_begin = df_begin df, er_spec = df_spec df \<rparr>)
           (filter (\<lambda>df. df_id df = file \<and> df_table df = table_id \<and> df_end df = None) (cat_files c)))
       (remdups (map fv_file (filter (\<lambda>v. fv_table v = table_id) (cat_fpv c)))))"

text \<open>\<open>_assert_no_unageable_files\<close>: the live files without any partition value.\<close>

definition unageable :: "int \<Rightarrow> catalog \<Rightarrow> data_file list" where
  "unageable table_id c =
     filter (\<lambda>df. df_table df = table_id \<and> df_end df = None \<and> fpv_of (df_id df) c = []) (cat_files c)"

text \<open>The EXISTS conditions of \<open>_leaf_selection_sql\<close> and \<open>_old_spec_leaf_check\<close>.\<close>

definition matches_tuple :: "partition_spec \<Rightarrow> (int, string) dict \<Rightarrow> fpv_row list \<Rightarrow> bool" where
  "matches_tuple spec tuple vs \<longleftrightarrow>
     (\<forall>k \<in> set (spec_keys spec). \<exists>v \<in> set vs. fv_index v = key_index k \<and> fv_value v = map_of tuple (key_index k)
        \<and> fv_value v \<noteq> None)"

definition selects_file ::
  "int \<Rightarrow> partition_spec \<Rightarrow> int \<Rightarrow> (int, string) dict \<Rightarrow> data_file \<Rightarrow> fpv_row list \<Rightarrow> bool" where
  "selects_file table_id spec floor_snap tuple df vs \<longleftrightarrow>
     df_table df = table_id \<and> df_spec df = Some (spec_partition_id spec) \<and> df_begin df \<le> floor_snap
   \<and> length vs = length (spec_keys spec) \<and> matches_tuple spec tuple vs"

definition leaf_selection ::
  "int \<Rightarrow> partition_spec \<Rightarrow> int \<Rightarrow> (int, string) dict \<Rightarrow> catalog \<Rightarrow> data_file list" where
  "leaf_selection table_id spec floor_snap tuple c =
     sort_key df_id (filter (\<lambda>df. df_end df = None
       \<and> selects_file table_id spec floor_snap tuple df (fpv_of (df_id df) c)) (cat_files c))"

definition old_spec_matches :: "int \<Rightarrow> partition_spec \<Rightarrow> (int, string) dict \<Rightarrow> catalog \<Rightarrow> nat" where
  "old_spec_matches table_id spec tuple c =
     length (filter (\<lambda>df. df_table df = table_id \<and> df_end df = None
       \<and> df_spec df \<noteq> Some (spec_partition_id spec) \<and> matches_tuple spec tuple (fpv_of (df_id df) c)) (cat_files c))"

subsection \<open>The cursor guard\<close>

definition undefined_table :: pg_error where
  "undefined_table = \<lparr> sqlstate = Some ''42P01'', connection_class = False, session_lost = False \<rparr>"

text \<open>
  \<open>_guard_predicate\<close> on a \<open>begin_snapshot\<close>, with SQL's third truth value as \<open>None\<close>: the minimum over no cursor, or
  over NULLs only, is NULL, and so is the comparison with it.
\<close>

definition guard_bound :: "cursor_row list \<Rightarrow> int option" where
  "guard_bound vs = sql_min (List.map_filter cu_snapshot vs)"

definition guard_predicate :: "string option \<Rightarrow> catalog \<Rightarrow> drop_exn + (int \<Rightarrow> bool option)" where
  "guard_predicate guard_sql c =
     (case guard_sql of
        None \<Rightarrow> Inr (\<lambda>b. Some True)
      | Some name \<Rightarrow>
          (case map_of (cat_cursors c) name of
             None \<Rightarrow> Inl (PgError undefined_table)
           | Some vs \<Rightarrow> Inr (\<lambda>b. map_option (\<lambda>m. b < m) (guard_bound vs))))"

end
