(* ===== verification/DropTxn.thy ===== *)
theory DropTxn
  imports DropCat
begin

text \<open>
  The leaf transaction and its retries (\<open>_drop_leaf_txn\<close>, \<open>_drop_leaf_with_retries\<close>). The tool holds one
  session to the catalog database under READ COMMITTED: every statement sees what is committed when it starts
  together with the transaction's own writes, and other sessions may commit between any two statements. The
  environment \<open>E\<close> says what they commit, which statements fail, what the clocks show and whether the advisory
  lock is free, each by the number of the statement.
\<close>

subsection \<open>Sessions\<close>

text \<open>The writes of one transaction, kept until it commits. A \<open>SubStats\<close> applies to the rows its WHERE admits.\<close>

datatype catalog_write =
    AddSnapshot snapshot_row
  | EndFiles "int list" int
  | SubStats int int int
  | AddChange change_row

definition stats_admit :: "int \<Rightarrow> int \<Rightarrow> int \<Rightarrow> stats_row \<Rightarrow> bool" where
  "stats_admit table_id rows_delta bytes_delta x \<longleftrightarrow>
     ts_table x = table_id \<and> ts_rows x \<ge> rows_delta \<and> ts_bytes x \<ge> bytes_delta \<and> ts_rows x - rows_delta > 0"

fun apply_write :: "catalog_write \<Rightarrow> catalog \<Rightarrow> catalog" where
  "apply_write (AddSnapshot x) c = c\<lparr> cat_snapshots := cat_snapshots c @ [x] \<rparr>"
| "apply_write (EndFiles ids snap) c =
     c\<lparr> cat_files := map (\<lambda>f. if df_id f \<in> set ids then f\<lparr> df_end := Some snap \<rparr> else f) (cat_files c) \<rparr>"
| "apply_write (SubStats table_id r b) c =
     c\<lparr> cat_stats := map (\<lambda>x. if stats_admit table_id r b x
          then x\<lparr> ts_rows := ts_rows x - r, ts_bytes := ts_bytes x - b \<rparr> else x) (cat_stats c) \<rparr>"
| "apply_write (AddChange x) c = c\<lparr> cat_changes := cat_changes c @ [x] \<rparr>"

definition apply_writes :: "catalog_write list \<Rightarrow> catalog \<Rightarrow> catalog" where
  "apply_writes ws c = fold apply_write ws c"

record pg_env =
  others :: "nat \<Rightarrow> catalog_write list \<Rightarrow> catalog \<Rightarrow> catalog"
  failure :: "nat \<Rightarrow> pg_error option"
  lost_answer :: "nat \<Rightarrow> bool"
  lock_free :: "nat \<Rightarrow> bool"
  isolation :: "nat \<Rightarrow> string"
  server_time :: "nat \<Rightarrow> int"
  monotonic :: "nat \<Rightarrow> real"

text \<open>The counters of a run (the \<open>metrics\<close> dict).\<close>

record drop_meter =
  m_retries :: int
  m_aborts :: int
  m_files_dropped :: int
  m_leaves_dropped :: int
  m_leaves_skipped :: int
  m_skipped_files :: int

text \<open>\<open>db\<close> is what is committed; \<open>mine\<close> are the writes of the open transaction; \<open>closed\<close> is \<open>pg.closed\<close>.\<close>

record session =
  db :: catalog
  mine :: "catalog_write list"
  tick :: nat
  closed :: bool
  meter :: drop_meter

type_synonym 'a dop = "session \<Rightarrow> (drop_exn + 'a) \<times> session"

definition d_ret :: "'a \<Rightarrow> 'a dop" where
  "d_ret a = (\<lambda>s. (Inr a, s))"

definition d_fail :: "drop_exn \<Rightarrow> 'a dop" where
  "d_fail x = (\<lambda>s. (Inl x, s))"

definition d_bind :: "'a dop \<Rightarrow> ('a \<Rightarrow> 'b dop) \<Rightarrow> 'b dop" where
  "d_bind m f = (\<lambda>s. case m s of (Inl x, s1) \<Rightarrow> (Inl x, s1) | (Inr a, s1) \<Rightarrow> f a s1)"

definition d_guard :: "bool \<Rightarrow> abort_reason \<Rightarrow> unit dop" where
  "d_guard ok r = (if ok then d_ret () else d_fail (DropAbort r))"

definition d_lift :: "drop_exn + 'a \<Rightarrow> 'a dop" where
  "d_lift x = (\<lambda>s. (x, s))"

definition count_meter :: "(drop_meter \<Rightarrow> drop_meter) \<Rightarrow> session \<Rightarrow> session" where
  "count_meter f s = s\<lparr> meter := f (meter s) \<rparr>"

text \<open>Using a closed connection raises \<open>OperationalError\<close> without an SQLSTATE.\<close>

definition closed_error :: pg_error where
  "closed_error = \<lparr> sqlstate = None, connection_class = True, session_lost = True \<rparr>"

text \<open>The other sessions up to this statement.\<close>

definition elapse :: "pg_env \<Rightarrow> session \<Rightarrow> session" where
  "elapse E s = s\<lparr> db := others E (tick s) (mine s) (db s), tick := Suc (tick s) \<rparr>"

definition lose :: "pg_error \<Rightarrow> session \<Rightarrow> session" where
  "lose e s = (if session_lost e then s\<lparr> closed := True, mine := [] \<rparr> else s)"

definition statement :: "pg_env \<Rightarrow> (catalog \<Rightarrow> drop_exn + 'a \<times> catalog_write list) \<Rightarrow> 'a dop" where
  "statement E f s =
     (if closed s then (Inl (PgError closed_error), s)
      else (case failure E (tick s) of
              Some e \<Rightarrow> (Inl (PgError e), lose e (elapse E s))
            | None \<Rightarrow>
                let s1 = elapse E s in
                (case f (apply_writes (mine s1) (db s1)) of
                   Inl x \<Rightarrow> (Inl x, s1)
                 | Inr (a, ws) \<Rightarrow> (Inr a, s1\<lparr> mine := mine s1 @ ws \<rparr>))))"

definition query :: "pg_env \<Rightarrow> (catalog \<Rightarrow> 'a) \<Rightarrow> 'a dop" where
  "query E q = statement E (\<lambda>c. Inr (q c, []))"

text \<open>COMMIT may apply and yet lose its answer; a failed ROLLBACK is swallowed by psycopg.\<close>

definition commit_txn :: "pg_env \<Rightarrow> unit dop" where
  "commit_txn E s =
     (if closed s then (Inl (PgError closed_error), s\<lparr> mine := [] \<rparr>)
      else let s1 = elapse E s; done = s1\<lparr> db := apply_writes (mine s1) (db s1), mine := [] \<rparr> in
        (case failure E (tick s) of
           Some e \<Rightarrow> (Inl (PgError e), lose e (if lost_answer E (tick s) then done else s1\<lparr> mine := [] \<rparr>))
         | None \<Rightarrow> (Inr (), done)))"

definition rollback_txn :: "pg_env \<Rightarrow> session \<Rightarrow> session" where
  "rollback_txn E s =
     (if closed s then s\<lparr> mine := [] \<rparr>
      else let s1 = elapse E (s\<lparr> mine := [] \<rparr>) in
        (case failure E (tick s) of Some e \<Rightarrow> lose e s1 | None \<Rightarrow> s1))"

text \<open>\<open>conn_transaction\<close>: BEGIN, the body, COMMIT on a clean exit and ROLLBACK on an exception.\<close>

definition conn_transaction :: "pg_env \<Rightarrow> 'a dop \<Rightarrow> 'a dop" where
  "conn_transaction E body =
     d_bind (query E (\<lambda>_. ())) (\<lambda>_ s.
       case body s of
         (Inl x, s1) \<Rightarrow> (Inl x, rollback_txn E s1)
       | (Inr a, s1) \<Rightarrow> d_bind (commit_txn E) (\<lambda>_. d_ret a) s1)"

subsection \<open>One leaf\<close>

definition DROP_CATALOG_VERSIONS :: "string list" where
  "DROP_CATALOG_VERSIONS = [''1.0'', ''1.1-dev1'']"

definition assert_catalog_version :: "pg_env \<Rightarrow> unit dop" where
  "assert_catalog_version E =
     d_bind (query E (\<lambda>c. map snd (filter (\<lambda>(k, v). k = ''version'') (cat_metadata c)))) (\<lambda>vs.
       d_guard (length vs = 1 \<and> hd vs \<in> set DROP_CATALOG_VERSIONS) VersionPin)"

text \<open>The snapshot INSERT; the primary key refuses an id that exists.\<close>

definition unique_violation :: pg_error where
  "unique_violation = \<lparr> sqlstate = Some ''23505'', connection_class = False, session_lost = False \<rparr>"

definition newest_snapshot :: "catalog \<Rightarrow> snapshot_row option" where
  "newest_snapshot c =
     (case sort_key (\<lambda>x. - sn_id x) (cat_snapshots c) of [] \<Rightarrow> None | x # xs \<Rightarrow> Some x)"

definition insert_snapshot :: "pg_env \<Rightarrow> snapshot_row \<Rightarrow> unit dop" where
  "insert_snapshot E base s =
     statement E (\<lambda>c.
       if sn_id base + 1 \<in> sn_id ` set (cat_snapshots c) then Inl (PgError unique_violation)
       else Inr ((), [AddSnapshot \<lparr> sn_id = sn_id base + 1, sn_time = Some (server_time E (tick s)),
              sn_schema_version = sn_schema_version base, sn_next_catalog = sn_next_catalog base,
              sn_next_file = sn_next_file base + 1 \<rparr>])) s"

definition live_among :: "int list \<Rightarrow> catalog \<Rightarrow> data_file list" where
  "live_among ids c = filter (\<lambda>f. df_id f \<in> set ids \<and> df_end f = None) (cat_files c)"

definition end_files :: "pg_env \<Rightarrow> string option \<Rightarrow> int list \<Rightarrow> int \<Rightarrow> data_file list dop" where
  "end_files E guard_sql ids snap =
     statement E (\<lambda>c. and_then (guard_predicate guard_sql c) (\<lambda>ok.
       let hit = filter (\<lambda>f. ok (df_begin f) = Some True) (live_among ids c)
       in Inr (hit, [EndFiles (map df_id hit) snap])))"

text \<open>The skipped members that are still live: those the guard admits, and the others.\<close>

definition classify_skipped :: "pg_env \<Rightarrow> string option \<Rightarrow> int list \<Rightarrow> (int list \<times> int list) dop" where
  "classify_skipped E guard_sql skipped =
     statement E (\<lambda>c. and_then (guard_predicate guard_sql c) (\<lambda>ok.
       Inr ((map df_id (filter (\<lambda>f. ok (df_begin f) = Some True) (live_among skipped c)),
             map df_id (filter (\<lambda>f. ok (df_begin f) \<noteq> Some True) (live_among skipped c))), [])))"

definition still_eligible :: "pg_env \<Rightarrow> string option \<Rightarrow> int list \<Rightarrow> nat dop" where
  "still_eligible E guard_sql ids =
     statement E (\<lambda>c. and_then (guard_predicate guard_sql c) (\<lambda>ok.
       Inr (length (filter (\<lambda>f. ok (df_begin f) = Some True) (live_among ids c)), [])))"

definition skipped_members :: "pg_env \<Rightarrow> string option \<Rightarrow> int list \<Rightarrow> nat dop" where
  "skipped_members E guard_sql skipped =
     (if skipped = [] then d_ret 0
      else d_bind (classify_skipped E guard_sql skipped) (\<lambda>(eligible, ineligible).
        if eligible \<noteq> [] then
          d_bind (still_eligible E guard_sql eligible) (\<lambda>n.
            if n \<noteq> 0 then d_fail (DropAbort (UpdateMissed n)) else d_fail (LeafSkip CursorAdvanced))
        else if ineligible \<noteq> [] then d_fail (LeafSkip (BecameIneligible (length ineligible)))
        else d_ret (length skipped)))"

definition check_rewound :: "pg_env \<Rightarrow> string option \<Rightarrow> int list \<Rightarrow> int \<Rightarrow> unit dop" where
  "check_rewound E guard_sql ids snap =
     (if guard_sql = None then d_ret ()
      else d_bind (statement E (\<lambda>c. and_then (guard_predicate guard_sql c) (\<lambda>ok.
          Inr (length (filter (\<lambda>f. df_id f \<in> set ids \<and> df_end f = Some snap \<and> ok (df_begin f) = Some False)
                 (cat_files c)), [])))) (\<lambda>n.
        if n \<noteq> 0 then d_fail (LeafSkip (CursorRewound n)) else d_ret ()))"

definition sub_stats :: "pg_env \<Rightarrow> int \<Rightarrow> int \<Rightarrow> int \<Rightarrow> unit dop" where
  "sub_stats E table_id rows_delta bytes_delta =
     d_bind (statement E (\<lambda>c. Inr (length (filter (stats_admit table_id rows_delta bytes_delta) (cat_stats c)),
         [SubStats table_id rows_delta bytes_delta]))) (\<lambda>n.
       if n = 1 then d_ret ()
       else d_bind (query E (\<lambda>c. filter (\<lambda>x. ts_table x = table_id) (cat_stats c))) (\<lambda>_.
         d_fail (DropAbort (StatsRefused n))))"

record drop_result =
  dr_snapshot :: int
  dr_files :: int
  dr_rows :: int
  dr_bytes :: int
  dr_ended :: int
  dr_attempts :: nat

definition sum_of :: "(data_file \<Rightarrow> int option) \<Rightarrow> data_file list \<Rightarrow> int" where
  "sum_of col fs = sum_list (map (\<lambda>f. or_zero (col f)) fs)"

text \<open>\<open>SHOW transaction_isolation\<close>.\<close>

definition check_read_committed :: "pg_env \<Rightarrow> unit dop" where
  "check_read_committed E s =
     d_bind (query E (\<lambda>_. isolation E (tick s))) (\<lambda>level. d_guard (level = ''read committed'') NotReadCommitted) s"

text \<open>Up to the baseline: two SET LOCAL, the isolation check, the version pin, live delete vectors, the newest snapshot.\<close>

definition drop_baseline :: "pg_env \<Rightarrow> int \<Rightarrow> int list \<Rightarrow> bool \<Rightarrow> snapshot_row dop" where
  "drop_baseline E table_id ids check_isolation =
     d_bind (query E (\<lambda>_. ())) (\<lambda>_.
     d_bind (query E (\<lambda>_. ())) (\<lambda>_.
     d_bind (if check_isolation then check_read_committed E else d_ret ()) (\<lambda>_.
     d_bind (assert_catalog_version E) (\<lambda>_.
     d_bind (query E (\<lambda>c. length (filter (\<lambda>x. dl_table x = table_id \<and> dl_end x = None \<and> dl_file x \<in> set ids)
               (cat_deletes c)))) (\<lambda>n_dv.
     d_bind (d_guard (n_dv = 0) (LiveDeleteVectors n_dv)) (\<lambda>_.
     d_bind (query E newest_snapshot) (\<lambda>newest.
       case newest of None \<Rightarrow> d_fail (DropAbort EmptyCatalog) | Some base \<Rightarrow> d_ret base)))))))"

text \<open>The UPDATE of the files with what is checked on its outcome: the files it ended, and how many others had ended.\<close>

definition end_leaf_files :: "pg_env \<Rightarrow> string option \<Rightarrow> int list \<Rightarrow> int \<Rightarrow> (data_file list \<times> nat) dop" where
  "end_leaf_files E guard_sql ids snap =
     d_bind (end_files E guard_sql ids snap) (\<lambda>updated.
     d_bind (skipped_members E guard_sql (filter (\<lambda>i. i \<notin> df_id ` set updated) ids)) (\<lambda>ended.
     d_bind (if updated = [] then d_fail (LeafSkip LeafVanished) else d_ret ()) (\<lambda>_.
     d_bind (check_rewound E guard_sql ids snap) (\<lambda>_.
     d_ret (updated, ended)))))"

definition drop_leaf_body ::
  "pg_env \<Rightarrow> int \<Rightarrow> int list \<Rightarrow> string option \<Rightarrow> string \<Rightarrow> bool \<Rightarrow> drop_result dop" where
  "drop_leaf_body E table_id ids guard_sql message check_isolation =
     d_bind (drop_baseline E table_id ids check_isolation) (\<lambda>base.
     d_bind (insert_snapshot E base) (\<lambda>_.
     d_bind (end_leaf_files E guard_sql ids (sn_id base + 1)) (\<lambda>(updated, ended).
     d_bind (sub_stats E table_id (sum_of df_rows updated) (sum_of df_bytes updated)) (\<lambda>_.
     d_bind (statement E (\<lambda>_. Inr ((), [AddChange \<lparr> ch_snapshot = sn_id base + 1,
               ch_changes = ''deleted_from_table:'' @ str_int table_id, ch_author = ''drop-partitions'',
               ch_message = message \<rparr>]))) (\<lambda>_.
     d_ret \<lparr> dr_snapshot = sn_id base + 1, dr_files = int (length updated), dr_rows = sum_of df_rows updated,
       dr_bytes = sum_of df_bytes updated, dr_ended = int ended, dr_attempts = 0 \<rparr>)))))"

definition drop_leaf_txn ::
  "pg_env \<Rightarrow> int \<Rightarrow> int list \<Rightarrow> string option \<Rightarrow> string \<Rightarrow> bool \<Rightarrow> drop_result dop" where
  "drop_leaf_txn E table_id ids guard_sql message check_isolation =
     conn_transaction E (drop_leaf_body E table_id ids guard_sql message check_isolation)"

subsection \<open>Retries\<close>

definition DROP_MAX_ATTEMPTS :: nat where
  "DROP_MAX_ATTEMPTS = 50"

definition DROP_LOCK_ATTEMPTS :: nat where
  "DROP_LOCK_ATTEMPTS = 30"

definition DROP_RETRYABLE_SQLSTATES :: "string list" where
  "DROP_RETRYABLE_SQLSTATES = [''23505'', ''40001'', ''55P03'', ''57014'', ''40P01'']"

definition retryable_pg_error :: "pg_error \<Rightarrow> bool" where
  "retryable_pg_error e \<longleftrightarrow>
     (case sqlstate e of None \<Rightarrow> False | Some st \<Rightarrow> st \<in> set DROP_RETRYABLE_SQLSTATES) \<or> connection_class e"

text \<open>\<open>_pg_direct_connect\<close>: a new session, or an error that leaves the old one closed.\<close>

definition pg_connect :: "pg_env \<Rightarrow> unit dop" where
  "pg_connect E s =
     (let s1 = elapse E s in
      case failure E (tick s) of
        Some e \<Rightarrow> (Inl (PgError e), s1)
      | None \<Rightarrow> (Inr (), s1\<lparr> closed := False, mine := [] \<rparr>))"

definition lock_refresh :: "pg_env \<Rightarrow> unit dop" where
  "lock_refresh E =
     d_bind (query E (\<lambda>_. ())) (\<lambda>_ s.
     d_bind (query E (\<lambda>_. lock_free E (tick s))) (\<lambda>got.
       if got then d_ret () else d_fail LockContended) s)"

text \<open>The \<open>finally\<close>: release the lock, and swallow what that raises.\<close>

definition release_lock :: "pg_env \<Rightarrow> session \<Rightarrow> session" where
  "release_lock E s = snd (query E (\<lambda>_. ()) s)"

text \<open>The body of the \<open>try\<close>; the flag is \<open>need_iso_check\<close> after it.\<close>

definition leaf_attempt ::
  "pg_env \<Rightarrow> int \<Rightarrow> int list \<Rightarrow> string option \<Rightarrow> string \<Rightarrow> bool \<Rightarrow> session
     \<Rightarrow> bool \<times> (drop_exn + drop_result) \<times> session" where
  "leaf_attempt E table_id ids guard_sql message recheck s =
     (let work = (\<lambda>recheck. d_bind (lock_refresh E) (\<lambda>_. drop_leaf_txn E table_id ids guard_sql message recheck))
      in if closed s then
           (case pg_connect E s of
              (Inl x, s1) \<Rightarrow> (recheck, Inl x, s1)
            | (Inr _, s1) \<Rightarrow> (True, work True s1))
         else (recheck, work recheck s))"

definition count_retry :: "session \<Rightarrow> session" where
  "count_retry = count_meter (\<lambda>m. m\<lparr> m_retries := m_retries m + 1 \<rparr>)"

text \<open>The loop; \<open>left\<close> counts the attempts down from \<open>_DROP_MAX_ATTEMPTS\<close>. Sleeps only let time pass.\<close>

fun leaf_loop ::
  "pg_env \<Rightarrow> int \<Rightarrow> int list \<Rightarrow> string option \<Rightarrow> string \<Rightarrow> real option \<Rightarrow> nat \<Rightarrow> nat \<Rightarrow> bool \<Rightarrow> drop_result dop" where
  "leaf_loop E table_id ids guard_sql message deadline 0 locks recheck s = (Inl (DropAbort AttemptsExceeded), s)"
| "leaf_loop E table_id ids guard_sql message deadline (Suc left) locks recheck s =
     (if (case deadline of None \<Rightarrow> False | Some t \<Rightarrow> monotonic E (tick s) > t)
      then (Inl (DropAbort OutOfTime), s)
      else
        (let (iso1, res, s1) = leaf_attempt E table_id ids guard_sql message recheck s; s2 = release_lock E s1 in
         case res of
           Inr r \<Rightarrow> (Inr (r\<lparr> dr_attempts := DROP_MAX_ATTEMPTS - left \<rparr>), s2)
         | Inl LockContended \<Rightarrow>
             if locks + 1 > DROP_LOCK_ATTEMPTS then (Inl (DropAbort LockExceeded), s2)
             else leaf_loop E table_id ids guard_sql message deadline left (locks + 1) iso1 (count_retry s2)
         | Inl (PgError e) \<Rightarrow>
             if retryable_pg_error e
             then leaf_loop E table_id ids guard_sql message deadline left locks iso1 (count_retry s2)
             else (Inl (PgError e), s2)
         | Inl x \<Rightarrow> (Inl x, s2)))"

definition drop_leaf_with_retries ::
  "pg_env \<Rightarrow> int \<Rightarrow> int list \<Rightarrow> string option \<Rightarrow> string \<Rightarrow> bool \<Rightarrow> real option \<Rightarrow> drop_result dop" where
  "drop_leaf_with_retries E table_id ids guard_sql message check_isolation deadline =
     leaf_loop E table_id ids guard_sql message deadline DROP_MAX_ATTEMPTS 0 check_isolation"

end
