(* ===== verification/DropLaws.thy ===== *)
theory DropLaws
  imports DropTxn
begin

text \<open>
  What the leaf transaction guarantees. The laws of the database are Postgres' own: rows a transaction has
  written stay as they are until it ends, an id is the primary key of its table; and DuckLake's: a data file
  never changes but for its end. The theorems say what a successful transaction has put in place at the moment
  it commits, and that anything else leaves the catalog to the other sessions.
\<close>

subsection \<open>Laws\<close>

text \<open>What other sessions leave alone while our writes \<open>ws\<close> are pending.\<close>

definition leaves_alone :: "catalog_write list \<Rightarrow> catalog \<Rightarrow> catalog \<Rightarrow> bool" where
  "leaves_alone ws c c' \<longleftrightarrow>
     (\<forall>x. AddSnapshot x \<in> set ws \<and> sn_id x \<notin> sn_id ` set (cat_snapshots c) \<longrightarrow> sn_id x \<notin> sn_id ` set (cat_snapshots c'))
   \<and> (\<forall>ids snap. EndFiles ids snap \<in> set ws \<longrightarrow>
        filter (\<lambda>f. df_id f \<in> set ids) (cat_files c') = filter (\<lambda>f. df_id f \<in> set ids) (cat_files c))
   \<and> (\<forall>t r b. SubStats t r b \<in> set ws \<longrightarrow>
        filter (\<lambda>x. ts_table x = t) (cat_stats c') = filter (\<lambda>x. ts_table x = t) (cat_stats c))"

text \<open>A file id names one file for ever: \<open>A\<close> is its row without the end, \<open>V\<close> its partition values.\<close>

definition named :: "(int \<Rightarrow> data_file) \<Rightarrow> (int \<Rightarrow> fpv_row list) \<Rightarrow> catalog \<Rightarrow> bool" where
  "named A V c \<longleftrightarrow> distinct (map df_id (cat_files c))
     \<and> (\<forall>f \<in> set (cat_files c). f\<lparr> df_end := None \<rparr> = A (df_id f) \<and> fpv_of (df_id f) c = V (df_id f))"

definition session_law :: "pg_env \<Rightarrow> (int \<Rightarrow> data_file) \<Rightarrow> (int \<Rightarrow> fpv_row list) \<Rightarrow> bool" where
  "session_law E A V \<longleftrightarrow>
     (\<forall>n ws c. leaves_alone ws c (others E n ws c) \<and> (named A V c \<longrightarrow> named A V (others E n ws c)))"

definition others_rel :: "pg_env \<Rightarrow> (catalog \<times> catalog) set" where
  "others_rel E = {(c, others E n ws c) | n ws c. True}"

lemma leaves_alone_refl [simp]: "leaves_alone ws c c"
  by (simp add: leaves_alone_def)

lemma leaves_alone_trans: "leaves_alone ws c c' \<Longrightarrow> leaves_alone ws c' c'' \<Longrightarrow> leaves_alone ws c c''"
  unfolding leaves_alone_def by metis

lemma leaves_alone_less: "leaves_alone ws' c c' \<Longrightarrow> set ws \<subseteq> set ws' \<Longrightarrow> leaves_alone ws c c'"
  unfolding leaves_alone_def by blast

subsection \<open>Runs of statements\<close>

lemma d_bind_Inr: "d_bind m f s = (Inr b, s') \<longleftrightarrow> (\<exists>a s1. m s = (Inr a, s1) \<and> f a s1 = (Inr b, s'))"
  by (auto simp: d_bind_def split: prod.splits sum.splits)

lemma d_ret_Inr [simp]: "d_ret a s = (Inr b, s') \<longleftrightarrow> b = a \<and> s' = s"
  by (auto simp: d_ret_def)

lemma d_fail_Inr [simp]: "d_fail x s = (Inr b, s') \<longleftrightarrow> False"
  by (simp add: d_fail_def)

lemma d_guard_Inr [simp]: "d_guard ok r s = (Inr b, s') \<longleftrightarrow> ok \<and> s' = s"
  by (simp add: d_guard_def)

lemma elapse_fields [simp]:
  "mine (elapse E s) = mine s" "closed (elapse E s) = closed s" "meter (elapse E s) = meter s"
  "tick (elapse E s) = Suc (tick s)" "db (elapse E s) = others E (tick s) (mine s) (db s)"
  by (simp_all add: elapse_def)

text \<open>How a session moves inside a transaction: its writes grow, and the others respect them.\<close>

definition txn_step :: "pg_env \<Rightarrow> (int \<Rightarrow> data_file) \<Rightarrow> (int \<Rightarrow> fpv_row list) \<Rightarrow> session \<Rightarrow> session \<Rightarrow> bool" where
  "txn_step E A V s s' \<longleftrightarrow>
     set (mine s) \<subseteq> set (mine s') \<and> leaves_alone (mine s) (db s) (db s')
   \<and> (named A V (db s) \<longrightarrow> named A V (db s')) \<and> (db s, db s') \<in> (others_rel E)\<^sup>*"

lemma txn_step_refl [simp]: "txn_step E A V s s"
  by (simp add: txn_step_def)

lemma txn_step_trans: "txn_step E A V s s' \<Longrightarrow> txn_step E A V s' s'' \<Longrightarrow> txn_step E A V s s''"
  unfolding txn_step_def by (meson leaves_alone_less leaves_alone_trans rtrancl_trans subset_trans)

definition steps :: "pg_env \<Rightarrow> (int \<Rightarrow> data_file) \<Rightarrow> (int \<Rightarrow> fpv_row list) \<Rightarrow> 'a dop \<Rightarrow> bool" where
  "steps E A V m \<longleftrightarrow> (\<forall>s a s'. m s = (Inr a, s') \<longrightarrow> txn_step E A V s s')"

named_theorems dop_steps \<open>operations that only take transaction steps\<close>

lemma stepsD: "steps E A V m \<Longrightarrow> m s = (Inr a, s') \<Longrightarrow> txn_step E A V s s'"
  by (simp add: steps_def)

lemma steps_ret [dop_steps]: "steps E A V (d_ret a)"
  by (simp add: steps_def)

lemma steps_fail [dop_steps]: "steps E A V (d_fail x)"
  by (simp add: steps_def)

lemma steps_guard [dop_steps]: "steps E A V (d_guard ok r)"
  by (simp add: steps_def)

lemma steps_bind [dop_steps]:
  assumes "steps E A V m" and "\<And>a. steps E A V (f a)"
  shows "steps E A V (d_bind m f)"
  unfolding steps_def d_bind_Inr by (meson assms stepsD txn_step_trans)

lemma statement_Inr:
  "statement E f s = (Inr a, s') \<longleftrightarrow> \<not> closed s \<and> failure E (tick s) = None
     \<and> (\<exists>ws. f (apply_writes (mine s) (db (elapse E s))) = Inr (a, ws)
          \<and> s' = (elapse E s)\<lparr> mine := mine s @ ws \<rparr>)"
  by (auto simp: statement_def Let_def split: option.splits sum.splits)

lemma others_relI: "(c, others E n ws c) \<in> others_rel E"
  by (auto simp: others_rel_def)

lemma steps_statement [dop_steps]:
  assumes "session_law E A V" shows "steps E A V (statement E f)"
  unfolding steps_def statement_Inr txn_step_def
  using assms others_relI by (fastforce simp: session_law_def)

lemma steps_query [dop_steps]: "session_law E A V \<Longrightarrow> steps E A V (query E q)"
  unfolding query_def by (rule steps_statement)

lemma steps_if [dop_steps]: "(b \<Longrightarrow> steps E A V m) \<Longrightarrow> (\<not> b \<Longrightarrow> steps E A V m') \<Longrightarrow> steps E A V (if b then m else m')"
  by simp

lemma steps_prod [dop_steps]: "(\<And>a b. steps E A V (f a b)) \<Longrightarrow> steps E A V (case p of (a, b) \<Rightarrow> f a b)"
  by (cases p) simp

lemma steps_option [dop_steps]:
  "steps E A V m \<Longrightarrow> (\<And>a. steps E A V (f a)) \<Longrightarrow> steps E A V (case x of None \<Rightarrow> m | Some a \<Rightarrow> f a)"
  by (cases x) simp_all

lemma steps_skipped: "session_law E A V \<Longrightarrow> steps E A V (skipped_members E g ids)"
  unfolding skipped_members_def classify_skipped_def still_eligible_def
  by (intro dop_steps) assumption+

lemma steps_rewound: "session_law E A V \<Longrightarrow> steps E A V (check_rewound E g ids snap)"
  unfolding check_rewound_def by (intro dop_steps) assumption+

lemma steps_read_committed [dop_steps]:
  assumes "session_law E A V" shows "steps E A V (check_read_committed E)"
proof -
  have "steps E A V (d_bind (query E (\<lambda>_. level)) (\<lambda>level. d_guard (level = ''read committed'') NotReadCommitted))" for level
    using assms by (intro dop_steps)
  then show ?thesis by (simp add: steps_def check_read_committed_def)
qed

lemma steps_baseline: "session_law E A V \<Longrightarrow> steps E A V (drop_baseline E t ids chk)"
  unfolding drop_baseline_def assert_catalog_version_def by (intro dop_steps) assumption+

subsection \<open>What a transaction has written when it commits\<close>

lemma apply_writes_simps [simp]:
  "apply_writes [] c = c" "apply_writes (w # ws) c = apply_writes ws (apply_write w c)"
  by (simp_all add: apply_writes_def)

lemma apply_writes_append: "apply_writes (ws @ ws') c = apply_writes ws' (apply_writes ws c)"
  by (simp add: apply_writes_def)

lemma write_keeps_cursors [simp]: "cat_cursors (apply_writes ws c) = cat_cursors c"
proof (induction ws arbitrary: c)
  case (Cons w ws)
  then show ?case by (cases w) simp_all
qed simp

lemma guard_predicate_view [simp]: "guard_predicate g (apply_writes ws c) = guard_predicate g c"
  by (simp add: guard_predicate_def split: option.split)

lemma snapshot_keeps_files [simp]: "live_among ids (apply_writes [AddSnapshot sn] c) = live_among ids c"
  by (simp add: live_among_def)

text \<open>A statement that reads the guard.\<close>

lemma guarded_Inr:
  "statement E (\<lambda>c. and_then (guard_predicate g c) (\<lambda>ok. Inr (q c ok))) s = (Inr a, s') \<longleftrightarrow>
     \<not> closed s \<and> failure E (tick s) = None
   \<and> (\<exists>ok. guard_predicate g (db s') = Inr ok \<and> a = fst (q (apply_writes (mine s) (db s')) ok)
        \<and> s' = (elapse E s)\<lparr> mine := mine s @ snd (q (apply_writes (mine s) (db s')) ok) \<rparr>)"
  (is "?l \<longleftrightarrow> ?r")
proof
  assume ?l
  then obtain ws where c: "\<not> closed s" "failure E (tick s) = None"
    and f: "and_then (guard_predicate g (apply_writes (mine s) (db (elapse E s)))) (\<lambda>ok.
        Inr (q (apply_writes (mine s) (db (elapse E s))) ok)) = (Inr (a, ws) :: drop_exn + _)"
    and s': "s' = (elapse E s)\<lparr> mine := mine s @ ws \<rparr>"
    unfolding statement_Inr by (elim exE conjE) (rule that)
  have d: "db s' = db (elapse E s)" by (simp add: s')
  from f obtain ok where "guard_predicate g (db s') = Inr ok" "q (apply_writes (mine s) (db s')) ok = (a, ws)"
    unfolding and_then_Inr guard_predicate_view d by auto
  then show ?r using c s' by (intro conjI exI [of _ ok]) simp_all
next
  assume r: ?r
  then obtain ok where ok: "guard_predicate g (db s') = Inr ok" "a = fst (q (apply_writes (mine s) (db s')) ok)"
    and s': "s' = (elapse E s)\<lparr> mine := mine s @ snd (q (apply_writes (mine s) (db s')) ok) \<rparr>"
    by blast
  have d: "db s' = db (elapse E s)" by (subst s') simp
  show ?l
    unfolding statement_Inr and_then_Inr guard_predicate_view d [symmetric]
    using r ok s' by (intro conjI exI [of _ "snd (q (apply_writes (mine s) (db s')) ok)"] exI [of _ ok]) simp_all
qed

definition drop_writes :: "int \<Rightarrow> data_file list \<Rightarrow> snapshot_row \<Rightarrow> change_row \<Rightarrow> catalog_write list" where
  "drop_writes table_id hit sn ch =
     [AddSnapshot sn, EndFiles (map df_id hit) (sn_id sn),
      SubStats table_id (sum_of df_rows hit) (sum_of df_bytes hit), AddChange ch]"

text \<open>
  The abstract step: from a catalog, end some live files of the leaf under a fresh snapshot, take exactly their
  rows and bytes off the one stats row of the table, which stays positive, and leave the conflict token.
\<close>

definition drop_ok :: "int \<Rightarrow> int list \<Rightarrow> data_file list \<Rightarrow> snapshot_row \<Rightarrow> change_row \<Rightarrow> catalog \<Rightarrow> bool" where
  "drop_ok table_id ids hit sn ch c \<longleftrightarrow>
     hit \<noteq> [] \<and> filter (\<lambda>f. df_id f \<in> df_id ` set hit) (cat_files c) = hit
   \<and> (\<forall>f \<in> set hit. df_end f = None \<and> df_id f \<in> set ids)
   \<and> sn_id sn \<notin> sn_id ` set (cat_snapshots c)
   \<and> length (filter (stats_admit table_id (sum_of df_rows hit) (sum_of df_bytes hit)) (cat_stats c)) = 1
   \<and> ch_snapshot ch = sn_id sn \<and> ch_changes ch = ''deleted_from_table:'' @ str_int table_id"

definition leaf_drop :: "int \<Rightarrow> int list \<Rightarrow> (catalog \<times> catalog) set" where
  "leaf_drop table_id ids =
     {(c, apply_writes (drop_writes table_id hit sn ch) c) | c hit sn ch. drop_ok table_id ids hit sn ch c}"

text \<open>The guard when the files were ended, and when it was read again.\<close>

definition guard_held :: "pg_env \<Rightarrow> string option \<Rightarrow> data_file list \<Rightarrow> catalog \<Rightarrow> catalog \<Rightarrow> bool" where
  "guard_held E g hit c c' \<longleftrightarrow>
     (\<exists>c1 ok1. (c, c1) \<in> (others_rel E)\<^sup>* \<and> guard_predicate g c1 = Inr ok1
        \<and> (\<forall>f \<in> set hit. ok1 (df_begin f) = Some True)
        \<and> (\<exists>c2 ok2. (c1, c2) \<in> (others_rel E)\<^sup>* \<and> (c2, c') \<in> (others_rel E)\<^sup>* \<and> guard_predicate g c2 = Inr ok2
             \<and> (\<forall>f \<in> set hit. ok2 (df_begin f) \<noteq> Some False)))"

text \<open>No member of the leaf is left over: at some point after the files were ended, none of the others was live.\<close>

definition whole_leaf :: "pg_env \<Rightarrow> int list \<Rightarrow> data_file list \<Rightarrow> catalog \<Rightarrow> catalog \<Rightarrow> bool" where
  "whole_leaf E ids hit c c' \<longleftrightarrow>
     (\<exists>c3. (c, c3) \<in> (others_rel E)\<^sup>* \<and> (c3, c') \<in> (others_rel E)\<^sup>*
        \<and> (\<forall>f \<in> set (cat_files c3). df_id f \<in> set ids \<and> df_end f = None \<longrightarrow> df_id f \<in> df_id ` set hit))"

lemma filter_hit:
  assumes "distinct (map df_id fs)" and "hit = filter P fs"
  shows "filter (\<lambda>f. df_id f \<in> df_id ` set hit) fs = hit"
proof -
  have "P f" if "f \<in> set fs" "df_id f \<in> df_id ` set hit" for f
    using that assms by (auto simp: distinct_map dest: inj_onD)
  then have "df_id f \<in> df_id ` set hit \<longleftrightarrow> P f" if "f \<in> set fs" for f
    using that assms(2) by auto
  then show ?thesis unfolding assms(2) by (intro filter_cong) (auto simp: assms(2))
qed

lemma txn_others: "txn_step E A V s s' \<Longrightarrow> (db s, db s') \<in> (others_rel E)\<^sup>*"
  by (simp add: txn_step_def)

lemma txn_named: "txn_step E A V s s' \<Longrightarrow> named A V (db s) \<Longrightarrow> named A V (db s')"
  by (simp add: txn_step_def)

lemma end_files_Inr:
  assumes law: "session_law E A V" and n: "named A V (db s)" and mine: "mine s = [AddSnapshot sn]"
    and run: "end_files E g ids snap s = (Inr hit, s')"
  shows "mine s' = [AddSnapshot sn, EndFiles (map df_id hit) snap]"
    and "filter (\<lambda>f. df_id f \<in> df_id ` set hit) (cat_files (db s')) = hit"
    and "\<forall>f \<in> set hit. df_end f = None \<and> df_id f \<in> set ids"
    and "\<exists>ok. guard_predicate g (db s') = Inr ok \<and> (\<forall>f \<in> set hit. ok (df_begin f) = Some True)"
    and "txn_step E A V s s'"
proof -
  show st: "txn_step E A V s s'"
    using stepsD [OF steps_statement [OF law] run [unfolded end_files_def]] .
  define q where "q c ok = (let hit = filter (\<lambda>f. ok (df_begin f) = Some True) (live_among ids c)
      in (hit, [EndFiles (map df_id hit) snap]))" for c :: catalog and ok :: "int \<Rightarrow> bool option"
  have "statement E (\<lambda>c. and_then (guard_predicate g c) (\<lambda>ok. Inr (q c ok))) s = (Inr hit, s')"
    using run by (simp add: end_files_def q_def Let_def)
  then obtain ok where ok: "guard_predicate g (db s') = Inr ok"
    and "hit = fst (q (apply_writes (mine s) (db s')) ok)"
    and "s' = (elapse E s)\<lparr> mine := mine s @ snd (q (apply_writes (mine s) (db s')) ok) \<rparr>"
    unfolding guarded_Inr by (elim exE conjE) (rule that)
  then have hit: "hit = filter (\<lambda>f. ok (df_begin f) = Some True) (live_among ids (db s'))"
    and s': "s' = (elapse E s)\<lparr> mine := mine s @ [EndFiles (map df_id hit) snap] \<rparr>"
    unfolding mine snapshot_keeps_files q_def Let_def by simp_all
  show "mine s' = [AddSnapshot sn, EndFiles (map df_id hit) snap]" by (simp add: s' mine)
  have "distinct (map df_id (cat_files (db s')))"
    using txn_named [OF st n] by (simp add: named_def)
  moreover have "hit = filter (\<lambda>f. ok (df_begin f) = Some True \<and> df_id f \<in> set ids \<and> df_end f = None) (cat_files (db s'))"
    by (simp add: hit live_among_def conj_ac)
  ultimately show "filter (\<lambda>f. df_id f \<in> df_id ` set hit) (cat_files (db s')) = hit"
    by (rule filter_hit)
  show "\<forall>f \<in> set hit. df_end f = None \<and> df_id f \<in> set ids" by (simp add: hit live_among_def)
  show "\<exists>ok. guard_predicate g (db s') = Inr ok \<and> (\<forall>f \<in> set hit. ok (df_begin f) = Some True)"
    using ok by (auto simp: hit)
qed

lemma statement_named: "session_law E A V \<Longrightarrow> statement E f s = (Inr a, s') \<Longrightarrow> txn_step E A V s s'"
  using stepsD [OF steps_statement] .

lemma classify_Inr:
  assumes "classify_skipped E g ids s = (Inr (yes, no), s')"
  shows "mine s' = mine s"
    and "set yes \<union> set no = df_id ` set (live_among ids (apply_writes (mine s) (db s')))"
proof -
  define q where "q c ok = ((map df_id (filter (\<lambda>f. ok (df_begin f) = Some True) (live_among ids c)),
      map df_id (filter (\<lambda>f. ok (df_begin f) \<noteq> Some True) (live_among ids c))), [] :: catalog_write list)"
    for c :: catalog and ok :: "int \<Rightarrow> bool option"
  have "statement E (\<lambda>c. and_then (guard_predicate g c) (\<lambda>ok. Inr (q c ok))) s = (Inr (yes, no), s')"
    using assms by (simp add: classify_skipped_def q_def)
  then obtain ok where r: "(yes, no) = fst (q (apply_writes (mine s) (db s')) ok)"
    and s': "s' = (elapse E s)\<lparr> mine := mine s @ snd (q (apply_writes (mine s) (db s')) ok) \<rparr>"
    unfolding guarded_Inr by (elim exE conjE) (rule that)
  show "mine s' = mine s" by (subst s') (simp add: q_def)
  show "set yes \<union> set no = df_id ` set (live_among ids (apply_writes (mine s) (db s')))"
    using r by (auto simp: q_def)
qed

lemma ended_elsewhere:
  assumes "live_among skipped (apply_writes [AddSnapshot sn, EndFiles done snap] c) = []"
    and "set skipped = {i \<in> set ids. i \<notin> set done}"
  shows "\<forall>f \<in> set (cat_files c). df_id f \<in> set ids \<and> df_end f = None \<longrightarrow> df_id f \<in> set done"
proof (intro ballI impI, rule ccontr)
  fix f assume f: "f \<in> set (cat_files c)" "df_id f \<in> set ids \<and> df_end f = None" "df_id f \<notin> set done"
  then have "f \<in> set (cat_files (apply_writes [AddSnapshot sn, EndFiles done snap] c))"
    by (force simp: image_iff)
  then have "f \<in> set (live_among skipped (apply_writes [AddSnapshot sn, EndFiles done snap] c))"
    using f assms(2) by (simp add: live_among_def)
  with assms(1) show False by simp
qed

lemma skipped_Inr:
  assumes law: "session_law E A V" and mine: "mine s = [AddSnapshot sn, EndFiles (map df_id hit) snap]"
    and run: "skipped_members E g (filter (\<lambda>i. i \<notin> df_id ` set hit) ids) s = (Inr n, s')"
  shows "mine s' = mine s" and "n = length (filter (\<lambda>i. i \<notin> df_id ` set hit) ids)"
    and "whole_leaf E ids hit (db s) (db s')"
proof -
  let ?sk = "filter (\<lambda>i. i \<notin> df_id ` set hit) ids"
  have "mine s' = mine s \<and> n = length ?sk \<and> whole_leaf E ids hit (db s) (db s')"
  proof (cases "?sk = []")
    case True
    then have "set ids \<subseteq> df_id ` set hit" by (auto simp: filter_empty_conv)
    then have "whole_leaf E ids hit (db s) (db s)"
      unfolding whole_leaf_def by (intro exI [of _ "db s"]) auto
    with run True show ?thesis by (simp add: skipped_members_def)
  next
    case False
    then obtain yes no s1 where c: "classify_skipped E g ?sk s = (Inr (yes, no), s1)"
      and rest: "(if yes \<noteq> [] then d_bind (still_eligible E g yes) (\<lambda>n.
            if n \<noteq> 0 then d_fail (DropAbort (UpdateMissed n)) else d_fail (LeafSkip CursorAdvanced))
        else if no \<noteq> [] then d_fail (LeafSkip (BecameIneligible (length no)))
        else d_ret (length ?sk)) s1 = (Inr n, s')"
      using run by (auto simp: skipped_members_def d_bind_Inr)
    from rest have none: "yes = []" "no = []" "n = length ?sk" "s' = s1"
      by (auto simp: d_bind_Inr split: if_splits)
    have "live_among ?sk (apply_writes (mine s) (db s1)) = []"
      using classify_Inr(2) [OF c] by (simp add: none)
    then have "\<forall>f \<in> set (cat_files (db s1)). df_id f \<in> set ids \<and> df_end f = None \<longrightarrow> df_id f \<in> set (map df_id hit)"
      unfolding mine by (rule ended_elsewhere) auto
    moreover have "(db s, db s1) \<in> (others_rel E)\<^sup>*"
      using txn_others [OF statement_named [OF law c [unfolded classify_skipped_def]]] .
    ultimately have "whole_leaf E ids hit (db s) (db s1)"
      unfolding whole_leaf_def by (intro exI [of _ "db s1"]) auto
    then show ?thesis using classify_Inr(1) [OF c] by (simp add: none)
  qed
  then show "mine s' = mine s" "n = length ?sk" "whole_leaf E ids hit (db s) (db s')" by blast+
qed

lemma rewound_Inr:
  assumes mine: "mine s = [AddSnapshot sn, EndFiles (map df_id hit) snap]"
    and kept: "filter (\<lambda>f. df_id f \<in> df_id ` set hit) (cat_files (db s')) = hit"
    and ids: "\<forall>f \<in> set hit. df_id f \<in> set ids"
    and run: "check_rewound E g ids snap s = (Inr u, s')"
  shows "mine s' = mine s"
    and "\<exists>ok. guard_predicate g (db s') = Inr ok \<and> (\<forall>f \<in> set hit. ok (df_begin f) \<noteq> Some False)"
proof -
  have "mine s' = mine s \<and> (\<exists>ok. guard_predicate g (db s') = Inr ok \<and> (\<forall>f \<in> set hit. ok (df_begin f) \<noteq> Some False))"
  proof (cases "g = None")
    case True
    with run show ?thesis by (simp add: check_rewound_def guard_predicate_def)
  next
    case False
    define q where "q c ok = (length (filter (\<lambda>f. df_id f \<in> set ids \<and> df_end f = Some snap
        \<and> ok (df_begin f) = Some False) (cat_files c)), [] :: catalog_write list)" for c :: catalog and ok :: "int \<Rightarrow> bool option"
    from run False obtain n s1 where st: "statement E (\<lambda>c. and_then (guard_predicate g c) (\<lambda>ok. Inr (q c ok))) s = (Inr n, s1)"
      and "(if n \<noteq> 0 then d_fail (LeafSkip (CursorRewound n)) else d_ret ()) s1 = (Inr u, s')"
      by (auto simp: check_rewound_def d_bind_Inr q_def)
    then have n: "n = 0" "s' = s1" by (auto split: if_splits)
    from st obtain ok where ok: "guard_predicate g (db s1) = Inr ok"
      and r: "n = fst (q (apply_writes (mine s) (db s1)) ok)"
      and s1: "s1 = (elapse E s)\<lparr> mine := mine s @ snd (q (apply_writes (mine s) (db s1)) ok) \<rparr>"
      unfolding guarded_Inr by (elim exE conjE) (rule that)
    have m: "mine s1 = mine s" by (subst s1) (simp add: q_def)
    have "ok (df_begin f) \<noteq> Some False" if f: "f \<in> set hit" for f
    proof
      assume bad: "ok (df_begin f) = Some False"
      have "f \<in> set (filter (\<lambda>f. df_id f \<in> df_id ` set hit) (cat_files (db s')))" using f by (subst kept)
      then have "f \<in> set (cat_files (db s1))" by (simp add: n)
      then have "f\<lparr> df_end := Some snap \<rparr> \<in> set (cat_files (apply_writes (mine s) (db s1)))"
        using f by (force simp: mine)
      moreover have "df_id f \<in> set ids" using ids f by blast
      ultimately have "filter (\<lambda>f. df_id f \<in> set ids \<and> df_end f = Some snap \<and> ok (df_begin f) = Some False)
          (cat_files (apply_writes (mine s) (db s1))) \<noteq> []"
        using bad unfolding filter_empty_conv by force
      then show False using r n by (simp add: q_def)
    qed
    with ok m n show ?thesis by auto
  qed
  then show "mine s' = mine s"
    "\<exists>ok. guard_predicate g (db s') = Inr ok \<and> (\<forall>f \<in> set hit. ok (df_begin f) \<noteq> Some False)" by blast+
qed

lemma baseline_mine: "drop_baseline E t ids chk s = (Inr base, s') \<Longrightarrow> mine s' = mine s"
proof -
  have q: "mine s2 = mine s1" if "query E f s1 = (Inr a, s2)" for f :: "catalog \<Rightarrow> 'x" and s1 a s2
    using that by (auto simp: query_def statement_Inr)
  have r: "mine s2 = mine s1" if "check_read_committed E s1 = (Inr a, s2)" for s1 a s2
    using that by (auto simp: check_read_committed_def d_bind_Inr query_def statement_Inr)
  assume "drop_baseline E t ids chk s = (Inr base, s')"
  then show ?thesis
    unfolding drop_baseline_def assert_catalog_version_def d_bind_Inr d_guard_Inr
    by (elim exE conjE) (auto simp: query_def statement_Inr split: if_splits option.splits dest!: r)
qed

lemma kept_files:
  "leaves_alone ws c c' \<Longrightarrow> EndFiles ids snap \<in> set ws \<Longrightarrow>
     filter (\<lambda>f. df_id f \<in> set ids) (cat_files c') = filter (\<lambda>f. df_id f \<in> set ids) (cat_files c)"
  unfolding leaves_alone_def by blast

lemma kept_fresh:
  "leaves_alone ws c c' \<Longrightarrow> AddSnapshot x \<in> set ws \<Longrightarrow> sn_id x \<notin> sn_id ` set (cat_snapshots c) \<Longrightarrow>
     sn_id x \<notin> sn_id ` set (cat_snapshots c')"
  unfolding leaves_alone_def by blast

lemma admitted_within:
  "filter (stats_admit t r b) xs = filter (stats_admit t r b) (filter (\<lambda>x. ts_table x = t) xs)"
  unfolding filter_filter by (intro filter_cong) (auto simp: stats_admit_def)

lemma kept_stats:
  assumes "leaves_alone ws c c'" and "SubStats t r b \<in> set ws"
  shows "filter (stats_admit t r b) (cat_stats c') = filter (stats_admit t r b) (cat_stats c)"
proof -
  have "filter (\<lambda>x. ts_table x = t) (cat_stats c') = filter (\<lambda>x. ts_table x = t) (cat_stats c)"
    using assms unfolding leaves_alone_def by blast
  then show ?thesis by (subst (1 2) admitted_within) simp
qed

lemma end_leaf_files_Inr:
  assumes law: "session_law E A V" and n: "named A V (db s)" and mine: "mine s = [AddSnapshot sn]"
    and run: "end_leaf_files E g ids snap s = (Inr (hit, ended), s')"
  shows "mine s' = [AddSnapshot sn, EndFiles (map df_id hit) snap]"
    and "filter (\<lambda>f. df_id f \<in> df_id ` set hit) (cat_files (db s')) = hit"
    and "hit \<noteq> []" and "\<forall>f \<in> set hit. df_end f = None \<and> df_id f \<in> set ids"
    and "ended = length (filter (\<lambda>i. i \<notin> df_id ` set hit) ids)"
    and "guard_held E g hit (db s) (db s')" and "whole_leaf E ids hit (db s) (db s')"
    and "txn_step E A V s s'"
proof -
  obtain s1 s2 where s1: "end_files E g ids snap s = (Inr hit, s1)"
    and s2: "skipped_members E g (filter (\<lambda>i. i \<notin> df_id ` set hit) ids) s1 = (Inr ended, s2)"
    and ne: "hit \<noteq> []" and s3: "check_rewound E g ids snap s2 = (Inr (), s')"
    using run by (auto simp: end_leaf_files_def d_bind_Inr split: if_splits)
  note e = end_files_Inr [OF law n mine s1]
  note k = skipped_Inr [OF law e(1) s2]
  have st2: "txn_step E A V s1 s2" by (rule stepsD [OF steps_skipped [OF law] s2])
  have st3: "txn_step E A V s2 s'" by (rule stepsD [OF steps_rewound [OF law] s3])
  note st = txn_step_trans [OF st2 st3]
  have "leaves_alone (mine s1) (db s1) (db s')" using st by (simp add: txn_step_def)
  then have same: "filter (\<lambda>f. df_id f \<in> set (map df_id hit)) (cat_files (db s'))
      = filter (\<lambda>f. df_id f \<in> set (map df_id hit)) (cat_files (db s1))"
    by (rule kept_files [where snap = snap]) (simp add: e(1))
  then show files: "filter (\<lambda>f. df_id f \<in> df_id ` set hit) (cat_files (db s')) = hit"
    using e(2) by simp
  have m2: "mine s2 = [AddSnapshot sn, EndFiles (map df_id hit) snap]" by (simp add: k(1) e(1))
  have in_ids: "\<forall>f \<in> set hit. df_id f \<in> set ids" using e(3) by simp
  note r = rewound_Inr [OF m2 files in_ids s3]
  show "mine s' = [AddSnapshot sn, EndFiles (map df_id hit) snap]" by (simp add: r(1) m2)
  show "hit \<noteq> []" by (rule ne)
  show "\<forall>f \<in> set hit. df_end f = None \<and> df_id f \<in> set ids" by (rule e(3))
  show "ended = length (filter (\<lambda>i. i \<notin> df_id ` set hit) ids)" by (rule k(2))
  show "guard_held E g hit (db s) (db s')"
    unfolding guard_held_def using e(4) r(2) txn_others [OF e(5)] txn_others [OF st] by blast
  from k(3) obtain c3 where c3: "(db s1, c3) \<in> (others_rel E)\<^sup>*" "(c3, db s2) \<in> (others_rel E)\<^sup>*"
    "\<forall>f \<in> set (cat_files c3). df_id f \<in> set ids \<and> df_end f = None \<longrightarrow> df_id f \<in> df_id ` set hit"
    unfolding whole_leaf_def by blast
  show "whole_leaf E ids hit (db s) (db s')"
    unfolding whole_leaf_def using c3 txn_others [OF e(5)] txn_others [OF st3]
    by (meson rtrancl_trans)
  show "txn_step E A V s s'" by (rule txn_step_trans [OF e(5) st])
qed

lemma body_Inr:
  assumes law: "session_law E A V" and n: "named A V (db s)" and mine: "mine s = []"
    and run: "drop_leaf_body E t ids g msg chk s = (Inr r, s')"
  obtains hit sn ch where "mine s' = drop_writes t hit sn ch" and "drop_ok t ids hit sn ch (db s')"
    and "guard_held E g hit (db s) (db s')" and "whole_leaf E ids hit (db s) (db s')"
    and "dr_files r = int (length hit)" and "dr_rows r = sum_of df_rows hit" and "dr_bytes r = sum_of df_bytes hit"
    and "dr_snapshot r = sn_id sn" and "dr_ended r = int (length (filter (\<lambda>i. i \<notin> df_id ` set hit) ids))"
    and "txn_step E A V s s'"
proof -
  let ?ch = "\<lambda>base. \<lparr> ch_snapshot = sn_id base + 1, ch_changes = ''deleted_from_table:'' @ str_int t,
    ch_author = ''drop-partitions'', ch_message = msg \<rparr>"
  obtain base s1 u2 s2 hit ended s3 u4 s4 u5 where
    s1: "drop_baseline E t ids chk s = (Inr base, s1)" and s2: "insert_snapshot E base s1 = (Inr u2, s2)"
    and s3: "end_leaf_files E g ids (sn_id base + 1) s2 = (Inr (hit, ended), s3)"
    and s4: "sub_stats E t (sum_of df_rows hit) (sum_of df_bytes hit) s3 = (Inr u4, s4)"
    and s5: "statement E (\<lambda>_. Inr ((), [AddChange (?ch base)])) s4 = (Inr u5, s')"
    and r: "r = \<lparr> dr_snapshot = sn_id base + 1, dr_files = int (length hit), dr_rows = sum_of df_rows hit,
       dr_bytes = sum_of df_bytes hit, dr_ended = int ended, dr_attempts = 0 \<rparr>"
    using run unfolding drop_leaf_body_def d_bind_Inr split_paired_Ex prod.case d_ret_Inr
    by (elim exE conjE) (rule that, assumption, assumption, assumption, assumption, simp, assumption)
  have t1: "txn_step E A V s s1" by (rule stepsD [OF steps_baseline [OF law] s1])
  have m1: "mine s1 = []" using baseline_mine [OF s1] mine by simp
  define sn where "sn = \<lparr> sn_id = sn_id base + 1, sn_time = Some (server_time E (tick s1)),
      sn_schema_version = sn_schema_version base, sn_next_catalog = sn_next_catalog base,
      sn_next_file = sn_next_file base + 1 \<rparr>"
  have sn: "sn_id sn = sn_id base + 1" "sn_id sn \<notin> sn_id ` set (cat_snapshots (db s2))"
    and m2: "mine s2 = [AddSnapshot sn]"
    using s2 by (auto simp: insert_snapshot_def statement_Inr m1 sn_def split: if_splits)
  have t2: "txn_step E A V s1 s2"
    using s2 unfolding insert_snapshot_def by (rule statement_named [OF law])
  have n2: "named A V (db s2)" using txn_named [OF txn_step_trans [OF t1 t2] n] .
  note e = end_leaf_files_Inr [OF law n2 m2 s3]
  let ?admit = "stats_admit t (sum_of df_rows hit) (sum_of df_bytes hit)"
  obtain n4 s4' where st4: "statement E (\<lambda>c. Inr (length (filter ?admit (cat_stats c)),
      [SubStats t (sum_of df_rows hit) (sum_of df_bytes hit)])) s3 = (Inr n4, s4')"
    and "(if n4 = 1 then d_ret () else d_bind (query E (\<lambda>c. filter (\<lambda>x. ts_table x = t) (cat_stats c))) (\<lambda>_.
         d_fail (DropAbort (StatsRefused n4)))) s4' = (Inr u4, s4)"
    using s4 unfolding sub_stats_def d_bind_Inr by blast
  then have "n4 = 1" "s4 = s4'" by (auto simp: d_bind_Inr split: if_splits)
  then have m4: "mine s4 = mine s3 @ [SubStats t (sum_of df_rows hit) (sum_of df_bytes hit)]"
    and one: "length (filter ?admit (cat_stats (db s4))) = 1"
    using st4 by (auto simp: statement_Inr e(1))
  have t4: "txn_step E A V s3 s4"
    using statement_named [OF law st4] \<open>s4 = s4'\<close> by simp
  have t5: "txn_step E A V s4 s'" by (rule statement_named [OF law s5])
  note t35 = txn_step_trans [OF t4 t5]
  note t25 = txn_step_trans [OF e(8) t35]
  have ms: "mine s' = drop_writes t hit sn (?ch base)"
    using s5 by (auto simp: statement_Inr drop_writes_def m4 e(1) sn(1))
  have free: "sn_id sn \<notin> sn_id ` set (cat_snapshots (db s'))"
    by (rule kept_fresh [OF _ _ sn(2)]) (use t25 in \<open>auto simp: txn_step_def m2\<close>)
  have "filter (\<lambda>f. df_id f \<in> set (map df_id hit)) (cat_files (db s'))
      = filter (\<lambda>f. df_id f \<in> set (map df_id hit)) (cat_files (db s3))"
    by (rule kept_files [where snap = "sn_id base + 1" and ws = "mine s3"]) (use t35 in \<open>auto simp: txn_step_def e(1)\<close>)
  then have files: "filter (\<lambda>f. df_id f \<in> df_id ` set hit) (cat_files (db s')) = hit" using e(2) by simp
  have "filter ?admit (cat_stats (db s')) = filter ?admit (cat_stats (db s4))"
    by (rule kept_stats [where ws = "mine s4"]) (use t5 in \<open>auto simp: txn_step_def m4\<close>)
  then have ok: "drop_ok t ids hit sn (?ch base) (db s')"
    using one files free e(3,4) by (simp add: drop_ok_def sn(1))
  show ?thesis
  proof (rule that [OF ms ok])
    have pre: "(db s, db s2) \<in> (others_rel E)\<^sup>*" using txn_others [OF txn_step_trans [OF t1 t2]] .
    have post: "(db s3, db s') \<in> (others_rel E)\<^sup>*" using txn_others [OF t35] .
    show "guard_held E g hit (db s) (db s')"
      using e(6) pre post unfolding guard_held_def by (meson rtrancl_trans)
    show "whole_leaf E ids hit (db s) (db s')"
      using e(7) pre post unfolding whole_leaf_def by (meson rtrancl_trans)
    show "txn_step E A V s s'" by (rule txn_step_trans [OF txn_step_trans [OF t1 t2] t25])
  qed (simp_all add: r sn(1) e(5))
qed

subsection \<open>Every outcome\<close>

definition moves :: "pg_env \<Rightarrow> 'a dop \<Rightarrow> bool" where
  "moves E m \<longleftrightarrow> (\<forall>s. (db s, db (snd (m s))) \<in> (others_rel E)\<^sup>*)"

named_theorems dop_moves \<open>operations that leave the committed catalog to the others\<close>

lemma movesD: "moves E m \<Longrightarrow> m s = (r, s') \<Longrightarrow> (db s, db s') \<in> (others_rel E)\<^sup>*"
  unfolding moves_def by (metis snd_conv)

lemma moves_ret [dop_moves]: "moves E (d_ret a)"
  by (simp add: moves_def d_ret_def)

lemma moves_fail [dop_moves]: "moves E (d_fail x)"
  by (simp add: moves_def d_fail_def)

lemma moves_lift [dop_moves]: "moves E (d_lift x)"
  by (simp add: moves_def d_lift_def)

lemma moves_guard [dop_moves]: "moves E (d_guard ok r)"
  by (simp add: d_guard_def dop_moves)

lemma moves_bind [dop_moves]:
  assumes "moves E m" and "\<And>a. moves E (f a)"
  shows "moves E (d_bind m f)"
  unfolding moves_def
proof
  fix s
  obtain r s1 where m: "m s = (r, s1)" by fastforce
  show "(db s, db (snd (d_bind m f s))) \<in> (others_rel E)\<^sup>*"
  proof (cases r)
    case (Inl x)
    then show ?thesis using movesD [OF assms(1) m] by (simp add: d_bind_def m)
  next
    case (Inr a)
    obtain r' s2 where f: "f a s1 = (r', s2)" by fastforce
    show ?thesis
      using rtrancl_trans [OF movesD [OF assms(1) m] movesD [OF assms(2) f]] by (simp add: d_bind_def m Inr f)
  qed
qed

lemma lose_db [simp]: "db (lose e s) = db s"
  by (simp add: lose_def)

lemma moves_statement [dop_moves]: "moves E (statement E f)"
proof -
  have "(db s, db (elapse E s)) \<in> (others_rel E)\<^sup>*" for s
    using others_relI by auto
  then show ?thesis
    by (auto simp: moves_def statement_def Let_def split: option.split sum.split)
qed

lemma moves_query [dop_moves]: "moves E (query E q)"
  unfolding query_def by (rule moves_statement)

lemma moves_if [dop_moves]: "(b \<Longrightarrow> moves E m) \<Longrightarrow> (\<not> b \<Longrightarrow> moves E m') \<Longrightarrow> moves E (if b then m else m')"
  by simp

lemma moves_prod [dop_moves]: "(\<And>a b. moves E (f a b)) \<Longrightarrow> moves E (case p of (a, b) \<Rightarrow> f a b)"
  by (cases p) simp

lemma moves_option [dop_moves]:
  "moves E m \<Longrightarrow> (\<And>a. moves E (f a)) \<Longrightarrow> moves E (case x of None \<Rightarrow> m | Some a \<Rightarrow> f a)"
  by (cases x) simp_all

lemma moves_read_committed [dop_moves]: "moves E (check_read_committed E)"
proof -
  have "moves E (d_bind (query E (\<lambda>_. level)) (\<lambda>level. d_guard (level = ''read committed'') NotReadCommitted))" for level
    by (intro dop_moves)
  then show ?thesis by (simp add: moves_def check_read_committed_def)
qed

lemma moves_insert [dop_moves]: "moves E (insert_snapshot E base)"
  unfolding moves_def insert_snapshot_def using moves_statement [unfolded moves_def] by blast

lemma moves_body [dop_moves]: "moves E (drop_leaf_body E t ids g msg chk)"
  unfolding drop_leaf_body_def drop_baseline_def assert_catalog_version_def end_leaf_files_def end_files_def
    skipped_members_def classify_skipped_def still_eligible_def check_rewound_def sub_stats_def
  by (intro dop_moves)

lemma drop_keeps_named:
  assumes "named A V c" shows "named A V (apply_writes (drop_writes t hit sn ch) c)"
  using assms by (auto simp: named_def drop_writes_def fpv_of_def comp_def if_distrib cong: if_cong)

lemma others_named:
  assumes "session_law E A V" and "(c, c') \<in> (others_rel E)\<^sup>*" and "named A V c"
  shows "named A V c'"
  using assms(2,1,3) by (induction rule: rtrancl_induct) (auto simp: others_rel_def session_law_def)

lemma lose_mine: "mine s = [] \<Longrightarrow> mine (lose e s) = []"
  by (simp add: lose_def)

lemma rollback_mine [simp]: "mine (rollback_txn E s) = []"
  by (simp add: rollback_txn_def Let_def lose_mine split: option.split)

lemma rollback_moves: "(db s, db (rollback_txn E s)) \<in> (others_rel E)\<^sup>*"
  using others_relI by (auto simp: rollback_txn_def Let_def split: option.split)

lemma commit_cases:
  assumes "commit_txn E s = (r, s')"
  obtains "\<exists>e. r = Inl (PgError e)" "(db s, db s') \<in> (others_rel E)\<^sup>*"
    | c where "(db s, c) \<in> (others_rel E)\<^sup>*" "txn_step E A V s (s\<lparr> db := c \<rparr>) \<or> \<not> session_law E A V"
        "db s' = apply_writes (mine s) c" "r = Inr () \<or> (\<exists>e. r = Inl (PgError e))" "mine s' = []"
proof -
  let ?c = "others E (tick s) (mine s) (db s)"
  have c: "(db s, ?c) \<in> (others_rel E)\<^sup>*" using others_relI by auto
  have st: "txn_step E A V s (s\<lparr> db := ?c \<rparr>) \<or> \<not> session_law E A V"
    using c by (auto simp: txn_step_def session_law_def)
  show ?thesis
  proof (cases "closed s")
    case True
    with assms show ?thesis by (intro that(1)) (auto simp: commit_txn_def)
  next
    case open_session: False
    show ?thesis
    proof (cases "failure E (tick s)")
      case None
      with assms open_session have "r = Inr ()" "db s' = apply_writes (mine s) ?c" "mine s' = []"
        by (auto simp: commit_txn_def Let_def)
      then show ?thesis using that(2) [OF c st] by blast
    next
      case (Some e)
      with assms open_session have r: "r = Inl (PgError e)"
        and s': "s' = lose e (if lost_answer E (tick s) then (elapse E s)\<lparr> db := apply_writes (mine s) ?c, mine := [] \<rparr>
            else (elapse E s)\<lparr> mine := [] \<rparr>)"
        by (auto simp: commit_txn_def Let_def)
      show ?thesis
      proof (cases "lost_answer E (tick s)")
        case True
        then show ?thesis using that(2) [OF c st] r by (auto simp: s' lose_mine)
      next
        case False
        then show ?thesis using that(1) r c by (simp add: s')
      qed
    qed
  qed
qed

lemma drop_ok_leaf_drop:
  "drop_ok t ids hit sn ch c \<Longrightarrow> (c, apply_writes (drop_writes t hit sn ch) c) \<in> leaf_drop t ids"
  by (auto simp: leaf_drop_def)

lemma drop_ok_kept:
  assumes "drop_ok t ids hit sn ch c" and "leaves_alone (drop_writes t hit sn ch) c c'"
  shows "drop_ok t ids hit sn ch c'"
proof -
  have "filter (\<lambda>f. df_id f \<in> set (map df_id hit)) (cat_files c') = filter (\<lambda>f. df_id f \<in> set (map df_id hit)) (cat_files c)"
    by (rule kept_files [OF assms(2), where snap = "sn_id sn"]) (simp add: drop_writes_def)
  moreover have "filter (stats_admit t (sum_of df_rows hit) (sum_of df_bytes hit)) (cat_stats c')
      = filter (stats_admit t (sum_of df_rows hit) (sum_of df_bytes hit)) (cat_stats c)"
    by (rule kept_stats [OF assms(2)]) (simp add: drop_writes_def)
  moreover have "sn_id sn \<notin> sn_id ` set (cat_snapshots c')"
    by (rule kept_fresh [OF assms(2)]) (use assms(1) in \<open>simp_all add: drop_writes_def drop_ok_def\<close>)
  ultimately show ?thesis using assms(1) by (simp add: drop_ok_def)
qed

lemma guard_held_later:
  "guard_held E g hit c c' \<Longrightarrow> (a, c) \<in> (others_rel E)\<^sup>* \<Longrightarrow> (c', d) \<in> (others_rel E)\<^sup>* \<Longrightarrow> guard_held E g hit a d"
  unfolding guard_held_def by (meson rtrancl_trans)

lemma whole_leaf_later:
  "whole_leaf E ids hit c c' \<Longrightarrow> (a, c) \<in> (others_rel E)\<^sup>* \<Longrightarrow> (c', d) \<in> (others_rel E)\<^sup>* \<Longrightarrow> whole_leaf E ids hit a d"
  unfolding whole_leaf_def by (meson rtrancl_trans)

text \<open>The two ways a transaction can leave the catalog.\<close>

definition untouched :: "pg_env \<Rightarrow> session \<Rightarrow> session \<Rightarrow> bool" where
  "untouched E s s' \<longleftrightarrow> (db s, db s') \<in> (others_rel E)\<^sup>*"

definition dropped ::
  "pg_env \<Rightarrow> int \<Rightarrow> int list \<Rightarrow> string option \<Rightarrow> session \<Rightarrow> session \<Rightarrow> data_file list \<Rightarrow> int \<Rightarrow> bool" where
  "dropped E t ids g s s' hit snap \<longleftrightarrow>
     (\<exists>c sn ch. (db s, c) \<in> (others_rel E)\<^sup>* \<and> drop_ok t ids hit sn ch c \<and> sn_id sn = snap
        \<and> guard_held E g hit (db s) c \<and> whole_leaf E ids hit (db s) c
        \<and> db s' = apply_writes (drop_writes t hit sn ch) c)"

lemma drop_leaf_txn_outcome:
  assumes law: "session_law E A V" and n: "named A V (db s)" and mine: "mine s = []"
    and run: "drop_leaf_txn E t ids g msg chk s = (res, s')"
  shows "mine s' = []"
    and "(\<exists>x. res = Inl x) \<and> untouched E s s'
      \<or> (\<exists>hit snap. dropped E t ids g s s' hit snap
           \<and> (case res of
                Inl x \<Rightarrow> \<exists>e. x = PgError e
              | Inr r \<Rightarrow> dr_snapshot r = snap \<and> dr_files r = int (length hit) \<and> dr_rows r = sum_of df_rows hit
                  \<and> dr_bytes r = sum_of df_bytes hit
                  \<and> dr_ended r = int (length (filter (\<lambda>i. i \<notin> df_id ` set hit) ids))))"
proof -
  let ?C = "(\<exists>x. res = Inl x) \<and> untouched E s s'
      \<or> (\<exists>hit snap. dropped E t ids g s s' hit snap
           \<and> (case res of
                Inl x \<Rightarrow> \<exists>e. x = PgError e
              | Inr r \<Rightarrow> dr_snapshot r = snap \<and> dr_files r = int (length hit) \<and> dr_rows r = sum_of df_rows hit
                  \<and> dr_bytes r = sum_of df_bytes hit
                  \<and> dr_ended r = int (length (filter (\<lambda>i. i \<notin> df_id ` set hit) ids))))"
  obtain r0 s0 where begin_run: "query E (\<lambda>_. ()) s = (r0, s0)" by fastforce
  have pre: "(db s, db s0) \<in> (others_rel E)\<^sup>*" by (rule movesD [OF moves_query begin_run])
  have m0: "mine s0 = []"
    using begin_run mine by (auto simp: query_def statement_def Let_def lose_def split: if_splits option.splits)
  have "mine s' = [] \<and> ?C"
  proof (cases r0)
    case (Inl x)
    with run begin_run have "res = Inl x" "s' = s0" by (auto simp: drop_leaf_txn_def conn_transaction_def d_bind_def)
    then show ?thesis using m0 pre by (simp add: untouched_def)
  next
    case (Inr u)
    obtain rb sb where body: "drop_leaf_body E t ids g msg chk s0 = (rb, sb)" by fastforce
    have n0: "named A V (db s0)" by (rule others_named [OF law pre n])
    show ?thesis
    proof (cases rb)
      case (Inl x)
      with run begin_run Inr body have "res = Inl x" "s' = rollback_txn E sb"
        by (auto simp: drop_leaf_txn_def conn_transaction_def d_bind_def)
      then show ?thesis
        using rtrancl_trans [OF rtrancl_trans [OF pre movesD [OF moves_body body]] rollback_moves] by (simp add: untouched_def)
    next
      case (Inr r)
      from body have "drop_leaf_body E t ids g msg chk s0 = (Inr r, sb)" by (simp add: Inr)
      from body_Inr [OF law n0 m0 this] obtain hit sn ch where
        ws: "mine sb = drop_writes t hit sn ch" and ok: "drop_ok t ids hit sn ch (db sb)"
        and gh: "guard_held E g hit (db s0) (db sb)" and wl: "whole_leaf E ids hit (db s0) (db sb)"
        and r: "dr_files r = int (length hit)" "dr_rows r = sum_of df_rows hit" "dr_bytes r = sum_of df_bytes hit"
          "dr_snapshot r = sn_id sn" "dr_ended r = int (length (filter (\<lambda>i. i \<notin> df_id ` set hit) ids))"
        and st: "txn_step E A V s0 sb" .
      obtain rc sc where commit: "commit_txn E sb = (rc, sc)" by fastforce
      have s': "s' = sc" and res: "res = (case rc of Inl x \<Rightarrow> Inl x | Inr u \<Rightarrow> Inr r)"
        using run begin_run \<open>r0 = Inr u\<close> body Inr commit
        by (auto simp: drop_leaf_txn_def conn_transaction_def d_bind_def d_ret_def split: sum.splits)
      have mid: "(db s, db sb) \<in> (others_rel E)\<^sup>*" by (rule rtrancl_trans [OF pre txn_others [OF st]])
      have mc: "mine sc = []"
        using commit ws by (auto simp: commit_txn_def Let_def lose_def split: if_splits option.splits)
      from commit show ?thesis
      proof (cases rule: commit_cases [where A = A and V = V])
        case 1
        then show ?thesis
          using rtrancl_trans [OF mid 1(2)] mc by (auto simp: s' res untouched_def)
      next
        case (2 c)
        from 2(2) law have "leaves_alone (mine sb) (db sb) c" by (simp add: txn_step_def)
        then have ok': "drop_ok t ids hit sn ch c" using drop_ok_kept [OF ok] by (simp add: ws)
        have "dropped E t ids g s s' hit (sn_id sn)"
          unfolding dropped_def
          using rtrancl_trans [OF mid 2(1)] ok' guard_held_later [OF gh pre 2(1)] whole_leaf_later [OF wl pre 2(1)]
            2(3) by (auto simp: s' ws)
        then show ?thesis using 2(4) mc r by (auto simp: s' res)
      qed
    qed
  qed
  then show "mine s' = []" ?C by blast+
qed

end
