(* ===== verification/DropRun.thy ===== *)
theory DropRun
  imports DropLaws
begin

text \<open>
  The two commands, \<open>list-droppable-partitions\<close> and \<open>drop-partitions\<close>, over a session: resolving the table and
  its spec, the cutoff, the floor, the cursor guard, the work list from a tuple or a manifest, and the loop over
  the leaves. The theorems say that a run only ever adds well-formed drops of selected leaves to what other
  sessions do, that the stats stay exact, and that a dry run adds nothing.
\<close>

subsection \<open>Arguments\<close>

text \<open>The parsed command line. A manifest is what reading and parsing the file gives, \<open>None\<close> when that fails.\<close>

record drop_args =
  a_table :: string
  a_partition :: string
  a_manifest :: string
  a_cutoff :: string
  a_retention_days :: "int option"
  a_force_young_cutoff :: bool
  a_viaduck_schema :: string
  a_viaduck_table :: string
  a_no_viaduck_guard :: bool
  a_execute :: bool
  a_max_files :: int
  a_max_rot :: int
  a_max_seconds :: real
  a_campaign :: string
  a_with_file_ids :: bool

text \<open>What the commands take from outside the repository.\<close>

record drop_host =
  h_parse_iso :: iso_parser
  h_isoformat :: "int \<Rightarrow> string"
  h_now :: int
  h_text_max :: "string list \<Rightarrow> string"
  h_read_json :: "string \<Rightarrow> pyval option"
  h_time :: real
  h_str :: "pyval \<Rightarrow> string"

subsection \<open>Resolving\<close>

definition resolve_table_id :: "pg_env \<Rightarrow> string \<Rightarrow> (int \<times> string \<times> string) dop" where
  "resolve_table_id E schema_table =
     (case split_on (CHR ''.'') schema_table of
        [schema_name, table_name] \<Rightarrow>
          if schema_name = [] \<or> table_name = [] then d_fail (DropAbort BadTableName)
          else d_bind (query E (live_table_ids schema_name table_name)) (\<lambda>ids.
            case ids of [i] \<Rightarrow> d_ret (i, schema_name, table_name)
            | _ \<Rightarrow> d_fail (DropAbort (TableRows (length ids))))
      | _ \<Rightarrow> d_fail (DropAbort BadTableName))"

definition resolve_live_spec :: "pg_env \<Rightarrow> int \<Rightarrow> partition_spec dop" where
  "resolve_live_spec E table_id =
     d_bind (query E (live_spec_ids table_id)) (\<lambda>ids.
       case ids of
         [] \<Rightarrow> d_fail (DropAbort NoLiveSpec)
       | [pid] \<Rightarrow> d_bind (query E (spec_key_rows table_id pid)) (\<lambda>ks. d_lift (check_spec pid ks))
       | _ \<Rightarrow> d_fail (DropAbort (ManyLiveSpecs (length ids))))"

text \<open>\<open>cutoff + timedelta(hours=48)\<close> raises past the year 9999.\<close>

definition floor_time :: "int \<Rightarrow> drop_exn + int" where
  "floor_time cutoff = in_calendar (cutoff + DROP_FLOOR_HOURS * HOUR)"

definition floor_snapshot :: "pg_env \<Rightarrow> int \<Rightarrow> int dop" where
  "floor_snapshot E cutoff =
     d_bind (d_lift (floor_time cutoff)) (\<lambda>t.
     d_bind (query E (newest_before t)) (\<lambda>newest.
       case newest of
         Some i \<Rightarrow> d_ret i
       | None \<Rightarrow>
           d_bind (query E oldest_snapshot) (\<lambda>oldest.
             case oldest of None \<Rightarrow> d_fail (DropAbort EmptyCatalog) | Some i \<Rightarrow> d_ret (i - 1))))"

text \<open>\<open>_assert_no_unageable_files\<close>: the count, and a sample for the message.\<close>

definition assert_no_unageable :: "pg_env \<Rightarrow> int \<Rightarrow> unit dop" where
  "assert_no_unageable E table_id =
     d_bind (query E (\<lambda>c. length (unageable table_id c))) (\<lambda>n.
       if n = 0 then d_ret ()
       else d_bind (query E (unageable table_id)) (\<lambda>_. d_fail (DropAbort (UnageableFiles n))))"

subsection \<open>The cursor guard\<close>

definition NO_GUARD :: int where
  "NO_GUARD = 2 ^ 63 - 1"

record cursor_guard_result =
  g_snapshot_id :: int
  g_cursor_rows :: nat
  g_overridden :: bool

definition check_state_name :: "string \<Rightarrow> unit dop" where
  "check_state_name v = d_guard (SAFE_IDENTIFIER v) (UnsafeState v)"

definition qualified_name :: "string \<Rightarrow> string \<Rightarrow> string" where
  "qualified_name state_schema state_table = state_schema @ ''.'' @ state_table"

text \<open>
  The query joins the cursors with their snapshots; \<open>UndefinedTable\<close> is caught, any other error is not. A cursor
  lags when its snapshot id is NULL, its snapshot is gone, or the snapshot is older than the floor.
\<close>

definition read_cursors :: "pg_env \<Rightarrow> string \<Rightarrow> (cursor_row \<times> int option) list option dop" where
  "read_cursors E name s =
     (case statement E (\<lambda>c. case map_of (cat_cursors c) name of
             None \<Rightarrow> Inl (PgError undefined_table)
           | Some vs \<Rightarrow> Inr (joined_cursors vs c, [])) s of
        (Inr rows, s1) \<Rightarrow> (Inr (Some rows), s1)
      | (Inl (PgError e), s1) \<Rightarrow>
          if sqlstate e = Some ''42P01'' then (Inr None, s1) else (Inl (PgError e), s1)
      | (Inl x, s1) \<Rightarrow> (Inl x, s1))"

definition lags :: "int \<Rightarrow> cursor_row \<times> int option \<Rightarrow> bool" where
  "lags floor_t r \<longleftrightarrow> cu_snapshot (fst r) = None \<or> snd r = None \<or> (case snd r of None \<Rightarrow> False | Some t \<Rightarrow> t < floor_t)"

definition cursor_guard :: "pg_env \<Rightarrow> string \<Rightarrow> string \<Rightarrow> int \<Rightarrow> bool \<Rightarrow> cursor_guard_result dop" where
  "cursor_guard E state_schema state_table floor_t allow_override =
     d_bind (check_state_name state_schema) (\<lambda>_.
     d_bind (check_state_name state_table) (\<lambda>_.
     d_bind (read_cursors E (qualified_name state_schema state_table)) (\<lambda>answer.
       let rows = (case answer of None \<Rightarrow> [] | Some rs \<Rightarrow> rs); lagging = filter (lags floor_t) rows
       in if rows = [] then
            (if allow_override
             then d_ret \<lparr> g_snapshot_id = NO_GUARD, g_cursor_rows = 0, g_overridden = True \<rparr>
             else d_fail (DropAbort Unguarded))
          else if lagging \<noteq> [] \<and> \<not> allow_override then d_fail (DropAbort (CursorLag (length lagging)))
          else d_ret \<lparr> g_snapshot_id = (case sql_min (List.map_filter (\<lambda>r. cu_snapshot (fst r)) rows) of None \<Rightarrow> 0 | Some m \<Rightarrow> m),
                 g_cursor_rows = length rows, g_overridden = allow_override \<rparr>)))"

subsection \<open>Leaves\<close>

definition select_leaf_files ::
  "pg_env \<Rightarrow> int \<Rightarrow> partition_spec \<Rightarrow> (int, string) dict \<Rightarrow> int \<Rightarrow> int \<Rightarrow> leaf_file list dop" where
  "select_leaf_files E table_id spec tuple floor_snap max_files =
     d_bind (query E (leaf_selection table_id spec floor_snap tuple)) (\<lambda>dfs.
       if int (length dfs) > max_files then d_fail (LeafOversized (length dfs))
       else d_ret (map (\<lambda>df. \<lparr> lf_id = df_id df, lf_rows = or_zero (df_rows df), lf_bytes = or_zero (df_bytes df),
              lf_begin = df_begin df \<rparr>) dfs))"

definition old_spec_leaf_check :: "pg_env \<Rightarrow> int \<Rightarrow> partition_spec \<Rightarrow> (int, string) dict \<Rightarrow> unit dop" where
  "old_spec_leaf_check E table_id spec tuple =
     d_bind (query E (old_spec_matches table_id spec tuple)) (\<lambda>n. d_guard (n = 0) (OldSpecLeaf n))"

subsection \<open>Manifests\<close>

text \<open>\<open>x == i\<close> for a parsed value and an \<open>int\<close>: a \<open>bool\<close> and a \<open>float\<close> compare as numbers.\<close>

definition equals_int :: "pyval \<Rightarrow> int \<Rightarrow> bool" where
  "equals_int x i =
     (case x of PInt j \<Rightarrow> j = i | PBool b \<Rightarrow> (if b then 1 else 0) = i | PFloat r \<Rightarrow> r = real_of_int i | _ \<Rightarrow> False)"

text \<open>\<open>_load_manifest\<close>; \<open>manifest.get\<close> of anything but an object raises \<open>AttributeError\<close>.\<close>

definition load_manifest :: "drop_host \<Rightarrow> string \<Rightarrow> drop_exn + (string, pyval) dict" where
  "load_manifest H path =
     (case h_read_json H path of
        None \<Rightarrow> Inl (DropAbort BadManifest)
      | Some (PDict m) \<Rightarrow>
          and_then (guard (map_of m ''tool'' = Some (PStr ''list-droppable-partitions'')
              \<and> (case map_of m ''manifest_version'' of None \<Rightarrow> False | Some v \<Rightarrow> equals_int v 1))
            (DropAbort BadManifest)) (\<lambda>_.
          and_then (guard ({''table'', ''cutoff'', ''leaves''} \<subseteq> fst ` set m) (DropAbort BadManifest)) (\<lambda>_. Inr m))
      | Some _ \<Rightarrow> Inl (PyError ''AttributeError''))"

text \<open>\<open>for entry in manifest["leaves"]\<close>: a list, the keys of an object, or the characters of a string.\<close>

definition iterate :: "pyval \<Rightarrow> drop_exn + pyval list" where
  "iterate v =
     (case v of
        PList xs \<Rightarrow> Inr xs
      | PDict d \<Rightarrow> Inr (map (PStr \<circ> fst) d)
      | PStr s \<Rightarrow> Inr (map (\<lambda>c. PStr [c]) s)
      | _ \<Rightarrow> Inl (PyError ''TypeError''))"

definition item :: "pyval \<Rightarrow> string \<Rightarrow> drop_exn + pyval" where
  "item v key =
     (case v of
        PDict d \<Rightarrow> (case map_of d key of None \<Rightarrow> Inl (PyError ''KeyError'') | Some x \<Rightarrow> Inr x)
      | _ \<Rightarrow> Inl (PyError ''TypeError''))"

type_synonym work = "(string \<times> (int, string) dict) list"

fun work_entries :: "drop_host \<Rightarrow> partition_spec \<Rightarrow> pyval list \<Rightarrow> drop_exn + work" where
  "work_entries H spec [] = Inr []"
| "work_entries H spec (e # es) =
     and_then (item e ''partition'') (\<lambda>label.
     and_then (item e ''values'') (\<lambda>vals.
     and_then (case vals of PDict d \<Rightarrow> tuple_from_values spec d | _ \<Rightarrow> Inl (PyError ''AttributeError'')) (\<lambda>tuple.
     and_then (work_entries H spec es) (\<lambda>rest. Inr ((h_str H label, tuple) # rest)))))"

definition manifest_work ::
  "drop_host \<Rightarrow> drop_args \<Rightarrow> int \<Rightarrow> partition_spec \<Rightarrow> drop_exn + int \<times> work" where
  "manifest_work H args table_id spec =
     and_then (load_manifest H (a_manifest args)) (\<lambda>m.
     and_then (guard (map_of m ''table'' = Some (PStr (a_table args))) (DropAbort OtherTable)) (\<lambda>_.
     and_then (guard ((case map_of m ''table_id'' of None \<Rightarrow> False | Some v \<Rightarrow> equals_int v table_id)
         \<and> (case map_of m ''partition_id'' of None \<Rightarrow> False | Some v \<Rightarrow> equals_int v (spec_partition_id spec)))
       (DropAbort OtherSpec)) (\<lambda>_.
     and_then (case map_of m ''cutoff'' of
                 Some (PStr c) \<Rightarrow>
                   (case h_parse_iso H c of None \<Rightarrow> Inl (DropAbort (NotIso c)) | Some t \<Rightarrow> as_utc t)
               | _ \<Rightarrow> Inl (PyError ''TypeError'')) (\<lambda>cutoff.
     and_then (check_cutoff (h_now H) cutoff (grain spec) (a_force_young_cutoff args)) (\<lambda>_.
     and_then (case map_of m ''leaves'' of None \<Rightarrow> Inl (PyError ''KeyError'') | Some v \<Rightarrow> iterate v) (\<lambda>entries.
     and_then (work_entries H spec entries) (\<lambda>w. Inr (cutoff, w))))))))"

text \<open>The work of \<open>--partition\<close>, up to the check for files of an older spec.\<close>

definition tuple_work ::
  "drop_host \<Rightarrow> drop_args \<Rightarrow> partition_spec \<Rightarrow> drop_exn + int \<times> (int, string) dict" where
  "tuple_work H args spec =
     and_then (resolve_cutoff (h_parse_iso H) (h_now H) (a_cutoff args) (a_retention_days args)
       (a_force_young_cutoff args) (grain spec)) (\<lambda>cutoff.
     and_then (parse_partition_tuple spec (a_partition args)) (\<lambda>tuple.
     and_then (compose_part_ts spec (map_of tuple)) (\<lambda>ts.
     and_then (guard (case ts of None \<Rightarrow> False | Some t \<Rightarrow> t < cutoff) (DropAbort NotBelowCutoff)) (\<lambda>_.
     Inr (cutoff, tuple)))))"

definition tuple_text :: "(int, string) dict \<Rightarrow> int \<Rightarrow> string" where
  "tuple_text tuple i = (case map_of tuple i of None \<Rightarrow> [] | Some v \<Rightarrow> v)"

subsection \<open>The run\<close>

record drop_plan =
  p_table_id :: int
  p_schema :: string
  p_name :: string
  p_spec :: partition_spec
  p_guard_sql :: "string option"
  p_cutoff :: int
  p_work :: work
  p_floor :: int
  p_floor_time :: int

definition plan_work ::
  "pg_env \<Rightarrow> drop_host \<Rightarrow> drop_args \<Rightarrow> int \<Rightarrow> partition_spec \<Rightarrow> (int \<times> work) dop" where
  "plan_work E H args table_id spec =
     (if a_manifest args \<noteq> [] then d_lift (manifest_work H args table_id spec)
      else d_bind (d_lift (tuple_work H args spec)) (\<lambda>(cutoff, tuple).
           d_bind (old_spec_leaf_check E table_id spec tuple) (\<lambda>_.
           d_ret (cutoff, [(canonical_leaf_str spec (tuple_text tuple), tuple)]))))"

definition make_plan :: "pg_env \<Rightarrow> drop_host \<Rightarrow> drop_args \<Rightarrow> drop_plan dop" where
  "make_plan E H args =
     d_bind (resolve_table_id E (a_table args)) (\<lambda>(table_id, schema_name, table_name).
     d_bind (resolve_live_spec E table_id) (\<lambda>spec.
     d_bind (assert_no_unageable E table_id) (\<lambda>_.
     d_bind (check_state_name (a_viaduck_schema args)) (\<lambda>_.
     d_bind (check_state_name (a_viaduck_table args)) (\<lambda>_.
     d_bind (plan_work E H args table_id spec) (\<lambda>(cutoff, w).
     d_bind (floor_snapshot E cutoff) (\<lambda>floor_snap.
     d_bind (d_lift (floor_time cutoff)) (\<lambda>t.
     d_ret \<lparr> p_table_id = table_id, p_schema = schema_name, p_name = table_name, p_spec = spec,
       p_guard_sql = (if a_no_viaduck_guard args then None
         else Some (qualified_name (a_viaduck_schema args) (a_viaduck_table args))),
       p_cutoff = cutoff, p_work = w, p_floor = floor_snap, p_floor_time = t \<rparr>))))))))"

definition skip_leaf :: "bool \<Rightarrow> bool dop" where
  "skip_leaf first s = (Inr first, count_meter (\<lambda>m. m\<lparr> m_leaves_skipped := m_leaves_skipped m + 1 \<rparr>) s)"

definition drop_message :: "drop_args \<Rightarrow> drop_plan \<Rightarrow> string \<Rightarrow> leaf_file list \<Rightarrow> string" where
  "drop_message args plan label files =
     ''drop-partitions table='' @ p_schema plan @ ''.'' @ p_name plan @ '' leaf='' @ label @ '' campaign=''
     @ (if a_campaign args = [] then ''-'' else a_campaign args) @ '' files='' @ str_int (int (length files))"

text \<open>Executing one selected leaf: a skip inside the transaction is counted; the flag is \<open>first_txn\<close>.\<close>

definition execute_leaf ::
  "pg_env \<Rightarrow> drop_args \<Rightarrow> drop_plan \<Rightarrow> real \<Rightarrow> string \<Rightarrow> leaf_file list \<Rightarrow> bool \<Rightarrow> bool dop" where
  "execute_leaf E args plan t0 label files first s =
     (case drop_leaf_with_retries E (p_table_id plan) (map lf_id files) (p_guard_sql plan)
         (drop_message args plan label files) first (Some (t0 + a_max_seconds args)) s of
        (Inl (LeafSkip r), s1) \<Rightarrow> skip_leaf first s1
      | (Inl x, s1) \<Rightarrow> (Inl x, s1)
      | (Inr r, s1) \<Rightarrow>
          (Inr False, count_meter (\<lambda>m. m\<lparr> m_files_dropped := m_files_dropped m + dr_files r,
             m_leaves_dropped := m_leaves_dropped m + 1,
             m_skipped_files := m_skipped_files m + dr_ended r \<rparr>) s1))"

definition selected_leaf ::
  "pg_env \<Rightarrow> drop_args \<Rightarrow> drop_plan \<Rightarrow> real \<Rightarrow> string \<Rightarrow> cursor_guard_result \<Rightarrow> leaf_file list \<Rightarrow> bool \<Rightarrow> bool dop" where
  "selected_leaf E args plan t0 label g files first =
     (if files = [] then skip_leaf first
      else if \<exists>f \<in> set files. lf_begin f \<ge> g_snapshot_id g then skip_leaf first
      else if \<not> a_execute args then d_ret first
      else execute_leaf E args plan t0 label files first)"

definition one_leaf ::
  "pg_env \<Rightarrow> drop_args \<Rightarrow> drop_plan \<Rightarrow> real \<Rightarrow> string \<Rightarrow> (int, string) dict \<Rightarrow> bool \<Rightarrow> bool dop" where
  "one_leaf E args plan t0 label tuple first =
     d_bind (d_lift (compose_part_ts (p_spec plan) (map_of tuple))) (\<lambda>ts.
       if (case ts of None \<Rightarrow> True | Some t \<Rightarrow> t \<ge> p_cutoff plan) then skip_leaf first
       else
         d_bind (cursor_guard E (a_viaduck_schema args) (a_viaduck_table args) (p_floor_time plan)
           (a_no_viaduck_guard args)) (\<lambda>g s.
         case select_leaf_files E (p_table_id plan) (p_spec plan) tuple (p_floor plan) (a_max_files args) s of
           (Inl (LeafOversized n), s1) \<Rightarrow>
             if a_manifest args = [] then (Inl (LeafOversized n), s1) else skip_leaf first s1
         | (Inl x, s1) \<Rightarrow> (Inl x, s1)
         | (Inr files, s1) \<Rightarrow> selected_leaf E args plan t0 label g files first s1))"

fun run_leaves :: "pg_env \<Rightarrow> drop_args \<Rightarrow> drop_plan \<Rightarrow> real \<Rightarrow> work \<Rightarrow> bool \<Rightarrow> unit dop" where
  "run_leaves E args plan t0 [] first s = (Inr (), s)"
| "run_leaves E args plan t0 ((label, tuple) # rest) first s =
     (if monotonic E (tick s) - t0 > a_max_seconds args then (Inr (), s)
      else d_bind (one_leaf E args plan t0 label tuple first) (run_leaves E args plan t0 rest) s)"

definition zero_meter :: drop_meter where
  "zero_meter = \<lparr> m_retries = 0, m_aborts = 0, m_files_dropped = 0, m_leaves_dropped = 0, m_leaves_skipped = 0,
     m_skipped_files = 0 \<rparr>"

text \<open>The gauges of an executed run; the time of the last success only after a clean one.\<close>

definition drop_gauges :: "drop_host \<Rightarrow> drop_args \<Rightarrow> drop_meter \<Rightarrow> bool \<Rightarrow> metric list" where
  "drop_gauges H args m clean =
     (if a_execute args then
        [SetG ''files_dropped'' (a_table args) (of_int (m_files_dropped m)),
         SetG ''leaves_dropped'' (a_table args) (of_int (m_leaves_dropped m)),
         SetG ''leaves_skipped'' (a_table args) (of_int (m_leaves_skipped m)),
         SetG ''retries'' (a_table args) (of_int (m_retries m)),
         SetG ''aborts'' (a_table args) (of_int (m_aborts m)),
         SetG ''skipped_files'' (a_table args) (of_int (m_skipped_files m))]
        @ (if clean then [SetG ''last_success'' (a_table args) (h_time H)] else [])
      else [])"

definition drop_partitions ::
  "pg_env \<Rightarrow> drop_host \<Rightarrow> drop_args \<Rightarrow> session \<Rightarrow> (drop_exn + unit) \<times> session \<times> metric list" where
  "drop_partitions E H args s =
     (if (a_partition args \<noteq> []) = (a_manifest args \<noteq> []) then (Inl (DropAbort OneLeafSource), s, [])
      else if a_manifest args \<noteq> [] \<and> (a_cutoff args \<noteq> [] \<or> a_retention_days args \<noteq> None)
        then (Inl (DropAbort ManifestCutoff), s, [])
      else
        let t0 = monotonic E (tick s);
            (res, s1) = d_bind (pg_connect E) (\<lambda>_. d_bind (make_plan E H args) (\<lambda>plan.
              run_leaves E args plan t0 (p_work plan) True)) (s\<lparr> meter := zero_meter \<rparr>);
            s2 = (case res of Inl x \<Rightarrow> count_meter (\<lambda>m. m\<lparr> m_aborts := m_aborts m + 1 \<rparr>) s1 | Inr u \<Rightarrow> s1)
        in (res, s2\<lparr> closed := True, mine := [] \<rparr>, drop_gauges H args (meter s2) (case res of Inl x \<Rightarrow> False | Inr u \<Rightarrow> True)))"

subsection \<open>Listing\<close>

definition leaf_entry :: "drop_host \<Rightarrow> drop_args \<Rightarrow> leaf \<Rightarrow> pyval" where
  "leaf_entry H args lf = PDict
     ([(''partition'', PStr (leaf_name lf)),
       (''values'', PDict (map (\<lambda>(a, v). (a, PStr v)) (leaf_values lf))),
       (''partition_ts'', PStr (h_isoformat H (leaf_ts lf))),
       (''files'', PInt (int (length (leaf_files lf)))),
       (''rows'', PInt (leaf_rows lf)), (''bytes'', PInt (leaf_bytes lf)),
       (''max_begin_snapshot'', PInt (max_begin_snapshot lf)),
       (''oversized'', PBool (leaf_oversized lf))]
      @ (if a_with_file_ids args then [(''file_ids'', PList (map (\<lambda>f. PInt (lf_id f)) (leaf_files lf)))] else []))"

definition spec_line :: "partition_key \<Rightarrow> string" where
  "spec_line k = str_int (key_index k) @ '':'' @ address k @ ''(column=''
     @ (case key_column k of None \<Rightarrow> ''None'' | Some c \<Rightarrow> c) @ '')''"

definition manifest_of ::
  "drop_host \<Rightarrow> drop_args \<Rightarrow> int \<Rightarrow> partition_spec \<Rightarrow> int \<Rightarrow> int \<Rightarrow> leaf list \<Rightarrow> diagnostics \<Rightarrow> (string, pyval) dict" where
  "manifest_of H args table_id spec cutoff floor_snap leaves diag =
     [(''tool'', PStr ''list-droppable-partitions''), (''manifest_version'', PInt 1),
      (''table'', PStr (a_table args)), (''table_id'', PInt table_id),
      (''partition_id'', PInt (spec_partition_id spec)),
      (''spec'', PList (map (PStr \<circ> spec_line) (spec_keys spec))),
      (''cutoff'', PStr (h_isoformat H cutoff)), (''generated_at'', PStr (h_isoformat H (h_now H))),
      (''floor_snapshot'', PInt floor_snap),
      (''leaves'', PList (map (leaf_entry H args) leaves)),
      (''diagnostics'', PDict [(''rot_files'', PInt (rot_files diag)),
         (''rot_samples'', PList (map PInt (rot_sample_ids diag))),
         (''floored_files'', PInt (floored_files diag))])]"

text \<open>
  The manifest and the gauge of excluded files; writing the text out is I/O. The rows of the enumeration come in
  no particular order, so \<open>arrange\<close> is the database's.
\<close>

definition list_droppable_partitions ::
  "pg_env \<Rightarrow> drop_host \<Rightarrow> (enum_row list \<Rightarrow> enum_row list) \<Rightarrow> drop_args
     \<Rightarrow> ((string, pyval) dict \<times> metric list) dop" where
  "list_droppable_partitions E H arrange args =
     d_bind (pg_connect E) (\<lambda>_.
     d_bind (resolve_table_id E (a_table args)) (\<lambda>(table_id, schema_name, table_name).
     d_bind (resolve_live_spec E table_id) (\<lambda>spec.
     d_bind (d_lift (resolve_cutoff (h_parse_iso H) (h_now H) (a_cutoff args) (a_retention_days args)
       (a_force_young_cutoff args) (grain spec))) (\<lambda>cutoff.
     d_bind (floor_snapshot E cutoff) (\<lambda>floor_snap.
     d_bind (query E (\<lambda>c. arrange (enumerate_files (h_text_max H) spec table_id c))) (\<lambda>rows.
     d_bind (assert_no_unageable E table_id) (\<lambda>_.
     d_bind (d_lift (classify_enumeration rows spec cutoff floor_snap (a_max_files args) (a_max_rot args)))
       (\<lambda>(leaves, diag).
     d_ret (manifest_of H args table_id spec cutoff floor_snap leaves diag,
       [SetG ''excluded_rot'' (a_table args) (of_int (rot_files diag))])))))))))"

subsection \<open>The abstract run\<close>

text \<open>
  A retention drop: a drop of files that were selected for a leaf of the plan. By the law of names what is
  selected holds of the file for ever.
\<close>

definition selected_file ::
  "(int \<Rightarrow> data_file) \<Rightarrow> (int \<Rightarrow> fpv_row list) \<Rightarrow> int \<Rightarrow> partition_spec \<Rightarrow> int \<Rightarrow> int \<Rightarrow> int \<Rightarrow> bool" where
  "selected_file A V table_id spec cutoff floor_snap i \<longleftrightarrow>
     (\<exists>tuple t. selects_file table_id spec floor_snap tuple (A i) (V i)
        \<and> compose_part_ts spec (map_of tuple) = Inr (Some t) \<and> t < cutoff)"

definition retention_drop ::
  "(int \<Rightarrow> data_file) \<Rightarrow> (int \<Rightarrow> fpv_row list) \<Rightarrow> int \<Rightarrow> partition_spec \<Rightarrow> int \<Rightarrow> int \<Rightarrow> (catalog \<times> catalog) set" where
  "retention_drop A V table_id spec cutoff floor_snap =
     {(c, c'). \<exists>ids. (c, c') \<in> leaf_drop table_id ids
        \<and> (\<forall>i \<in> set ids. selected_file A V table_id spec cutoff floor_snap i)}"

text \<open>What an operation does outside a transaction: other sessions' steps and steps of \<open>D\<close>.\<close>

definition runs ::
  "pg_env \<Rightarrow> (int \<Rightarrow> data_file) \<Rightarrow> (int \<Rightarrow> fpv_row list) \<Rightarrow> (catalog \<times> catalog) set \<Rightarrow> 'a dop \<Rightarrow> bool" where
  "runs E A V D m \<longleftrightarrow> (\<forall>s. mine s = [] \<and> named A V (db s) \<longrightarrow>
     mine (snd (m s)) = [] \<and> named A V (db (snd (m s))) \<and> (db s, db (snd (m s))) \<in> (others_rel E \<union> D)\<^sup>*)"

named_theorems dop_runs \<open>operations of a run\<close>

lemma runsD:
  "runs E A V D m \<Longrightarrow> m s = (r, s') \<Longrightarrow> mine s = [] \<Longrightarrow> named A V (db s) \<Longrightarrow>
     mine s' = [] \<and> named A V (db s') \<and> (db s, db s') \<in> (others_rel E \<union> D)\<^sup>*"
  unfolding runs_def by (metis snd_conv)

lemma runsI:
  assumes "\<And>s r s'. m s = (r, s') \<Longrightarrow> mine s = [] \<Longrightarrow> named A V (db s) \<Longrightarrow>
     mine s' = [] \<and> named A V (db s') \<and> (db s, db s') \<in> (others_rel E \<union> D)\<^sup>*"
  shows "runs E A V D m"
  unfolding runs_def using assms by (metis prod.collapse)

lemma runs_ret [dop_runs]: "runs E A V D (d_ret a)"
  by (simp add: runs_def d_ret_def)

lemma runs_fail [dop_runs]: "runs E A V D (d_fail x)"
  by (simp add: runs_def d_fail_def)

lemma runs_lift [dop_runs]: "runs E A V D (d_lift x)"
  by (simp add: runs_def d_lift_def)

lemma runs_guard [dop_runs]: "runs E A V D (d_guard ok r)"
  by (simp add: runs_def d_guard_def d_ret_def d_fail_def)

lemma runs_skip [dop_runs]: "runs E A V D (skip_leaf first)"
  by (simp add: runs_def skip_leaf_def count_meter_def)

text \<open>The second operation may rely on what the first returned.\<close>

lemma runs_bind_with:
  assumes m: "runs E A V D m"
    and f: "\<And>a s s'. m s = (Inr a, s') \<Longrightarrow> mine s = [] \<Longrightarrow> named A V (db s) \<Longrightarrow> runs E A V D (f a)"
  shows "runs E A V D (d_bind m f)"
proof (rule runsI)
  fix s r s' assume run: "d_bind m f s = (r, s')" and s: "mine s = []" "named A V (db s)"
  obtain r1 s1 where m1: "m s = (r1, s1)" by fastforce
  note st1 = runsD [OF m m1 s]
  show "mine s' = [] \<and> named A V (db s') \<and> (db s, db s') \<in> (others_rel E \<union> D)\<^sup>*"
  proof (cases r1)
    case (Inl x)
    with run m1 st1 show ?thesis by (simp add: d_bind_def)
  next
    case (Inr a)
    with run m1 have "f a s1 = (r, s')" by (simp add: d_bind_def)
    from runsD [OF f [OF m1 [unfolded Inr] s] this] st1 show ?thesis
      by (auto intro: rtrancl_trans)
  qed
qed

lemma runs_bind [dop_runs]:
  "runs E A V D m \<Longrightarrow> (\<And>a. runs E A V D (f a)) \<Longrightarrow> runs E A V D (d_bind m f)"
  by (rule runs_bind_with)

lemma runs_query [dop_runs]:
  assumes "session_law E A V" shows "runs E A V D (query E q)"
proof (rule runsI)
  fix s r s' assume run: "query E q s = (r, s')" and s: "mine s = []" "named A V (db s)"
  have "(db s, db s') \<in> (others_rel E)\<^sup>*" by (rule movesD [OF moves_query run])
  then show "mine s' = [] \<and> named A V (db s') \<and> (db s, db s') \<in> (others_rel E \<union> D)\<^sup>*"
    using run s others_named [OF assms] rtrancl_mono [of "others_rel E" "others_rel E \<union> D"]
    by (auto simp: query_def statement_def Let_def lose_def split: if_splits option.splits)
qed

lemma runs_if [dop_runs]: "(b \<Longrightarrow> runs E A V D m) \<Longrightarrow> (\<not> b \<Longrightarrow> runs E A V D m') \<Longrightarrow> runs E A V D (if b then m else m')"
  by simp

lemma runs_prod [dop_runs]: "(\<And>a b. runs E A V D (f a b)) \<Longrightarrow> runs E A V D (case p of (a, b) \<Rightarrow> f a b)"
  by (cases p) simp

lemma runs_option [dop_runs]:
  "runs E A V D m \<Longrightarrow> (\<And>a. runs E A V D (f a)) \<Longrightarrow> runs E A V D (case x of None \<Rightarrow> m | Some a \<Rightarrow> f a)"
  by (cases x) simp_all

lemma runs_list [dop_runs]:
  "runs E A V D m \<Longrightarrow> (\<And>a as. runs E A V D (f a as)) \<Longrightarrow> runs E A V D (case x of [] \<Rightarrow> m | a # as \<Rightarrow> f a as)"
  by (cases x) simp_all

lemma runs_reading:
  assumes law: "session_law E A V" and f: "\<And>c a ws. f c = Inr (a, ws) \<Longrightarrow> ws = []"
  shows "runs E A V D (statement E f)"
proof (rule runsI)
  fix s r s' assume run: "statement E f s = (r, s')" and s: "mine s = []" "named A V (db s)"
  have st: "(db s, db s') \<in> (others_rel E)\<^sup>*" by (rule movesD [OF moves_statement run])
  have "mine s' = []"
    using run s f by (auto simp: statement_def Let_def lose_def split: if_splits option.splits sum.splits)
  then show "mine s' = [] \<and> named A V (db s') \<and> (db s, db s') \<in> (others_rel E \<union> D)\<^sup>*"
    using st others_named [OF law st s(2)] rtrancl_mono [of "others_rel E" "others_rel E \<union> D"] by auto
qed

lemma runs_connect [dop_runs]:
  assumes "session_law E A V" shows "runs E A V D (pg_connect E)"
proof (rule runsI)
  fix s r s' assume run: "pg_connect E s = (r, s')" and s: "mine s = []" "named A V (db s)"
  have "db s' = others E (tick s) (mine s) (db s)" "mine s' = []"
    using run s by (auto simp: pg_connect_def Let_def split: option.splits)
  then show "mine s' = [] \<and> named A V (db s') \<and> (db s, db s') \<in> (others_rel E \<union> D)\<^sup>*"
    using assms s others_relI by (auto simp: session_law_def)
qed

lemma runs_state_name: "runs E A V D (check_state_name v)"
  unfolding check_state_name_def by (intro dop_runs)

lemma runs_resolve_table:
  assumes law: "session_law E A V"
  shows "runs E A V D (resolve_table_id E nm)"
  unfolding resolve_table_id_def by (intro dop_runs runs_query [OF law] runs_connect [OF law])

lemma runs_resolve_spec:
  assumes law: "session_law E A V"
  shows "runs E A V D (resolve_live_spec E t)"
  unfolding resolve_live_spec_def by (intro dop_runs runs_query [OF law] runs_connect [OF law])

lemma runs_floor:
  assumes law: "session_law E A V"
  shows "runs E A V D (floor_snapshot E cutoff)"
  unfolding floor_snapshot_def by (intro dop_runs runs_query [OF law] runs_connect [OF law])

lemma runs_unageable:
  assumes law: "session_law E A V"
  shows "runs E A V D (assert_no_unageable E t)"
  unfolding assert_no_unageable_def by (intro dop_runs runs_query [OF law] runs_connect [OF law])

lemma runs_old_spec:
  assumes law: "session_law E A V"
  shows "runs E A V D (old_spec_leaf_check E t spec tuple)"
  unfolding old_spec_leaf_check_def by (intro dop_runs runs_query [OF law] runs_connect [OF law])

lemma runs_plan_work:
  assumes law: "session_law E A V"
  shows "runs E A V D (plan_work E H args t spec)"
  unfolding plan_work_def by (intro dop_runs runs_query [OF law] runs_connect [OF law] runs_old_spec [OF law])

lemma runs_plan:
  assumes law: "session_law E A V"
  shows "runs E A V D (make_plan E H args)"
  unfolding make_plan_def
  by (intro dop_runs runs_query [OF law] runs_connect [OF law] runs_resolve_table [OF law] runs_resolve_spec [OF law] runs_unageable [OF law] runs_state_name runs_plan_work [OF law] runs_floor [OF law])

lemma runs_read_cursors:
  assumes law: "session_law E A V"
  shows "runs E A V D (read_cursors E nm)"
proof -
  let ?st = "statement E (\<lambda>c. case map_of (cat_cursors c) nm of
             None \<Rightarrow> Inl (PgError undefined_table) | Some vs \<Rightarrow> Inr (joined_cursors vs c, []))"
  have "runs E A V D ?st" by (rule runs_reading [OF law]) (auto split: option.splits)
  moreover have "snd (read_cursors E nm s) = snd (?st s)" for s
  proof -
    obtain r s1 where "?st s = (r, s1)" by fastforce
    then show ?thesis
      by (cases r; cases "projl r") (simp_all add: read_cursors_def)
  qed
  ultimately show ?thesis by (simp add: runs_def)
qed

lemma runs_cursor_guard:
  assumes law: "session_law E A V"
  shows "runs E A V D (cursor_guard E a b t ov)"
  unfolding cursor_guard_def Let_def by (intro dop_runs runs_state_name runs_read_cursors [OF law])

lemma runs_select:
  assumes law: "session_law E A V"
  shows "runs E A V D (select_leaf_files E t spec tuple flr mx)"
  unfolding select_leaf_files_def by (intro dop_runs runs_query [OF law] runs_connect [OF law])

lemma runs_lock_refresh:
  assumes law: "session_law E A V"
  shows "runs E A V D (lock_refresh E)"
proof -
  have "runs E A V D (d_bind (query E (\<lambda>_. b)) (\<lambda>got. if got then d_ret () else d_fail LockContended))" for b
    by (intro dop_runs runs_query [OF law] runs_connect [OF law])
  then have "runs E A V D (\<lambda>s. d_bind (query E (\<lambda>_. lock_free E (tick s))) (\<lambda>got.
       if got then d_ret () else d_fail LockContended) s)"
    by (simp add: runs_def)
  then show ?thesis unfolding lock_refresh_def by (intro dop_runs runs_query [OF law] runs_connect [OF law])
qed

lemma runs_txn:
  assumes law: "session_law E A V" and sub: "leaf_drop t ids \<subseteq> D"
  shows "runs E A V D (drop_leaf_txn E t ids g msg chk)"
proof (rule runsI)
  fix s r s' assume run: "drop_leaf_txn E t ids g msg chk s = (r, s')" and s: "mine s = []" "named A V (db s)"
  note out = drop_leaf_txn_outcome [OF law s(2,1) run]
  have mono: "(others_rel E)\<^sup>* \<subseteq> (others_rel E \<union> D)\<^sup>*" by (rule rtrancl_mono) simp
  from out(2) show "mine s' = [] \<and> named A V (db s') \<and> (db s, db s') \<in> (others_rel E \<union> D)\<^sup>*"
  proof (elim disjE conjE exE)
    assume "untouched E s s'"
    then have st: "(db s, db s') \<in> (others_rel E)\<^sup>*" by (simp add: untouched_def)
    then show ?thesis using out(1) mono others_named [OF law st s(2)] by auto
  next
    fix hit snap assume "dropped E t ids g s s' hit snap"
    then obtain c sn ch where st: "(db s, c) \<in> (others_rel E)\<^sup>*" and ok: "drop_ok t ids hit sn ch c"
      and db': "db s' = apply_writes (drop_writes t hit sn ch) c"
      unfolding dropped_def by blast
    have "(c, db s') \<in> others_rel E \<union> D" using drop_ok_leaf_drop [OF ok] sub by (auto simp: db')
    then have "(db s, db s') \<in> (others_rel E \<union> D)\<^sup>*"
      using st mono by (meson rtrancl.rtrancl_into_rtrancl subsetD)
    moreover have "named A V (db s')"
      unfolding db' by (rule drop_keeps_named [OF others_named [OF law st s(2)]])
    ultimately show ?thesis using out(1) by simp
  qed
qed

lemma runs_attempt:
  assumes law: "session_law E A V" and sub: "leaf_drop t ids \<subseteq> D"
  shows "runs E A V D (\<lambda>s. snd (leaf_attempt E t ids g msg chk s))"
proof -
  have work: "runs E A V D (d_bind (lock_refresh E) (\<lambda>_. drop_leaf_txn E t ids g msg b))" for b
    by (intro dop_runs runs_lock_refresh [OF law] runs_txn [OF law sub])
  have again: "runs E A V D (d_bind (pg_connect E) (\<lambda>_. d_bind (lock_refresh E) (\<lambda>_. drop_leaf_txn E t ids g msg True)))"
    by (intro dop_runs runs_query [OF law] runs_connect [OF law] work)
  have "snd (leaf_attempt E t ids g msg chk s) =
      (if closed s then d_bind (pg_connect E) (\<lambda>_. d_bind (lock_refresh E) (\<lambda>_. drop_leaf_txn E t ids g msg True)) s
       else d_bind (lock_refresh E) (\<lambda>_. drop_leaf_txn E t ids g msg chk) s)" for s
    by (simp add: leaf_attempt_def d_bind_def [of "pg_connect E"] Let_def split: prod.split sum.split)
  then show ?thesis using work again by (simp add: runs_def)
qed

lemma runs_release: "session_law E A V \<Longrightarrow> mine s = [] \<Longrightarrow> named A V (db s) \<Longrightarrow>
    mine (release_lock E s) = [] \<and> named A V (db (release_lock E s)) \<and> (db s, db (release_lock E s)) \<in> (others_rel E \<union> D)\<^sup>*"
  using runs_query unfolding release_lock_def runs_def by blast

lemma count_retry_fields [simp]: "mine (count_retry s) = mine s" "db (count_retry s) = db s"
  by (simp_all add: count_retry_def count_meter_def)

lemma runs_loop:
  assumes law: "session_law E A V" and sub: "leaf_drop t ids \<subseteq> D"
  shows "runs E A V D (leaf_loop E t ids g msg deadline n locks chk)"
proof (induction n arbitrary: locks chk)
  case 0
  show ?case by (simp add: runs_def)
next
  case (Suc n)
  show ?case
  proof (rule runsI)
    fix s r s' assume run: "leaf_loop E t ids g msg deadline (Suc n) locks chk s = (r, s')"
      and s: "mine s = []" "named A V (db s)"
    obtain chk1 res s1 where att: "leaf_attempt E t ids g msg chk s = (chk1, res, s1)" by (metis prod_cases3)
    then have "(\<lambda>s. snd (leaf_attempt E t ids g msg chk s)) s = (res, s1)" by simp
    note st1 = runsD [OF runs_attempt [OF law sub] this s]
    define s2 where "s2 = release_lock E s1"
    have st2: "mine s2 = [] \<and> named A V (db s2) \<and> (db s, db s2) \<in> (others_rel E \<union> D)\<^sup>*"
      unfolding s2_def using runs_release [OF law, of s1 D] st1 by (meson rtrancl_trans)
    have again: "mine s' = [] \<and> named A V (db s') \<and> (db s, db s') \<in> (others_rel E \<union> D)\<^sup>*"
      if "leaf_loop E t ids g msg deadline n locks' chk1 (count_retry s2) = (r, s')" for locks'
      using runsD [OF Suc.IH that] st2 by (auto intro: rtrancl_trans)
    show "mine s' = [] \<and> named A V (db s') \<and> (db s, db s') \<in> (others_rel E \<union> D)\<^sup>*"
    proof (cases "case deadline of None \<Rightarrow> False | Some t \<Rightarrow> monotonic E (tick s) > t")
      case True
      with run s show ?thesis by auto
    next
      case False
      with run att have "(case res of
           Inr r \<Rightarrow> (Inr (r\<lparr> dr_attempts := DROP_MAX_ATTEMPTS - n \<rparr>), s2)
         | Inl LockContended \<Rightarrow>
             if locks + 1 > DROP_LOCK_ATTEMPTS then (Inl (DropAbort LockExceeded), s2)
             else leaf_loop E t ids g msg deadline n (locks + 1) chk1 (count_retry s2)
         | Inl (PgError e) \<Rightarrow>
             if retryable_pg_error e
             then leaf_loop E t ids g msg deadline n locks chk1 (count_retry s2)
             else (Inl (PgError e), s2)
         | Inl x \<Rightarrow> (Inl x, s2)) = (r, s')"
        by (simp only: leaf_loop.simps if_False Let_def prod.case s2_def)
      then show ?thesis
        using st2 again by (auto split: sum.splits drop_exn.splits if_splits)
    qed
  qed
qed

subsection \<open>Selected files\<close>

lemma selects_without_end: "selects_file t spec flr tuple (f\<lparr> df_end := e \<rparr>) vs = selects_file t spec flr tuple f vs"
  by (simp add: selects_file_def)

lemma select_Inr:
  assumes law: "session_law E A V" and s: "mine s = []" "named A V (db s)"
    and run: "select_leaf_files E t spec tuple flr mx s = (Inr files, s')"
  shows "\<forall>i \<in> set (map lf_id files). selects_file t spec flr tuple (A i) (V i)"
proof -
  from run obtain dfs where q: "query E (leaf_selection t spec flr tuple) s = (Inr dfs, s')"
    and files: "map lf_id files = map df_id dfs"
    by (auto simp: select_leaf_files_def d_bind_Inr comp_def split: if_splits)
  from q have db': "db s' = others E (tick s) [] (db s)" and dfs: "dfs = leaf_selection t spec flr tuple (db s')"
    by (auto simp: query_def statement_Inr s)
  have n: "named A V (db s')" using law s(2) by (simp add: db' session_law_def)
  have "selects_file t spec flr tuple (A (df_id f)) (V (df_id f))" if "f \<in> set dfs" for f
  proof -
    from that have f: "f \<in> set (cat_files (db s'))" "selects_file t spec flr tuple f (fpv_of (df_id f) (db s'))"
      by (auto simp: dfs leaf_selection_def)
    with n have "A (df_id f) = f\<lparr> df_end := None \<rparr>" "V (df_id f) = fpv_of (df_id f) (db s')"
      by (auto simp: named_def)
    with f(2) show ?thesis by (simp add: selects_without_end)
  qed
  then show ?thesis by (simp add: files)
qed

lemma runs_execute:
  assumes law: "session_law E A V" and sub: "leaf_drop (p_table_id plan) (map lf_id files) \<subseteq> D"
  shows "runs E A V D (execute_leaf E args plan t0 label files first)"
proof (rule runsI)
  fix s r s' assume run: "execute_leaf E args plan t0 label files first s = (r, s')"
    and s: "mine s = []" "named A V (db s)"
  obtain r1 s1 where loop: "drop_leaf_with_retries E (p_table_id plan) (map lf_id files) (p_guard_sql plan)
         (drop_message args plan label files) first (Some (t0 + a_max_seconds args)) s = (r1, s1)" by fastforce
  note st = runsD [OF runs_loop [OF law sub] loop [unfolded drop_leaf_with_retries_def] s]
  have "mine s' = mine s1 \<and> db s' = db s1"
    using run loop by (auto simp: execute_leaf_def skip_leaf_def count_meter_def split: sum.splits drop_exn.splits)
  with st show "mine s' = [] \<and> named A V (db s') \<and> (db s, db s') \<in> (others_rel E \<union> D)\<^sup>*" by simp
qed

lemma runs_one_leaf:
  assumes law: "session_law E A V"
    and sub: "a_execute args \<Longrightarrow>
      retention_drop A V (p_table_id plan) (p_spec plan) (p_cutoff plan) (p_floor plan) \<subseteq> D"
  shows "runs E A V D (one_leaf E args plan t0 label tuple first)"
proof -
  let ?sel = "select_leaf_files E (p_table_id plan) (p_spec plan) tuple (p_floor plan) (a_max_files args)"
  have leaf: "runs E A V D (\<lambda>s. case ?sel s of
           (Inl (LeafOversized n), s1) \<Rightarrow>
             if a_manifest args = [] then (Inl (LeafOversized n), s1) else skip_leaf first s1
         | (Inl x, s1) \<Rightarrow> (Inl x, s1)
         | (Inr files, s1) \<Rightarrow> selected_leaf E args plan t0 label g files first s1)"
    if ts: "compose_part_ts (p_spec plan) (map_of tuple) = Inr (Some t)" "t < p_cutoff plan" for t g
  proof (rule runsI)
    fix s r s' assume run: "(case ?sel s of
           (Inl (LeafOversized n), s1) \<Rightarrow>
             if a_manifest args = [] then (Inl (LeafOversized n), s1) else skip_leaf first s1
         | (Inl x, s1) \<Rightarrow> (Inl x, s1)
         | (Inr files, s1) \<Rightarrow> selected_leaf E args plan t0 label g files first s1) = (r, s')"
      and s: "mine s = []" "named A V (db s)"
    obtain r1 s1 where sel: "?sel s = (r1, s1)" by fastforce
    note st1 = runsD [OF runs_select [OF law] sel s]
    show "mine s' = [] \<and> named A V (db s') \<and> (db s, db s') \<in> (others_rel E \<union> D)\<^sup>*"
    proof (cases r1)
      case (Inl x)
      then have "mine s' = mine s1 \<and> db s' = db s1"
        using run sel by (cases x) (auto simp: skip_leaf_def count_meter_def split: if_splits)
      with st1 show ?thesis by simp
    next
      case (Inr files)
      from select_Inr [OF law s sel [unfolded Inr]] ts
      have "\<forall>i \<in> set (map lf_id files). selected_file A V (p_table_id plan) (p_spec plan) (p_cutoff plan) (p_floor plan) i"
        unfolding selected_file_def by blast
      then have ids: "leaf_drop (p_table_id plan) (map lf_id files)
          \<subseteq> retention_drop A V (p_table_id plan) (p_spec plan) (p_cutoff plan) (p_floor plan)"
        unfolding retention_drop_def by blast
      have "runs E A V D (selected_leaf E args plan t0 label g files first)"
        unfolding selected_leaf_def
        by (intro dop_runs runs_execute [OF law]) (use ids sub in blast)
      moreover have "selected_leaf E args plan t0 label g files first s1 = (r, s')"
        using run sel Inr by simp
      ultimately show ?thesis using runsD st1 by (metis rtrancl_trans)
    qed
  qed
  show ?thesis
    unfolding one_leaf_def
  proof (rule runs_bind_with [OF runs_lift])
    fix ts s s' assume "d_lift (compose_part_ts (p_spec plan) (map_of tuple)) s = (Inr ts, s')"
    then have ts: "compose_part_ts (p_spec plan) (map_of tuple) = Inr ts" by (simp add: d_lift_def)
    show "runs E A V D (if (case ts of None \<Rightarrow> True | Some t \<Rightarrow> t \<ge> p_cutoff plan) then skip_leaf first
       else d_bind (cursor_guard E (a_viaduck_schema args) (a_viaduck_table args) (p_floor_time plan)
           (a_no_viaduck_guard args)) (\<lambda>g s. case ?sel s of
           (Inl (LeafOversized n), s1) \<Rightarrow>
             if a_manifest args = [] then (Inl (LeafOversized n), s1) else skip_leaf first s1
         | (Inl x, s1) \<Rightarrow> (Inl x, s1)
         | (Inr files, s1) \<Rightarrow> selected_leaf E args plan t0 label g files first s1))"
    proof (cases "case ts of None \<Rightarrow> True | Some t \<Rightarrow> t \<ge> p_cutoff plan")
      case True
      then show ?thesis by (simp add: dop_runs)
    next
      case False
      then obtain t where t: "ts = Some t" "t < p_cutoff plan" by (auto split: option.splits)
      show ?thesis
        unfolding if_not_P [OF False]
        by (intro runs_bind runs_cursor_guard [OF law] leaf [OF ts [unfolded t(1)] t(2)])
    qed
  qed
qed

lemma runs_leaves:
  assumes law: "session_law E A V"
    and sub: "a_execute args \<Longrightarrow>
      retention_drop A V (p_table_id plan) (p_spec plan) (p_cutoff plan) (p_floor plan) \<subseteq> D"
  shows "runs E A V D (run_leaves E args plan t0 w first)"
proof (induction w arbitrary: first)
  case Nil
  show ?case by (simp add: runs_def)
next
  case (Cons e w)
  obtain label tuple where e: "e = (label, tuple)" by (cases e)
  have "runs E A V D (d_bind (one_leaf E args plan t0 label tuple first) (run_leaves E args plan t0 w))"
    by (intro runs_bind runs_one_leaf [OF law sub] Cons.IH)
  then show ?case by (simp add: runs_def e)
qed

subsection \<open>Whole runs\<close>

lemma d_lift_Inr [simp]: "d_lift x s = (Inr a, s') \<longleftrightarrow> x = Inr a \<and> s' = s"
  by (auto simp: d_lift_def)

lemma manifest_cutoff_checked:
  assumes "manifest_work H args t spec = Inr (cutoff, w)"
  shows "check_cutoff (h_now H) cutoff (grain spec) (a_force_young_cutoff args) = Inr ()"
  using assms unfolding manifest_work_def and_then_Inr by (elim exE conjE) simp

lemma tuple_cutoff_checked:
  assumes "tuple_work H args spec = Inr (cutoff, tuple)"
  shows "check_cutoff (h_now H) cutoff (grain spec) (a_force_young_cutoff args) = Inr ()"
proof -
  obtain c where "resolve_cutoff (h_parse_iso H) (h_now H) (a_cutoff args) (a_retention_days args)
       (a_force_young_cutoff args) (grain spec) = Inr c" and "c = cutoff"
    using assms unfolding tuple_work_def and_then_Inr sum.inject prod.inject
    by (elim exE conjE) (rule that, assumption+)
  then show ?thesis using resolve_cutoff_checked by blast
qed

lemma plan_work_checked:
  "plan_work E H args t spec s = (Inr (cutoff, w), s') \<Longrightarrow>
     check_cutoff (h_now H) cutoff (grain spec) (a_force_young_cutoff args) = Inr ()"
  by (auto simp: plan_work_def d_bind_Inr split: if_splits dest: manifest_cutoff_checked tuple_cutoff_checked)

text \<open>
  What a plan rests on: the table is the one live table of the name in the arguments, the spec its one live
  spec, and the floor the newest snapshot before the cutoff's floor time (or the one before the oldest), each
  as read from the catalog of the moment.
\<close>

definition resolved :: "pg_env \<Rightarrow> string \<Rightarrow> catalog \<Rightarrow> int \<Rightarrow> partition_spec \<Rightarrow> bool" where
  "resolved E schema_table c0 t spec \<longleftrightarrow> (\<exists>schema_name table_name c1 c2 c3 pid.
     split_on (CHR ''.'') schema_table = [schema_name, table_name]
     \<and> (c0, c1) \<in> (others_rel E)\<^sup>* \<and> live_table_ids schema_name table_name c1 = [t]
     \<and> (c1, c2) \<in> (others_rel E)\<^sup>* \<and> live_spec_ids t c2 = [pid]
     \<and> (c2, c3) \<in> (others_rel E)\<^sup>* \<and> check_spec pid (spec_key_rows t pid c3) = Inr spec)"

definition floored :: "pg_env \<Rightarrow> catalog \<Rightarrow> int \<Rightarrow> int \<Rightarrow> bool" where
  "floored E c0 cutoff floor_snap \<longleftrightarrow> (\<exists>t c1. floor_time cutoff = Inr t \<and> (c0, c1) \<in> (others_rel E)\<^sup>*
     \<and> (newest_before t c1 = Some floor_snap
        \<or> newest_before t c1 = None \<and> (\<exists>c2. (c1, c2) \<in> (others_rel E)\<^sup>* \<and> oldest_snapshot c2 = Some (floor_snap + 1))))"

lemma resolved_later: "(c0, c) \<in> (others_rel E)\<^sup>* \<Longrightarrow> resolved E nm c t spec \<Longrightarrow> resolved E nm c0 t spec"
  unfolding resolved_def by (meson rtrancl_trans)

lemma floored_later: "(c0, c) \<in> (others_rel E)\<^sup>* \<Longrightarrow> floored E c cutoff fl0 \<Longrightarrow> floored E c0 cutoff fl0"
  unfolding floored_def by (meson rtrancl_trans)

lemma query_reads:
  assumes "query E q s = (Inr a, s')" "mine s = []"
  shows "a = q (db s')" "mine s' = []" "(db s, db s') \<in> (others_rel E)\<^sup>*"
proof -
  show "a = q (db s')" "mine s' = []"
    using assms by (auto simp: query_def statement_def Let_def elapse_def split: if_splits option.splits)
  show "(db s, db s') \<in> (others_rel E)\<^sup>*"
    by (rule movesD [OF moves_query assms(1)])
qed

lemma resolve_table_Inr:
  assumes "resolve_table_id E nm s = (Inr (t, sc, tn), s')" "mine s = []"
  shows "split_on (CHR ''.'') nm = [sc, tn]" "live_table_ids sc tn (db s') = [t]"
    "mine s' = []" "(db s, db s') \<in> (others_rel E)\<^sup>*"
proof -
  obtain sc' tn' where nm: "split_on (CHR ''.'') nm = [sc', tn']"
    using assms(1) by (auto simp: resolve_table_id_def split: list.splits)
  obtain ids s1 where q: "query E (live_table_ids sc' tn') s = (Inr ids, s1)"
    and r: "(case ids of [i] \<Rightarrow> d_ret (i, sc', tn') | _ \<Rightarrow> d_fail (DropAbort (TableRows (length ids)))) s1 = (Inr (t, sc, tn), s')"
    using assms(1) by (auto simp: resolve_table_id_def nm d_bind_Inr split: if_splits)
  have "ids = [t]" "sc' = sc" "tn' = tn" "s1 = s'"
    using r by (auto split: list.splits)
  then show "split_on (CHR ''.'') nm = [sc, tn]" "live_table_ids sc tn (db s') = [t]"
    "mine s' = []" "(db s, db s') \<in> (others_rel E)\<^sup>*"
    using nm query_reads [OF q assms(2)] by auto
qed

lemma resolve_spec_Inr:
  assumes "resolve_live_spec E t s = (Inr spec, s')" "mine s = []"
  obtains c pid where "(db s, c) \<in> (others_rel E)\<^sup>*" "live_spec_ids t c = [pid]"
    "(c, db s') \<in> (others_rel E)\<^sup>*" "check_spec pid (spec_key_rows t pid (db s')) = Inr spec" "mine s' = []"
proof -
  obtain ids s1 where q: "query E (live_spec_ids t) s = (Inr ids, s1)" and rest: "(case ids of
         [] \<Rightarrow> d_fail (DropAbort NoLiveSpec)
       | [pid] \<Rightarrow> d_bind (query E (spec_key_rows t pid)) (\<lambda>ks. d_lift (check_spec pid ks))
       | _ \<Rightarrow> d_fail (DropAbort (ManyLiveSpecs (length ids)))) s1 = (Inr spec, s')"
    using assms(1) unfolding resolve_live_spec_def d_bind_Inr by blast
  note q = query_reads [OF q assms(2)]
  obtain pid where ids: "ids = [pid]"
    using rest by (auto split: list.splits)
  then obtain ks where ks: "query E (spec_key_rows t pid) s1 = (Inr ks, s')" "check_spec pid ks = Inr spec"
    using rest by (auto simp: d_bind_Inr)
  show thesis
    using that [of "db s1" pid] q ids ks(2) query_reads [OF ks(1) q(2)] by simp
qed

lemma floor_Inr:
  assumes "floor_snapshot E cutoff s = (Inr floor_snap, s')" "mine s = []"
  shows "floored E (db s) cutoff floor_snap"
proof -
  obtain t newest s1 where t: "floor_time cutoff = Inr t"
    and n: "query E (newest_before t) s = (Inr newest, s1)"
    and rest: "(case newest of Some i \<Rightarrow> d_ret i
       | None \<Rightarrow> d_bind (query E oldest_snapshot) (\<lambda>oldest.
             case oldest of None \<Rightarrow> d_fail (DropAbort EmptyCatalog) | Some i \<Rightarrow> d_ret (i - 1))) s1 = (Inr floor_snap, s')"
    using assms(1) unfolding floor_snapshot_def d_bind_Inr by auto
  note n = query_reads [OF n assms(2)]
  show ?thesis
  proof (cases newest)
    case (Some i)
    then show ?thesis
      using t n rest unfolding floored_def by (intro exI [of _ t] exI [of _ "db s1"]) simp
  next
    case None
    then obtain old s2 where o: "query E oldest_snapshot s1 = (Inr old, s2)" "old = Some (floor_snap + 1)"
      using rest by (auto simp: d_bind_Inr split: option.splits)
    show ?thesis
      using t n None query_reads [OF o(1) n(2)] o(2) unfolding floored_def
      by (intro exI [of _ t] exI [of _ "db s1"]) auto
  qed
qed

lemma make_plan_Inr:
  assumes law: "session_law E A V" and s: "mine s = []" "named A V (db s)"
    and plan: "make_plan E H args s = (Inr plan, s')"
  shows "resolved E (a_table args) (db s) (p_table_id plan) (p_spec plan)"
    and "check_cutoff (h_now H) (p_cutoff plan) (grain (p_spec plan)) (a_force_young_cutoff args) = Inr ()"
    and "floored E (db s) (p_cutoff plan) (p_floor plan)"
proof -
  obtain t sc tn s1 spec s2 s3 s4 s5 cutoff w s6 fl0 s7 where
    tab: "resolve_table_id E (a_table args) s = (Inr (t, sc, tn), s1)"
    and spec: "resolve_live_spec E t s1 = (Inr spec, s2)"
    and un: "assert_no_unageable E t s2 = (Inr (), s3)"
    and st1: "check_state_name (a_viaduck_schema args) s3 = (Inr (), s4)"
    and st2: "check_state_name (a_viaduck_table args) s4 = (Inr (), s5)"
    and work: "plan_work E H args t spec s5 = (Inr (cutoff, w), s6)"
    and fl0: "floor_snapshot E cutoff s6 = (Inr fl0, s7)"
    and p: "p_table_id plan = t" "p_spec plan = spec" "p_cutoff plan = cutoff" "p_floor plan = fl0"
    using plan unfolding make_plan_def d_bind_Inr split_paired_Ex prod.case d_ret_Inr unit_all_eq1 ex_simps
    by (elim exE conjE) (rule that, assumption+, simp_all)
  note tab = resolve_table_Inr [OF tab s(1)]
  obtain c pid where sp: "(db s1, c) \<in> (others_rel E)\<^sup>*" "live_spec_ids t c = [pid]" "(c, db s2) \<in> (others_rel E)\<^sup>*"
      "check_spec pid (spec_key_rows t pid (db s2)) = Inr spec" "mine s2 = []"
    by (rule resolve_spec_Inr [OF spec tab(3)])
  have n2: "named A V (db s2)"
    using others_named [OF law] tab(4) sp(1,3) s(2) by (meson rtrancl_trans)
  have "runs E A V {} (assert_no_unageable E t)" "runs E A V {} (check_state_name v)"
      "runs E A V {} (plan_work E H args t spec)" for v
    by (rule runs_unageable [OF law] runs_state_name runs_plan_work [OF law])+
  note run = runsD [OF this(1) un sp(5) n2] runsD [OF this(2) st1] runsD [OF this(2) st2] runsD [OF this(3) work]
  have s6: "mine s6 = []" "(db s2, db s6) \<in> (others_rel E)\<^sup>*"
    using run by (simp_all add: Un_empty_right) (meson rtrancl_trans)
  have to6: "(db s, db s6) \<in> (others_rel E)\<^sup>*"
    using tab(4) sp(1,3) s6(2) by (meson rtrancl_trans)
  show "resolved E (a_table args) (db s) (p_table_id plan) (p_spec plan)"
    unfolding resolved_def p using tab sp by blast
  show "check_cutoff (h_now H) (p_cutoff plan) (grain (p_spec plan)) (a_force_young_cutoff args) = Inr ()"
    unfolding p by (rule plan_work_checked [OF work])
  show "floored E (db s) (p_cutoff plan) (p_floor plan)"
    unfolding p by (rule floored_later [OF to6 floor_Inr [OF fl0 s6(1)]])
qed

lemma resolved_ok: "resolved E nm c0 t spec \<Longrightarrow> spec_ok spec"
  unfolding resolved_def using check_spec_ok(1) by blast

text \<open>The drops a run may make: of leaves of the table named, below a cutoff that was accepted for its spec.\<close>

definition run_drops ::
  "pg_env \<Rightarrow> (int \<Rightarrow> data_file) \<Rightarrow> (int \<Rightarrow> fpv_row list) \<Rightarrow> drop_host \<Rightarrow> drop_args \<Rightarrow> catalog
     \<Rightarrow> (catalog \<times> catalog) set \<Rightarrow> bool" where
  "run_drops E A V H args c0 D \<longleftrightarrow>
     (\<exists>t spec cutoff floor_snap. D = retention_drop A V t spec cutoff floor_snap
        \<and> resolved E (a_table args) c0 t spec \<and> spec_ok spec
        \<and> check_cutoff (h_now H) cutoff (grain spec) (a_force_young_cutoff args) = Inr ()
        \<and> floored E c0 cutoff floor_snap)"

lemma run_cases:
  assumes law: "session_law E A V" and s: "mine s = []" "named A V (db s)"
    and run: "drop_partitions E H args s = (res, s', ms)"
  shows "(db s, db s') \<in> (others_rel E)\<^sup>*
    \<or> (a_execute args \<and> (\<exists>D. run_drops E A V H args (db s) D \<and> (db s, db s') \<in> (others_rel E \<union> D)\<^sup>*))"
proof (cases "(a_partition args \<noteq> []) = (a_manifest args \<noteq> [])
    \<or> (a_manifest args \<noteq> [] \<and> (a_cutoff args \<noteq> [] \<or> a_retention_days args \<noteq> None))")
  case True
  with run have "db s' = db s" by (auto simp: drop_partitions_def split: if_splits)
  then show ?thesis by simp
next
  case False
  let ?s0 = "s\<lparr> meter := zero_meter \<rparr>" and ?t0 = "monotonic E (tick s)"
  obtain r1 s1 where plan: "d_bind (pg_connect E) (\<lambda>_. make_plan E H args) ?s0 = (r1, s1)" by fastforce
  have s0: "mine ?s0 = []" "named A V (db ?s0)" using s by simp_all
  have "runs E A V {} (d_bind (pg_connect E) (\<lambda>_. make_plan E H args))"
    by (intro runs_bind runs_connect [OF law] runs_plan [OF law])
  from runsD [OF this plan s0] have st1: "mine s1 = []" "named A V (db s1)" "(db s, db s1) \<in> (others_rel E)\<^sup>*"
    by simp_all
  obtain r2 s2 where body: "d_bind (pg_connect E) (\<lambda>_. d_bind (make_plan E H args) (\<lambda>plan.
              run_leaves E args plan ?t0 (p_work plan) True)) ?s0 = (r2, s2)" by fastforce
  have db': "db s' = db s2"
    using run False body by (auto simp: drop_partitions_def count_meter_def split: if_splits sum.splits)
  have split: "(r2, s2) = (case r1 of Inl x \<Rightarrow> (Inl x, s1) | Inr plan \<Rightarrow> run_leaves E args plan ?t0 (p_work plan) True s1)"
    using plan body by (auto simp: d_bind_def split: prod.splits sum.splits)
  show ?thesis
  proof (cases r1)
    case (Inl x)
    with split st1 show ?thesis by (simp add: db')
  next
    case (Inr plan)
    have leaves: "run_leaves E args plan ?t0 (p_work plan) True s1 = (r2, s2)" using split Inr by simp
    show ?thesis
    proof (cases "a_execute args")
      case False
      have "runs E A V {} (run_leaves E args plan ?t0 (p_work plan) True)"
        by (rule runs_leaves [OF law]) (simp add: False)
      from runsD [OF this leaves st1(1,2)] have "(db s1, db s2) \<in> (others_rel E)\<^sup>*" by simp
      from rtrancl_trans [OF st1(3) this] show ?thesis by (simp add: db')
    next
      case True
      let ?D = "retention_drop A V (p_table_id plan) (p_spec plan) (p_cutoff plan) (p_floor plan)"
      from plan obtain sc where sc: "pg_connect E ?s0 = (Inr (), sc)" "make_plan E H args sc = (Inr plan, s1)"
        by (auto simp: Inr d_bind_Inr)
      have st: "mine sc = []" "named A V (db sc)" "(db s, db sc) \<in> (others_rel E)\<^sup>*"
        using runsD [OF runs_connect [OF law] sc(1) s0, of "{}"] by simp_all
      have D: "run_drops E A V H args (db s) ?D"
        using make_plan_Inr [OF law st(1,2) sc(2)] resolved_later [OF st(3)] floored_later [OF st(3)] resolved_ok
        unfolding run_drops_def by blast
      have "runs E A V ?D (run_leaves E args plan ?t0 (p_work plan) True)"
        by (rule runs_leaves [OF law]) simp
      from runsD [OF this leaves st1(1,2)] have "(db s1, db s2) \<in> (others_rel E \<union> ?D)\<^sup>*" by simp
      then have "(db s, db s2) \<in> (others_rel E \<union> ?D)\<^sup>*"
        using st1(3) rtrancl_mono [of "others_rel E" "others_rel E \<union> ?D"] by (meson le_sup_iff order_refl rtrancl_trans subsetD)
      then show ?thesis using True D by (auto simp: db')
    qed
  qed
qed

text \<open>
  C14: A run refines the abstract retention job. Whatever other sessions do, whichever statements fail and however the
  run ends, the committed catalog moves only by the other sessions' steps and by drops of selected files of the one live
  table the arguments name, each with a fresh snapshot, an exact stats decrement and the conflict token; the
  spec was read from the catalog as the one live spec of that table, the cutoff was accepted for it, and the
  files are below the floor snapshot read for that cutoff. A dry run adds nothing to the catalog and sets no gauge.
\<close>

theorem run_refines_retention:
  assumes "session_law E A V" and "named A V (db s)" and "mine s = []"
    and "drop_partitions E H args s = (res, s', ms)"
  shows "(a_execute args \<or> (db s, db s') \<in> (others_rel E)\<^sup>* \<and> ms = [])
    \<and> ((db s, db s') \<in> (others_rel E)\<^sup>*
      \<or> (\<exists>D. run_drops E A V H args (db s) D \<and> (db s, db s') \<in> (others_rel E \<union> D)\<^sup>*))"
proof -
  have "ms = []" if "\<not> a_execute args"
    using assms(4) that by (auto simp: drop_partitions_def drop_gauges_def Let_def split: if_splits prod.splits)
  then show ?thesis using run_cases [OF assms(1,3,2,4)] by blast
qed

subsection \<open>Stats\<close>

definition live_sum :: "int \<Rightarrow> (data_file \<Rightarrow> int option) \<Rightarrow> catalog \<Rightarrow> int" where
  "live_sum t col c = sum_of col (filter (\<lambda>f. df_table f = t \<and> df_end f = None) (cat_files c))"

definition stats_sum :: "int \<Rightarrow> (stats_row \<Rightarrow> int) \<Rightarrow> catalog \<Rightarrow> int" where
  "stats_sum t col c = sum_list (map col (filter (\<lambda>x. ts_table x = t) (cat_stats c)))"

text \<open>The stats of every table are the totals of its live files.\<close>

definition stats_exact :: "catalog \<Rightarrow> bool" where
  "stats_exact c \<longleftrightarrow> (\<forall>t. stats_sum t ts_rows c = live_sum t df_rows c \<and> stats_sum t ts_bytes c = live_sum t df_bytes c)"

lemma sum_one:
  "length (filter P xs) = 1 \<Longrightarrow> sum_list (map (\<lambda>x. if P x then g x - d else g x) xs) = sum_list (map g xs) - d"
  for g :: "'a \<Rightarrow> int"
proof (induction xs)
  case (Cons x xs)
  show ?case
  proof (cases "P x")
    case True
    with Cons.prems have "filter P xs = []" by simp
    then have "sum_list (map (\<lambda>x. if P x then g x - d else g x) xs) = sum_list (map g xs)"
      by (intro arg_cong [of _ _ sum_list] map_cong) (auto simp: filter_empty_conv)
    then show ?thesis using True by simp
  next
    case False
    then show ?thesis using Cons by simp
  qed
qed simp

lemma stats_after:
  fixes g :: "stats_row \<Rightarrow> int" and upd :: "stats_row \<Rightarrow> stats_row"
  assumes one: "length (filter (stats_admit t r b) (cat_stats c)) = 1"
    and upd: "\<And>x. ts_table (upd x) = ts_table x" "\<And>x. g (upd x) = (if stats_admit t r b x then g x - d else g x)"
  shows "sum_list (map g (filter (\<lambda>x. ts_table x = u) (map upd (cat_stats c))))
    = stats_sum u g c - (if u = t then d else 0)"
proof -
  have f: "map g (filter (\<lambda>x. ts_table x = u) (map upd (cat_stats c)))
      = map (\<lambda>x. if stats_admit t r b x then g x - d else g x) (filter (\<lambda>x. ts_table x = u) (cat_stats c))"
    by (simp add: filter_map comp_def upd)
  show ?thesis
  proof (cases "u = t")
    case True
    have "length (filter (stats_admit t r b) (filter (\<lambda>x. ts_table x = t) (cat_stats c))) = 1"
      using one by (subst (asm) admitted_within)
    from sum_one [OF this] show ?thesis
      unfolding f unfolding True stats_sum_def by (simp only: if_True simp_thms)
  next
    case False
    have "map (\<lambda>x. if stats_admit t r b x then g x - d else g x) (filter (\<lambda>x. ts_table x = u) (cat_stats c))
        = map g (filter (\<lambda>x. ts_table x = u) (cat_stats c))"
      using False by (intro map_cong) (auto simp: stats_admit_def)
    then show ?thesis by (simp only: f stats_sum_def False if_False)
  qed
qed

lemma sum_of_split:
  "sum_of col (filter P fs) = sum_of col (filter (\<lambda>f. P f \<and> Q f) fs) + sum_of col (filter (\<lambda>f. P f \<and> \<not> Q f) fs)"
  by (induction fs) (auto simp: sum_of_def)

lemma live_after:
  assumes hit: "filter (\<lambda>f. df_id f \<in> df_id ` set hit) (cat_files c) = hit"
    and t: "\<forall>f \<in> set hit. df_end f = None \<and> df_table f = t"
  shows "live_sum u col (apply_writes (drop_writes t hit sn ch) c)
    = live_sum u col c - (if u = t then sum_of col hit else 0)"
proof -
  let ?H = "\<lambda>f. df_id f \<in> df_id ` set hit" and ?P = "\<lambda>f. df_table f = u \<and> df_end f = None"
  let ?upd = "\<lambda>f. if df_id f \<in> df_id ` set hit then f\<lparr> df_end := Some (sn_id sn) \<rparr> else f"
  have split: "filter ?P (map ?upd fs) = filter (\<lambda>f. ?P f \<and> \<not> ?H f) fs" for fs
    by (induction fs) auto
  have after: "live_sum u col (apply_writes (drop_writes t hit sn ch) c)
      = sum_of col (filter (\<lambda>f. ?P f \<and> \<not> ?H f) (cat_files c))"
    by (simp add: live_sum_def drop_writes_def split)
  have "filter (\<lambda>f. ?P f \<and> ?H f) (cat_files c) = filter ?P (filter ?H (cat_files c))"
    by (simp add: conj_commute)
  also have "\<dots> = (if u = t then hit else [])"
    unfolding hit using t by (auto simp: filter_empty_conv)
  finally have "sum_of col (filter (\<lambda>f. ?P f \<and> ?H f) (cat_files c)) = (if u = t then sum_of col hit else 0)"
    by (simp add: sum_of_def)
  then show ?thesis
    unfolding after live_sum_def [of u col c] using sum_of_split [of col ?P "cat_files c" ?H] by simp
qed

lemma drop_keeps_stats:
  assumes ok: "drop_ok t ids hit sn ch c" and t: "\<forall>f \<in> set hit. df_table f = t" and ex: "stats_exact c"
  shows "stats_exact (apply_writes (drop_writes t hit sn ch) c)"
proof -
  let ?r = "sum_of df_rows hit" and ?b = "sum_of df_bytes hit"
  let ?upd = "\<lambda>x. if stats_admit t ?r ?b x then x\<lparr> ts_rows := ts_rows x - ?r, ts_bytes := ts_bytes x - ?b \<rparr> else x"
  have one: "length (filter (stats_admit t ?r ?b) (cat_stats c)) = 1" using ok by (simp add: drop_ok_def)
  have stats: "cat_stats (apply_writes (drop_writes t hit sn ch) c) = map ?upd (cat_stats c)"
    by (simp add: drop_writes_def)
  have live: "live_sum u col (apply_writes (drop_writes t hit sn ch) c)
      = live_sum u col c - (if u = t then sum_of col hit else 0)" for u col
    by (rule live_after) (use ok t in \<open>auto simp: drop_ok_def\<close>)
  have rows: "stats_sum u ts_rows (apply_writes (drop_writes t hit sn ch) c)
      = stats_sum u ts_rows c - (if u = t then ?r else 0)" for u
    unfolding stats_sum_def [of _ _ "apply_writes _ _"] stats by (rule stats_after [OF one]) simp_all
  have bytes: "stats_sum u ts_bytes (apply_writes (drop_writes t hit sn ch) c)
      = stats_sum u ts_bytes c - (if u = t then ?b else 0)" for u
    unfolding stats_sum_def [of _ _ "apply_writes _ _"] stats by (rule stats_after [OF one]) simp_all
  show ?thesis using ex by (simp add: stats_exact_def live rows bytes)
qed

lemma retention_keeps_named: "(c, c') \<in> retention_drop A V t spec cutoff fl0 \<Longrightarrow> named A V c \<Longrightarrow> named A V c'"
  by (auto simp: retention_drop_def leaf_drop_def intro: drop_keeps_named)

lemma retention_keeps_stats:
  assumes step: "(c, c') \<in> retention_drop A V t spec cutoff fl0" and n: "named A V c" and ex: "stats_exact c"
  shows "stats_exact c'"
proof -
  from step obtain ids hit sn ch where c': "c' = apply_writes (drop_writes t hit sn ch) c"
    and ok: "drop_ok t ids hit sn ch c" and sel: "\<forall>i \<in> set ids. selected_file A V t spec cutoff fl0 i"
    by (auto simp: retention_drop_def leaf_drop_def)
  have "df_table f = t" if f: "f \<in> set hit" for f
  proof -
    have "f \<in> set (filter (\<lambda>f. df_id f \<in> df_id ` set hit) (cat_files c))"
      using ok f by (simp add: drop_ok_def)
    then have "A (df_id f) = f\<lparr> df_end := None \<rparr>" using n by (auto simp: named_def)
    moreover have "df_id f \<in> set ids" using ok f by (simp add: drop_ok_def)
    ultimately show ?thesis using sel by (fastforce simp: selected_file_def selects_file_def)
  qed
  then show ?thesis unfolding c' using drop_keeps_stats [OF ok _ ex] by blast
qed

text \<open>
  C16: Relative decrements keep the stats exact. If the stats of every table are the totals of its live files, and
  other sessions keep them so, then they are still so after any run of \<open>drop-partitions\<close>, whatever failed in it.
\<close>

theorem stats_stay_exact:
  assumes law: "session_law E A V" and n: "named A V (db s)" and m: "mine s = []"
    and others: "\<forall>n ws c. stats_exact c \<longrightarrow> stats_exact (others E n ws c)"
    and ex: "stats_exact (db s)" and run: "drop_partitions E H args s = (res, s', ms)"
  shows "stats_exact (db s')"
proof -
  have keep: "named A V c' \<and> stats_exact c'"
    if "named A V c \<and> stats_exact c" "(c, c') \<in> others_rel E \<union> retention_drop A V t spec cutoff fl0"
    for c c' t spec cutoff fl0
    using that law others retention_keeps_named retention_keeps_stats
    by (fastforce simp: others_rel_def session_law_def)
  have star: "named A V c' \<and> stats_exact c'"
    if "(c, c') \<in> (others_rel E \<union> retention_drop A V t spec cutoff fl0)\<^sup>*" "named A V c \<and> stats_exact c"
    for c c' t spec cutoff fl0
    using that
  proof (induction rule: rtrancl_induct)
    case (step y z)
    then show ?case using keep [of y z t spec cutoff fl0] by blast
  qed blast
  have others: "(db s, db s') \<in> (others_rel E)\<^sup>* \<Longrightarrow> (db s, db s') \<in> (others_rel E \<union> retention_drop A V t spec cutoff fl0)\<^sup>*"
    for t spec cutoff fl0
    using rtrancl_mono [of "others_rel E" "others_rel E \<union> retention_drop A V t spec cutoff fl0"] by blast
  from run_cases [OF law m n run] obtain t spec cutoff fl0 where
    "(db s, db s') \<in> (others_rel E \<union> retention_drop A V t spec cutoff fl0)\<^sup>*"
    using others unfolding run_drops_def by blast
  from star [OF this] n ex show ?thesis by blast
qed

text \<open>
  C15: A leaf transaction is all or nothing, and guarded. When it returns, then at the moment it commits it ends at
  least one file, all of them live members of the leaf, under a fresh snapshot, and changes no other file row; no
  member of the leaf is left over live; every ended file was below the cursor guard when it was ended, and on a
  later reading of the cursors it was not above it. When it raises, the catalog is left to the other sessions, or the
  error is one of the database whose COMMIT was applied without an answer, and the drop stands in full.
\<close>

theorem leaf_transaction_is_guarded:
  assumes law: "session_law E A V" and n: "named A V (db s)" and mine: "mine s = []"
    and run: "drop_leaf_txn E t ids g msg chk s = (res, s')"
  shows "(\<forall>r. res = Inr r \<longrightarrow> (\<exists>c hit.
        (db s, c) \<in> (others_rel E)\<^sup>* \<and> hit \<noteq> [] \<and> (\<forall>f \<in> set hit. f \<in> set (cat_files c) \<and> df_end f = None \<and> df_id f \<in> set ids)
      \<and> dr_snapshot r \<notin> sn_id ` set (cat_snapshots c)
      \<and> cat_files (db s') = map (\<lambda>f. if f \<in> set hit then f\<lparr> df_end := Some (dr_snapshot r) \<rparr> else f) (cat_files c)
      \<and> dr_files r = int (length hit) \<and> dr_rows r = sum_of df_rows hit \<and> dr_bytes r = sum_of df_bytes hit
      \<and> guard_held E g hit (db s) c \<and> whole_leaf E ids hit (db s) c))
    \<and> (\<forall>x. res = Inl x \<longrightarrow> (db s, db s') \<in> (others_rel E)\<^sup>*
      \<or> (\<exists>e hit snap. x = PgError e \<and> dropped E t ids g s s' hit snap))"
proof (intro conjI allI impI)
  note out = drop_leaf_txn_outcome [OF law n mine run]
  fix r assume r: "res = Inr r"
  with out(2) obtain hit where d: "dropped E t ids g s s' hit (dr_snapshot r)"
    and nums: "dr_files r = int (length hit)" "dr_rows r = sum_of df_rows hit" "dr_bytes r = sum_of df_bytes hit"
    by auto
  then obtain c sn ch where c: "(db s, c) \<in> (others_rel E)\<^sup>*" and ok: "drop_ok t ids hit sn ch c"
    and sn: "sn_id sn = dr_snapshot r" and held: "guard_held E g hit (db s) c" "whole_leaf E ids hit (db s) c"
    and db': "db s' = apply_writes (drop_writes t hit sn ch) c"
    unfolding dropped_def by blast
  have hit: "f \<in> set (cat_files c) \<and> df_id f \<in> df_id ` set hit \<longleftrightarrow> f \<in> set hit" for f
  proof -
    have kept: "filter (\<lambda>f. df_id f \<in> df_id ` set hit) (cat_files c) = hit"
      using ok unfolding drop_ok_def by blast
    have "f \<in> set (filter (\<lambda>f. df_id f \<in> df_id ` set hit) (cat_files c)) \<longleftrightarrow> f \<in> set hit"
      by (simp only: kept)
    then show ?thesis by simp
  qed
  have "cat_files (db s') = map (\<lambda>f. if f \<in> set hit then f\<lparr> df_end := Some (dr_snapshot r) \<rparr> else f) (cat_files c)"
  proof -
    have "cat_files (db s') = map (\<lambda>f. if df_id f \<in> df_id ` set hit then f\<lparr> df_end := Some (dr_snapshot r) \<rparr> else f) (cat_files c)"
      by (simp add: db' drop_writes_def sn)
    also have "\<dots> = map (\<lambda>f. if f \<in> set hit then f\<lparr> df_end := Some (dr_snapshot r) \<rparr> else f) (cat_files c)"
      using hit by (intro map_cong refl) metis
    finally show ?thesis .
  qed
  then show "\<exists>c hit.
        (db s, c) \<in> (others_rel E)\<^sup>* \<and> hit \<noteq> [] \<and> (\<forall>f \<in> set hit. f \<in> set (cat_files c) \<and> df_end f = None \<and> df_id f \<in> set ids)
      \<and> dr_snapshot r \<notin> sn_id ` set (cat_snapshots c)
      \<and> cat_files (db s') = map (\<lambda>f. if f \<in> set hit then f\<lparr> df_end := Some (dr_snapshot r) \<rparr> else f) (cat_files c)
      \<and> dr_files r = int (length hit) \<and> dr_rows r = sum_of df_rows hit \<and> dr_bytes r = sum_of df_bytes hit
      \<and> guard_held E g hit (db s) c \<and> whole_leaf E ids hit (db s) c"
    using c ok sn held nums hit by (intro exI [of _ c] exI [of _ hit]) (auto simp: drop_ok_def)
next
  note out = drop_leaf_txn_outcome [OF law n mine run]
  fix x assume "res = Inl x"
  with out(2) show "(db s, db s') \<in> (others_rel E)\<^sup>* \<or> (\<exists>e hit snap. x = PgError e \<and> dropped E t ids g s s' hit snap)"
    by (auto simp: untouched_def)
qed

subsection \<open>An example\<close>

text \<open>
  One table with three files in two leaves; while the run is under way another session moves viaduck's cursor.
\<close>

definition demo_file :: "int \<Rightarrow> int \<Rightarrow> data_file" where
  "demo_file i b = \<lparr> df_id = i, df_table = 1, df_spec = Some 5, df_begin = b, df_end = None, df_rows = Some 10,
     df_bytes = Some 100 \<rparr>"

definition demo_values :: "int \<Rightarrow> string \<Rightarrow> fpv_row list" where
  "demo_values i d =
     [\<lparr> fv_file = i, fv_table = 1, fv_index = 0, fv_value = Some ''2'' \<rparr>,
      \<lparr> fv_file = i, fv_table = 1, fv_index = 1, fv_value = Some ''2026'' \<rparr>,
      \<lparr> fv_file = i, fv_table = 1, fv_index = 2, fv_value = Some ''8'' \<rparr>,
      \<lparr> fv_file = i, fv_table = 1, fv_index = 3, fv_value = Some d \<rparr>]"

definition demo_catalog :: catalog where
  "demo_catalog = \<lparr>
     cat_tables = [\<lparr> tb_id = 1, tb_schema = 0, tb_name = ''events'', tb_end = None \<rparr>],
     cat_schemas = [\<lparr> sc_id = 0, sc_name = ''main'', sc_end = None \<rparr>],
     cat_specs = [\<lparr> sp_id = 5, sp_table = 1, sp_end = None \<rparr>],
     cat_spec_columns = map (\<lambda>k. \<lparr> sk_table = 1, sk_spec = 5, sk_index = key_index k, sk_column = key_column_id k,
       sk_transform = key_transform k \<rparr>) demo_keys,
     cat_columns = [\<lparr> cl_table = 1, cl_id = 1, cl_name = ''team_id'', cl_end = None \<rparr>,
       \<lparr> cl_table = 1, cl_id = 2, cl_name = ''ts'', cl_end = None \<rparr>],
     cat_snapshots = [\<lparr> sn_id = 50, sn_time = Some (instant_of 2026 8 5 0), sn_schema_version = 1, sn_next_catalog = 9,
         sn_next_file = 20 \<rparr>,
       \<lparr> sn_id = 100, sn_time = Some (instant_of 2026 8 30 0), sn_schema_version = 1, sn_next_catalog = 9,
         sn_next_file = 30 \<rparr>],
     cat_files = [demo_file 10 7, demo_file 11 8, demo_file 12 7],
     cat_fpv = demo_values 10 ''1'' @ demo_values 11 ''1'' @ demo_values 12 ''2'',
     cat_deletes = [],
     cat_stats = [\<lparr> ts_table = 1, ts_rows = 30, ts_bytes = 300 \<rparr>],
     cat_changes = [],
     cat_metadata = [(''version'', ''1.0'')],
     cat_cursors = [(''viaduck.viaduck_state'', [\<lparr> cu_destination = ''d'', cu_instance = ''0'', cu_snapshot = Some 50 \<rparr>])] \<rparr>"

definition demo_others :: "nat \<Rightarrow> catalog_write list \<Rightarrow> catalog \<Rightarrow> catalog" where
  "demo_others n ws c =
     (if n = 3 then c\<lparr> cat_cursors := [(''viaduck.viaduck_state'',
        [\<lparr> cu_destination = ''d'', cu_instance = ''0'', cu_snapshot = Some 100 \<rparr>])] \<rparr> else c)"

definition demo_pg :: pg_env where
  "demo_pg = \<lparr> others = demo_others, failure = (\<lambda>n. None), lost_answer = (\<lambda>n. False), lock_free = (\<lambda>n. True),
     isolation = (\<lambda>n. ''read committed''), server_time = (\<lambda>n. demo_now), monotonic = (\<lambda>n. 0) \<rparr>"

definition demo_host :: drop_host where
  "demo_host = \<lparr> h_parse_iso = demo_iso, h_isoformat = (\<lambda>t. ''2026-08-10''), h_now = demo_now,
     h_text_max = hd, h_read_json = (\<lambda>p. None), h_time = 0, h_str = (\<lambda>v. case v of PStr s \<Rightarrow> s | _ \<Rightarrow> []) \<rparr>"

definition demo_args :: drop_args where
  "demo_args = \<lparr> a_table = ''main.events'', a_partition = ''team_id=2,year=2026,month=8,day=1'', a_manifest = [],
     a_cutoff = ''2026-08-10'', a_retention_days = None, a_force_young_cutoff = False,
     a_viaduck_schema = ''viaduck'', a_viaduck_table = ''viaduck_state'', a_no_viaduck_guard = False,
     a_execute = True, a_max_files = 100, a_max_rot = 0, a_max_seconds = 60, a_campaign = [],
     a_with_file_ids = False \<rparr>"

definition demo_session :: session where
  "demo_session = \<lparr> db = demo_catalog, mine = [], tick = 0, closed = True, meter = zero_meter \<rparr>"

definition demo_names :: "int \<Rightarrow> data_file" where
  "demo_names i = (if i = 11 then demo_file 11 8 else demo_file i 7)"

definition demo_fpv :: "int \<Rightarrow> fpv_row list" where
  "demo_fpv i = demo_values i (if i = 12 then ''2'' else ''1'')"

lemma demo_law: "session_law demo_pg demo_names demo_fpv"
  by (auto simp: session_law_def demo_pg_def demo_others_def leaves_alone_def named_def fpv_of_def)

lemma demo_named: "named demo_names demo_fpv (db demo_session)"
  by code_simp

lemma demo_run:
  "(let (res, s', ms) = drop_partitions demo_pg demo_host demo_args demo_session
    in res = Inr () \<and> map (\<lambda>f. (df_id f, df_end f)) (cat_files (db s')) = [(10, Some 101), (11, Some 101), (12, None)]
       \<and> map ts_rows (cat_stats (db s')) = [10] \<and> m_files_dropped (meter s') = 2)"
  by code_simp

theorem run_refines_retention_witness:
  "\<exists>s' ms. drop_partitions demo_pg demo_host demo_args demo_session = (Inr (), s', ms)
     \<and> map (\<lambda>f. (df_id f, df_end f)) (cat_files (db s')) = [(10, Some 101), (11, Some 101), (12, None)]
     \<and> ((db demo_session, db s') \<in> (others_rel demo_pg)\<^sup>*
       \<or> (\<exists>D. run_drops demo_pg demo_names demo_fpv demo_host demo_args (db demo_session) D
            \<and> (db demo_session, db s') \<in> (others_rel demo_pg \<union> D)\<^sup>*))"
proof -
  obtain res s' ms where run: "drop_partitions demo_pg demo_host demo_args demo_session = (res, s', ms)"
    by (metis prod_cases3)
  have m: "mine demo_session = []" by (simp add: demo_session_def)
  have "res = Inr ()"
    "map (\<lambda>f. (df_id f, df_end f)) (cat_files (db s')) = [(10, Some 101), (11, Some 101), (12, None)]"
    using demo_run by (simp_all only: run Let_def prod.case)
  moreover note run_refines_retention [OF demo_law demo_named m run, THEN conjunct2]
  ultimately show ?thesis
    using run by (intro exI [of _ s'] exI [of _ ms] conjI) simp_all
qed

lemma demo_exact: "stats_exact demo_catalog"
  by (simp add: stats_exact_def stats_sum_def live_sum_def demo_catalog_def demo_file_def sum_of_def or_zero_def)

theorem stats_stay_exact_witness:
  "stats_exact (db (fst (snd (drop_partitions demo_pg demo_host demo_args demo_session))))
   \<and> map ts_rows (cat_stats (db (fst (snd (drop_partitions demo_pg demo_host demo_args demo_session))))) = [10]"
proof -
  obtain res s' ms where run: "drop_partitions demo_pg demo_host demo_args demo_session = (res, s', ms)"
    by (metis prod_cases3)
  have m: "mine demo_session = []" by (simp add: demo_session_def)
  have others: "\<forall>n ws c. stats_exact c \<longrightarrow> stats_exact (others demo_pg n ws c)"
    by (simp add: demo_pg_def demo_others_def stats_exact_def stats_sum_def live_sum_def)
  have ex: "stats_exact (db demo_session)" using demo_exact by (simp add: demo_session_def)
  have "map ts_rows (cat_stats (db s')) = [10]"
    using demo_run by (simp only: run Let_def prod.case)
  then show ?thesis
    using stats_stay_exact [OF demo_law demo_named m others ex run] by (simp add: run)
qed

definition demo_open :: session where
  "demo_open = \<lparr> db = demo_others 3 [] demo_catalog, mine = [], tick = 4, closed = False, meter = zero_meter \<rparr>"

lemma demo_txn:
  "(let (res, s') = drop_leaf_txn demo_pg 1 [10, 11] (Some ''viaduck.viaduck_state'') ''m'' True demo_open
    in (case res of Inl x \<Rightarrow> False | Inr r \<Rightarrow> dr_files r = 2 \<and> dr_rows r = 20 \<and> dr_snapshot r = 101))"
  by code_simp

theorem leaf_transaction_is_guarded_witness:
  "\<exists>r s' c hit. drop_leaf_txn demo_pg 1 [10, 11] (Some ''viaduck.viaduck_state'') ''m'' True demo_open = (Inr r, s')
     \<and> dr_snapshot r = 101 \<and> length hit = 2
     \<and> cat_files (db s') = map (\<lambda>f. if f \<in> set hit then f\<lparr> df_end := Some 101 \<rparr> else f) (cat_files c)
     \<and> guard_held demo_pg (Some ''viaduck.viaduck_state'') hit (db demo_open) c"
proof -
  obtain res s' where run: "drop_leaf_txn demo_pg 1 [10, 11] (Some ''viaduck.viaduck_state'') ''m'' True demo_open = (res, s')"
    by fastforce
  then obtain r where r: "res = Inr r" "dr_files r = 2" "dr_snapshot r = 101"
    using demo_txn by (cases res) (simp_all add: Let_def)
  have n: "named demo_names demo_fpv (db demo_open)" by code_simp
  have m: "mine demo_open = []" by (simp add: demo_open_def)
  from leaf_transaction_is_guarded [OF demo_law n m run] r(1)
  obtain c hit where "cat_files (db s') = map (\<lambda>f. if f \<in> set hit then f\<lparr> df_end := Some (dr_snapshot r) \<rparr> else f) (cat_files c)"
    "dr_files r = int (length hit)" "guard_held demo_pg (Some ''viaduck.viaduck_state'') hit (db demo_open) c"
    by (auto simp del: One_nat_def)
  then show ?thesis
    using run r by (intro exI [of _ r] exI [of _ s'] exI [of _ c] exI [of _ hit]) simp
qed

end
