(* ===== verification/Spec2Isabelle.thy ===== *)
theory Spec2Isabelle
  imports Backpressure Health Consumer IncludeValues Arrow Filters Converter Retry MainLoop Schema ConfigLoad DuckLake HogRun DropRun
begin

text \<open>
  Verification of millpond, the pipeline that reads Kafka messages and writes them to a data lake.

  The program. A pod of a stateful set loads its configuration (\<open>millpond/config.py\<close>), takes the
  partitions its ordinal owns (\<open>consumer.py\<close>), and runs one loop (\<open>main.py\<close>): it consumes messages, converts
  them to an Arrow table (\<open>arrow_converter.py\<close>), pins columns, filters rows, buffers, and flushes by size or
  time. A flush sorts the buffer and writes it through a sink with retries, and only then commits offsets. There
  are two sinks: DuckLake (\<open>ducklake.py\<close> with the schema manager of \<open>schema.py\<close>), which runs SQL, and hoglake
  (\<open>hoglake.py\<close>), which uploads files and registers them with a catalog server. Beside the loop, a server answers
  probes (\<open>server.py\<close>), a poller refreshes the values of the row filter (\<open>include_values.py\<close>), and the fetch
  size follows the buffer (\<open>backpressure.py\<close>).

  Theories, in the order of dependency.
  \<^item> \<open>Prelude\<close>, \<open>PyStr\<close>, \<open>Binary64\<close>: dicts as association lists, counters, Python's integer texts and string
    functions, and the rounding of a real to a double.
  \<^item> \<open>Backpressure\<close>, \<open>Health\<close>: the batch size law on doubles; the probe state and its history.
  \<^item> \<open>Uuid\<close>, \<open>Config\<close>, \<open>ConfigLoad\<close>: UUID texts; the record of settings and each parser; \<open>load()\<close> with both
    destination groups and the liveness budget. A configuration that loads is consistent.
  \<^item> \<open>Consumer\<close>: assignment of partitions, librdkafka settings, recovery of stale offsets, gauges, lag.
  \<^item> \<open>IncludeValues\<close>: the sources of filter values; a run is a sequence of polled responses, and the theorems are
    about every run: removals are damped, pinned values stay, an insisted removal happens.
  \<^item> \<open>Arrow\<close>, \<open>Converter\<close>, \<open>Filters\<close>: tables as a schema with rows, and the pyarrow kernels as a record of
    functions; decoding with a bound, inference, normalisation, and pinning, where an array has a type of its own
    beside its values; the two filters and the sort.
  \<^item> \<open>Retry\<close>, \<open>MainLoop\<close>: the write-retry loop over a record of the sink's hooks and a clock; one iteration, the
    loop with a number of iterations as its bound, the shutdown path. The invariant of the loop relates the
    events so far to the buffer, and gives at-least-once delivery.
  \<^item> \<open>Schema\<close>, \<open>DuckLake\<close>: the column cache and evolution over a database given by its answers; quoting,
    attaching, creating, aligning, sanitizing, the INSERT and its fallback.
  \<^item> \<open>HogText\<close>, \<open>HogTable\<close>, \<open>HogSink\<close>: the texts of hoglake (commit messages, idempotency keys), what is a
    function of a table or an error (fanout, shaping, classification), and the sink as operations on a state
    that may raise. The pyhoglake client is a record of functions on a world \<open>'w\<close> that every call may change.
  \<^item> \<open>HogFrame\<close>: locales of frames. A frame is a relation kept by the primitive steps; every operation up to
    the preparation of a flush then keeps it.
  \<^item> \<open>HogPublish\<close>: the frame of what is held and published, the laws of the server, the outcomes of a commit.
  \<^item> \<open>HogLayout\<close>: the frame of the layout verdict, and reachable states.
  \<^item> \<open>HogRun\<close>: the sink under the retry loop and the main loop; a flush is published at most once, and offsets
    follow the publication.
  \<^item> \<open>DropSpec\<close>, \<open>DropLeaves\<close>: partition retention (\<open>tools/ducklake_maintenance.py\<close>, \<open>drop-partitions\<close> and
    \<open>list-droppable-partitions\<close>): specs, leaf tuples and their text, instants and the cutoff; the classification
    of a table's files into leaves, which is exact.
  \<^item> \<open>DropCat\<close>, \<open>DropTxn\<close>: the catalog's tables with what each SELECT of the tool returns on them; the session, in
    which other sessions commit between any two statements and any statement may fail, the leaf transaction and its
    retries.
  \<^item> \<open>DropLaws\<close>, \<open>DropRun\<close>: the laws of locks and of file names, what a transaction has written when it commits;
    the two commands, the refinement of an abstract retention job by every run, and the exactness of the stats.
  How code became definitions. A class is a record of its attributes; an exception is a value of a sum;
  what the code logs is not modelled and what it counts is, as metric events in order. A dict is an association list,
  a set that is only tested a set. A call to something outside \<open>src/\<close> (Kafka, DuckDB, Postgres, pyarrow's kernels,
  orjson, lz4, pyhoglake, the HTTP endpoint, clocks and random numbers) is a field of a record the definitions take,
  and what a theorem needs of it is a named law (\<open>random_law\<close>, \<open>clocked\<close>, \<open>concat_law\<close>, \<open>server_law\<close>, \<open>session_law\<close>,
  \<open>kernel_law\<close>, and so on), each with an example instance used by the witnesses.

  Bounds. Loops over a finite collection are structural recursions. \<open>main_loop\<close> takes the number of iterations to
  run, and its theorems hold for every number. \<open>write_loop\<close>, \<open>commit_loop\<close> and \<open>leaf_loop\<close> take the attempts that are left.
  Seconds in \<open>Retry\<close> and \<open>MainLoop\<close> are reals; doubles are rounded only where the result depends on it
  (\<open>Backpressure\<close>, \<open>Health\<close>). NaN and the infinities are not values of the model.

  Not modelled.
  \<^item> \<open>metrics.py\<close> only declares instruments, \<open>logging_config.py\<close> and \<open>structured_logging.py\<close> set up and format
    log lines: I/O without a decision the pipeline rests on.
  \<^item> The other commands of \<open>tools/ducklake_maintenance.py\<close> and \<open>tools/ducklake_metrics.py\<close>: chains of SQL sent to
    DuckDB and its DuckLake extension, whose effect is not in the repository, and the export of rows as gauges.
  \<^item> In the model of Postgres a statement is atomic: waiting for a row lock and re-reading a row inside one
    statement are not modelled. BIGINT columns are unbounded integers.
  \<^item> The text of error messages where nothing reads it; the operator-facing sentences of refusals are constructors.
  \<^item> Python's own recursion limit. orjson's limit when writing a document is modelled, as a \<open>dumps\<close> that may fail.
  \<^item> Characters are the 256 of HOL's \<open>char\<close>: texts are Latin-1, and \<open>utf8_len\<close> counts bytes accordingly.
  \<^item> Threads: the probe server and the include poller appear as steps between which the loop reads their state.
\<close>

end
